(* ===== verification/Go_Prelude.thy ===== *)
theory Go_Prelude
  imports Main "HOL-Library.Word" "HOL-Library.List_Lexorder" "HOL-Library.Char_ord"
begin

text \<open>
  Shared vocabulary of the development: Go strings (byte lists, compared bytewise), Go instants
  and durations, fallible results as sums, and the generic list, map and word lemmas the
  component theories use.

  \<^item> \<^bold>\<open>Strings.\<close> A Go string is a byte sequence, here a \<open>string\<close> (a list of 8-bit \<open>char\<close>);
    \<open><\<close> on strings is the bytewise lexicographic order, as in Go.
  \<^item> \<^bold>\<open>Time.\<close> An instant \<open>time.Time\<close> is the integer number of nanoseconds since the zero
    instant, so \<open>time.Time{}\<close> is \<open>0\<close> and \<open>IsZero\<close> is \<open>t = 0\<close>; a \<open>time.Duration\<close> is an
    integer number of nanoseconds. Locations and monotonic readings do not affect the order of
    instants, so \<open>UTC()\<close> is the identity.
  \<^item> \<^bold>\<open>Errors.\<close> A Go \<open>(T, error)\<close> result is a sum: \<open>Inl\<close> the error, \<open>Inr\<close> the value.
\<close>

named_theorems go_simps \<open>unfolding rules of small Go library functions\<close>

type_synonym go_time = int
type_synonym go_duration = int

subsection \<open>Durations\<close>

definition nanosecond :: go_duration where "nanosecond = 1"
definition millisecond :: go_duration where "millisecond = 1000000"
definition second :: go_duration where "second = 1000000000"
definition minute :: go_duration where "minute = 60 * second"
definition hour :: go_duration where "hour = 60 * minute"

text \<open>The Unix epoch, counted from the zero time.\<close>

definition unix_epoch :: go_time where "unix_epoch = 62135596800 * second"

lemmas duration_defs = nanosecond_def millisecond_def second_def minute_def hour_def

subsection \<open>String functions of the Go library\<close>

definition has_prefix :: "string \<Rightarrow> string \<Rightarrow> bool" where
  "has_prefix s p = (take (length p) s = p)"

definition has_suffix :: "string \<Rightarrow> string \<Rightarrow> bool" where
  "has_suffix s p = (length p \<le> length s \<and> drop (length s - length p) s = p)"

fun cut :: "char \<Rightarrow> string \<Rightarrow> string \<times> string \<times> bool" where
  "cut sep [] = ([], [], False)"
| "cut sep (c # cs) =
     (if c = sep then ([], cs, True)
      else (case cut sep cs of (a, b, found) \<Rightarrow> (c # a, b, found)))"

fun split_on :: "char \<Rightarrow> string \<Rightarrow> string list" where
  "split_on sep [] = [[]]"
| "split_on sep (c # cs) =
     (if c = sep then [] # split_on sep cs
      else (case split_on sep cs of [] \<Rightarrow> [[c]] | p # ps \<Rightarrow> (c # p) # ps))"

lemma split_on_nonempty: "split_on c s \<noteq> []"
  by (induction s) (auto split: list.splits)

definition is_digit :: "char \<Rightarrow> bool" where
  "is_digit c = (CHR ''0'' \<le> c \<and> c \<le> CHR ''9'')"

definition is_lower :: "char \<Rightarrow> bool" where
  "is_lower c = (CHR ''a'' \<le> c \<and> c \<le> CHR ''z'')"

definition is_upper :: "char \<Rightarrow> bool" where
  "is_upper c = (CHR ''A'' \<le> c \<and> c \<le> CHR ''Z'')"

definition is_alpha :: "char \<Rightarrow> bool" where
  "is_alpha c = (is_lower c \<or> is_upper c)"

definition digit_value :: "char \<Rightarrow> int" where
  "digit_value c = int (of_char c) - 48"

fun decimal_value :: "int \<Rightarrow> string \<Rightarrow> int" where
  "decimal_value acc [] = acc"
| "decimal_value acc (c # cs) = decimal_value (10 * acc + digit_value c) cs"

definition max_int64 :: int where "max_int64 = 2 ^ 63 - 1"
definition min_int64 :: int where "min_int64 = - (2 ^ 63)"

text \<open>
  \<open>strconv.ParseInt(s, 10, 64)\<close> (and \<open>strconv.Atoi\<close> on a 64-bit target): an optional sign, at
  least one digit, only digits, and a value in range. \<open>None\<close> stands for a non-nil error.
\<close>

definition parse_int64 :: "string \<Rightarrow> int option" where
  "parse_int64 s =
     (let neg = (s \<noteq> [] \<and> hd s = CHR ''-'');
          body = (if s \<noteq> [] \<and> (hd s = CHR ''-'' \<or> hd s = CHR ''+'') then tl s else s);
          n = decimal_value 0 body;
          v = (if neg then - n else n)
      in if body = [] \<or> \<not> list_all is_digit body then None
         else if min_int64 \<le> v \<and> v \<le> max_int64 then Some v else None)"

text \<open>\<open>strconv.Itoa\<close> and \<open>%d\<close> of a natural number.\<close>

fun itoa_nat :: "nat \<Rightarrow> string" where
  "itoa_nat n = (if n < 10 then [char_of (48 + n)] else itoa_nat (n div 10) @ [char_of (48 + n mod 10)])"

declare itoa_nat.simps [simp del]

definition to_lower_char :: "char \<Rightarrow> char" where
  "to_lower_char c = (if is_upper c then char_of (of_char c + (32::nat)) else c)"

definition to_lower :: "string \<Rightarrow> string" where
  "to_lower s = map to_lower_char s"

definition is_ascii_space :: "char \<Rightarrow> bool" where
  "is_ascii_space c = (of_char c \<in> {9, 10, 11, 12, 13, 32 :: nat})"

definition trim_chars :: "(char \<Rightarrow> bool) \<Rightarrow> string \<Rightarrow> string" where
  "trim_chars p s = rev (dropWhile p (rev (dropWhile p s)))"

subsection \<open>Lemmas on strings\<close>

lemma cut_step:
  "(case r of (a, x) \<Rightarrow> (c # a, x)) = (a', x') \<longleftrightarrow> (\<exists>a. a' = c # a \<and> r = (a, x'))"
  by (cases r) auto

lemma cut_found: "cut sep s = (a, b, True) \<longleftrightarrow> s = a @ sep # b \<and> sep \<notin> set a"
proof (induction s arbitrary: a)
  case (Cons c cs)
  show ?case by (cases a) (auto simp: cut_step Cons.IH)
qed simp

lemma cut_not_found: "cut sep s = (a, b, False) \<longleftrightarrow> a = s \<and> b = [] \<and> sep \<notin> set s"
proof (induction s arbitrary: a)
  case (Cons c cs)
  show ?case by (auto simp: cut_step Cons.IH)
qed auto

lemma decimal_value_nonneg:
  "0 \<le> acc \<Longrightarrow> list_all is_digit s \<Longrightarrow> 0 \<le> decimal_value acc s"
proof (induction s arbitrary: acc)
  case (Cons c cs)
  have "48 \<le> (of_char c :: nat)"
    using Cons.prems(2) by (simp add: is_digit_def less_eq_char_def)
  then have "0 \<le> digit_value c" by (simp add: digit_value_def)
  with Cons show ?case by simp
qed simp

lemma decimal_value_append: "decimal_value acc (xs @ ys) = decimal_value (decimal_value acc xs) ys"
  by (induction xs arbitrary: acc) auto

lemma digit_char: "d < 10 \<Longrightarrow> is_digit (char_of (48 + d :: nat)) \<and> digit_value (char_of (48 + d)) = int d"
  by (simp add: is_digit_def digit_value_def less_eq_char_def)

lemma itoa_nat_value: "list_all is_digit (itoa_nat n) \<and> decimal_value 0 (itoa_nat n) = int n"
proof (induction n rule: itoa_nat.induct)
  case (1 n)
  show ?case
  proof (cases "n < 10")
    case True
    then show ?thesis using digit_char[of n] by (simp add: itoa_nat.simps[of n])
  next
    case False
    have "10 * int (n div 10) + int (n mod 10) = int n" by (simp add: zdiv_int zmod_int)
    then show ?thesis using False 1 digit_char[of "n mod 10"]
      by (simp add: itoa_nat.simps[of n] decimal_value_append)
  qed
qed

lemma itoa_nat_length: "n < 10 ^ Suc k \<Longrightarrow> 1 \<le> length (itoa_nat n) \<and> length (itoa_nat n) \<le> Suc k"
proof (induction k arbitrary: n)
  case 0
  then show ?case by (simp add: itoa_nat.simps[of n])
next
  case (Suc k)
  have "n div 10 < 10 ^ Suc k" using Suc.prems by (simp add: less_mult_imp_div_less)
  then show ?case using Suc.IH[of "n div 10"] by (simp add: itoa_nat.simps[of n])
qed

subsection \<open>Lexicographic induction on two measures\<close>

lemma lex_measure_induct [case_names less]:
  fixes f :: "'a \<Rightarrow> nat" and g :: "'b \<Rightarrow> nat"
  assumes "\<And>x y. (\<And>x' y'. f x' < f x \<or> f x' \<le> f x \<and> g y' < g y \<Longrightarrow> P x' y') \<Longrightarrow> P x y"
  shows "P x y"
proof -
  have "case p of (x, y) \<Rightarrow> P x y" for p
  proof (induction p rule: wf_measures
      [of "[\<lambda>p. f (fst p), \<lambda>p. g (snd p)]", THEN wf_induct_rule, case_names step])
    case (step p)
    obtain x y where p: "p = (x, y)" by (cases p)
    have "P x y"
    proof (rule assms)
      fix x' y'
      assume "f x' < f x \<or> f x' \<le> f x \<and> g y' < g y"
      then show "P x' y'" using step [of "(x', y')"] by (force simp: p le_eq_less_or_eq)
    qed
    then show ?case by (simp add: p)
  qed
  then show ?thesis by blast
qed

subsection \<open>Words\<close>

lemma word_Suc_greater:
  fixes w :: "'a::len word"
  assumes "w \<noteq> - 1"
  shows "w < w + 1"
  using assms by (meson inc_less_eq_triv_imp linorder_not_less)

subsection \<open>Fallible steps in sequence\<close>

text \<open>\<open>if err != nil { return err }\<close> after a step, and a loop whose body may return an error.\<close>

definition try_then :: "'e + 'a \<Rightarrow> ('a \<Rightarrow> 'e + 'b) \<Rightarrow> 'e + 'b" where
  "try_then m f = (case m of Inl e \<Rightarrow> Inl e | Inr x \<Rightarrow> f x)"

lemma try_then_simps [simp]: "try_then (Inl e) f = Inl e" "try_then (Inr x) f = f x"
  by (simp_all add: try_then_def)

lemma try_then_Inr [simp]: "try_then m f = Inr y \<longleftrightarrow> (\<exists>x. m = Inr x \<and> f x = Inr y)"
  by (cases m) simp_all

lemma try_then_Inl: "try_then m f = Inl e \<longleftrightarrow> m = Inl e \<or> (\<exists>x. m = Inr x \<and> f x = Inl e)"
  by (cases m) simp_all

fun each :: "('a \<Rightarrow> 's \<Rightarrow> 'e + 's) \<Rightarrow> 'a list \<Rightarrow> 's \<Rightarrow> 'e + 's" where
  "each f [] s = Inr s"
| "each f (x # xs) s = try_then (f x s) (each f xs)"

lemma each_append: "each f (xs @ ys) s = try_then (each f xs s) (each f ys)"
proof (induction xs arbitrary: s)
  case (Cons x xs)
  then show ?case by (cases "f x s") simp_all
qed simp

text \<open>A loop keeps what every pass keeps.\<close>

lemma each_rule:
  assumes "each f xs s = Inr s'" "\<And>s. R s s"
    and "\<And>a b c. R a b \<Longrightarrow> R b c \<Longrightarrow> R a c"
    and "\<And>x s s'. x \<in> set xs \<Longrightarrow> f x s = Inr s' \<Longrightarrow> R s s'"
  shows "R s s'"
  using assms(1,4)
proof (induction xs arbitrary: s)
  case Nil
  then show ?case using assms(2) by simp
next
  case (Cons x xs)
  obtain t where t: "f x s = Inr t" "each f xs t = Inr s'" using Cons.prems(1) by auto
  have "R s t" using Cons.prems(2)[OF _ t(1)] by simp
  moreover have "R t s'" by (rule Cons.IH[OF t(2)]) (rule Cons.prems(2), simp_all)
  ultimately show ?case by (rule assms(3))
qed

lemma each_all:
  assumes "each f xs s = Inr s'" "x \<in> set xs"
    and "\<And>s. R s s" "\<And>a b c. R a b \<Longrightarrow> R b c \<Longrightarrow> R a c"
    and "\<And>x s s'. x \<in> set xs \<Longrightarrow> f x s = Inr s' \<Longrightarrow> R s s'"
    and "\<And>s s'. f x s = Inr s' \<Longrightarrow> P s'" "\<And>s s'. P s \<Longrightarrow> R s s' \<Longrightarrow> P s'"
  shows "P s'"
proof -
  obtain as bs where xs: "xs = as @ x # bs" using assms(2) by (meson split_list)
  then obtain t u where u: "f x t = Inr u" "each f bs u = Inr s'" using assms(1) by (auto simp: each_append)
  have "R a b" if "y \<in> set bs" "f y a = Inr b" for y a b
    by (rule assms(5)[OF _ that(2)]) (use xs that(1) in simp)
  with u(2) assms(3,4) have "R u s'" by (rule each_rule)
  then show ?thesis using assms(6)[OF u(1)] assms(7) by blast
qed

lemma each_avoids:
  assumes "\<And>x s. x \<in> set xs \<Longrightarrow> I s \<Longrightarrow> f x s \<noteq> Inl e"
    and "\<And>x s s'. x \<in> set xs \<Longrightarrow> I s \<Longrightarrow> f x s = Inr s' \<Longrightarrow> I s'" "I s"
  shows "each f xs s \<noteq> Inl e"
  using assms
proof (induction xs arbitrary: s)
  case (Cons x xs)
  have "f x s \<noteq> Inl e" using Cons.prems(1)[OF _ Cons.prems(3)] by simp
  moreover have "each f xs t \<noteq> Inl e" if "f x s = Inr t" for t
  proof (rule Cons.IH)
    show "f y u \<noteq> Inl e" if "y \<in> set xs" "I u" for y u using Cons.prems(1) that by simp
    show "I v" if "y \<in> set xs" "I u" "f y u = Inr v" for y u v using Cons.prems(2)[OF _ that(2,3)] that(1) by simp
    show "I t" using Cons.prems(2)[OF _ Cons.prems(3) that] by simp
  qed
  ultimately show ?case by (auto simp: try_then_Inl)
qed simp

text \<open>A loop that collects one result per element.\<close>

fun traverse :: "('a \<Rightarrow> 'e + 'b) \<Rightarrow> 'a list \<Rightarrow> 'e + 'b list" where
  "traverse f [] = Inr []"
| "traverse f (x # xs) =
     (case f x of
        Inl e \<Rightarrow> Inl e
      | Inr y \<Rightarrow> (case traverse f xs of Inl e \<Rightarrow> Inl e | Inr ys \<Rightarrow> Inr (y # ys)))"

lemma traverse_all:
  assumes "traverse f xs = Inr ys" "\<And>x y. x \<in> set xs \<Longrightarrow> f x = Inr y \<Longrightarrow> P y"
  shows "list_all P ys"
  using assms
proof (induction xs arbitrary: ys)
  case (Cons x xs)
  from Cons.prems(1) obtain z zs where "f x = Inr z" "traverse f xs = Inr zs" "ys = z # zs"
    by (auto split: sum.splits)
  with Cons.IH [of zs] Cons.prems(2) show ?case by auto
qed simp

lemma traverse_nth:
  "traverse f xs = Inr ys \<Longrightarrow> length ys = length xs \<and> (\<forall>i < length xs. f (xs ! i) = Inr (ys ! i))"
proof (induction xs arbitrary: ys)
  case (Cons x xs)
  then obtain z zs where z: "f x = Inr z" "traverse f xs = Inr zs" "ys = z # zs" by (auto split: sum.splits)
  show ?case using Cons.IH[OF z(2)] z(1,3) by (simp add: All_less_Suc2)
qed simp

fun first_error :: "('a \<Rightarrow> 'e option) \<Rightarrow> 'a list \<Rightarrow> 'e option" where
  "first_error f [] = None"
| "first_error f (x # xs) = (case f x of Some e \<Rightarrow> Some e | None \<Rightarrow> first_error f xs)"

lemma first_error_None: "first_error f xs = None \<longleftrightarrow> (\<forall>x \<in> set xs. f x = None)"
  by (induction xs) (auto split: option.splits)

subsection \<open>White space\<close>

text \<open>The UTF-8 encodings of the white space of Unicode, and \<open>strings.Fields\<close>.\<close>

definition white_space :: "string list" where
  "white_space =
     [[CHR 0x09], [CHR 0x0A], [CHR 0x0B], [CHR 0x0C], [CHR 0x0D], [CHR 0x20], [CHR 0xC2, CHR 0x85],
      [CHR 0xC2, CHR 0xA0], [CHR 0xE1, CHR 0x9A, CHR 0x80]]
     @ map (\<lambda>c. [CHR 0xE2, CHR 0x80, c])
         [CHR 0x80, CHR 0x81, CHR 0x82, CHR 0x83, CHR 0x84, CHR 0x85, CHR 0x86, CHR 0x87, CHR 0x88, CHR 0x89,
          CHR 0x8A, CHR 0xA8, CHR 0xA9, CHR 0xAF]
     @ [[CHR 0xE2, CHR 0x81, CHR 0x9F], [CHR 0xE3, CHR 0x80, CHR 0x80]]"

fun fields_from :: "nat \<Rightarrow> string \<Rightarrow> string \<Rightarrow> string list" where
  "fields_from skip cur [] = (if cur = [] then [] else [cur])"
| "fields_from (Suc k) cur (c # cs) = fields_from k cur cs"
| "fields_from 0 cur (c # cs) =
     (case find (has_prefix (c # cs)) white_space of
        None \<Rightarrow> fields_from 0 (cur @ [c]) cs
      | Some p \<Rightarrow> (if cur = [] then [] else [cur]) @ fields_from (length p - 1) [] cs)"

definition strings_Fields :: "string \<Rightarrow> string list" where
  "strings_Fields s = fields_from 0 [] s"

end
