(* ===== verification/Dependency_Visit.thy ===== *)
theory Dependency_Visit
  imports Go_Prelude
begin

text \<open>
  The contract of a depth-first dependency visit. Two components of the framework order things by
  a three-colour depth-first search: the application registry (\<open>core/app/app.go\<close>,
  \<open>TopologicalOrder\<close>) and the migration planner (\<open>core/migrations/migrations.go\<close>, \<open>Plan\<close>).
  Their code differs in the order of the tests and in the data that carries the colours; the
  locale below is what both share. Its lemmas are proved once here and reach the two components
  through their interpretations.
\<close>

datatype colour = White | Grey | Black

datatype 'k visit_error = Cycle 'k | Missing 'k

locale dependency_visit =
  fixes deps :: "'k \<Rightarrow> 'k list option"
    and visit :: "'k list \<Rightarrow> 's \<Rightarrow> 'k visit_error + 's"
    and colour_of :: "'s \<Rightarrow> 'k \<Rightarrow> colour"
    and enter :: "'k \<Rightarrow> 's \<Rightarrow> 's"
    and leave :: "'k \<Rightarrow> 's \<Rightarrow> 's"
    and done_list :: "'s \<Rightarrow> 'k list"
  assumes finite_deps: "finite {k. deps k \<noteq> None}"
    and visit_Nil: "visit [] s = Inr s"
    and visit_black: "colour_of s k = Black \<Longrightarrow> visit (k # ks) s = visit ks s"
    and visit_grey: "colour_of s k = Grey \<Longrightarrow> visit (k # ks) s = Inl (Cycle k)"
    and visit_missing:
      "colour_of s k = White \<Longrightarrow> deps k = None \<Longrightarrow> visit (k # ks) s = Inl (Missing k)"
    and visit_white:
      "colour_of s k = White \<Longrightarrow> deps k = Some ds \<Longrightarrow>
         visit (k # ks) s =
           (case visit ds (enter k s) of Inl e \<Rightarrow> Inl e | Inr s' \<Rightarrow> visit ks (leave k s'))"
    and colour_enter: "colour_of (enter k s) = (colour_of s)(k := Grey)"
    and colour_leave: "colour_of (leave k s) = (colour_of s)(k := Black)"
    and done_enter: "done_list (enter k s) = done_list s"
    and done_leave: "deps k \<noteq> None \<Longrightarrow> done_list (leave k s) = done_list s @ [k]"
begin

definition edges :: "('k \<times> 'k) set" where
  "edges = {(k, d). \<exists>ds. deps k = Some ds \<and> d \<in> set ds}"

definition unvisited :: "'s \<Rightarrow> 'k set" where
  "unvisited s = {k. deps k \<noteq> None \<and> colour_of s k = White}"

definition ordered :: "'k list \<Rightarrow> bool" where
  "ordered ks \<longleftrightarrow> distinct ks \<and>
     (\<forall>i < length ks. \<exists>ds. deps (ks ! i) = Some ds \<and> set ds \<subseteq> set (take i ks))"

definition consistent :: "'s \<Rightarrow> bool" where
  "consistent s \<longleftrightarrow> ordered (done_list s) \<and> (\<forall>k. colour_of s k = Black \<longleftrightarrow> k \<in> set (done_list s))"

definition extends :: "'k list \<Rightarrow> 's \<Rightarrow> 's \<Rightarrow> bool" where
  "extends ks s s' \<longleftrightarrow> consistent s' \<and>
     (\<forall>k. colour_of s' k = Grey \<longleftrightarrow> colour_of s k = Grey) \<and>
     (\<exists>new. done_list s' = done_list s @ new \<and> set new \<subseteq> edges\<^sup>* `` set ks) \<and>
     set ks \<subseteq> set (done_list s')"

lemma finite_unvisited: "finite (unvisited s)"
  by (rule finite_subset [OF _ finite_deps]) (auto simp: unvisited_def)

lemma unvisited_enter:
  "colour_of s k = White \<Longrightarrow> deps k = Some ds \<Longrightarrow> card (unvisited (enter k s)) < card (unvisited s)"
  by (rule psubset_card_mono [OF finite_unvisited]) (auto simp: unvisited_def colour_enter)

lemma unvisited_extends:
  assumes "consistent s" "extends ks s s'"
  shows "card (unvisited s') \<le> card (unvisited s)"
proof (rule card_mono [OF finite_unvisited])
  have "colour_of s k = White" if "colour_of s' k = White" for k
    using that assms unfolding extends_def consistent_def
    by (metis UnCI colour.exhaust colour.distinct set_append)
  then show "unvisited s' \<subseteq> unvisited s" by (auto simp: unvisited_def)
qed

lemma ordered_snoc:
  assumes "ordered ks" "k \<notin> set ks" "deps k = Some ds" "set ds \<subseteq> set ks"
  shows "ordered (ks @ [k])"
  using assms unfolding ordered_def by (auto simp: nth_append less_Suc_eq)

lemma consistent_enter: "consistent s \<Longrightarrow> colour_of s k = White \<Longrightarrow> consistent (enter k s)"
  unfolding consistent_def done_enter colour_enter by (metis colour.distinct(3,5) fun_upd_apply)

lemma consistent_leave:
  assumes "consistent s" "colour_of s k = Grey" "deps k = Some ds" "set ds \<subseteq> set (done_list s)"
  shows "consistent (leave k s)"
proof -
  have "k \<notin> set (done_list s)" using assms(1,2) by (metis colour.distinct(5) consistent_def)
  with assms show ?thesis
    by (auto simp: consistent_def done_leave colour_leave intro: ordered_snoc)
qed

lemma extends_refl: "consistent s \<Longrightarrow> extends [] s s"
  by (simp add: extends_def)

lemma extends_black:
  "colour_of s k = Black \<Longrightarrow> consistent s \<Longrightarrow> extends ks s s' \<Longrightarrow> extends (k # ks) s s'"
  by (fastforce simp: extends_def consistent_def)

lemma extends_node:
  assumes k: "colour_of s k = White" "deps k = Some ds" and s: "consistent s"
    and inner: "extends ds (enter k s) s1" and outer: "extends ks (leave k s1) s2"
  shows "extends (k # ks) s s2"
proof -
  from inner obtain new1 where new1: "done_list s1 = done_list s @ new1"
      "set new1 \<subseteq> edges\<^sup>* `` set ds"
    by (auto simp: extends_def done_enter)
  from outer obtain new2 where new2: "done_list s2 = done_list s1 @ [k] @ new2"
      "set new2 \<subseteq> edges\<^sup>* `` set ks"
    using k by (auto simp: extends_def done_leave)
  have "edges\<^sup>* `` set ds \<subseteq> edges\<^sup>* `` {k}"
    using k(2) by (auto simp: edges_def intro: converse_rtrancl_into_rtrancl)
  then have "set new1 \<subseteq> edges\<^sup>* `` {k}" using new1(2) by blast
  with new2(2) have "set (new1 @ [k] @ new2) \<subseteq> edges\<^sup>* `` set (k # ks)"
    by auto
  moreover have "done_list s2 = done_list s @ (new1 @ [k] @ new2)"
    using new1 new2 by simp
  moreover have "\<forall>j. colour_of s2 j = Grey \<longleftrightarrow> colour_of s j = Grey"
    using inner outer k unfolding extends_def by (auto simp: colour_enter colour_leave split: if_splits)
  ultimately show ?thesis
    using outer new2 unfolding extends_def by auto
qed

text \<open>A successful visit finishes every requested key and everything it depends on, in order.\<close>

lemma visit_extends:
  "consistent s \<Longrightarrow> visit ks s = Inr s' \<Longrightarrow> extends ks s s'"
proof (induction s ks arbitrary: s' rule: lex_measure_induct [of "card \<circ> unvisited" length])
  case (less s ks)
  note IH = less.IH and s = less.prems(1)
  show ?case
  proof (cases ks)
    case Nil
    with less.prems show ?thesis by (simp add: visit_Nil extends_refl)
  next
    case ks: (Cons k ks')
    show ?thesis
    proof (cases "colour_of s k")
      case White
      with less.prems(2) ks obtain ds s1
        where ds: "deps k = Some ds" "visit ds (enter k s) = Inr s1"
          and rest: "visit ks' (leave k s1) = Inr s'"
        by (cases "deps k") (auto simp: visit_missing visit_white split: sum.splits)
      have inner: "extends ds (enter k s) s1"
        using IH ds White s by (simp add: unvisited_enter consistent_enter)
      have grey: "colour_of s1 k = Grey" and black: "set ds \<subseteq> set (done_list s1)"
        using inner by (auto simp: extends_def colour_enter)
      have leave: "consistent (leave k s1)"
        using inner grey ds(1) black by (auto simp: extends_def intro: consistent_leave)
      have "card (unvisited (leave k s1)) \<le> card (unvisited s1)"
        by (rule card_mono [OF finite_unvisited]) (auto simp: unvisited_def colour_leave)
      also have "\<dots> \<le> card (unvisited (enter k s))"
        using unvisited_extends [OF _ inner] White s by (simp add: consistent_enter)
      also have "\<dots> < card (unvisited s)"
        using White ds(1) by (rule unvisited_enter)
      finally have "extends ks' (leave k s1) s'"
        using IH rest leave by simp
      then show ?thesis
        using extends_node White ds(1) s inner ks by blast
    next
      case Grey
      with less.prems(2) ks show ?thesis by (simp add: visit_grey)
    next
      case Black
      with less.prems ks IH show ?thesis by (auto simp: visit_black intro!: extends_black)
    qed
  qed
qed

text \<open>
  A failed visit names a real defect of the graph. The hypothesis says that the keys being visited
  are reached from every key still open, which holds at the start, when none is.
\<close>

definition defect :: "'k list \<Rightarrow> 'k visit_error \<Rightarrow> bool" where
  "defect ks e = (case e of
      Cycle k \<Rightarrow> k \<in> edges\<^sup>* `` set ks \<and> (k, k) \<in> edges\<^sup>+
    | Missing k \<Rightarrow> k \<in> edges\<^sup>* `` set ks \<and> deps k = None)"

lemma defect_mono: "defect ks e \<Longrightarrow> edges\<^sup>* `` set ks \<subseteq> edges\<^sup>* `` set ks' \<Longrightarrow> defect ks' e"
  by (auto simp: defect_def split: visit_error.splits)

definition open_reach :: "'k list \<Rightarrow> 's \<Rightarrow> bool" where
  "open_reach ks s \<longleftrightarrow> (\<forall>g k. colour_of s g = Grey \<longrightarrow> k \<in> set ks \<longrightarrow> (g, k) \<in> edges\<^sup>+)"

lemma open_reach_enter:
  assumes "open_reach (k # ks) s" "deps k = Some ds"
  shows "open_reach ds (enter k s)"
proof -
  have "(k, d) \<in> edges\<^sup>+" if "d \<in> set ds" for d
    using that assms(2) by (auto simp: edges_def)
  then show ?thesis
    using assms(1) by (fastforce simp: open_reach_def colour_enter intro: trancl_trans)
qed

lemma reach_node:
  "deps k = Some ds \<Longrightarrow> edges\<^sup>* `` set ds \<subseteq> edges\<^sup>* `` set (k # ks)"
  by (auto simp: edges_def intro: converse_rtrancl_into_rtrancl)

lemma visit_defect:
  "consistent s \<Longrightarrow> open_reach ks s \<Longrightarrow> visit ks s = Inl e \<Longrightarrow> defect ks e"
proof (induction s ks rule: lex_measure_induct [of "card \<circ> unvisited" length])
  case (less s ks)
  note IH = less.IH and s = less.prems(1) and reach = less.prems(2) and run = less.prems(3)
  show ?case
  proof (cases ks)
    case Nil
    with run show ?thesis by (simp add: visit_Nil)
  next
    case ks: (Cons k ks')
    have tail: "defect ks' e" if "consistent t" "\<forall>j. colour_of t j = Grey \<longrightarrow> colour_of s j = Grey"
        "visit ks' t = Inl e" "card (unvisited t) \<le> card (unvisited s)" for t
      using that reach IH [of t ks'] by (auto simp: ks open_reach_def)
    have up: "defect ks e" if "defect ks' e"
      using that by (rule defect_mono) (auto simp: ks)
    show ?thesis
    proof (cases "colour_of s k")
      case Black
      with run ks s tail [of s] up show ?thesis by (auto simp: visit_black)
    next
      case Grey
      with run ks reach show ?thesis by (auto simp: visit_grey defect_def open_reach_def)
    next
      case White
      show ?thesis
      proof (cases "deps k")
        case None
        with White run ks show ?thesis by (auto simp: visit_missing defect_def)
      next
        case ds: (Some ds)
        show ?thesis
        proof (cases "visit ds (enter k s)")
          case (Inl e')
          with White ds run ks have "e' = e" by (simp add: visit_white)
          with Inl have "defect ds e"
            using IH [of "enter k s" ds] White ds s reach ks
            by (simp add: unvisited_enter consistent_enter open_reach_enter)
          then show ?thesis unfolding ks using reach_node [OF ds] by (rule defect_mono)
        next
          case (Inr s1)
          have inner: "extends ds (enter k s) s1"
            using Inr White s by (intro visit_extends consistent_enter)
          have leave: "consistent (leave k s1)"
            using inner ds by (intro consistent_leave) (auto simp: extends_def colour_enter)
          have "card (unvisited (leave k s1)) \<le> card (unvisited s1)"
            by (rule card_mono [OF finite_unvisited]) (auto simp: unvisited_def colour_leave)
          also have "\<dots> \<le> card (unvisited (enter k s))"
            using unvisited_extends [OF _ inner] White s by (simp add: consistent_enter)
          also have "\<dots> \<le> card (unvisited s)"
            using unvisited_enter [OF White ds] by simp
          finally show ?thesis
            using tail [OF leave] up run ks White ds Inr inner
            by (auto simp: visit_white extends_def colour_enter colour_leave)
        qed
      qed
    qed
  qed
qed

text \<open>From a fresh state the visit succeeds exactly when what the keys reach is declared and acyclic.\<close>

definition fresh :: "'s \<Rightarrow> bool" where
  "fresh s \<longleftrightarrow> (\<forall>k. colour_of s k = White) \<and> done_list s = []"

lemma fresh_consistent: "fresh s \<Longrightarrow> consistent s"
  by (simp add: fresh_def consistent_def ordered_def)

lemma fresh_open_reach: "fresh s \<Longrightarrow> open_reach ks s"
  by (simp add: fresh_def open_reach_def)

lemma ordered_deps:
  "ordered ks \<Longrightarrow> i < length ks \<Longrightarrow> (ks ! i, d) \<in> edges \<Longrightarrow> \<exists>j < i. d = ks ! j"
  unfolding ordered_def edges_def by (fastforce simp: in_set_conv_nth subset_iff)

lemma ordered_edge:
  assumes "ordered ks" "i < length ks" "(ks ! i, d) \<in> edges\<^sup>+"
  shows "\<exists>j < i. d = ks ! j"
  using assms(3)
proof (induction d rule: trancl_induct)
  case (base d)
  with assms(1,2) show ?case by (rule ordered_deps)
next
  case (step d d')
  then obtain j where j: "j < i" "d = ks ! j" by blast
  with step(2) assms(1,2) show ?case using ordered_deps [of ks j d'] less_trans by fastforce
qed

lemma ordered_closed:
  assumes "ordered ks" "k \<in> set ks" "(k, d) \<in> edges\<^sup>*"
  shows "d \<in> set ks"
proof (cases "k = d")
  case False
  with assms(3) have "(k, d) \<in> edges\<^sup>+" by (auto dest: rtranclD)
  moreover obtain i where "i < length ks" "k = ks ! i"
    using assms(2) by (auto simp: in_set_conv_nth)
  ultimately obtain j where "j < i" "i < length ks" "d = ks ! j"
    using ordered_edge [OF assms(1)] by blast
  then show ?thesis by simp
qed (use assms in simp)

lemma ordered_acyclic:
  assumes "ordered ks" "k \<in> set ks"
  shows "(k, k) \<notin> edges\<^sup>+"
proof
  assume "(k, k) \<in> edges\<^sup>+"
  moreover obtain i where i: "i < length ks" "k = ks ! i"
    using assms(2) by (auto simp: in_set_conv_nth)
  ultimately obtain j where "j < i" "ks ! i = ks ! j"
    using ordered_edge [OF assms(1)] by blast
  with i assms(1) show False by (simp add: ordered_def nth_eq_iff_index_eq)
qed

lemma ordered_declared: "ordered ks \<Longrightarrow> k \<in> set ks \<Longrightarrow> deps k \<noteq> None"
  by (auto simp: ordered_def in_set_conv_nth)

lemma fresh_result:
  assumes "fresh s" "visit ks s = Inr s'"
  shows "ordered (done_list s') \<and> set (done_list s') = edges\<^sup>* `` set ks"
proof -
  have ext: "extends ks s s'"
    using assms by (intro visit_extends fresh_consistent)
  then have ord: "ordered (done_list s')" by (simp add: extends_def consistent_def)
  moreover have "edges\<^sup>* `` set ks \<subseteq> set (done_list s')"
    using ext ordered_closed [OF ord] by (auto simp: extends_def)
  ultimately show ?thesis
    using ext assms(1) by (auto simp: extends_def fresh_def)
qed

lemma fresh_succeeds_iff:
  assumes "fresh s"
  shows "(\<exists>s'. visit ks s = Inr s') \<longleftrightarrow>
    (\<forall>k \<in> edges\<^sup>* `` set ks. deps k \<noteq> None \<and> (k, k) \<notin> edges\<^sup>+)"
proof
  assume "\<exists>s'. visit ks s = Inr s'"
  then show "\<forall>k \<in> edges\<^sup>* `` set ks. deps k \<noteq> None \<and> (k, k) \<notin> edges\<^sup>+"
    using fresh_result [OF assms] ordered_acyclic ordered_declared by blast
next
  assume ok: "\<forall>k \<in> edges\<^sup>* `` set ks. deps k \<noteq> None \<and> (k, k) \<notin> edges\<^sup>+"
  show "\<exists>s'. visit ks s = Inr s'"
  proof (cases "visit ks s")
    case (Inl e)
    then have "defect ks e"
      using assms by (intro visit_defect fresh_consistent fresh_open_reach)
    then have False
      using ok by (cases e) (force simp: defect_def)+
    then show ?thesis ..
  qed blast
qed

lemma fresh_defect: "fresh s \<Longrightarrow> visit ks s = Inl e \<Longrightarrow> defect ks e"
  by (intro visit_defect fresh_consistent fresh_open_reach)

end

end
