(* ===== verification/App.thy ===== *)
theory App
  imports Dependency_Visit
begin

text \<open>
  Application registration: \<open>core/app/app.go\<close>. The registry of named values, the dependency order
  of the installed applications (\<open>TopologicalOrder\<close>) and \<open>Prepare\<close>, which registers the
  applications in that order and freezes the registry.

  A registry value of Go type \<open>any\<close> is a value of the type parameter \<open>'v\<close>, \<open>None\<close> being Go's
  \<open>nil\<close>; the map \<open>values\<close> is an association list with distinct keys (its order is not
  observable, since \<open>Names\<close> sorts). A \<open>Register\<close> callback is a function from the registry to
  an error or the registry it leaves behind. Of the hooks \<open>Ready\<close> and \<open>Shutdown\<close> the record keeps
  whether they are set (non-nil); what they do when they run belongs to \<open>App_Lifecycle\<close>.
\<close>

subsection \<open>The registry\<close>

record 'v registry =
  reg_values :: "(string \<times> 'v) list"
  reg_frozen :: bool

datatype app_error =
    Registry_frozen
  | Invalid_registration
  | Duplicate_registration string
  | Label_required
  | Duplicate_label string
  | Dependency_cycle string
  | Missing_dependency string
  | Register_failed string string
  | Freeze_failed string

definition empty_registry :: "'v registry" where
  "empty_registry = \<lparr>reg_values = [], reg_frozen = False\<rparr>"

definition registry_key :: "string \<Rightarrow> string \<Rightarrow> string" where
  "registry_key kind name = kind @ '':'' @ name"

definition registry_Register ::
  "'v registry \<Rightarrow> string \<Rightarrow> string \<Rightarrow> 'v option \<Rightarrow> app_error + 'v registry" where
  "registry_Register r kind name value =
     (if reg_frozen r then Inl Registry_frozen
      else if kind = [] \<or> name = [] \<or> value = None then Inl Invalid_registration
      else let key = registry_key kind name in
        (case map_of (reg_values r) key of
           Some _ \<Rightarrow> Inl (Duplicate_registration key)
         | None \<Rightarrow> Inr (r\<lparr>reg_values := reg_values r @ [(key, the value)]\<rparr>)))"

definition registry_Get :: "'v registry \<Rightarrow> string \<Rightarrow> string \<Rightarrow> 'v option" where
  "registry_Get r kind name = map_of (reg_values r) (registry_key kind name)"

definition registry_Freeze :: "'v registry \<Rightarrow> 'v registry" where
  "registry_Freeze r = r\<lparr>reg_frozen := True\<rparr>"

definition registry_Names :: "'v registry \<Rightarrow> string \<Rightarrow> string list" where
  "registry_Names r kind =
     (let prefix = kind @ '':'' in
      sort (map (\<lambda>k. drop (length prefix) k)
        (filter (\<lambda>k. length prefix < length k \<and> take (length prefix) k = prefix)
          (map fst (reg_values r)))))"

subsection \<open>Application configurations and their dependency order\<close>

record 'v app_config =
  cfg_Name :: string
  cfg_Label :: string
  cfg_Requires :: "string list"
  cfg_Register :: "('v registry \<Rightarrow> string + 'v registry) option"
  cfg_Ready :: bool
  cfg_Shutdown :: bool

text \<open>\<open>labelPattern\<close> is \<^verbatim>\<open>^[a-z][a-z0-9_]*$\<close>.\<close>

definition label_ok :: "string \<Rightarrow> bool" where
  "label_ok s = (case s of [] \<Rightarrow> False
     | c # cs \<Rightarrow> is_lower c \<and> list_all (\<lambda>d. is_lower d \<or> is_digit d \<or> d = CHR ''_'') cs)"

type_synonym 'v app_lookup = "(string \<times> 'v app_config) list"

text \<open>The first loop of \<open>TopologicalOrder\<close>: validate and index the configurations.\<close>

fun build_lookup :: "'v app_config list \<Rightarrow> 'v app_lookup \<Rightarrow> app_error + 'v app_lookup" where
  "build_lookup [] lookup = Inr lookup"
| "build_lookup (c # cs) lookup =
     (if cfg_Name c = [] \<or> \<not> label_ok (cfg_Label c) then Inl Label_required
      else case map_of lookup (cfg_Label c) of
        Some _ \<Rightarrow> Inl (Duplicate_label (cfg_Label c))
      | None \<Rightarrow> build_lookup cs (lookup @ [(cfg_Label c, c)]))"

text \<open>
  The state of the closure \<open>visit\<close>: the \<open>uint8\<close> marks (absent is 0) and the order so far.
  \<open>app_visit lookup labels s\<close> is the loop that calls \<open>visit\<close> on each label in turn and stops at
  the first error, as both the loop over \<open>Requires\<close> and the loop over the configurations do.
\<close>

record 'v visit_state =
  vs_state :: "string \<Rightarrow> nat"
  vs_order :: "'v app_config list"

function app_visit ::
  "'v app_lookup \<Rightarrow> string list \<Rightarrow> 'v visit_state \<Rightarrow> string visit_error + 'v visit_state" where
  "app_visit lookup [] s = Inr s"
| "app_visit lookup (label # labels) s =
     (if vs_state s label = 2 then app_visit lookup labels s
      else if vs_state s label = 1 then Inl (Cycle label)
      else case map_of lookup label of
        None \<Rightarrow> Inl (Missing label)
      | Some c \<Rightarrow>
          (case app_visit lookup (cfg_Requires c) (s\<lparr>vs_state := (vs_state s)(label := 1)\<rparr>) of
             Inl e \<Rightarrow> Inl e
           | Inr s' \<Rightarrow> app_visit lookup labels
               (s'\<lparr>vs_state := (vs_state s')(label := 2), vs_order := vs_order s' @ [c]\<rparr>)))"
  by pat_completeness auto

definition app_todo :: "'v app_lookup \<Rightarrow> 'v visit_state \<Rightarrow> string set" where
  "app_todo lookup s = {l \<in> set (map fst lookup). vs_state s l \<notin> {1, 2}}"

lemma app_visit_marks:
  "app_visit_dom (lookup, labels, s) \<Longrightarrow> app_visit lookup labels s = Inr s' \<Longrightarrow>
     vs_state s l \<in> {1, 2} \<Longrightarrow> vs_state s' l \<in> {1, 2}"
proof (induction lookup labels s arbitrary: s' rule: app_visit.pinduct)
  case (2 lookup label labels s)
  then show ?case
    by (auto simp: app_visit.psimps split: if_splits option.splits sum.splits)
qed (simp add: app_visit.psimps)

lemma app_todo_finite [simp]: "finite (app_todo lookup s)"
  by (simp add: app_todo_def)

lemma app_todo_enter:
  assumes "map_of lookup label = Some c" "vs_state s label \<notin> {1, 2}"
    and "\<And>l. vs_state s l \<in> {1, 2} \<or> l = label \<Longrightarrow> vs_state s' l \<in> {1, 2}"
  shows "card (app_todo lookup s') < card (app_todo lookup s)"
proof (rule psubset_card_mono)
  have "label \<in> app_todo lookup s" "label \<notin> app_todo lookup s'"
    using assms by (auto simp: app_todo_def dest: map_of_SomeD intro: rev_image_eqI)
  moreover have "app_todo lookup s' \<subseteq> app_todo lookup s"
    using assms(3) by (auto simp: app_todo_def)
  ultimately show "app_todo lookup s' \<subset> app_todo lookup s" by blast
qed simp

termination app_visit
proof (relation "measures [\<lambda>(lk, ls, s). card (app_todo lk s), \<lambda>(lk, ls, s). length ls]",
    goal_cases)
  case (3 lookup label labels s c)
  then have "card (app_todo lookup (s\<lparr>vs_state := (vs_state s)(label := 1)\<rparr>)) < card (app_todo lookup s)"
    by (intro app_todo_enter [where label = label and c = c]) (auto split: if_splits)
  then show ?case by simp
next
  case (4 lookup label labels s c s')
  have "vs_state s' l \<in> {1, 2}" if "vs_state s l \<in> {1, 2} \<or> l = label" for l
    using app_visit_marks [OF 4(5) 4(4), of l] that by (cases "l = label") auto
  with 4 have "card (app_todo lookup
      (s'\<lparr>vs_state := (vs_state s')(label := 2), vs_order := vs_order s' @ [c]\<rparr>)) < card (app_todo lookup s)"
    by (intro app_todo_enter [where label = label and c = c]) (auto split: if_splits)
  then show ?case by simp
qed auto

text \<open>
  \<open>TopologicalOrder\<close>. The errors of the closure become the two messages of the source. (The
  \<open>slices.Clone\<close> of \<open>Requires\<close> is the identity on values.)
\<close>

definition visit_app_error :: "string visit_error \<Rightarrow> app_error" where
  "visit_app_error e = (case e of Cycle l \<Rightarrow> Dependency_cycle l | Missing l \<Rightarrow> Missing_dependency l)"

definition TopologicalOrder :: "'v app_config list \<Rightarrow> app_error + 'v app_config list" where
  "TopologicalOrder configs =
     (case build_lookup configs [] of
        Inl e \<Rightarrow> Inl e
      | Inr lookup \<Rightarrow>
          (case app_visit lookup (map cfg_Label configs) \<lparr>vs_state = (\<lambda>_. 0), vs_order = []\<rparr> of
             Inl e \<Rightarrow> Inl (visit_app_error e)
           | Inr s \<Rightarrow> Inr (vs_order s)))"

text \<open>\<open>Prepare\<close>: register in dependency order, run the caller's \<open>freeze\<close>, freeze the registry.\<close>

fun register_all :: "'v app_config list \<Rightarrow> 'v registry \<Rightarrow> app_error + 'v registry" where
  "register_all [] r = Inr r"
| "register_all (c # cs) r =
     (case cfg_Register c of
        None \<Rightarrow> register_all cs r
      | Some f \<Rightarrow> (case f r of
            Inl e \<Rightarrow> Inl (Register_failed (cfg_Label c) e)
          | Inr r' \<Rightarrow> register_all cs r'))"

record 'v prepared_app =
  app_Registry :: "'v registry"
  app_ordered :: "'v app_config list"

definition Prepare ::
  "'v app_config list \<Rightarrow> ('v registry \<Rightarrow> string + 'v registry) option \<Rightarrow> app_error + 'v prepared_app" where
  "Prepare configs freeze =
     (case TopologicalOrder configs of
        Inl e \<Rightarrow> Inl e
      | Inr ordered \<Rightarrow>
          (case register_all ordered empty_registry of
             Inl e \<Rightarrow> Inl e
           | Inr r \<Rightarrow>
               (case (case freeze of None \<Rightarrow> Inr r | Some f \<Rightarrow> f r) of
                  Inl e \<Rightarrow> Inl (Freeze_failed e)
                | Inr r' \<Rightarrow> Inr \<lparr>app_Registry = registry_Freeze r', app_ordered = ordered\<rparr>)))"

subsection \<open>Lookup tables\<close>

definition app_index :: "'v app_config list \<Rightarrow> 'v app_lookup" where
  "app_index configs = map (\<lambda>c. (cfg_Label c, c)) configs"

lemma app_index_label: "map_of (app_index configs) l = Some c \<Longrightarrow> cfg_Label c = l \<and> c \<in> set configs"
  by (auto simp: app_index_def dest!: map_of_SomeD)

lemma app_index_dom: "map_of (app_index configs) l = None \<longleftrightarrow> l \<notin> cfg_Label ` set configs"
  by (simp add: app_index_def map_of_eq_None_iff image_image)

lemma app_index_unique:
  "distinct (map cfg_Label configs) \<Longrightarrow> c \<in> set configs \<Longrightarrow> map_of (app_index configs) (cfg_Label c) = Some c"
  by (rule map_of_is_SomeI) (auto simp: app_index_def o_def)

definition config_ok :: "'v app_config \<Rightarrow> bool" where
  "config_ok c \<longleftrightarrow> cfg_Name c \<noteq> [] \<and> label_ok (cfg_Label c)"

lemma build_lookup_ok:
  "build_lookup cs (app_index prev) = Inr lookup \<longleftrightarrow>
     lookup = app_index (prev @ cs) \<and> list_all config_ok cs \<and> distinct (map cfg_Label cs) \<and>
     cfg_Label ` set prev \<inter> cfg_Label ` set cs = {}"
proof (induction cs arbitrary: prev)
  case (Cons c cs)
  have snoc: "app_index prev @ [(cfg_Label c, c)] = app_index (prev @ [c])"
    by (simp add: app_index_def)
  show ?case
    by (auto simp: snoc Cons.IH config_ok_def app_index_dom split: option.splits)
       (metis app_index_dom option.distinct(1))
qed auto

lemmas build_lookup_start = build_lookup_ok [where prev = "[]", unfolded app_index_def, simplified,
  folded app_index_def]

subsection \<open>The visit meets the dependency contract\<close>

definition app_colour :: "'v visit_state \<Rightarrow> string \<Rightarrow> colour" where
  "app_colour s l = (if vs_state s l = 2 then Black else if vs_state s l = 1 then Grey else White)"

definition app_deps :: "'v app_config list \<Rightarrow> string \<Rightarrow> string list option" where
  "app_deps configs l = map_option cfg_Requires (map_of (app_index configs) l)"

interpretation av: dependency_visit
  "app_deps configs" "app_visit (app_index configs)" app_colour
  "\<lambda>l s. s\<lparr>vs_state := (vs_state s)(l := 1)\<rparr>"
  "\<lambda>l s. s\<lparr>vs_state := (vs_state s)(l := 2), vs_order := vs_order s @ [the (map_of (app_index configs) l)]\<rparr>"
  "\<lambda>s. map cfg_Label (vs_order s)"
  for configs :: "'v app_config list"
proof (unfold_locales, goal_cases)
  case 1
  have "{k. app_deps configs k \<noteq> None} = cfg_Label ` set configs"
    by (auto simp: app_deps_def app_index_dom)
  then show ?case by simp
qed (auto simp: app_colour_def app_deps_def fun_eq_iff dest: app_index_label split: if_splits sum.splits)

lemma app_visit_order_from:
  "app_visit lookup ls s = Inr s' \<Longrightarrow> set (vs_order s) \<subseteq> ran (map_of lookup) \<Longrightarrow>
     set (vs_order s') \<subseteq> ran (map_of lookup)"
proof (induction lookup ls s arbitrary: s' rule: app_visit.induct)
  case (2 lookup label labels s)
  then show ?case
    by (auto split: if_splits option.splits sum.splits simp: ranI)
qed simp

definition app_edges :: "'v app_config list \<Rightarrow> (string \<times> string) set" where
  "app_edges configs = {(cfg_Label c, d) | c d. c \<in> set configs \<and> d \<in> set (cfg_Requires c)}"

lemma av_edges:
  assumes "distinct (map cfg_Label configs)"
  shows "dependency_visit.edges (app_deps configs) = app_edges configs"
proof -
  have "(\<exists>ds. app_deps configs k = Some ds \<and> d \<in> set ds) \<longleftrightarrow> (k, d) \<in> app_edges configs" for k d
    using assms app_index_unique app_index_label
    by (fastforce simp: app_deps_def app_edges_def)
  then show ?thesis by (auto simp: av.edges_def)
qed

lemma app_fresh: "av.fresh \<lparr>vs_state = \<lambda>_. 0, vs_order = []\<rparr>"
  by (simp add: av.fresh_def app_colour_def)

lemma app_deps_None: "app_deps configs l = None \<longleftrightarrow> l \<notin> cfg_Label ` set configs"
  by (simp add: app_deps_def app_index_dom)

lemma TopologicalOrder_visit:
  "TopologicalOrder configs = Inr order \<longleftrightarrow>
     list_all config_ok configs \<and> distinct (map cfg_Label configs) \<and>
     (\<exists>s. app_visit (app_index configs) (map cfg_Label configs) \<lparr>vs_state = \<lambda>_. 0, vs_order = []\<rparr> = Inr s \<and>
          order = vs_order s)"
proof (cases "build_lookup configs []")
  case (Inl e)
  with build_lookup_start [of configs "app_index configs"] show ?thesis
    by (auto simp: TopologicalOrder_def)
next
  case (Inr lookup)
  with build_lookup_start [of configs lookup] show ?thesis
    by (auto simp: TopologicalOrder_def split: sum.splits)
qed

subsection \<open>Properties\<close>

text \<open>
  C1. When \<open>TopologicalOrder\<close> succeeds, the order holds exactly the given configurations, each label
  once, and every configuration comes after everything it requires.
\<close>

theorem TopologicalOrder_sound:
  assumes "TopologicalOrder configs = Inr order"
  shows "set order = set configs \<and> distinct (map cfg_Label order) \<and>
    (\<forall>i < length order. \<forall>d \<in> set (cfg_Requires (order ! i)). \<exists>j < i. cfg_Label (order ! j) = d)"
proof -
  from assms obtain s
    where ok: "distinct (map cfg_Label configs)"
      and run: "app_visit (app_index configs) (map cfg_Label configs) \<lparr>vs_state = \<lambda>_. 0, vs_order = []\<rparr> = Inr s"
      and order: "order = vs_order s"
    by (auto simp: TopologicalOrder_visit)
  have from_index: "set order \<subseteq> ran (map_of (app_index configs))"
    using app_visit_order_from [OF run] order by simp
  have sub: "set order \<subseteq> set configs"
    using from_index by (auto simp: ran_def dest: app_index_label)
  have result: "dependency_visit.ordered (app_deps configs) (map cfg_Label order)"
      "set (map cfg_Label order) \<supseteq> set (map cfg_Label configs)"
    using av.fresh_result [OF app_fresh run] order by auto
  have "set configs \<subseteq> set order"
  proof
    fix c assume c: "c \<in> set configs"
    then obtain c' where "c' \<in> set order" "cfg_Label c' = cfg_Label c" using result(2) by auto
    with c sub ok show "c \<in> set order" by (metis (no_types, lifting) distinct_map inj_on_def subsetD)
  qed
  moreover have "\<exists>j < i. cfg_Label (order ! j) = d"
    if "i < length order" "d \<in> set (cfg_Requires (order ! i))" for i d
  proof -
    have "app_deps configs (map cfg_Label order ! i) = Some (cfg_Requires (order ! i))"
      using that(1) sub app_index_unique [OF ok, of "order ! i"] nth_mem [OF that(1)]
      by (simp add: app_deps_def subset_iff)
    then have "d \<in> set (take i (map cfg_Label order))"
      using result(1) that unfolding av.ordered_def by fastforce
    then have "d \<in> cfg_Label ` (\<lambda>j. order ! j) ` {..<i}"
      using that(1) by (auto simp: take_map nth_image [symmetric] lessThan_atLeast0)
    then show ?thesis by blast
  qed
  ultimately show ?thesis
    using sub result(1) by (auto simp: av.ordered_def)
qed

theorem TopologicalOrder_sound_witness:
  "\<exists>order :: nat app_config list. TopologicalOrder
      [\<lparr>cfg_Name = ''Blog'', cfg_Label = ''blog'', cfg_Requires = [''auth''], cfg_Register = None,
        cfg_Ready = False, cfg_Shutdown = False\<rparr>,
       \<lparr>cfg_Name = ''Auth'', cfg_Label = ''auth'', cfg_Requires = [], cfg_Register = None,
        cfg_Ready = False, cfg_Shutdown = True\<rparr>] = Inr order \<and>
     (\<forall>i < length order. \<forall>d \<in> set (cfg_Requires (order ! i)). \<exists>j < i. cfg_Label (order ! j) = d)"
proof -
  let ?blog = "\<lparr>cfg_Name = ''Blog'', cfg_Label = ''blog'', cfg_Requires = [''auth''], cfg_Register = None,
        cfg_Ready = False, cfg_Shutdown = False\<rparr> :: nat app_config"
  let ?auth = "\<lparr>cfg_Name = ''Auth'', cfg_Label = ''auth'', cfg_Requires = [], cfg_Register = None,
        cfg_Ready = False, cfg_Shutdown = True\<rparr> :: nat app_config"
  have run: "TopologicalOrder [?blog, ?auth] = Inr [?auth, ?blog]"
    by (simp add: TopologicalOrder_def label_ok_def is_lower_def is_digit_def less_eq_char_def)
  show ?thesis using TopologicalOrder_sound [OF run] run by blast
qed

text \<open>
  C2. \<open>TopologicalOrder\<close> succeeds exactly on well-formed, duplicate-free configurations whose
  requirements are all installed and have no cycle: it refuses nothing else.
\<close>

theorem TopologicalOrder_succeeds_iff:
  "(\<exists>order. TopologicalOrder configs = Inr order) \<longleftrightarrow>
     list_all config_ok configs \<and> distinct (map cfg_Label configs) \<and>
     snd ` app_edges configs \<subseteq> cfg_Label ` set configs \<and> acyclic (app_edges configs)"
proof (cases "distinct (map cfg_Label configs)")
  case True
  let ?E = "app_edges configs" and ?L = "cfg_Label ` set configs"
  have dom: "fst ` ?E \<subseteq> ?L" by (auto simp: app_edges_def)
  have "(\<forall>k \<in> ?E\<^sup>* `` ?L. k \<in> ?L \<and> (k, k) \<notin> ?E\<^sup>+) \<longleftrightarrow> snd ` ?E \<subseteq> ?L \<and> acyclic ?E" (is "?l \<longleftrightarrow> ?r")
  proof
    assume ?l
    moreover have "k \<in> ?L" if "(k, d) \<in> ?E\<^sup>+" for k d
      using tranclD [OF that] dom by auto
    moreover have "d \<in> ?E\<^sup>* `` ?L" if "(k, d) \<in> ?E" for k d
      using subsetD [OF dom imageI [OF that]] that by auto
    ultimately show ?r by (fastforce simp: acyclic_def)
  next
    assume r: ?r
    have "k \<in> ?L" if "(l, k) \<in> ?E\<^sup>*" "l \<in> ?L" for l k
      using that(1) by (cases rule: rtranclE) (use that r in auto)
    with r show ?l by (auto simp: acyclic_def)
  qed
  then show ?thesis
    using True av.fresh_succeeds_iff [OF app_fresh, of configs "map cfg_Label configs"]
    by (auto simp: TopologicalOrder_visit av_edges app_deps_None)
qed (auto simp: TopologicalOrder_visit)

lemma build_lookup_error:
  "build_lookup cs (app_index prev) = Inl e \<Longrightarrow>
     (e = Label_required \<and> \<not> list_all config_ok cs) \<or>
     (\<exists>l \<in> cfg_Label ` set cs. e = Duplicate_label l \<and> \<not> distinct (map cfg_Label (prev @ cs)))"
proof (induction cs arbitrary: prev)
  case (Cons c cs)
  have snoc: "app_index prev @ [(cfg_Label c, c)] = app_index (prev @ [c])"
    by (simp add: app_index_def)
  show ?case
  proof (cases "map_of (app_index prev) (cfg_Label c)")
    case None
    with Cons.prems Cons.IH [of "prev @ [c]"] show ?thesis
      by (auto simp: snoc config_ok_def split: if_splits)
  next
    case (Some c')
    then have "cfg_Label c \<in> cfg_Label ` set prev" by (metis app_index_dom option.distinct(1))
    with Cons.prems Some show ?thesis by (auto simp: config_ok_def split: if_splits)
  qed
qed simp

text \<open>
  The errors of \<open>TopologicalOrder\<close> name real defects: a reported cycle goes through the named
  label, and a reported missing label is required by an installed application but not installed.
\<close>

lemma TopologicalOrder_error_sound:
  assumes "TopologicalOrder configs = Inl e"
  shows "case e of
      Dependency_cycle l \<Rightarrow> (l, l) \<in> (app_edges configs)\<^sup>+
    | Missing_dependency l \<Rightarrow> l \<notin> cfg_Label ` set configs \<and> l \<in> snd ` app_edges configs
    | Duplicate_label l \<Rightarrow> l \<in> cfg_Label ` set configs \<and> \<not> distinct (map cfg_Label configs)
    | Label_required \<Rightarrow> \<not> list_all config_ok configs
    | _ \<Rightarrow> False"
proof (cases "build_lookup configs []")
  case (Inl e')
  with assms build_lookup_error [of configs "[]" e'] show ?thesis
    by (auto simp: TopologicalOrder_def app_index_def)
next
  case (Inr lookup)
  then have ok: "distinct (map cfg_Label configs)" "lookup = app_index configs"
    by (simp_all add: build_lookup_start)
  with Inr assms obtain d where
    d: "app_visit (app_index configs) (map cfg_Label configs) \<lparr>vs_state = \<lambda>_. 0, vs_order = []\<rparr> = Inl d"
      and e: "e = visit_app_error d"
    by (auto simp: TopologicalOrder_def split: sum.splits)
  have "dependency_visit.defect (app_deps configs) (map cfg_Label configs) d" by (rule av.fresh_defect [OF app_fresh d])
  moreover have "k \<in> snd ` app_edges configs" if "(l, k) \<in> (app_edges configs)\<^sup>*" "l \<noteq> k" for l k
    using that by (metis image_eqI rtranclE snd_conv)
  ultimately show ?thesis
    unfolding e av.defect_def av_edges [OF ok(1)] app_deps_None
    by (cases d) (force simp: visit_app_error_def)+
qed

lemma TopologicalOrder_error_sound_example:
  "TopologicalOrder [\<lparr>cfg_Name = ''A'', cfg_Label = ''a'', cfg_Requires = [''a''], cfg_Register = None,
      cfg_Ready = False, cfg_Shutdown = False\<rparr> :: nat app_config] = Inl (Dependency_cycle ''a'') \<and>
   (''a'', ''a'') \<in> (app_edges [\<lparr>cfg_Name = ''A'', cfg_Label = ''a'', cfg_Requires = [''a''],
      cfg_Register = None, cfg_Ready = False, cfg_Shutdown = False\<rparr> :: nat app_config])\<^sup>+"
proof -
  let ?a = "\<lparr>cfg_Name = ''A'', cfg_Label = ''a'', cfg_Requires = [''a''], cfg_Register = None,
      cfg_Ready = False, cfg_Shutdown = False\<rparr> :: nat app_config"
  have run: "TopologicalOrder [?a] = Inl (Dependency_cycle ''a'')"
    by (simp add: TopologicalOrder_def label_ok_def is_lower_def less_eq_char_def visit_app_error_def)
  show ?thesis using TopologicalOrder_error_sound [OF run] run by simp
qed

lemma registry_key_inj:
  assumes "CHR '':'' \<notin> set kind" "CHR '':'' \<notin> set kind'"
  shows "registry_key kind name = registry_key kind' name' \<longleftrightarrow> kind = kind' \<and> name = name'"
  using assms cut_found [of "CHR '':''" "registry_key kind name" kind name]
    cut_found [of "CHR '':''" "registry_key kind name" kind' name']
  by (auto simp: registry_key_def)

lemma registry_Register_values:
  "registry_Register r kind name v = Inr r' \<longleftrightarrow>
     \<not> reg_frozen r \<and> kind \<noteq> [] \<and> name \<noteq> [] \<and> registry_Get r kind name = None \<and>
     (\<exists>x. v = Some x \<and> r' = r\<lparr>reg_values := reg_values r @ [(registry_key kind name, x)]\<rparr>)"
  by (auto simp: registry_Register_def registry_Get_def Let_def split: option.splits)

text \<open>
  A successful registration is found under its kind and name and changes no other entry. Keys
  join kind and name with a colon, so the statement asks for kinds without one, as every kind
  of the framework is.
\<close>

lemma registry_Register_Get:
  assumes "registry_Register r kind name v = Inr r'"
    and "CHR '':'' \<notin> set kind" "CHR '':'' \<notin> set kind'"
  shows "registry_Get r' kind' name' =
    (if kind' = kind \<and> name' = name then v else registry_Get r kind' name')"
  using assms registry_key_inj [OF assms(2,3), of name name']
  by (auto simp: registry_Register_values registry_Get_def map_add_def split: option.splits)

lemma registry_Register_Get_example:
  "registry_Register empty_registry ''model'' ''user'' (Some (7::nat)) =
     Inr \<lparr>reg_values = [(''model:user'', 7)], reg_frozen = False\<rparr> \<and>
   registry_Get \<lparr>reg_values = [(''model:user'', 7::nat)], reg_frozen = False\<rparr> ''model'' ''user'' = Some 7"
proof -
  have run: "registry_Register empty_registry ''model'' ''user'' (Some (7::nat)) =
     Inr \<lparr>reg_values = [(''model:user'', 7)], reg_frozen = False\<rparr>"
    by (simp add: registry_Register_def empty_registry_def registry_key_def)
  show ?thesis using registry_Register_Get [OF run, of "''model''" "''user''"] run by simp
qed

lemma Prepare_cases:
  assumes "Prepare configs freeze = Inr a"
  obtains r where "TopologicalOrder configs = Inr (app_ordered a)"
    "register_all (app_ordered a) empty_registry = Inr r"
    "app_Registry a = registry_Freeze (app_Registry a)"
  using assms by (auto simp: Prepare_def registry_Freeze_def split: sum.splits)

lemma register_frozen: "registry_Register (registry_Freeze r) kind name v = Inl Registry_frozen"
  by (simp add: registry_Register_def registry_Freeze_def)

lemma TopologicalOrder_labels:
  assumes "TopologicalOrder configs = Inr order"
  shows "cfg_Label ` set order = cfg_Label ` set configs"
proof -
  from assms obtain s where run:
    "app_visit (app_index configs) (map cfg_Label configs) \<lparr>vs_state = \<lambda>_. 0, vs_order = []\<rparr> = Inr s"
    "order = vs_order s"
    by (auto simp: TopologicalOrder_visit)
  then have "dependency_visit.ordered (app_deps configs) (map cfg_Label order)"
      "cfg_Label ` set configs \<subseteq> cfg_Label ` set order"
    using av.fresh_result [OF app_fresh run(1)] run(2) by auto
  then show ?thesis using av.ordered_declared by (fastforce simp: app_deps_None)
qed

text \<open>
  An application that \<open>Prepare\<close> returns has every configuration in its order and a registry
  that refuses every later registration.
\<close>

lemma Prepare_frozen:
  assumes "Prepare configs freeze = Inr a"
  shows "cfg_Label ` set (app_ordered a) = cfg_Label ` set configs \<and>
    registry_Register (app_Registry a) kind name v = Inl Registry_frozen"
  using assms TopologicalOrder_labels register_frozen by (metis Prepare_cases)

lemma Prepare_frozen_example:
  "\<exists>a :: nat prepared_app. Prepare [] None = Inr a \<and>
     registry_Register (app_Registry a) ''model'' ''user'' (Some 1) = Inl Registry_frozen"
proof -
  have run: "Prepare [] None = Inr \<lparr>app_Registry = registry_Freeze (empty_registry :: nat registry), app_ordered = []\<rparr>"
    by (simp add: Prepare_def TopologicalOrder_def)
  show ?thesis using Prepare_frozen [OF run] run by blast
qed

end
