(* ===== verification/App_Lifecycle.thy ===== *)
theory App_Lifecycle
  imports App
begin

text \<open>
  The lifetime of an application: \<open>core/app/lifecycle.go\<close> and \<open>core/app/status.go\<close>.

  \<open>Start\<close>, \<open>Close\<close>, \<open>StopAdmission\<close> and the cleanup goroutine run concurrently on one
  \<open>Application\<close>, whose fields its mutex guards. The record below holds these fields and the
  program counters of the two goroutines that own work: the caller whose \<open>Start\<close> won (the startup
  owner) and the goroutine \<open>close\<close> (the shutdown owner). Each critical section and each callback
  is one action; the step relation interleaves them in any order. What a callback returns is part
  of the action, so every outcome is covered. A hook is identified by its name
  (\<open>"resource " + r.Name\<close> or \<open>"app " + c.Label\<close>); \<open>lc_log\<close> records the hooks in the order
  \<open>boundedCleanup\<close> launches them.
\<close>

subsection \<open>State\<close>

datatype lifecycle_state = Prepared | Starting | Running | Stopping | Closed

primrec state_rank :: "lifecycle_state \<Rightarrow> nat" where
  "state_rank Prepared = 0"
| "state_rank Starting = 1"
| "state_rank Running = 2"
| "state_rank Stopping = 3"
| "state_rank Closed = 4"

abbreviation at_least_stopping :: "lifecycle_state \<Rightarrow> bool" where
  "at_least_stopping st \<equiv> state_rank Stopping \<le> state_rank st"

datatype chan = Chan_nil | Chan_open | Chan_closed

datatype lifecycle_error =
    Err_closed
  | Ctx_canceled
  | Invalid_resource
  | Open_failed string
  | Ready_failed string
  | Startup_panicked

datatype call_outcome = Call_ok | Call_error | Call_panic

text \<open>Where the startup owner stands: inside \<open>start\<close>, after it, or in the final call of \<open>Close\<close>.\<close>

datatype starter =
    Starter_none
  | Starter_open "string list"
  | Starter_ready "unit app_config list"
  | Starter_returned "lifecycle_error option"
  | Starter_closing
  | Starter_done

datatype cleaner =
    Cleaner_none
  | Cleaner_waiting
  | Cleaner_running "string list" "string list"
  | Cleaner_done

record application =
  lc_ordered :: "unit app_config list"
  lc_state :: lifecycle_state
  lc_started :: bool
  lc_ready :: bool
  lc_admissionStopped :: bool
  lc_startDone :: chan
  lc_startCancel :: bool
  lc_lifetime :: "bool option"
  lc_startErr :: "lifecycle_error option"
  lc_closeDone :: chan
  lc_closeErr :: "string list"
  lc_configs :: "string list"
  lc_closers :: "string list"
  lc_starter :: starter
  lc_cleaner :: cleaner
  lc_log :: "string list"

definition prepared_application :: "unit app_config list \<Rightarrow> application" where
  "prepared_application ordered =
     \<lparr>lc_ordered = ordered, lc_state = Prepared, lc_started = False, lc_ready = False,
      lc_admissionStopped = False, lc_startDone = Chan_nil, lc_startCancel = False,
      lc_lifetime = None, lc_startErr = None, lc_closeDone = Chan_nil, lc_closeErr = [],
      lc_configs = [], lc_closers = [], lc_starter = Starter_none, lc_cleaner = Cleaner_none,
      lc_log = []\<rparr>"

text \<open>\<open>lc_lifetime\<close> is \<open>None\<close> for a nil context and \<open>Some c\<close> with \<open>c\<close> telling whether it is canceled.\<close>

definition ctx_canceled :: "application \<Rightarrow> bool" where
  "ctx_canceled a = (lc_lifetime a = Some True)"

subsection \<open>Startup\<close>

text \<open>A resource is its name and whether \<open>Open\<close> is set.\<close>

fun resources_valid :: "(string \<times> bool) list \<Rightarrow> string list \<Rightarrow> bool" where
  "resources_valid [] seen = True"
| "resources_valid ((name, has_open) # rs) seen =
     (if name = [] \<or> \<not> has_open \<or> name \<in> set seen then False
      else resources_valid rs (name # seen))"

text \<open>
  The first critical section of \<open>Start\<close> for the caller that finds the state \<open>prepared\<close>, with the
  validation of the resources, which touches no shared state.
\<close>

definition start_enter :: "(string \<times> bool) list \<Rightarrow> application \<Rightarrow> application option" where
  "start_enter resources a =
     (if lc_state a = Prepared then
        Some (a\<lparr>lc_startCancel := True, lc_startDone := Chan_open, lc_state := Starting,
                lc_lifetime := Some False,
                lc_starter := (if resources_valid resources [] then Starter_open (map fst resources)
                               else Starter_returned (Some Invalid_resource))\<rparr>)
      else None)"

text \<open>
  The other two answers of \<open>Start\<close>: \<open>ErrClosed\<close> once stopping, and for a caller that waits for
  the startup owner, what it reads when \<open>startDone\<close> is closed (\<open>errors.Join\<close> is a list).
\<close>

definition start_refused :: "application \<Rightarrow> bool" where
  "start_refused a = at_least_stopping (lc_state a)"

definition start_wait_result :: "application \<Rightarrow> lifecycle_error list option" where
  "start_wait_result a =
     (if lc_startDone a = Chan_closed then
        Some ((case lc_startErr a of None \<Rightarrow> [] | Some e \<Rightarrow> [e]) @
              (if at_least_stopping (lc_state a) then [Err_closed] else []))
      else None)"

text \<open>
  One turn of the resource loop of \<open>start\<close>. The outcome says whether \<open>Open\<close> returned a closer and
  how the call ended; a panic returns nothing.
\<close>

definition start_open :: "bool \<Rightarrow> call_outcome \<Rightarrow> application \<Rightarrow> application option" where
  "start_open has_closer outcome a =
     (case lc_starter a of
        Starter_open [] \<Rightarrow> Some (a\<lparr>lc_starter := Starter_ready (lc_ordered a)\<rparr>)
      | Starter_open (r # rs) \<Rightarrow>
          Some (if ctx_canceled a then a\<lparr>lc_starter := Starter_returned (Some Ctx_canceled)\<rparr>
            else if outcome = Call_panic then a\<lparr>lc_starter := Starter_returned (Some Startup_panicked)\<rparr>
            else
              a\<lparr>lc_closers := (if has_closer then lc_closers a @ [''resource '' @ r] else lc_closers a),
                lc_starter := (if outcome = Call_ok then Starter_open rs
                               else Starter_returned (Some (Open_failed r)))\<rparr>)
      | _ \<Rightarrow> None)"

text \<open>One turn of the loop over the applications: the shutdown hook is recorded before \<open>Ready\<close> runs.\<close>

definition start_ready :: "call_outcome \<Rightarrow> application \<Rightarrow> application option" where
  "start_ready outcome a =
     (case lc_starter a of
        Starter_ready [] \<Rightarrow> Some (a\<lparr>lc_starter := Starter_returned None\<rparr>)
      | Starter_ready (c # cs) \<Rightarrow>
          Some (if ctx_canceled a then a\<lparr>lc_starter := Starter_returned (Some Ctx_canceled)\<rparr>
            else
              a\<lparr>lc_configs := (if cfg_Shutdown c then lc_configs a @ [''app '' @ cfg_Label c] else lc_configs a),
                lc_starter :=
                  (if \<not> cfg_Ready c \<or> outcome = Call_ok then Starter_ready cs
                   else if outcome = Call_panic then Starter_returned (Some Startup_panicked)
                   else Starter_returned (Some (Ready_failed (cfg_Label c))))\<rparr>)
      | _ \<Rightarrow> None)"

text \<open>The second critical section of \<open>Start\<close>.\<close>

definition start_finish :: "application \<Rightarrow> application option" where
  "start_finish a =
     (case lc_starter a of
        Starter_returned err \<Rightarrow>
          let err1 = (if err = None \<and> ctx_canceled a then Some Ctx_canceled else err);
              err2 = (if err1 = None \<and> at_least_stopping (lc_state a) then Some Err_closed else err1);
              b = (if err2 = None then a\<lparr>lc_state := Running, lc_started := True,
                                         lc_ready := \<not> lc_admissionStopped a\<rparr> else a)
          in Some (b\<lparr>lc_startErr := err2, lc_startDone := Chan_closed,
                     lc_starter := (if err2 = None then Starter_done else Starter_closing)\<rparr>)
      | _ \<Rightarrow> None)"

subsection \<open>Admission and shutdown\<close>

definition StopAdmission :: "application \<Rightarrow> application" where
  "StopAdmission a = a\<lparr>lc_admissionStopped := True, lc_ready := False\<rparr>"

text \<open>The critical section of \<open>Close\<close>; the first caller starts the cleanup goroutine.\<close>

definition close_enter :: "application \<Rightarrow> application" where
  "close_enter a =
     (let b = a\<lparr>lc_admissionStopped := True, lc_ready := False\<rparr> in
      if lc_closeDone b = Chan_nil then
        b\<lparr>lc_startDone := (if lc_startDone b = Chan_nil then Chan_closed else lc_startDone b),
          lc_lifetime := (if lc_startCancel b then Some True else lc_lifetime b),
          lc_closeDone := Chan_open, lc_state := Stopping, lc_cleaner := Cleaner_waiting\<rparr>
      else b)"

text \<open>The failed \<open>Start\<close> closes the application itself.\<close>

definition start_close :: "application \<Rightarrow> application option" where
  "start_close a = (if lc_starter a = Starter_closing then Some ((close_enter a)\<lparr>lc_starter := Starter_done\<rparr>) else None)"

text \<open>
  The goroutine \<open>close\<close>: wait for \<open>startDone\<close>, attempt every hook, publish the result. The
  outcome of a hook is whether \<open>boundedCleanup\<close> returned an error (its own, a panic's, or the
  context's).
\<close>

definition close_begin :: "application \<Rightarrow> application option" where
  "close_begin a =
     (if lc_cleaner a = Cleaner_waiting \<and> lc_startDone a = Chan_closed then
        Some (a\<lparr>lc_cleaner := Cleaner_running (rev (lc_configs a) @ rev (lc_closers a)) []\<rparr>)
      else None)"

definition close_hook :: "bool \<Rightarrow> application \<Rightarrow> application option" where
  "close_hook failed a =
     (case lc_cleaner a of
        Cleaner_running (h # hs) errs \<Rightarrow>
          Some (a\<lparr>lc_log := lc_log a @ [h],
                  lc_cleaner := Cleaner_running hs (if failed then errs @ [h] else errs)\<rparr>)
      | _ \<Rightarrow> None)"

definition close_finish :: "application \<Rightarrow> application option" where
  "close_finish a =
     (case lc_cleaner a of
        Cleaner_running [] errs \<Rightarrow>
          Some (a\<lparr>lc_closeErr := errs, lc_state := Closed, lc_closeDone := Chan_closed,
                  lc_cleaner := Cleaner_done\<rparr>)
      | _ \<Rightarrow> None)"

text \<open>What a caller of \<open>Close\<close> that waits reads once \<open>closeDone\<close> is closed.\<close>

definition close_result :: "application \<Rightarrow> string list option" where
  "close_result a = (if lc_closeDone a = Chan_closed then Some (lc_closeErr a) else None)"

subsection \<open>Readers\<close>

definition Ready :: "application \<Rightarrow> bool" where
  "Ready a = (lc_ready a \<and> lc_lifetime a \<noteq> None \<and> \<not> ctx_canceled a)"

record status =
  st_Started :: bool
  st_Ready :: bool
  st_Stopping :: bool
  st_Closed :: bool
  st_Failed :: bool

text \<open>
  \<open>statusLifetime\<close> is \<open>(alive, invalid)\<close>; \<open>panics\<close> says whether the context's \<open>Err\<close> panics. A nil
  \<open>Application\<close> is \<open>None\<close>.
\<close>

definition statusLifetime :: "bool \<Rightarrow> bool option \<Rightarrow> bool \<times> bool" where
  "statusLifetime panics ctx =
     (case ctx of None \<Rightarrow> (False, False)
      | Some canceled \<Rightarrow> if panics then (False, True) else (\<not> canceled, False))"

definition Status :: "bool \<Rightarrow> application option \<Rightarrow> status" where
  "Status panics app =
     (case app of
        None \<Rightarrow> \<lparr>st_Started = False, st_Ready = False, st_Stopping = True, st_Closed = True, st_Failed = True\<rparr>
      | Some a \<Rightarrow>
          (let (alive, invalid) = statusLifetime panics (lc_lifetime a);
               stop = (lc_admissionStopped a \<or> at_least_stopping (lc_state a) \<or>
                       (lc_lifetime a \<noteq> None \<and> \<not> alive));
               failed = (lc_startErr a \<noteq> None \<or> lc_closeErr a \<noteq> [] \<or> invalid)
           in \<lparr>st_Started = lc_started a,
               st_Ready = (lc_ready a \<and> lc_started a \<and> lc_state a = Running \<and> alive \<and> \<not> stop \<and> \<not> failed),
               st_Stopping = stop,
               st_Closed = (lc_state a = Closed),
               st_Failed = failed\<rparr>))"

subsection \<open>Interleavings\<close>

datatype action =
    Start_enter "(string \<times> bool) list"
  | Start_open bool call_outcome
  | Start_ready call_outcome
  | Start_finish
  | Start_close
  | Stop_admission
  | Close_enter
  | Close_begin
  | Close_hook bool
  | Close_finish
  | Cancel_context

fun perform :: "action \<Rightarrow> application \<Rightarrow> application option" where
  "perform (Start_enter rs) a = start_enter rs a"
| "perform (Start_open c out) a = start_open c out a"
| "perform (Start_ready out) a = start_ready out a"
| "perform Start_finish a = start_finish a"
| "perform Start_close a = start_close a"
| "perform Stop_admission a = Some (StopAdmission a)"
| "perform Close_enter a = Some (close_enter a)"
| "perform Close_begin a = close_begin a"
| "perform (Close_hook failed) a = close_hook failed a"
| "perform Close_finish a = close_finish a"
| "perform Cancel_context a =
     (if lc_lifetime a = None then None else Some (a\<lparr>lc_lifetime := Some True\<rparr>))"

inductive reachable_app :: "unit app_config list \<Rightarrow> application \<Rightarrow> bool" for ordered where
  init: "reachable_app ordered (prepared_application ordered)"
| step: "reachable_app ordered a \<Longrightarrow> perform act a = Some b \<Longrightarrow> reachable_app ordered b"

fun run_actions :: "action list \<Rightarrow> application \<Rightarrow> application option" where
  "run_actions [] a = Some a"
| "run_actions (act # acts) a =
     (case perform act a of None \<Rightarrow> None | Some b \<Rightarrow> run_actions acts b)"

lemma run_actions_reachable:
  "run_actions acts a = Some b \<Longrightarrow> reachable_app ordered a \<Longrightarrow> reachable_app ordered b"
  by (induction acts a rule: run_actions.induct) (auto split: option.splits intro: reachable_app.step)

lemmas action_defs = start_enter_def start_open_def start_ready_def start_finish_def start_close_def
  StopAdmission_def close_enter_def close_begin_def close_hook_def close_finish_def

subsection \<open>The invariant\<close>

definition starter_active :: "starter \<Rightarrow> bool" where
  "starter_active p = (case p of Starter_open _ \<Rightarrow> True | Starter_ready _ \<Rightarrow> True | Starter_returned _ \<Rightarrow> True | _ \<Rightarrow> False)"

text \<open>Which hooks are still owed to the application by the cleanup goroutine.\<close>

definition owed :: "application \<Rightarrow> string list" where
  "owed a = rev (lc_configs a) @ rev (lc_closers a)"

definition cleaner_inv :: "application \<Rightarrow> bool" where
  "cleaner_inv a = (case lc_cleaner a of
      Cleaner_none \<Rightarrow> lc_log a = [] \<and> lc_closeDone a = Chan_nil \<and> \<not> at_least_stopping (lc_state a)
    | Cleaner_waiting \<Rightarrow> lc_log a = [] \<and> lc_closeDone a = Chan_open \<and> lc_state a = Stopping
    | Cleaner_running hs errs \<Rightarrow> lc_log a @ hs = owed a \<and> lc_closeDone a = Chan_open \<and>
        lc_state a = Stopping \<and> lc_startDone a = Chan_closed
    | Cleaner_done \<Rightarrow> lc_log a = owed a \<and> lc_closeDone a = Chan_closed \<and> lc_state a = Closed \<and>
        lc_startDone a = Chan_closed)"

definition admission_inv :: "application \<Rightarrow> bool" where
  "admission_inv a \<longleftrightarrow>
     (lc_ready a \<longrightarrow> lc_state a = Running \<and> \<not> lc_admissionStopped a) \<and>
     (lc_state a = Running \<longrightarrow> lc_started a \<and> lc_startErr a = None \<and> lc_startDone a = Chan_closed) \<and>
     (at_least_stopping (lc_state a) \<longrightarrow> lc_admissionStopped a \<and> lc_lifetime a \<noteq> Some False) \<and>
     (lc_state a \<noteq> Closed \<longrightarrow> lc_closeErr a = [])"

definition starter_inv :: "application \<Rightarrow> bool" where
  "starter_inv a \<longleftrightarrow>
     (starter_active (lc_starter a) \<longrightarrow> lc_startDone a = Chan_open) \<and>
     (lc_state a = Prepared \<longrightarrow> lc_startDone a = Chan_nil \<and> lc_starter a = Starter_none) \<and>
     (lc_state a = Starting \<longrightarrow> lc_starter a \<noteq> Starter_none) \<and>
     (lc_lifetime a \<noteq> None \<longleftrightarrow> lc_startCancel a) \<and>
     (lc_startDone a = Chan_nil \<longleftrightarrow> lc_state a = Prepared) \<and>
     (lc_starter a = Starter_closing \<longrightarrow> lc_startErr a \<noteq> None)"

definition app_inv :: "application \<Rightarrow> bool" where
  "app_inv a \<longleftrightarrow> cleaner_inv a \<and> admission_inv a \<and> starter_inv a"

lemmas inv_defs = cleaner_inv_def admission_inv_def starter_inv_def starter_active_def owed_def ctx_canceled_def

lemma state_stopping [simp]: "3 \<le> state_rank st \<longleftrightarrow> st = Stopping \<or> st = Closed"
  by (cases st) auto

lemma inv_StopAdmission: "app_inv a \<Longrightarrow> app_inv (StopAdmission a)"
  unfolding app_inv_def
  by (simp add: StopAdmission_def cleaner_inv_def owed_def admission_inv_def starter_inv_def
      cong: cleaner.case_cong)

lemma inv_close_enter:
  assumes "app_inv a"
  shows "app_inv (close_enter a)"
proof -
  have "cleaner_inv (close_enter a)"
    using assms by (auto simp: app_inv_def close_enter_def cleaner_inv_def owed_def Let_def split: cleaner.splits)
  moreover have "admission_inv (close_enter a)"
    using assms by (auto simp: app_inv_def close_enter_def admission_inv_def starter_inv_def
        cleaner_inv_def Let_def split: cleaner.splits)
  moreover have "starter_inv (close_enter a)"
    using assms unfolding app_inv_def close_enter_def starter_inv_def starter_active_def Let_def by auto
  ultimately show ?thesis by (simp add: app_inv_def)
qed

lemma inv_starter_done:
  "app_inv a \<Longrightarrow> lc_state a = Stopping \<or> lc_state a = Closed \<Longrightarrow> app_inv (a\<lparr>lc_starter := Starter_done\<rparr>)"
  by (elim disjE; cases "lc_cleaner a";
      simp add: app_inv_def cleaner_inv_def owed_def admission_inv_def starter_inv_def starter_active_def)

lemma close_enter_stopping:
  "app_inv a \<Longrightarrow> lc_state (close_enter a) = Stopping \<or> lc_state (close_enter a) = Closed"
  by (simp add: close_enter_def Let_def app_inv_def cleaner_inv_def split: cleaner.splits)

lemma inv_start_close: "start_close a = Some b \<Longrightarrow> app_inv a \<Longrightarrow> app_inv b"
  using inv_starter_done [OF inv_close_enter close_enter_stopping]
  by (metis option.distinct(1) option.inject start_close_def)

lemma inv_start_enter: "start_enter rs a = Some b \<Longrightarrow> app_inv a \<Longrightarrow> app_inv b"
  by (auto simp: app_inv_def inv_defs start_enter_def Let_def
      split: if_splits starter.split_asm list.split_asm cleaner.split_asm)

lemma inv_start_finish: "start_finish a = Some b \<Longrightarrow> app_inv a \<Longrightarrow> app_inv b"
  by (auto simp: app_inv_def inv_defs start_finish_def Let_def
      split: if_splits starter.split_asm list.split_asm cleaner.split_asm)

lemma inv_close_begin: "close_begin a = Some b \<Longrightarrow> app_inv a \<Longrightarrow> app_inv b"
  by (auto simp: app_inv_def inv_defs close_begin_def Let_def
      split: if_splits starter.split_asm list.split_asm cleaner.split_asm)

lemma inv_close_hook: "close_hook f a = Some b \<Longrightarrow> app_inv a \<Longrightarrow> app_inv b"
  by (auto simp: app_inv_def inv_defs close_hook_def Let_def
      split: if_splits starter.split_asm list.split_asm cleaner.split_asm)

lemma inv_close_finish: "close_finish a = Some b \<Longrightarrow> app_inv a \<Longrightarrow> app_inv b"
  by (auto simp: app_inv_def inv_defs close_finish_def Let_def
      split: if_splits starter.split_asm list.split_asm cleaner.split_asm)

text \<open>The startup owner may record hooks and move on as long as \<open>startDone\<close> is open.\<close>

lemma inv_starter_move:
  assumes "app_inv a" "starter_active (lc_starter a)" "starter_active p"
  shows "app_inv (a\<lparr>lc_configs := xs, lc_closers := ys, lc_starter := p\<rparr>)"
proof -
  have "lc_startDone a = Chan_open" "lc_state a \<noteq> Prepared"
    using assms(1,2) by (auto simp: app_inv_def starter_inv_def starter_active_def)
  moreover have "p \<noteq> Starter_none" "p \<noteq> Starter_closing"
    using assms(3) by (auto simp: starter_active_def)
  ultimately show ?thesis
    using assms(1,3)
    by (cases "lc_cleaner a"; simp add: app_inv_def cleaner_inv_def owed_def admission_inv_def starter_inv_def)
qed

lemma start_open_move:
  assumes "start_open c out a = Some b"
  obtains ys p where "starter_active (lc_starter a)" "starter_active p"
    "b = a\<lparr>lc_configs := lc_configs a, lc_closers := ys, lc_starter := p\<rparr>"
proof -
  from assms obtain rs where rs: "lc_starter a = Starter_open rs"
    by (auto simp: start_open_def split: starter.splits)
  have "b = a\<lparr>lc_configs := lc_configs a, lc_closers := lc_closers b, lc_starter := lc_starter b\<rparr> \<and>
      starter_active (lc_starter b)"
    using assms rs by (cases rs) (auto simp: start_open_def starter_active_def)
  with rs that show thesis by (fastforce simp: starter_active_def)
qed

lemma start_ready_move:
  assumes "start_ready out a = Some b"
  obtains xs p where "starter_active (lc_starter a)" "starter_active p"
    "b = a\<lparr>lc_configs := xs, lc_closers := lc_closers a, lc_starter := p\<rparr>"
proof -
  from assms obtain cs where cs: "lc_starter a = Starter_ready cs"
    by (auto simp: start_ready_def split: starter.splits)
  have "b = a\<lparr>lc_configs := lc_configs b, lc_closers := lc_closers a, lc_starter := lc_starter b\<rparr> \<and>
      starter_active (lc_starter b)"
    using assms cs by (cases cs) (auto simp: start_ready_def starter_active_def)
  with cs that show thesis by (fastforce simp: starter_active_def)
qed

lemma inv_start_open: "start_open c out a = Some b \<Longrightarrow> app_inv a \<Longrightarrow> app_inv b"
  by (erule start_open_move) (simp only: inv_starter_move)

lemma inv_start_ready: "start_ready out a = Some b \<Longrightarrow> app_inv a \<Longrightarrow> app_inv b"
  by (erule start_ready_move) (simp only: inv_starter_move)

lemma inv_cancel: "app_inv a \<Longrightarrow> lc_lifetime a \<noteq> None \<Longrightarrow> app_inv (a\<lparr>lc_lifetime := Some True\<rparr>)"
  by (simp add: app_inv_def cleaner_inv_def owed_def admission_inv_def starter_inv_def
      cong: cleaner.case_cong)

lemmas inv_actions = inv_start_enter inv_start_open inv_start_ready inv_start_finish inv_start_close
  inv_StopAdmission inv_close_enter inv_close_begin inv_close_hook inv_close_finish

lemma app_inv_step: "perform act a = Some b \<Longrightarrow> app_inv a \<Longrightarrow> app_inv b"
  by (cases act) (auto simp: inv_actions inv_cancel split: if_splits dest: inv_actions)

lemma app_inv_init: "app_inv (prepared_application ordered)"
  by (simp add: prepared_application_def app_inv_def inv_defs)

lemma app_inv_reachable: "reachable_app ordered a \<Longrightarrow> app_inv a"
  by (induction rule: reachable_app.induct) (auto intro: app_inv_init app_inv_step)

subsection \<open>Properties\<close>

text \<open>
  C5. Cleanup is complete and ordered. In every reachable closed state the hooks that ran are
  exactly the hooks startup acquired, each once, in reverse order of acquisition, the application
  hooks before the resource closers; and until the shutdown owner is done what ran is a prefix of
  that.
\<close>

theorem cleanup_order:
  assumes "reachable_app ordered a"
  shows "(lc_state a = Closed \<longrightarrow> lc_log a = rev (lc_configs a) @ rev (lc_closers a)) \<and>
    (\<exists>rest. lc_log a @ rest = rev (lc_configs a) @ rev (lc_closers a))"
  using app_inv_reachable [OF assms]
  by (auto simp: app_inv_def cleaner_inv_def owed_def split: cleaner.splits)

theorem cleanup_order_witness:
  "\<exists>a. reachable_app [\<lparr>cfg_Name = ''A'', cfg_Label = ''a'', cfg_Requires = [], cfg_Register = None,
         cfg_Ready = True, cfg_Shutdown = True\<rparr>] a \<and>
     lc_state a = Closed \<and> lc_log a = [''app a'', ''resource db'']"
proof -
  let ?cs = "[\<lparr>cfg_Name = ''A'', cfg_Label = ''a'', cfg_Requires = [], cfg_Register = None,
         cfg_Ready = True, cfg_Shutdown = True\<rparr>] :: unit app_config list"
  let ?acts = "[Start_enter [(''db'', True)], Start_open True Call_ok, Start_open False Call_ok,
     Start_ready Call_ok, Start_ready Call_ok, Start_finish, Close_enter, Close_begin,
     Close_hook True, Close_hook False, Close_finish]"
  obtain a where run: "run_actions ?acts (prepared_application ?cs) = Some a"
      and a: "lc_state a = Closed" "lc_configs a = [''app a'']" "lc_closers a = [''resource db'']"
    by (simp add: action_defs prepared_application_def ctx_canceled_def)
  have "reachable_app ?cs a"
    using run_actions_reachable [OF run reachable_app.init] .
  with cleanup_order [OF this] a show ?thesis by auto
qed

text \<open>
  The two readiness readers agree on every reachable state when the lifetime context behaves:
  \<open>Status().Ready\<close> is \<open>Ready()\<close>, and a ready application has started, is not stopping and has
  not failed.
\<close>

lemma status_ready_agrees:
  assumes "reachable_app ordered a"
  shows "st_Ready (Status False (Some a)) = Ready a \<and>
    (Ready a \<longrightarrow> st_Started (Status False (Some a)) \<and> \<not> st_Stopping (Status False (Some a)) \<and>
       \<not> st_Failed (Status False (Some a)) \<and> \<not> st_Closed (Status False (Some a)))"
  using app_inv_reachable [OF assms]
  by (auto simp: app_inv_def admission_inv_def Status_def Ready_def statusLifetime_def ctx_canceled_def
      split: option.splits)

lemma status_ready_agrees_example:
  "\<exists>a. reachable_app [] a \<and> st_Ready (Status False (Some a)) = Ready a \<and> Ready a"
proof -
  obtain a where run: "run_actions [Start_enter [], Start_open False Call_ok, Start_ready Call_ok, Start_finish]
        (prepared_application []) = Some a" and a: "Ready a"
    by (auto simp: action_defs prepared_application_def ctx_canceled_def Ready_def)
  have "reachable_app [] a"
    using run_actions_reachable [OF run reachable_app.init] .
  with status_ready_agrees [OF this] a show ?thesis by blast
qed

text \<open>The actions of the two owners, and the work each still has.\<close>

definition owner_action :: "action \<Rightarrow> bool" where
  "owner_action act = (case act of
      Start_enter _ \<Rightarrow> False | Stop_admission \<Rightarrow> False | Close_enter \<Rightarrow> False | Cancel_context \<Rightarrow> False
    | _ \<Rightarrow> True)"

definition starter_work :: "application \<Rightarrow> nat" where
  "starter_work a = (case lc_starter a of
      Starter_open rs \<Rightarrow> length rs + length (lc_ordered a) + 4
    | Starter_ready cs \<Rightarrow> length cs + 3
    | Starter_returned _ \<Rightarrow> 2
    | Starter_closing \<Rightarrow> 1
    | _ \<Rightarrow> 0)"

definition cleaner_work :: "application \<Rightarrow> nat" where
  "cleaner_work a = (case lc_cleaner a of
      Cleaner_waiting \<Rightarrow> length (owed a) + 2
    | Cleaner_running hs _ \<Rightarrow> length hs + 1
    | _ \<Rightarrow> 0)"

definition owner_order :: "(application \<times> application) set" where
  "owner_order = inv_image (less_than <*lex*> less_than) (\<lambda>a. (starter_work a, cleaner_work a))"

lemma owner_order_wf: "wf owner_order"
  unfolding owner_order_def by (intro wf_inv_image wf_lex_prod wf_less_than)

lemma starter_step_less:
  assumes "perform act a = Some b" "act \<in> {Start_open c out, Start_ready out, Start_finish, Start_close}"
  shows "starter_work b < starter_work a"
  using assms
  by (auto simp: starter_work_def start_open_def start_ready_def start_finish_def start_close_def Let_def
      split: if_splits starter.split_asm list.split_asm)

lemma cleaner_step_less:
  assumes "perform act a = Some b" "act \<in> {Close_begin, Close_hook f, Close_finish}"
  shows "starter_work b = starter_work a \<and> cleaner_work b < cleaner_work a"
  using assms
  by (auto simp: starter_work_def cleaner_work_def owed_def close_begin_def close_hook_def close_finish_def
      split: if_splits cleaner.split_asm list.split_asm cong: starter.case_cong)

lemma owner_step_decreases:
  "perform act a = Some b \<Longrightarrow> owner_action act \<Longrightarrow> (b, a) \<in> owner_order"
  using starter_step_less [of act a b] cleaner_step_less [of act a b]
  by (cases act) (auto simp: owner_order_def owner_action_def)

lemma starter_enabled:
  assumes "starter_active (lc_starter a)"
  shows "\<exists>act b. owner_action act \<and> perform act a = Some b"
proof (cases "lc_starter a")
  case (Starter_open rs)
  then have "\<exists>b. perform (Start_open False Call_ok) a = Some b"
    by (cases rs) (simp_all add: start_open_def)
  then show ?thesis by (auto simp: owner_action_def intro!: exI [of _ "Start_open False Call_ok"])
next
  case (Starter_ready cs)
  then have "\<exists>b. perform (Start_ready Call_ok) a = Some b"
    by (cases cs) (simp_all add: start_ready_def)
  then show ?thesis by (auto simp: owner_action_def intro!: exI [of _ "Start_ready Call_ok"])
next
  case (Starter_returned err)
  then have "\<exists>b. perform Start_finish a = Some b" by (simp add: start_finish_def Let_def)
  then show ?thesis by (auto simp: owner_action_def intro!: exI [of _ Start_finish])
qed (use assms in \<open>auto simp: starter_active_def\<close>)

lemma cleaner_enabled:
  assumes "lc_cleaner a \<in> {Cleaner_waiting, Cleaner_running hs errs}" "lc_startDone a = Chan_closed"
  shows "\<exists>act b. owner_action act \<and> perform act a = Some b"
proof (cases "lc_cleaner a = Cleaner_waiting")
  case True
  with assms have "\<exists>b. perform Close_begin a = Some b" by (simp add: close_begin_def)
  then show ?thesis by (auto simp: owner_action_def intro!: exI [of _ Close_begin])
next
  case False
  with assms have "\<exists>b. perform (if hs = [] then Close_finish else Close_hook False) a = Some b"
    by (cases hs) (simp_all add: close_hook_def close_finish_def)
  then show ?thesis
    by (auto simp: owner_action_def intro!: exI [of _ "if hs = [] then Close_finish else Close_hook False"])
qed

text \<open>While startup has not published its end, the startup owner is active.\<close>

definition started_inv :: "application \<Rightarrow> bool" where
  "started_inv a \<longleftrightarrow> (lc_startDone a = Chan_open \<longrightarrow> starter_active (lc_starter a))"

lemma started_inv_step: "perform act a = Some b \<Longrightarrow> started_inv a \<Longrightarrow> started_inv b"
  by (cases act)
     (auto simp: started_inv_def starter_active_def action_defs Let_def
       split: if_splits starter.split_asm list.split_asm cleaner.split_asm)

lemma started_inv_reachable: "reachable_app ordered a \<Longrightarrow> started_inv a"
  by (induction rule: reachable_app.induct)
     (simp add: started_inv_def prepared_application_def, blast intro: started_inv_step)

text \<open>
  C7. Shutdown completes. Once \<open>Close\<close> has been called and until the state is \<open>closed\<close>, one of
  the two owners can move, and every move of an owner, whatever its callback returns, descends in
  a well-founded order: so finitely many owner moves lead to the closed state.
\<close>

theorem shutdown_progress:
  assumes "reachable_app ordered a" "lc_closeDone a \<noteq> Chan_nil"
  shows "(lc_state a = Closed \<or> (\<exists>act b. owner_action act \<and> perform act a = Some b)) \<and>
    (\<forall>act b. owner_action act \<longrightarrow> perform act a = Some b \<longrightarrow> (b, a) \<in> owner_order) \<and> wf owner_order"
proof -
  have inv: "app_inv a" "started_inv a"
    using assms(1) by (auto intro: app_inv_reachable started_inv_reachable)
  have "lc_state a = Closed \<or> (\<exists>act b. owner_action act \<and> perform act a = Some b)"
  proof (cases "lc_startDone a")
    case Chan_open
    with inv(2) show ?thesis using starter_enabled by (simp add: started_inv_def)
  next
    case Chan_closed
    with inv(1) assms(2) cleaner_enabled [of a] show ?thesis
      by (cases "lc_cleaner a") (auto simp: app_inv_def cleaner_inv_def)
  next
    case Chan_nil
    with inv(1) assms(2) show ?thesis
      by (cases "lc_cleaner a") (auto simp: app_inv_def cleaner_inv_def starter_inv_def)
  qed
  then show ?thesis using owner_step_decreases owner_order_wf by blast
qed

theorem shutdown_progress_witness:
  "\<exists>a act b. reachable_app [] a \<and> lc_closeDone a \<noteq> Chan_nil \<and> perform act a = Some b \<and> (b, a) \<in> owner_order"
proof -
  define a where "a = close_enter (prepared_application [])"
  have r: "reachable_app [] a"
    unfolding a_def by (rule reachable_app.step [OF reachable_app.init, where act = Close_enter]) simp
  moreover have c: "lc_closeDone a \<noteq> Chan_nil" "lc_state a \<noteq> Closed"
    by (simp_all add: a_def close_enter_def prepared_application_def)
  ultimately show ?thesis using shutdown_progress [OF r c(1)] by blast
qed

lemma close_enter_forward: "app_inv a \<Longrightarrow> state_rank (lc_state a) \<le> state_rank (lc_state (close_enter a))"
  by (cases "lc_state a")
     (auto simp: close_enter_def Let_def app_inv_def cleaner_inv_def split: cleaner.splits)

lemma perform_forward:
  assumes "app_inv a" "perform act a = Some b"
  shows "state_rank (lc_state a) \<le> state_rank (lc_state b)"
proof (cases act)
  case (Start_open c out)
  with assms(2) show ?thesis by (auto elim!: start_open_move)
next
  case (Start_ready out)
  with assms(2) show ?thesis by (auto elim!: start_ready_move)
next
  case Start_close
  with assms close_enter_forward [OF assms(1)] show ?thesis
    by (auto simp: start_close_def split: if_splits)
next
  case Close_enter
  with assms close_enter_forward [OF assms(1)] show ?thesis by auto
qed (use assms in \<open>cases "lc_state a"; auto simp: app_inv_def starter_inv_def starter_active_def cleaner_inv_def
      start_enter_def start_finish_def StopAdmission_def close_begin_def close_hook_def close_finish_def Let_def
       split: if_splits starter.split_asm list.split_asm cleaner.split_asm\<close>)+

lemma perform_latched:
  assumes "perform act a = Some b"
  shows "(lc_started a \<longrightarrow> lc_started b) \<and> (lc_admissionStopped a \<longrightarrow> lc_admissionStopped b)"
  using assms
  by (cases act) (auto simp: action_defs Let_def split: if_splits starter.split_asm list.split_asm cleaner.split_asm)

text \<open>
  The lifecycle never goes back: no action lowers the state, reopens admission after it stopped
  or makes a stopped application ready again, and \<open>Started\<close> stays latched.
\<close>

lemma lifecycle_forward:
  assumes "reachable_app ordered a" "perform act a = Some b"
  shows "state_rank (lc_state a) \<le> state_rank (lc_state b) \<and>
    (lc_started a \<longrightarrow> lc_started b) \<and>
    (lc_admissionStopped a \<longrightarrow> lc_admissionStopped b \<and> \<not> Ready b)"
proof -
  have "app_inv a" "app_inv b"
    using app_inv_reachable assms reachable_app.step by blast+
  then show ?thesis
    using perform_forward [of a act b] perform_latched [OF assms(2)] assms(2)
    by (auto simp: Ready_def app_inv_def admission_inv_def)
qed

lemma lifecycle_forward_example:
  "reachable_app [] (prepared_application []) \<and> \<not> Ready (close_enter (StopAdmission (prepared_application [])))"
proof -
  have r: "reachable_app [] (StopAdmission (prepared_application []))"
    by (rule reachable_app.step [OF reachable_app.init, where act = Stop_admission]) simp
  show ?thesis
    using lifecycle_forward [OF r, of Close_enter] by (simp add: reachable_app.init StopAdmission_def)
qed

end
