(* ===== verification/Sha256.thy ===== *)
theory Sha256
  imports Go_Prelude
begin

text \<open>
  The two library functions behind every identifier and checksum of the framework:
  \<open>crypto/sha256.Sum256\<close> (FIPS 180-4, on byte strings) and \<open>encoding/hex.EncodeToString\<close>, with
  the facts their clients use: a digest has 32 bytes, and its hexadecimal text has 64 characters,
  all digits or letters from \<open>a\<close> to \<open>f\<close>.
\<close>

unbundle bit_operations_syntax

type_synonym w32 = "32 word"

text \<open>
  The constants, computed as FIPS 180-4 defines them: the round constants are the first 32
  fractional bits of the cube roots of the first 64 primes, the initial hash value those of the
  square roots of the first 8.
\<close>

fun root_bits :: "nat \<Rightarrow> int \<Rightarrow> int \<Rightarrow> nat \<Rightarrow> int \<Rightarrow> int" where
  "root_bits k n w 0 r = r"
| "root_bits k n w (Suc b) r =
     root_bits k n (w div 2) b (if (r + w) ^ k \<le> n then r + w else r)"

definition sha_primes :: "int list" where
  "sha_primes =
     filter (\<lambda>p. list_all (\<lambda>d. p < d * d \<or> p mod d \<noteq> 0) [2..17]) [2..311]"

definition root_fraction :: "nat \<Rightarrow> int \<Rightarrow> w32" where
  "root_fraction k p = word_of_int (root_bits k (p * (2 ^ 32) ^ k) (2 ^ 37) 38 0)"

definition sha_k :: "w32 list" where
  "sha_k = map (root_fraction 3) sha_primes"

definition sha_h0 :: "w32 list" where
  "sha_h0 = map (root_fraction 2) (take 8 sha_primes)"

lemma length_sha_primes [simp]: "length sha_primes = 64"
  by code_simp

lemma length_sha_h0 [simp]: "length sha_h0 = 8"
  by (simp add: sha_h0_def length_sha_primes)

subsection \<open>Padding and blocks\<close>

definition be_bytes :: "nat \<Rightarrow> nat \<Rightarrow> nat list" where
  "be_bytes n v = map (\<lambda>i. (v div 256 ^ (n - Suc i)) mod 256) [0..<n]"

definition sha_pad :: "nat list \<Rightarrow> nat list" where
  "sha_pad m = m @ [128] @ replicate ((119 - length m mod 64) mod 64) 0 @ be_bytes 8 (8 * length m)"

fun sha_words :: "nat list \<Rightarrow> w32 list" where
  "sha_words (a # b # c # d # rest) =
     word_of_nat (((a * 256 + b) * 256 + c) * 256 + d) # sha_words rest"
| "sha_words _ = []"

subsection \<open>The compression function\<close>

definition small_sigma0 :: "w32 \<Rightarrow> w32" where
  "small_sigma0 x = word_rotr 7 x XOR word_rotr 18 x XOR drop_bit 3 x"

definition small_sigma1 :: "w32 \<Rightarrow> w32" where
  "small_sigma1 x = word_rotr 17 x XOR word_rotr 19 x XOR drop_bit 10 x"

definition big_sigma0 :: "w32 \<Rightarrow> w32" where
  "big_sigma0 x = word_rotr 2 x XOR word_rotr 13 x XOR word_rotr 22 x"

definition big_sigma1 :: "w32 \<Rightarrow> w32" where
  "big_sigma1 x = word_rotr 6 x XOR word_rotr 11 x XOR word_rotr 25 x"

fun sha_extend :: "nat \<Rightarrow> w32 list \<Rightarrow> w32 list" where
  "sha_extend 0 ws = ws"
| "sha_extend (Suc n) ws =
     (let i = length ws;
          w = small_sigma1 (ws ! (i - 2)) + ws ! (i - 7) + small_sigma0 (ws ! (i - 15)) + ws ! (i - 16)
      in sha_extend n (ws @ [w]))"

fun sha_round :: "w32 list \<Rightarrow> w32 \<times> w32 \<Rightarrow> w32 list" where
  "sha_round [a, b, c, d, e, f, g, h] (k, w) =
     (let t1 = h + big_sigma1 e + ((e AND f) XOR ((NOT e) AND g)) + k + w;
          t2 = big_sigma0 a + ((a AND b) XOR (a AND c) XOR (b AND c))
      in [t1 + t2, a, b, c, d + t1, e, f, g])"
| "sha_round hs _ = hs"

definition sha_block :: "w32 list \<Rightarrow> w32 list \<Rightarrow> w32 list" where
  "sha_block hs block = map2 (+) hs (foldl sha_round hs (zip sha_k (sha_extend 48 block)))"

fun sha_blocks :: "nat \<Rightarrow> w32 list \<Rightarrow> w32 list \<Rightarrow> w32 list" where
  "sha_blocks 0 hs ws = hs"
| "sha_blocks (Suc n) hs ws = sha_blocks n (sha_block hs (take 16 ws)) (drop 16 ws)"

definition word_bytes :: "w32 \<Rightarrow> nat list" where
  "word_bytes w = be_bytes 4 (unat w)"

text \<open>\<open>sha256.Sum256\<close> as a function on byte strings.\<close>

definition sha256 :: "string \<Rightarrow> string" where
  "sha256 s =
     (let ws = sha_words (sha_pad (map of_char s))
      in map char_of (concat (map word_bytes (sha_blocks (length ws div 16) sha_h0 ws))))"

subsection \<open>Hexadecimal text\<close>

definition hex_digit :: "nat \<Rightarrow> char" where
  "hex_digit n = ''0123456789abcdef'' ! (n mod 16)"

definition hex_encode :: "string \<Rightarrow> string" where
  "hex_encode s = concat (map (\<lambda>c. [hex_digit (of_char c div 16), hex_digit (of_char c)]) s)"

definition is_hex :: "char \<Rightarrow> bool" where
  "is_hex c = (is_digit c \<or> (CHR ''a'' \<le> c \<and> c \<le> CHR ''f''))"

subsection \<open>Lengths and alphabets\<close>

lemma length_be_bytes [simp]: "length (be_bytes n v) = n"
  by (simp add: be_bytes_def)

lemma length_sha_round [simp]: "length (sha_round hs kw) = length hs"
  by (induction hs kw rule: sha_round.induct) (auto simp: Let_def)

lemma length_foldl_sha_round [simp]: "length (foldl sha_round hs kws) = length hs"
  by (induction kws arbitrary: hs) auto

lemma length_sha_block [simp]: "length (sha_block hs block) = length hs"
  by (simp add: sha_block_def)

lemma length_sha_blocks [simp]: "length (sha_blocks n hs ws) = length hs"
  by (induction n hs ws rule: sha_blocks.induct) auto

lemma length_sha256 [simp]: "length (sha256 s) = 32"
proof -
  have "length (concat (map word_bytes ws)) = 4 * length ws" for ws
    by (induction ws) (auto simp: word_bytes_def)
  then show ?thesis by (simp add: sha256_def Let_def)
qed

lemma length_hex_encode [simp]: "length (hex_encode s) = 2 * length s"
  by (induction s) (auto simp: hex_encode_def)

lemma is_hex_digit: "is_hex (hex_digit n)"
proof -
  have "list_all is_hex ''0123456789abcdef''"
    by (simp add: is_hex_def is_digit_def less_eq_char_def)
  moreover have "n mod 16 < length ''0123456789abcdef''" by simp
  ultimately show ?thesis unfolding hex_digit_def by (metis list_all_length)
qed

lemma hex_encode_alphabet: "list_all is_hex (hex_encode s)"
  by (induction s) (auto simp: hex_encode_def is_hex_digit)

end
