(* ===== verification/Models_Schema.thy ===== *)
theory Models_Schema
  imports Sha256
begin

text \<open>
  Model descriptors: \<open>core/models/schema.go\<close> and \<open>core/models/through.go\<close>. The structs are
  records with the source's fields; \<open>Validate\<close>, \<open>PKFields\<close>, \<open>ImplicitThrough\<close> and the registry
  are the source's functions.

  Values of Go type \<open>any\<close> are only compared and tested for nil here, so they are opaque
  (\<open>go_any\<close>, \<open>None\<close> being nil), as is the descriptor \<open>Element\<close> of an array field. Of a function or
  interface value only its presence matters. Slices are lists: nil and empty slices are one value,
  and \<open>Clone\<close>, which copies slices and pointees, is the identity on values.
\<close>

type_synonym go_any = "string option"

subsection \<open>Descriptors\<close>

record relation =
  rel_Target :: string
  rel_TargetFields :: "string list"
  rel_RelatedName :: string
  rel_RelatedQueryName :: string
  rel_OnDelete :: string
  rel_Through :: string
  rel_ThroughFields :: "string list"
  rel_Symmetrical :: "bool option"
  rel_NoConstraint :: bool

record field =
  fld_Name :: string
  fld_StructField :: string
  fld_Column :: string
  fld_Kind :: string
  fld_Null :: bool
  fld_Blank :: bool
  fld_Editable :: bool
  fld_PrimaryKey :: bool
  fld_Unique :: bool
  fld_DBIndex :: bool
  fld_AutoNow :: bool
  fld_AutoNowAdd :: bool
  fld_AllowUnicode :: bool
  fld_Label :: string
  fld_HelpText :: string
  fld_Comment :: string
  fld_Collation :: string
  fld_Tablespace :: string
  fld_MaxLength :: int
  fld_MinLength :: int
  fld_MaxDigits :: int
  fld_DecimalPlaces :: int
  fld_Min :: go_any
  fld_Max :: go_any
  fld_Choices :: "(go_any \<times> string) list"
  fld_Default :: go_any
  fld_DefaultFunc :: bool
  fld_DefaultID :: string
  fld_DBDefault :: string
  fld_GeneratedExpression :: string
  fld_Validators :: nat
  fld_Codec :: bool
  fld_Relation :: "relation option"
  fld_Element :: go_any
  fld_RangeType :: string
  fld_UniqueForDate :: string
  fld_UniqueForMonth :: string
  fld_UniqueForYear :: string

record model_index =
  idx_Name :: string
  idx_Fields :: "string list"
  idx_Unique :: bool
  idx_Method :: string
  idx_Condition :: string
  idx_Include :: "string list"
  idx_Concurrent :: bool
  idx_NullsDistinct :: "bool option"

record model_constraint =
  con_Name :: string
  con_Kind :: string
  con_Fields :: "string list"
  con_Expression :: string
  con_Condition :: string
  con_Deferrable :: bool
  con_NullsDistinct :: "bool option"

record schema =
  sch_AppLabel :: string
  sch_Name :: string
  sch_Table :: string
  sch_Fields :: "field list"
  sch_PrimaryKey :: "string list"
  sch_Indexes :: "model_index list"
  sch_Constraints :: "model_constraint list"
  sch_Ordering :: "string list"
  sch_Abstract :: bool
  sch_Proxy :: bool
  sch_Unmanaged :: bool
  sch_Parent :: string
  sch_ParentLink :: string
  sch_Concrete :: string
  sch_AutoCreatedBy :: string
  sch_AutoCreatedField :: string
  sch_Label :: string
  sch_LabelPlural :: string
  sch_Comment :: string
  sch_Tablespace :: string
  sch_RequiredCapabilities :: "string list"

subsection \<open>Kinds and small accessors\<close>

definition known_kinds :: "string list" where
  "known_kinds =
    [''small_integer'', ''integer'', ''big_integer'', ''positive_small_integer'', ''positive_integer'', ''positive_big_integer'',
     ''small_auto'', ''auto'', ''big_auto'', ''uuid'', ''decimal'', ''float'',
     ''boolean'', ''char'', ''text'', ''slug'', ''email'', ''url'',
     ''ip_address'', ''file_path'', ''date'', ''datetime'', ''time'', ''duration'',
     ''binary'', ''json'', ''file'', ''image'', ''foreign_key'', ''one_to_one'',
     ''many_to_many'', ''generated'', ''array'', ''hstore'', ''range'', ''search_vector'',
     ''geometry'', ''geography'', ''raster'', ''custom'']"

abbreviation Auto :: string where "Auto \<equiv> ''auto''"
abbreviation BigAuto :: string where "BigAuto \<equiv> ''big_auto''"
abbreviation SmallAuto :: string where "SmallAuto \<equiv> ''small_auto''"
abbreviation Decimal :: string where "Decimal \<equiv> ''decimal''"
abbreviation ForeignKey :: string where "ForeignKey \<equiv> ''foreign_key''"
abbreviation OneToOne :: string where "OneToOne \<equiv> ''one_to_one''"
abbreviation ManyToMany :: string where "ManyToMany \<equiv> ''many_to_many''"
abbreviation Generated :: string where "Generated \<equiv> ''generated''"
abbreviation Array :: string where "Array \<equiv> ''array''"

definition knownKind :: "string \<Rightarrow> bool" where
  "knownKind k = (k \<in> set known_kinds)"

definition DBColumn :: "field \<Rightarrow> string" where
  "DBColumn f = (if fld_Column f \<noteq> [] then fld_Column f else fld_Name f)"

definition IsAuto :: "field \<Rightarrow> bool" where
  "IsAuto f = (fld_Kind f = Auto \<or> fld_Kind f = BigAuto \<or> fld_Kind f = SmallAuto)"

definition HasDefault :: "field \<Rightarrow> bool" where
  "HasDefault f = (fld_Default f \<noteq> None \<or> fld_DefaultFunc f \<or> fld_DBDefault f \<noteq> [])"

definition schema_Key :: "schema \<Rightarrow> string" where
  "schema_Key s = sch_AppLabel s @ ''.'' @ sch_Name s"

definition DBTable :: "schema \<Rightarrow> string" where
  "DBTable s = (if sch_Table s \<noteq> [] then sch_Table s else to_lower (sch_AppLabel s @ ''_'' @ sch_Name s))"

definition schema_Field :: "schema \<Rightarrow> string \<Rightarrow> field option" where
  "schema_Field s name = find (\<lambda>f. fld_Name f = name) (sch_Fields s)"

definition PKFields :: "schema \<Rightarrow> field list" where
  "PKFields s =
     (if sch_PrimaryKey s \<noteq> [] then List.map_filter (schema_Field s) (sch_PrimaryKey s)
      else filter fld_PrimaryKey (sch_Fields s))"

text \<open>\<open>identifier\<close> is \<^verbatim>\<open>^[A-Za-z_][A-Za-z0-9_]*$\<close>.\<close>

definition ident_start :: "char \<Rightarrow> bool" where
  "ident_start c = (is_alpha c \<or> c = CHR ''_'')"

definition ident_char :: "char \<Rightarrow> bool" where
  "ident_char c = (ident_start c \<or> is_digit c)"

definition ValidIdentifier :: "string \<Rightarrow> bool" where
  "ValidIdentifier s = (case s of [] \<Rightarrow> False | c # cs \<Rightarrow> ident_start c \<and> list_all ident_char cs)"

subsection \<open>Validation\<close>

datatype schema_error =
    Invalid_identifiers
  | Bad_field string
  | Unknown_kind string
  | Bad_lengths string
  | Bad_precision string
  | Default_needs_id string
  | Relation_needs_target string
  | Set_null_not_nullable string
  | Array_needs_element string
  | Primary_key_required
  | Unknown_primary_key string
  | Bad_index string
  | Index_unknown_field string
  | Bad_constraint string
  | Constraint_unknown_field
  | Conditional_deferrable
  | Bad_expression
  | Unique_needs_fields
  | Unique_expression
  | Unique_name_collision
  | Check_needs_expression
  | Check_options
  | Unsupported_constraint

text \<open>The tests on one field, in the order of the source; \<open>seen\<close> and \<open>columns\<close> are the names before it.\<close>

definition field_error :: "string list \<Rightarrow> string list \<Rightarrow> field \<Rightarrow> schema_error option" where
  "field_error seen columns f =
     (if \<not> ValidIdentifier (fld_Name f) \<or> \<not> ValidIdentifier (DBColumn f) \<or>
         fld_Name f \<in> set seen \<or> DBColumn f \<in> set columns then Some (Bad_field (fld_Name f))
      else if \<not> knownKind (fld_Kind f) then Some (Unknown_kind (fld_Kind f))
      else if fld_MaxLength f < 0 \<or> fld_MinLength f < 0 \<or>
              (fld_MaxLength f > 0 \<and> fld_MinLength f > fld_MaxLength f) then Some (Bad_lengths (fld_Name f))
      else if fld_Kind f = Decimal \<and>
              (fld_MaxDigits f < 1 \<or> fld_DecimalPlaces f < 0 \<or> fld_DecimalPlaces f > fld_MaxDigits f)
        then Some (Bad_precision (fld_Name f))
      else if fld_DefaultFunc f \<and> fld_DefaultID f = [] then Some (Default_needs_id (fld_Name f))
      else if (fld_Kind f = ForeignKey \<or> fld_Kind f = OneToOne \<or> fld_Kind f = ManyToMany) \<and>
              fld_Relation f = None then Some (Relation_needs_target (fld_Name f))
      else if (case fld_Relation f of None \<Rightarrow> False | Some r \<Rightarrow> rel_OnDelete r = ''SET_NULL'') \<and> \<not> fld_Null f
        then Some (Set_null_not_nullable (fld_Name f))
      else if fld_Kind f = Array \<and> fld_Element f = None then Some (Array_needs_element (fld_Name f))
      else None)"

fun validate_fields :: "string list \<Rightarrow> string list \<Rightarrow> field list \<Rightarrow> schema_error option" where
  "validate_fields seen columns [] = None"
| "validate_fields seen columns (f # fs) =
     (case field_error seen columns f of
        Some e \<Rightarrow> Some e
      | None \<Rightarrow> validate_fields (fld_Name f # seen) (DBColumn f # columns) fs)"

fun first_unknown :: "string list \<Rightarrow> string list \<Rightarrow> string option" where
  "first_unknown seen [] = None"
| "first_unknown seen (n # ns) = (if n \<in> set seen then first_unknown seen ns else Some n)"

fun validate_indexes :: "string list \<Rightarrow> string list \<Rightarrow> model_index list \<Rightarrow> schema_error option" where
  "validate_indexes seen names [] = None"
| "validate_indexes seen names (ix # ixs) =
     (if \<not> ValidIdentifier (idx_Name ix) \<or> idx_Name ix \<in> set names then Some (Bad_index (idx_Name ix))
      else case first_unknown seen (idx_Fields ix @ idx_Include ix) of
        Some n \<Rightarrow> Some (Index_unknown_field n)
      | None \<Rightarrow> validate_indexes seen (idx_Name ix # names) ixs)"

definition constraint_error ::
  "string list \<Rightarrow> string list \<Rightarrow> string \<Rightarrow> string list \<Rightarrow> model_constraint \<Rightarrow> schema_error option" where
  "constraint_error seen index_names table names c =
     (if \<not> ValidIdentifier (con_Name c) \<or> con_Name c \<in> set names then Some (Bad_constraint (con_Name c))
      else if first_unknown seen (con_Fields c) \<noteq> None then Some Constraint_unknown_field
      else if con_Condition c \<noteq> [] \<and> con_Deferrable c then Some Conditional_deferrable
      else if list_ex (\<lambda>x. x = CHR '';'' \<or> x = CHR 0x00) (con_Condition c @ con_Expression c) then Some Bad_expression
      else if to_lower (con_Kind c) = ''unique'' then
        (if con_Fields c = [] then Some Unique_needs_fields
         else if con_Expression c \<noteq> [] then Some Unique_expression
         else if con_Name c \<in> set index_names \<or> con_Name c = table then Some Unique_name_collision
         else None)
      else if to_lower (con_Kind c) = ''check'' then
        (if con_Expression c = [] then Some Check_needs_expression
         else if con_Condition c \<noteq> [] \<or> con_Deferrable c \<or> con_NullsDistinct c \<noteq> None then Some Check_options
         else None)
      else Some Unsupported_constraint)"

fun validate_constraints ::
  "string list \<Rightarrow> string list \<Rightarrow> string \<Rightarrow> string list \<Rightarrow> model_constraint list \<Rightarrow> schema_error option" where
  "validate_constraints seen index_names table names [] = None"
| "validate_constraints seen index_names table names (c # cs) =
     (case constraint_error seen index_names table names c of
        Some e \<Rightarrow> Some e
      | None \<Rightarrow> validate_constraints seen index_names table (con_Name c # names) cs)"

definition schema_Validate :: "schema \<Rightarrow> schema_error option" where
  "schema_Validate s =
     (let seen = map fld_Name (sch_Fields s); index_names = map idx_Name (sch_Indexes s) in
      if \<not> ValidIdentifier (sch_AppLabel s) \<or> \<not> ValidIdentifier (sch_Name s) \<or> \<not> ValidIdentifier (DBTable s)
        then Some Invalid_identifiers
      else case validate_fields [] [] (sch_Fields s) of
        Some e \<Rightarrow> Some e
      | None \<Rightarrow>
          if \<not> sch_Abstract s \<and> PKFields s = [] then Some Primary_key_required
          else case first_unknown seen (sch_PrimaryKey s) of
            Some k \<Rightarrow> Some (Unknown_primary_key k)
          | None \<Rightarrow>
              (case validate_indexes seen [] (sch_Indexes s) of
                 Some e \<Rightarrow> Some e
               | None \<Rightarrow> validate_constraints seen index_names (DBTable s) [] (sch_Constraints s)))"

subsection \<open>Automatic intermediaries\<close>

definition zero_relation :: relation where
  "zero_relation = \<lparr>rel_Target = [], rel_TargetFields = [], rel_RelatedName = [], rel_RelatedQueryName = [],
     rel_OnDelete = [], rel_Through = [], rel_ThroughFields = [], rel_Symmetrical = None,
     rel_NoConstraint = False\<rparr>"

definition zero_field :: field where
  "zero_field = \<lparr>fld_Name = [], fld_StructField = [], fld_Column = [], fld_Kind = [], fld_Null = False,
     fld_Blank = False, fld_Editable = False, fld_PrimaryKey = False, fld_Unique = False,
     fld_DBIndex = False, fld_AutoNow = False, fld_AutoNowAdd = False, fld_AllowUnicode = False,
     fld_Label = [], fld_HelpText = [], fld_Comment = [], fld_Collation = [], fld_Tablespace = [],
     fld_MaxLength = 0, fld_MinLength = 0, fld_MaxDigits = 0, fld_DecimalPlaces = 0, fld_Min = None,
     fld_Max = None, fld_Choices = [], fld_Default = None, fld_DefaultFunc = False, fld_DefaultID = [],
     fld_DBDefault = [], fld_GeneratedExpression = [], fld_Validators = 0, fld_Codec = False,
     fld_Relation = None, fld_Element = None, fld_RangeType = [], fld_UniqueForDate = [],
     fld_UniqueForMonth = [], fld_UniqueForYear = []\<rparr>"

definition zero_schema :: schema where
  "zero_schema = \<lparr>sch_AppLabel = [], sch_Name = [], sch_Table = [], sch_Fields = [], sch_PrimaryKey = [],
     sch_Indexes = [], sch_Constraints = [], sch_Ordering = [], sch_Abstract = False, sch_Proxy = False,
     sch_Unmanaged = False, sch_Parent = [], sch_ParentLink = [], sch_Concrete = [],
     sch_AutoCreatedBy = [], sch_AutoCreatedField = [], sch_Label = [], sch_LabelPlural = [],
     sch_Comment = [], sch_Tablespace = [], sch_RequiredCapabilities = []\<rparr>"

text \<open>\<open>NewField\<close> without options, and the two constructors \<open>ImplicitThrough\<close> uses.\<close>

definition NewField :: "string \<Rightarrow> string \<Rightarrow> field" where
  "NewField name kind =
     (let f = zero_field\<lparr>fld_Name := name, fld_Kind := kind, fld_Editable := True\<rparr>;
          g = (if IsAuto f then f\<lparr>fld_PrimaryKey := True, fld_Editable := False\<rparr> else f)
      in if kind = Generated then g\<lparr>fld_Editable := False\<rparr> else g)"

definition BigAutoField :: "string \<Rightarrow> field" where
  "BigAutoField n = NewField n BigAuto"

definition ForeignKeyField :: "string \<Rightarrow> relation \<Rightarrow> field" where
  "ForeignKeyField n r = (NewField n ForeignKey)\<lparr>fld_Relation := Some r\<rparr>"

definition shortIdentifier :: "string \<Rightarrow> string" where
  "shortIdentifier name =
     (if length name \<le> 63 then name
      else take 50 name @ ''_'' @ hex_encode (take 6 (sha256 name)))"

definition ImplicitThrough :: "schema \<Rightarrow> field \<Rightarrow> schema \<Rightarrow> string + schema" where
  "ImplicitThrough source field target =
     (if fld_Kind field \<noteq> ManyToMany \<or> (case fld_Relation field of None \<Rightarrow> True | Some r \<Rightarrow> rel_Through r \<noteq> [])
        then Inl ''models: implicit through requires an automatic many-to-many field''
      else if length (PKFields source) \<noteq> 1 \<or> length (PKFields target) \<noteq> 1
        then Inl ''models: automatic through requires scalar source and target primary keys''
      else
        (let table = shortIdentifier (DBTable source @ ''_'' @ DBColumn field) in
         Inr (zero_schema\<lparr>
           sch_AppLabel := sch_AppLabel source,
           sch_Name := shortIdentifier (sch_Name source @ ''_'' @ fld_Name field),
           sch_Table := table,
           sch_AutoCreatedBy := schema_Key source,
           sch_AutoCreatedField := fld_Name field,
           sch_Fields :=
             [BigAutoField ''id'',
              ForeignKeyField ''source_id'' (zero_relation\<lparr>rel_Target := schema_Key source,
                rel_TargetFields := [fld_Name (hd (PKFields source))], rel_OnDelete := ''CASCADE'', rel_RelatedName := ''+''\<rparr>),
              ForeignKeyField ''target_id'' (zero_relation\<lparr>rel_Target := schema_Key target,
                rel_TargetFields := [fld_Name (hd (PKFields target))], rel_OnDelete := ''CASCADE'', rel_RelatedName := ''+''\<rparr>)],
           sch_Constraints :=
             [\<lparr>con_Name = shortIdentifier (table @ ''_pair_key''), con_Kind = ''unique'',
               con_Fields = [''source_id'', ''target_id''], con_Expression = [], con_Condition = [],
               con_Deferrable = False, con_NullsDistinct = None\<rparr>]\<rparr>)))"

subsection \<open>The model registry\<close>

text \<open>The map \<open>schemas\<close> is an association list; its order is the order of Go's \<open>range\<close>, which is arbitrary.\<close>

record models_registry =
  mreg_schemas :: "(string \<times> schema) list"
  mreg_automatic :: "string list"
  mreg_frozen :: bool

datatype registry_error =
    Models_frozen
  | Invalid_schema schema_error
  | Reserved_metadata
  | Duplicate_schema string
  | Unknown_target string
  | Unknown_target_field string
  | Through_error string
  | Through_collides
  | Automatic_collision

definition models_Register :: "models_registry \<Rightarrow> schema \<Rightarrow> registry_error + models_registry" where
  "models_Register r s =
     (if mreg_frozen r then Inl Models_frozen
      else case schema_Validate s of
        Some e \<Rightarrow> Inl (Invalid_schema e)
      | None \<Rightarrow>
          if sch_AutoCreatedBy s \<noteq> [] \<or> sch_AutoCreatedField s \<noteq> [] then Inl Reserved_metadata
          else case map_of (mreg_schemas r) (schema_Key s) of
            Some _ \<Rightarrow> Inl (Duplicate_schema (schema_Key s))
          | None \<Rightarrow> Inr (r\<lparr>mreg_schemas := mreg_schemas r @ [(schema_Key s, s)]\<rparr>))"

definition models_Get :: "models_registry \<Rightarrow> string \<Rightarrow> schema option" where
  "models_Get r key = map_of (mreg_schemas r) key"

definition models_All :: "models_registry \<Rightarrow> schema list" where
  "models_All r = map (\<lambda>k. the (map_of (mreg_schemas r) k)) (sort (map fst (mreg_schemas r)))"

definition automatic_m2m :: "field \<Rightarrow> bool" where
  "automatic_m2m f = (fld_Kind f = ManyToMany \<and> (case fld_Relation f of None \<Rightarrow> False | Some r \<Rightarrow> rel_Through r = []))"

text \<open>The first pass of \<open>Freeze\<close>: the intermediaries of all automatic many-to-many fields.\<close>

fun freeze_field ::
  "(string \<times> schema) list \<Rightarrow> schema \<Rightarrow> field \<Rightarrow> schema list \<Rightarrow> registry_error + schema list" where
  "freeze_field schemas source f generated =
     (if \<not> automatic_m2m f then Inr generated
      else let name = rel_Target (the (fld_Relation f)) in
        (case map_of schemas name of
           None \<Rightarrow> Inl (Unknown_target name)
         | Some target \<Rightarrow>
             (case ImplicitThrough source f target of
                Inl e \<Rightarrow> Inl (Through_error e)
              | Inr through \<Rightarrow>
                  if map_of schemas (schema_Key through) \<noteq> None then Inl Through_collides
                  else if list_ex (\<lambda>p. schema_Key p = schema_Key through \<or> DBTable p = DBTable through) generated
                    then Inl Automatic_collision
                  else Inr (generated @ [through]))))"

fun freeze_fields ::
  "(string \<times> schema) list \<Rightarrow> schema \<Rightarrow> field list \<Rightarrow> schema list \<Rightarrow> registry_error + schema list" where
  "freeze_fields schemas source [] generated = Inr generated"
| "freeze_fields schemas source (f # fs) generated =
     (case freeze_field schemas source f generated of
        Inl e \<Rightarrow> Inl e
      | Inr generated' \<Rightarrow> freeze_fields schemas source fs generated')"

fun freeze_sources ::
  "(string \<times> schema) list \<Rightarrow> (string \<times> schema) list \<Rightarrow> schema list \<Rightarrow> registry_error + schema list" where
  "freeze_sources schemas [] generated = Inr generated"
| "freeze_sources schemas ((k, source) # rest) generated =
     (case freeze_fields schemas source (sch_Fields source) generated of
        Inl e \<Rightarrow> Inl e
      | Inr generated' \<Rightarrow> freeze_sources schemas rest generated')"

text \<open>The second pass: every relation names a registered model and its fields.\<close>

definition relation_error :: "(string \<times> schema) list \<Rightarrow> field \<Rightarrow> registry_error option" where
  "relation_error schemas f =
     (case fld_Relation f of
        None \<Rightarrow> None
      | Some rel \<Rightarrow>
          (case map_of schemas (rel_Target rel) of
             None \<Rightarrow> Some (Unknown_target (rel_Target rel))
           | Some target \<Rightarrow>
               map_option Unknown_target_field
                 (find (\<lambda>k. schema_Field target k = None) (rel_TargetFields rel))))"

definition models_Freeze :: "models_registry \<Rightarrow> registry_error + models_registry" where
  "models_Freeze r =
     (if mreg_frozen r then Inr r
      else case freeze_sources (mreg_schemas r) (mreg_schemas r) [] of
        Inl e \<Rightarrow> Inl e
      | Inr generated \<Rightarrow>
          (case first_error (\<lambda>(k, s). first_error (relation_error (mreg_schemas r)) (sch_Fields s)) (mreg_schemas r) of
             Some e \<Rightarrow> Inl e
           | None \<Rightarrow> Inr (r\<lparr>mreg_schemas := mreg_schemas r @ map (\<lambda>t. (schema_Key t, t)) generated,
                             mreg_automatic := map schema_Key generated,
                             mreg_frozen := True\<rparr>)))"

definition models_IsAutomatic :: "models_registry \<Rightarrow> string \<Rightarrow> bool" where
  "models_IsAutomatic r key = (key \<in> set (mreg_automatic r))"

subsection \<open>What validation guarantees\<close>

lemma first_unknown_None: "first_unknown seen ns = None \<longleftrightarrow> set ns \<subseteq> set seen"
  by (induction ns) auto

lemma validate_indexes_fields:
  "validate_indexes seen names ixs = None \<Longrightarrow>
     distinct (map idx_Name ixs) \<and> set (map idx_Name ixs) \<inter> set names = {} \<and>
     (\<forall>ix \<in> set ixs. ValidIdentifier (idx_Name ix) \<and> set (idx_Fields ix @ idx_Include ix) \<subseteq> set seen)"
proof (induction ixs arbitrary: names)
  case (Cons ix ixs)
  from Cons.prems have "ValidIdentifier (idx_Name ix)" "idx_Name ix \<notin> set names"
      "first_unknown seen (idx_Fields ix @ idx_Include ix) = None"
      "validate_indexes seen (idx_Name ix # names) ixs = None"
    by (auto split: if_splits option.splits)
  with Cons.IH [of "idx_Name ix # names"] show ?case by (auto simp: first_unknown_None)
qed simp

lemma constraint_error_None:
  "constraint_error seen index_names table names c = None \<Longrightarrow>
     ValidIdentifier (con_Name c) \<and> con_Name c \<notin> set names \<and> set (con_Fields c) \<subseteq> set seen"
  by (simp add: constraint_error_def first_unknown_None [symmetric] split: if_splits)

lemma validate_constraints_fields:
  "validate_constraints seen index_names table names cs = None \<Longrightarrow>
     distinct (map con_Name cs) \<and> set (map con_Name cs) \<inter> set names = {} \<and>
     (\<forall>c \<in> set cs. ValidIdentifier (con_Name c) \<and> set (con_Fields c) \<subseteq> set seen)"
proof (induction cs arbitrary: names)
  case (Cons c cs)
  then have "constraint_error seen index_names table names c = None" by (simp split: option.splits)
  with Cons.prems Cons.IH [of "con_Name c # names"] constraint_error_None [of seen index_names table names c]
  show ?case by auto
qed simp

lemma field_error_None:
  "field_error seen columns f = None \<Longrightarrow>
     ValidIdentifier (fld_Name f) \<and> ValidIdentifier (DBColumn f) \<and> fld_Name f \<notin> set seen \<and>
     DBColumn f \<notin> set columns \<and> knownKind (fld_Kind f)"
  by (simp add: field_error_def split: if_splits)

lemma validate_fields_distinct:
  "validate_fields seen columns fs = None \<Longrightarrow>
     distinct (map fld_Name fs) \<and> distinct (map DBColumn fs) \<and>
     set (map fld_Name fs) \<inter> set seen = {} \<and> set (map DBColumn fs) \<inter> set columns = {} \<and>
     (\<forall>f \<in> set fs. ValidIdentifier (fld_Name f) \<and> ValidIdentifier (DBColumn f) \<and> knownKind (fld_Kind f))"
proof (induction fs arbitrary: seen columns)
  case (Cons f fs)
  then have "field_error seen columns f = None" by (simp split: option.splits)
  with Cons.prems Cons.IH [of "fld_Name f # seen" "DBColumn f # columns"]
    field_error_None [of seen columns f] show ?case by auto
qed simp

text \<open>
  A schema that passes \<open>Validate\<close> is well formed: field names and columns are valid and
  unambiguous, indexes and constraints have distinct names, and every name in the primary key, an
  index or a constraint is a field; a schema that is not abstract has a primary key.
\<close>

lemma schema_Validate_wf:
  assumes "schema_Validate s = None"
  shows "distinct (map fld_Name (sch_Fields s)) \<and> distinct (map DBColumn (sch_Fields s)) \<and>
    distinct (map idx_Name (sch_Indexes s)) \<and> distinct (map con_Name (sch_Constraints s)) \<and>
    (\<forall>k \<in> set (sch_PrimaryKey s). \<exists>f. schema_Field s k = Some f) \<and>
    (\<forall>ix \<in> set (sch_Indexes s). \<forall>k \<in> set (idx_Fields ix @ idx_Include ix). \<exists>f. schema_Field s k = Some f) \<and>
    (\<forall>c \<in> set (sch_Constraints s). \<forall>k \<in> set (con_Fields c). \<exists>f. schema_Field s k = Some f) \<and>
    (\<not> sch_Abstract s \<longrightarrow> PKFields s \<noteq> [])"
proof -
  have fields: "validate_fields [] [] (sch_Fields s) = None"
    and pk: "first_unknown (map fld_Name (sch_Fields s)) (sch_PrimaryKey s) = None"
    and ix: "validate_indexes (map fld_Name (sch_Fields s)) [] (sch_Indexes s) = None"
    and con: "validate_constraints (map fld_Name (sch_Fields s)) (map idx_Name (sch_Indexes s)) (DBTable s) []
        (sch_Constraints s) = None"
    and key: "\<not> sch_Abstract s \<longrightarrow> PKFields s \<noteq> []"
    using assms by (auto simp: schema_Validate_def Let_def split: if_splits option.splits)
  have known: "\<exists>f. schema_Field s k = Some f" if "k \<in> set (map fld_Name (sch_Fields s))" for k
    using that unfolding schema_Field_def
    by (cases "find (\<lambda>f. fld_Name f = k) (sch_Fields s)") (auto simp: find_None_iff)
  show ?thesis
    using validate_fields_distinct [OF fields] pk [unfolded first_unknown_None]
      validate_indexes_fields [OF ix] validate_constraints_fields [OF con] key known
    by blast
qed

lemma schema_Validate_wf_example:
  "schema_Validate (zero_schema\<lparr>sch_AppLabel := ''blog'', sch_Name := ''Post'', sch_Fields := [BigAutoField ''id'']\<rparr>) = None \<and>
   PKFields (zero_schema\<lparr>sch_AppLabel := ''blog'', sch_Name := ''Post'', sch_Fields := [BigAutoField ''id'']\<rparr>) \<noteq> []"
proof -
  let ?s = "zero_schema\<lparr>sch_AppLabel := ''blog'', sch_Name := ''Post'', sch_Fields := [BigAutoField ''id'']\<rparr>"
  have v: "schema_Validate ?s = None"
    by (simp add: schema_Validate_def zero_schema_def BigAutoField_def NewField_def zero_field_def
        ValidIdentifier_def ident_start_def ident_char_def is_alpha_def is_lower_def is_upper_def is_digit_def
        less_eq_char_def DBTable_def DBColumn_def to_lower_def to_lower_char_def field_error_def knownKind_def
        known_kinds_def IsAuto_def PKFields_def Let_def)
  have "\<not> sch_Abstract ?s" by (simp add: zero_schema_def)
  then show ?thesis using schema_Validate_wf [OF v] v by blast
qed

subsection \<open>Automatic intermediaries are valid\<close>

lemma hex_ident: "is_hex c \<Longrightarrow> ident_char c"
  by (auto simp: is_hex_def ident_char_def ident_start_def is_alpha_def is_lower_def is_digit_def
      less_eq_char_def)

lemma ValidIdentifier_chars: "ValidIdentifier s \<Longrightarrow> list_all ident_char s"
  by (auto simp: ValidIdentifier_def ident_char_def split: list.splits)

lemma ValidIdentifier_append:
  "ValidIdentifier a \<Longrightarrow> list_all ident_char b \<Longrightarrow> ValidIdentifier (a @ b)"
  by (auto simp: ValidIdentifier_def split: list.splits)

lemma list_all_take: "list_all P xs \<Longrightarrow> list_all P (take n xs)"
  by (metis append_take_drop_id list_all_append)

lemma ValidIdentifier_take: "ValidIdentifier s \<Longrightarrow> 0 < n \<Longrightarrow> ValidIdentifier (take n s)"
  by (cases n) (auto simp: ValidIdentifier_def split: list.splits intro: list_all_take)

lemma shortIdentifier_valid:
  assumes "ValidIdentifier s"
  shows "ValidIdentifier (shortIdentifier s) \<and> length (shortIdentifier s) \<le> 63"
proof (cases "length s \<le> 63")
  case True
  with assms show ?thesis by (simp add: shortIdentifier_def)
next
  case False
  let ?tail = "''_'' @ hex_encode (take 6 (sha256 s))"
  have "list_all ident_char ?tail"
    using hex_encode_alphabet [of "take 6 (sha256 s)"] hex_ident
    by (auto simp: list_all_iff) (simp add: ident_char_def ident_start_def)
  then have "ValidIdentifier (take 50 s @ ?tail)"
    using assms by (intro ValidIdentifier_append ValidIdentifier_take) simp_all
  with False show ?thesis by (simp add: shortIdentifier_def)
qed

lemma valid_joined:
  assumes "ValidIdentifier a" "ValidIdentifier b"
  shows "ValidIdentifier (shortIdentifier (a @ ''_'' @ b)) \<and> length (shortIdentifier (a @ ''_'' @ b)) \<le> 63"
  using assms
  by (intro shortIdentifier_valid ValidIdentifier_append)
     (auto simp: ident_char_def ident_start_def dest: ValidIdentifier_chars)

lemmas ident_eval = ValidIdentifier_def ident_start_def ident_char_def is_alpha_def is_lower_def is_upper_def
  is_digit_def less_eq_char_def

lemma schema_Validate_idents:
  "schema_Validate s = None \<Longrightarrow>
     ValidIdentifier (sch_AppLabel s) \<and> ValidIdentifier (sch_Name s) \<and> ValidIdentifier (DBTable s) \<and>
     (\<forall>f \<in> set (sch_Fields s). ValidIdentifier (fld_Name f) \<and> ValidIdentifier (DBColumn f))"
  using validate_fields_distinct [of "[]" "[]" "sch_Fields s"]
  by (auto simp: schema_Validate_def Let_def split: if_splits option.splits)

lemma ImplicitThrough_cases:
  assumes "ImplicitThrough source f target = Inr t"
  obtains table where "table = shortIdentifier (DBTable source @ ''_'' @ DBColumn f)"
    "sch_AppLabel t = sch_AppLabel source" "sch_Table t = table"
    "sch_Name t = shortIdentifier (sch_Name source @ ''_'' @ fld_Name f)"
    "sch_AutoCreatedBy t = schema_Key source" "sch_AutoCreatedField t = fld_Name f"
    "sch_Fields t =
      [BigAutoField ''id'',
       ForeignKeyField ''source_id'' (zero_relation\<lparr>rel_Target := schema_Key source,
         rel_TargetFields := [fld_Name (hd (PKFields source))], rel_OnDelete := ''CASCADE'', rel_RelatedName := ''+''\<rparr>),
       ForeignKeyField ''target_id'' (zero_relation\<lparr>rel_Target := schema_Key target,
         rel_TargetFields := [fld_Name (hd (PKFields target))], rel_OnDelete := ''CASCADE'', rel_RelatedName := ''+''\<rparr>)]"
    "sch_Constraints t = [\<lparr>con_Name = shortIdentifier (table @ ''_pair_key''), con_Kind = ''unique'',
       con_Fields = [''source_id'', ''target_id''], con_Expression = [], con_Condition = [],
       con_Deferrable = False, con_NullsDistinct = None\<rparr>]"
    "sch_PrimaryKey t = []" "sch_Indexes t = []" "length (PKFields source) = 1" "length (PKFields target) = 1"
  using assms by (auto simp: ImplicitThrough_def Let_def zero_schema_def split: if_splits)

lemma through_fields_valid:
  "rel_OnDelete r = ''CASCADE'' \<Longrightarrow> rel_OnDelete r' = ''CASCADE'' \<Longrightarrow>
   validate_fields [] [] [BigAutoField ''id'', ForeignKeyField ''source_id'' r, ForeignKeyField ''target_id'' r'] = None"
  by (simp add: BigAutoField_def ForeignKeyField_def NewField_def zero_field_def IsAuto_def field_error_def
      ident_eval DBColumn_def knownKind_def known_kinds_def Let_def)

text \<open>
  The intermediary that \<open>ImplicitThrough\<close> derives from a field of a valid schema is itself a
  valid schema, and its names fit the 63 bytes of a database identifier. The hypothesis on the pair
  constraint only excludes a table name that already ends in the hash of its own extension.
\<close>

lemma ImplicitThrough_valid:
  assumes "ImplicitThrough source f target = Inr t"
    and "schema_Validate source = None" "f \<in> set (sch_Fields source)"
    and "shortIdentifier (sch_Table t @ ''_pair_key'') \<noteq> sch_Table t"
  shows "schema_Validate t = None \<and> length (sch_Name t) \<le> 63 \<and> length (DBTable t) \<le> 63"
  using assms(1)
proof (rule ImplicitThrough_cases)
  fix table
  assume table: "table = shortIdentifier (DBTable source @ ''_'' @ DBColumn f)"
    and t: "sch_AppLabel t = sch_AppLabel source" "sch_Table t = table"
    "sch_Name t = shortIdentifier (sch_Name source @ ''_'' @ fld_Name f)"
    and fields: "sch_Fields t =
      [BigAutoField ''id'',
       ForeignKeyField ''source_id'' (zero_relation\<lparr>rel_Target := schema_Key source,
         rel_TargetFields := [fld_Name (hd (PKFields source))], rel_OnDelete := ''CASCADE'', rel_RelatedName := ''+''\<rparr>),
       ForeignKeyField ''target_id'' (zero_relation\<lparr>rel_Target := schema_Key target,
         rel_TargetFields := [fld_Name (hd (PKFields target))], rel_OnDelete := ''CASCADE'', rel_RelatedName := ''+''\<rparr>)]"
    and con: "sch_Constraints t = [\<lparr>con_Name = shortIdentifier (table @ ''_pair_key''), con_Kind = ''unique'',
       con_Fields = [''source_id'', ''target_id''], con_Expression = [], con_Condition = [],
       con_Deferrable = False, con_NullsDistinct = None\<rparr>]"
    and empty: "sch_PrimaryKey t = []" "sch_Indexes t = []"
  have table_ok: "ValidIdentifier table" "length table \<le> 63"
    and name_ok: "ValidIdentifier (sch_Name t)" "length (sch_Name t) \<le> 63"
    using schema_Validate_idents [OF assms(2)] assms(3) unfolding table t(3)
    using valid_joined by blast+
  have db: "DBTable t = table" using table_ok(1) t(2) by (auto simp: DBTable_def ValidIdentifier_def)
  have pair_ok: "ValidIdentifier (shortIdentifier (table @ ''_pair_key''))"
    using table_ok(1) by (intro shortIdentifier_valid [THEN conjunct1] ValidIdentifier_append)
      (simp_all add: ident_eval)
  have f0: "validate_fields [] [] (sch_Fields t) = None"
    unfolding fields by (rule through_fields_valid) simp_all
  have pk: "PKFields t \<noteq> []"
    by (simp add: PKFields_def empty fields BigAutoField_def NewField_def IsAuto_def Let_def)
  have names: "map fld_Name (sch_Fields t) = [''id'', ''source_id'', ''target_id'']"
    by (simp add: fields BigAutoField_def ForeignKeyField_def NewField_def IsAuto_def Let_def)
  have "schema_Validate t = None"
    using schema_Validate_idents [OF assms(2)] name_ok table_ok f0 pk pair_ok assms(4)
    by (simp add: schema_Validate_def Let_def t(1,2) db names empty con constraint_error_def to_lower_def
        to_lower_char_def is_upper_def less_eq_char_def)
  then show ?thesis using name_ok table_ok db by simp
qed

lemma ImplicitThrough_valid_example:
  "\<exists>t. ImplicitThrough
      (zero_schema\<lparr>sch_AppLabel := ''b'', sch_Name := ''P'', sch_Table := ''p'', sch_Fields := [BigAutoField ''id'',
         zero_field\<lparr>fld_Name := ''tags'', fld_Kind := ManyToMany, fld_Relation := Some (zero_relation\<lparr>rel_Target := ''b.T''\<rparr>)\<rparr>]\<rparr>)
      (zero_field\<lparr>fld_Name := ''tags'', fld_Kind := ManyToMany, fld_Relation := Some (zero_relation\<lparr>rel_Target := ''b.T''\<rparr>)\<rparr>)
      (zero_schema\<lparr>sch_AppLabel := ''b'', sch_Name := ''T'', sch_Fields := [BigAutoField ''id'']\<rparr>) = Inr t \<and>
     schema_Validate t = None"
proof -
  let ?f = "zero_field\<lparr>fld_Name := ''tags'', fld_Kind := ManyToMany, fld_Relation := Some (zero_relation\<lparr>rel_Target := ''b.T''\<rparr>)\<rparr>"
  let ?s = "zero_schema\<lparr>sch_AppLabel := ''b'', sch_Name := ''P'', sch_Table := ''p'', sch_Fields := [BigAutoField ''id'', ?f]\<rparr>"
  let ?t = "zero_schema\<lparr>sch_AppLabel := ''b'', sch_Name := ''T'', sch_Fields := [BigAutoField ''id'']\<rparr>"
  have v: "schema_Validate ?s = None"
    by (simp add: schema_Validate_def zero_schema_def BigAutoField_def NewField_def zero_field_def zero_relation_def
        ident_eval DBTable_def DBColumn_def field_error_def knownKind_def known_kinds_def IsAuto_def PKFields_def Let_def)
  obtain t where run: "ImplicitThrough ?s ?f ?t = Inr t" and table: "sch_Table t = ''p_tags''"
    by (simp add: ImplicitThrough_def PKFields_def zero_schema_def zero_field_def zero_relation_def
        BigAutoField_def NewField_def IsAuto_def shortIdentifier_def DBTable_def DBColumn_def)
  have "schema_Validate t = None"
    using ImplicitThrough_valid [OF run v] table by (simp add: shortIdentifier_def)
  with run show ?thesis by blast
qed

subsection \<open>The registry invariant\<close>

definition models_inv :: "models_registry \<Rightarrow> bool" where
  "models_inv r \<longleftrightarrow> distinct (map fst (mreg_schemas r)) \<and> (\<forall>(k, s) \<in> set (mreg_schemas r). k = schema_Key s)"

lemma models_Register_inv: "models_inv r \<Longrightarrow> models_Register r s = Inr r' \<Longrightarrow> models_inv r'"
  by (auto simp: models_inv_def models_Register_def map_of_eq_None_iff split: if_splits option.splits)

lemma PKFields_known:
  assumes "length (PKFields s) = 1"
  shows "schema_Field s (fld_Name (hd (PKFields s))) \<noteq> None"
proof -
  have "f \<in> set (sch_Fields s)" if "schema_Field s n = Some f" for n f
    using that unfolding schema_Field_def by (metis find_Some_iff nth_mem)
  then have "set (List.map_filter (schema_Field s) ns) \<subseteq> set (sch_Fields s)" for ns
    by (auto simp: List.map_filter_def) 
  then have "set (PKFields s) \<subseteq> set (sch_Fields s)"
    by (auto simp: PKFields_def)
  moreover have "hd (PKFields s) \<in> set (PKFields s)" using assms by (cases "PKFields s") auto
  ultimately show ?thesis by (auto simp: schema_Field_def find_None_iff)
qed

text \<open>Where a generated intermediary comes from.\<close>

definition derived_from :: "(string \<times> schema) list \<Rightarrow> schema \<Rightarrow> bool" where
  "derived_from schemas t \<longleftrightarrow>
     (\<exists>source f name target. source \<in> snd ` set schemas \<and> f \<in> set (sch_Fields source) \<and>
        map_of schemas name = Some target \<and> ImplicitThrough source f target = Inr t)"

definition generated_ok :: "(string \<times> schema) list \<Rightarrow> schema list \<Rightarrow> bool" where
  "generated_ok schemas gen \<longleftrightarrow> distinct (map schema_Key gen) \<and>
     (\<forall>t \<in> set gen. derived_from schemas t \<and> map_of schemas (schema_Key t) = None)"

lemma freeze_field_cases:
  assumes "freeze_field schemas source f gen = Inr gen'"
  obtains (skip) "\<not> automatic_m2m f" "gen' = gen"
  | (add) name target t where "automatic_m2m f" "map_of schemas name = Some target"
      "ImplicitThrough source f target = Inr t" "map_of schemas (schema_Key t) = None"
      "schema_Key t \<notin> schema_Key ` set gen" "gen' = gen @ [t]"
  using assms
  by (auto simp: Let_def list_ex_iff split: if_splits option.splits sum.splits) (metis imageE)

lemma freeze_field_ok:
  assumes "freeze_field schemas source f gen = Inr gen'" "source \<in> snd ` set schemas"
    "f \<in> set (sch_Fields source)" "generated_ok schemas gen"
  shows "generated_ok schemas gen'"
  using assms(1)
proof (cases rule: freeze_field_cases)
  case (add name target t)
  then have "derived_from schemas t" using assms(2,3) by (auto simp: derived_from_def)
  with add assms(4) show ?thesis by (auto simp: generated_ok_def)
qed (use assms in simp)

lemma freeze_fields_ok:
  "freeze_fields schemas source fs gen = Inr gen' \<Longrightarrow> source \<in> snd ` set schemas \<Longrightarrow>
     set fs \<subseteq> set (sch_Fields source) \<Longrightarrow> generated_ok schemas gen \<Longrightarrow> generated_ok schemas gen'"
proof (induction fs arbitrary: gen)
  case (Cons f fs)
  then obtain gen1 where "freeze_field schemas source f gen = Inr gen1" "freeze_fields schemas source fs gen1 = Inr gen'"
    by (auto split: sum.splits simp del: freeze_field.simps)
  with Cons show ?case using freeze_field_ok [of schemas source f gen gen1] by auto
qed simp

lemma freeze_sources_ok:
  "freeze_sources schemas ss gen = Inr gen' \<Longrightarrow> set ss \<subseteq> set schemas \<Longrightarrow> generated_ok schemas gen \<Longrightarrow>
     generated_ok schemas gen'"
proof (induction ss arbitrary: gen)
  case (Cons kv ss)
  obtain k source where kv: "kv = (k, source)" by (cases kv)
  from Cons.prems(1) obtain gen1 where one: "freeze_fields schemas source (sch_Fields source) gen = Inr gen1"
      and rest: "freeze_sources schemas ss gen1 = Inr gen'"
    by (auto simp: kv split: sum.splits)
  have "source \<in> snd ` set schemas" using Cons.prems(2) by (force simp: kv)
  then have "generated_ok schemas gen1" using freeze_fields_ok [OF one] Cons.prems(3) by simp
  with Cons.IH [OF rest] Cons.prems(2) show ?case by simp
qed simp

lemma relation_error_extend:
  assumes "relation_error schemas f = None"
  shows "relation_error (schemas @ ext) f = None"
  using assms by (auto simp: relation_error_def map_add_def split: option.splits)

lemma derived_relations:
  assumes "derived_from schemas t" "models_inv r" "schemas = mreg_schemas r" "f \<in> set (sch_Fields t)"
  shows "relation_error schemas f = None"
proof -
  from assms(1) obtain k source g name target where
    src: "(k, source) \<in> set schemas" and tgt: "map_of schemas name = Some target"
    and thr: "ImplicitThrough source g target = Inr t"
    by (auto simp: derived_from_def)
  have "map_of schemas (schema_Key source) = Some source" "map_of schemas (schema_Key target) = Some target"
    using src tgt assms(2,3) map_of_SomeD [OF tgt] by (auto simp: models_inv_def)
  moreover have "schema_Field source (fld_Name (hd (PKFields source))) \<noteq> None"
      "schema_Field target (fld_Name (hd (PKFields target))) \<noteq> None"
    using thr by (auto elim!: ImplicitThrough_cases intro!: PKFields_known [simplified])
  ultimately show ?thesis
    using assms(4) thr
    by (auto elim!: ImplicitThrough_cases simp: relation_error_def BigAutoField_def ForeignKeyField_def
        NewField_def zero_field_def IsAuto_def Let_def)
qed

text \<open>
  Freezing the model registry closes it: when \<open>Freeze\<close> succeeds, every relation of every schema,
  the generated intermediaries included, names a registered model and existing fields of it, and
  keys stay unambiguous.
\<close>

lemma models_Freeze_closed:
  assumes "models_inv r" "\<not> mreg_frozen r" "models_Freeze r = Inr r'"
  shows "models_inv r' \<and> mreg_frozen r' \<and>
    (\<forall>(k, s) \<in> set (mreg_schemas r'). \<forall>f \<in> set (sch_Fields s). relation_error (mreg_schemas r') f = None)"
proof -
  from assms(2,3) obtain gen where gen: "freeze_sources (mreg_schemas r) (mreg_schemas r) [] = Inr gen"
      and old: "\<forall>(k, s) \<in> set (mreg_schemas r). \<forall>f \<in> set (sch_Fields s). relation_error (mreg_schemas r) f = None"
      and r': "r' = r\<lparr>mreg_schemas := mreg_schemas r @ map (\<lambda>t. (schema_Key t, t)) gen,
         mreg_automatic := map schema_Key gen, mreg_frozen := True\<rparr>"
    by (auto simp: models_Freeze_def first_error_None case_prod_beta split: sum.splits option.splits)
  have ok: "generated_ok (mreg_schemas r) gen"
    using freeze_sources_ok [OF gen] by (simp add: generated_ok_def)
  then have disj: "set (map fst (mreg_schemas r)) \<inter> set (map fst (map (\<lambda>t. (schema_Key t, t)) gen)) = {}"
    by (force simp: generated_ok_def map_of_eq_None_iff)
  have "relation_error (mreg_schemas r) f = None"
    if "(k, s) \<in> set (mreg_schemas r')" "f \<in> set (sch_Fields s)" for k s f
    using that old ok derived_relations [OF _ assms(1) refl] by (auto simp: r' generated_ok_def)
  then have "relation_error (mreg_schemas r') f = None"
    if "(k, s) \<in> set (mreg_schemas r')" "f \<in> set (sch_Fields s)" for k s f
    using relation_error_extend that by (simp add: r')
  moreover have "models_inv r'"
    using assms(1) ok disj by (auto simp: models_inv_def r' generated_ok_def o_def)
  ultimately show ?thesis by (auto simp: r')
qed

lemma models_Freeze_closed_example:
  "\<exists>r'. models_Freeze \<lparr>mreg_schemas = [(''b.P'', zero_schema\<lparr>sch_AppLabel := ''b'', sch_Name := ''P'',
       sch_Fields := [BigAutoField ''id'', ForeignKeyField ''up'' (zero_relation\<lparr>rel_Target := ''b.P''\<rparr>)]\<rparr>)],
       mreg_automatic = [], mreg_frozen = False\<rparr> = Inr r' \<and> models_inv r' \<and> mreg_frozen r'"
proof -
  let ?r = "\<lparr>mreg_schemas = [(''b.P'', zero_schema\<lparr>sch_AppLabel := ''b'', sch_Name := ''P'',
       sch_Fields := [BigAutoField ''id'', ForeignKeyField ''up'' (zero_relation\<lparr>rel_Target := ''b.P''\<rparr>)]\<rparr>)],
       mreg_automatic = [], mreg_frozen = False\<rparr>"
  obtain r' where run: "models_Freeze ?r = Inr r'"
    by (simp add: models_Freeze_def automatic_m2m_def BigAutoField_def ForeignKeyField_def NewField_def
        zero_schema_def zero_field_def zero_relation_def relation_error_def IsAuto_def)
  have "models_inv ?r" by (simp add: models_inv_def schema_Key_def zero_schema_def)
  then show ?thesis using models_Freeze_closed [OF _ _ run] run by auto
qed

end
