(* ===== verification/Migration_State.thy ===== *)
theory Migration_State
  imports Models_Schema "HOL-Library.AList"
begin

text \<open>
  Historical model state: the operations of \<open>core/migrations/migrations.go\<close>, their effect on
  schemas (\<open>rename_state.go\<close>, \<open>index_lifecycle.go\<close>, \<open>constraint_lifecycle.go\<close>, \<open>schemaState\<close> of
  \<open>planning.go\<close>) and the detection of changes (\<open>detectIndexes\<close>, \<open>detectConstraints\<close>,
  \<open>detectFieldRenames\<close>, \<open>Detect\<close>). Maps from model keys to schemas are association lists.
\<close>

subsection \<open>Operations\<close>

record operation =
  op_Kind :: string
  op_Schema :: schema
  op_Field :: field
  op_OldField :: field
  op_Index :: model_index
  op_IndexOrder :: "string list"
  op_OldIndexOrder :: "string list"
  op_Constraint :: "model_constraint option"
  op_ConstraintOrder :: "string list"
  op_OldConstraintOrder :: "string list"
  op_Name :: string
  op_OldName :: string
  op_SQL :: string
  op_ReverseSQL :: string
  op_Args :: "go_any list"
  op_ReverseArgs :: "go_any list"
  op_CodeID :: string
  op_Forward :: bool
  op_Backward :: bool

datatype migration_error =
    Mig string
  | Mig_invalid schema_error
  | Mig_unsupported string

definition zero_index :: model_index where
  "zero_index = \<lparr>idx_Name = [], idx_Fields = [], idx_Unique = False, idx_Method = [], idx_Condition = [],
     idx_Include = [], idx_Concurrent = False, idx_NullsDistinct = None\<rparr>"

definition zero_operation :: operation where
  "zero_operation = \<lparr>op_Kind = [], op_Schema = zero_schema, op_Field = zero_field, op_OldField = zero_field,
     op_Index = zero_index, op_IndexOrder = [], op_OldIndexOrder = [], op_Constraint = None,
     op_ConstraintOrder = [], op_OldConstraintOrder = [], op_Name = [], op_OldName = [], op_SQL = [],
     op_ReverseSQL = [], op_Args = [], op_ReverseArgs = [], op_CodeID = [], op_Forward = False,
     op_Backward = False\<rparr>"

definition CreateModel :: "schema \<Rightarrow> operation" where
  "CreateModel s = zero_operation\<lparr>op_Kind := ''create_model'', op_Schema := s\<rparr>"
definition DeleteModel :: "schema \<Rightarrow> operation" where
  "DeleteModel s = zero_operation\<lparr>op_Kind := ''delete_model'', op_Schema := s\<rparr>"
definition AddField :: "schema \<Rightarrow> field \<Rightarrow> operation" where
  "AddField s f = zero_operation\<lparr>op_Kind := ''add_field'', op_Schema := s, op_Field := f\<rparr>"
definition RemoveField :: "schema \<Rightarrow> field \<Rightarrow> operation" where
  "RemoveField s f = zero_operation\<lparr>op_Kind := ''remove_field'', op_Schema := s, op_Field := f\<rparr>"
definition AlterField :: "schema \<Rightarrow> field \<Rightarrow> field \<Rightarrow> operation" where
  "AlterField s old new = zero_operation\<lparr>op_Kind := ''alter_field'', op_Schema := s, op_OldField := old, op_Field := new\<rparr>"
definition RenameField :: "schema \<Rightarrow> string \<Rightarrow> string \<Rightarrow> operation" where
  "RenameField s old new = zero_operation\<lparr>op_Kind := ''rename_field'', op_Schema := s, op_OldName := old, op_Name := new\<rparr>"
definition AddIndex :: "schema \<Rightarrow> model_index \<Rightarrow> operation" where
  "AddIndex s ix = zero_operation\<lparr>op_Kind := ''add_index'', op_Schema := s, op_Index := ix\<rparr>"
definition RemoveIndex :: "schema \<Rightarrow> model_index \<Rightarrow> operation" where
  "RemoveIndex s ix = zero_operation\<lparr>op_Kind := ''remove_index'', op_Schema := s, op_Index := ix\<rparr>"
definition AddConstraint :: "schema \<Rightarrow> model_constraint \<Rightarrow> operation" where
  "AddConstraint s c = zero_operation\<lparr>op_Kind := ''add_constraint'', op_Schema := s, op_Constraint := Some c\<rparr>"
definition RemoveConstraint :: "schema \<Rightarrow> model_constraint \<Rightarrow> operation" where
  "RemoveConstraint s c = zero_operation\<lparr>op_Kind := ''remove_constraint'', op_Schema := s, op_Constraint := Some c\<rparr>"

lemma operation_kinds [simp]:
  "op_Kind (CreateModel s) = ''create_model''" "op_Kind (DeleteModel s) = ''delete_model''"
  "op_Kind (AddField s f) = ''add_field''" "op_Kind (RemoveField s f) = ''remove_field''"
  "op_Kind (AlterField s f f') = ''alter_field''" "op_Kind (RenameField s old new) = ''rename_field''"
  "op_Kind (AddIndex s ix) = ''add_index''" "op_Kind (RemoveIndex s ix) = ''remove_index''"
  "op_Kind (AddConstraint s c) = ''add_constraint''" "op_Kind (RemoveConstraint s c) = ''remove_constraint''"
  by (simp_all add: CreateModel_def DeleteModel_def AddField_def RemoveField_def AlterField_def RenameField_def
      AddIndex_def RemoveIndex_def AddConstraint_def RemoveConstraint_def)

lemma operation_parts [simp]:
  "op_Schema (DeleteModel s) = s" "op_Schema (RemoveField s f) = s" "op_Field (RemoveField s f) = f"
  "op_Index (AddIndex s ix) = ix" "op_Index (RemoveIndex s ix) = ix"
  by (simp_all add: DeleteModel_def RemoveField_def AddIndex_def RemoveIndex_def)

subsection \<open>Renaming a field\<close>

definition rename_names :: "string \<Rightarrow> string \<Rightarrow> string list \<Rightarrow> string list" where
  "rename_names old new names = map (\<lambda>n. if n = old then new else n) names"

definition renameRelationFieldReferences ::
  "relation option \<Rightarrow> string \<Rightarrow> string \<Rightarrow> string \<Rightarrow> relation option" where
  "renameRelationFieldReferences rel model old new =
     (case rel of
        None \<Rightarrow> None
      | Some r \<Rightarrow>
          let r1 = (if rel_Target r = model then r\<lparr>rel_TargetFields := rename_names old new (rel_TargetFields r)\<rparr> else r)
          in Some (if rel_Through r1 = model then r1\<lparr>rel_ThroughFields := rename_names old new (rel_ThroughFields r1)\<rparr>
                   else r1))"

definition rename_in_field :: "string \<Rightarrow> string \<Rightarrow> string \<Rightarrow> field \<Rightarrow> field" where
  "rename_in_field key old new f =
     f\<lparr>fld_Name := (if fld_Name f = old then new else fld_Name f),
       fld_UniqueForDate := (if fld_UniqueForDate f = old then new else fld_UniqueForDate f),
       fld_UniqueForMonth := (if fld_UniqueForMonth f = old then new else fld_UniqueForMonth f),
       fld_UniqueForYear := (if fld_UniqueForYear f = old then new else fld_UniqueForYear f),
       fld_Relation := renameRelationFieldReferences (fld_Relation f) key old new\<rparr>"

definition trim_prefix :: "string \<Rightarrow> string \<Rightarrow> string" where
  "trim_prefix s p = (if has_prefix s p then drop (length p) s else s)"

definition trim_suffix :: "string \<Rightarrow> string \<Rightarrow> string" where
  "trim_suffix s p = (if has_suffix s p then take (length s - length p) s else s)"

definition rename_ordering :: "string \<Rightarrow> string \<Rightarrow> string \<Rightarrow> string" where
  "rename_ordering old new name = (if trim_prefix name ''-'' = old then trim_suffix name old @ new else name)"

definition renameFieldState :: "schema \<Rightarrow> string \<Rightarrow> string \<Rightarrow> migration_error + schema" where
  "renameFieldState s old new =
     (if schema_Field s old = None then Inl (Mig ''renamed field does not exist'')
      else if schema_Field s new \<noteq> None \<or> \<not> ValidIdentifier new then Inl (Mig ''invalid or colliding renamed field'')
      else if list_ex (\<lambda>ix. idx_Condition ix \<noteq> []) (sch_Indexes s)
        then Inl (Mig ''field rename with conditional indexes requires explicit state and SQL operations'')
      else if list_ex (\<lambda>c. con_Condition c \<noteq> [] \<or> con_Expression c \<noteq> []) (sch_Constraints s)
        then Inl (Mig ''field rename with SQL expressions requires explicit state and SQL operations'')
      else Inr (s\<lparr>sch_Fields := map (rename_in_field (schema_Key s) old new) (sch_Fields s),
                  sch_PrimaryKey := rename_names old new (sch_PrimaryKey s),
                  sch_Indexes := map (\<lambda>ix. ix\<lparr>idx_Fields := rename_names old new (idx_Fields ix),
                                              idx_Include := rename_names old new (idx_Include ix)\<rparr>) (sch_Indexes s),
                  sch_Constraints := map (\<lambda>c. c\<lparr>con_Fields := rename_names old new (con_Fields c)\<rparr>) (sch_Constraints s),
                  sch_Ordering := map (rename_ordering old new) (sch_Ordering s),
                  sch_ParentLink := (if sch_ParentLink s = old then new else sch_ParentLink s)\<rparr>))"

subsection \<open>Indexes and constraints\<close>

text \<open>\<open>indexEquivalent\<close> and \<open>constraintEquivalent\<close> compare every component by value.\<close>

definition indexEquivalent :: "model_index \<Rightarrow> model_index \<Rightarrow> bool" where
  "indexEquivalent a b =
     (idx_Fields a = idx_Fields b \<and> idx_Include a = idx_Include b \<and>
      a\<lparr>idx_Fields := [], idx_Include := []\<rparr> = b\<lparr>idx_Fields := [], idx_Include := []\<rparr>)"

definition constraintEquivalent :: "model_constraint \<Rightarrow> model_constraint \<Rightarrow> bool" where
  "constraintEquivalent a b = (con_Fields a = con_Fields b \<and> a\<lparr>con_Fields := []\<rparr> = b\<lparr>con_Fields := []\<rparr>)"

definition validated :: "schema \<Rightarrow> migration_error + schema" where
  "validated s = (case schema_Validate s of Some e \<Rightarrow> Inl (Mig_invalid e) | None \<Rightarrow> Inr s)"

fun position :: "('a \<Rightarrow> bool) \<Rightarrow> 'a list \<Rightarrow> nat option" where
  "position p [] = None"
| "position p (x # xs) = (if p x then Some 0 else map_option Suc (position p xs))"

definition remove_at :: "nat \<Rightarrow> 'a list \<Rightarrow> 'a list" where
  "remove_at i xs = take i xs @ drop (Suc i) xs"

text \<open>
  The reordering loop shared by indexes and constraints: look every name up in \<open>byName\<close> and
  delete it, so that a repeated name fails. \<open>byName\<close> is built by a loop in which later entries win.
\<close>

fun reorder :: "(string \<times> 'a) list \<Rightarrow> string list \<Rightarrow> 'a list option" where
  "reorder byName [] = Some []"
| "reorder byName (n # ns) =
     (case map_of byName n of
        None \<Rightarrow> None
      | Some x \<Rightarrow> map_option (\<lambda>xs. x # xs) (reorder (AList.delete n byName) ns))"

definition by_name :: "('a \<Rightarrow> string) \<Rightarrow> 'a list \<Rightarrow> (string \<times> 'a) list" where
  "by_name name xs = rev (map (\<lambda>x. (name x, x)) xs)"

definition applyIndexState :: "schema \<Rightarrow> operation \<Rightarrow> migration_error + schema" where
  "applyIndexState s op =
     (let pos = position (\<lambda>ix. idx_Name ix = idx_Name (op_Index op)) (sch_Indexes s) in
      if op_Kind op = ''add_index'' then
        (if pos \<noteq> None then Inl (Mig ''index name already exists in historical state'')
         else validated (s\<lparr>sch_Indexes := sch_Indexes s @ [op_Index op]\<rparr>))
      else if op_Kind op = ''remove_index'' then
        (case pos of
           None \<Rightarrow> Inl (Mig ''removed index differs from historical state'')
         | Some i \<Rightarrow>
             if \<not> indexEquivalent (sch_Indexes s ! i) (op_Index op)
               then Inl (Mig ''removed index differs from historical state'')
             else validated (s\<lparr>sch_Indexes := remove_at i (sch_Indexes s)\<rparr>))
      else if op_Kind op = ''index_order'' then
        (if map idx_Name (sch_Indexes s) \<noteq> op_OldIndexOrder op \<or> length (op_IndexOrder op) \<noteq> length (sch_Indexes s)
           then Inl (Mig ''index order differs from historical state'')
         else case reorder (by_name idx_Name (sch_Indexes s)) (op_IndexOrder op) of
           None \<Rightarrow> Inl (Mig ''index order must name every index exactly once'')
         | Some ixs \<Rightarrow> validated (s\<lparr>sch_Indexes := ixs\<rparr>))
      else validated s)"

definition applyConstraintState :: "schema \<Rightarrow> operation \<Rightarrow> migration_error + schema" where
  "applyConstraintState s op =
     (if op_Kind op = ''constraint_order'' then
        (if map con_Name (sch_Constraints s) \<noteq> op_OldConstraintOrder op \<or>
            length (op_ConstraintOrder op) \<noteq> length (sch_Constraints s)
           then Inl (Mig ''constraint order differs from historical state'')
         else case reorder (by_name con_Name (sch_Constraints s)) (op_ConstraintOrder op) of
           None \<Rightarrow> Inl (Mig ''constraint order must name every constraint exactly once'')
         | Some cs \<Rightarrow> validated (s\<lparr>sch_Constraints := cs\<rparr>))
      else case op_Constraint op of
        None \<Rightarrow> Inl (Mig ''constraint operation requires immutable descriptor'')
      | Some c \<Rightarrow>
          (let pos = position (\<lambda>x. con_Name x = con_Name c) (sch_Constraints s) in
           if op_Kind op = ''add_constraint'' then
             (if pos \<noteq> None then Inl (Mig ''constraint already exists in historical state'')
              else validated (s\<lparr>sch_Constraints := sch_Constraints s @ [c]\<rparr>))
           else if op_Kind op = ''remove_constraint'' then
             (case pos of
                None \<Rightarrow> Inl (Mig ''removed constraint differs from historical state'')
              | Some i \<Rightarrow>
                  if \<not> constraintEquivalent (sch_Constraints s ! i) c
                    then Inl (Mig ''removed constraint differs from historical state'')
                  else validated (s\<lparr>sch_Constraints := remove_at i (sch_Constraints s)\<rparr>))
           else validated s))"

subsection \<open>Detecting index and constraint changes\<close>

text \<open>
  The result of \<open>detectIndexes\<close>: the removals, the additions and the reordering operation, if any.
  The two loops return the operations and the list \<open>result\<close> the code accumulates.
\<close>

definition concurrent_in :: "(string \<times> model_index) list \<Rightarrow> string \<Rightarrow> bool" where
  "concurrent_in m n = (case map_of m n of None \<Rightarrow> False | Some ix \<Rightarrow> idx_Concurrent ix)"

definition kept_index :: "(string \<times> model_index) list \<Rightarrow> model_index \<Rightarrow> bool" where
  "kept_index m ix = (case map_of m (idx_Name ix) of None \<Rightarrow> False | Some other \<Rightarrow> indexEquivalent ix other)"

fun detect_removed :: "schema \<Rightarrow> (string \<times> model_index) list \<Rightarrow> model_index list \<Rightarrow>
    migration_error + (operation list \<times> model_index list)" where
  "detect_removed before next [] = Inr ([], [])"
| "detect_removed before next (ix # ixs) =
     (if kept_index next ix then
        (case detect_removed before next ixs of Inl e \<Rightarrow> Inl e | Inr (ops, kept) \<Rightarrow> Inr (ops, ix # kept))
      else if idx_Concurrent ix \<or> concurrent_in next (idx_Name ix)
        then Inl (Mig_unsupported ''Concurrent index changes require an explicit online migration'')
      else case detect_removed before next ixs of
          Inl e \<Rightarrow> Inl e | Inr (ops, kept) \<Rightarrow> Inr (RemoveIndex before ix # ops, kept))"

fun detect_added :: "schema \<Rightarrow> (string \<times> model_index) list \<Rightarrow> model_index list \<Rightarrow>
    migration_error + (operation list \<times> model_index list)" where
  "detect_added after old [] = Inr ([], [])"
| "detect_added after old (ix # ixs) =
     (if kept_index old ix then detect_added after old ixs
      else if idx_Concurrent ix \<or> concurrent_in old (idx_Name ix)
        then Inl (Mig_unsupported ''Concurrent index changes require an explicit online migration'')
      else case detect_added after old ixs of
          Inl e \<Rightarrow> Inl e | Inr (ops, added) \<Rightarrow> Inr (AddIndex after ix # ops, ix # added))"

definition detectIndexes :: "schema \<Rightarrow> schema \<Rightarrow>
    migration_error + (operation list \<times> operation list \<times> operation option)" where
  "detectIndexes before after =
     (let old = by_name idx_Name (sch_Indexes before); next = by_name idx_Name (sch_Indexes after) in
      if \<not> distinct (map idx_Name (sch_Indexes before)) then Inl (Mig ''historical index names are ambiguous'')
      else case detect_removed before next (sch_Indexes before) of
        Inl e \<Rightarrow> Inl e
      | Inr (remove, kept) \<Rightarrow>
          (case detect_added after old (sch_Indexes after) of
             Inl e \<Rightarrow> Inl e
           | Inr (add, added) \<Rightarrow>
               (let current = map idx_Name (kept @ added); desired = map idx_Name (sch_Indexes after) in
                Inr (remove, add,
                  if current = desired then None
                  else Some (zero_operation\<lparr>op_Kind := ''index_order'', op_Schema := after,
                               op_OldIndexOrder := current, op_IndexOrder := desired\<rparr>)))))"

definition kept_constraint :: "(string \<times> model_constraint) list \<Rightarrow> model_constraint \<Rightarrow> bool" where
  "kept_constraint m c = (case map_of m (con_Name c) of None \<Rightarrow> False | Some other \<Rightarrow> constraintEquivalent c other)"

definition detectConstraints :: "schema \<Rightarrow> schema \<Rightarrow>
    migration_error + (operation list \<times> operation list \<times> operation option)" where
  "detectConstraints before after =
     (let old = by_name con_Name (sch_Constraints before); next = by_name con_Name (sch_Constraints after) in
      if \<not> distinct (map con_Name (sch_Constraints before)) then Inl (Mig ''historical constraint names are ambiguous'')
      else
        let kept = filter (kept_constraint next) (sch_Constraints before);
            added = filter (\<lambda>c. \<not> kept_constraint old c) (sch_Constraints after);
            current = map con_Name (kept @ added);
            desired = map con_Name (sch_Constraints after)
        in Inr (map (RemoveConstraint before) (filter (\<lambda>c. \<not> kept_constraint next c) (sch_Constraints before)),
                map (AddConstraint after) added,
                if current = desired then None
                else Some (zero_operation\<lparr>op_Kind := ''constraint_order'', op_Schema := after,
                             op_OldConstraintOrder := current, op_ConstraintOrder := desired\<rparr>)))"

subsection \<open>Field state\<close>

fun replace_or_append :: "string \<Rightarrow> field \<Rightarrow> field list \<Rightarrow> field list" where
  "replace_or_append old f [] = [f]"
| "replace_or_append old f (g # gs) = (if fld_Name g = old then f # gs else g # replace_or_append old f gs)"

definition fieldStateAfter :: "schema \<Rightarrow> string \<Rightarrow> field \<Rightarrow> schema" where
  "fieldStateAfter s old f = s\<lparr>sch_Fields := replace_or_append old f (sch_Fields s)\<rparr>"

definition fieldEquivalent :: "field \<Rightarrow> field \<Rightarrow> bool" where
  "fieldEquivalent a b =
     (a\<lparr>fld_Validators := 0, fld_DefaultFunc := False, fld_Codec := False\<rparr> =
      b\<lparr>fld_Validators := 0, fld_DefaultFunc := False, fld_Codec := False\<rparr>)"

definition supportedModelStateChange :: "schema \<Rightarrow> schema \<Rightarrow> migration_error option" where
  "supportedModelStateChange before after =
     (if before\<lparr>sch_Fields := [], sch_Indexes := [], sch_Constraints := []\<rparr> =
         after\<lparr>sch_Fields := [], sch_Indexes := [], sch_Constraints := []\<rparr> then None
      else Some (Mig_unsupported ''Model option changes require explicit state-aware model operations''))"

subsection \<open>Schema state\<close>

type_synonym schemas = "(string \<times> schema) list"

definition state_get :: "schemas \<Rightarrow> string \<Rightarrow> schema" where
  "state_get st key = (case map_of st key of None \<Rightarrow> zero_schema | Some s \<Rightarrow> s)"

definition rename_references :: "string \<Rightarrow> string \<Rightarrow> string \<Rightarrow> schemas \<Rightarrow> schemas" where
  "rename_references key old new st =
     map (\<lambda>(k, s). (k, if k = key then s
        else s\<lparr>sch_Fields := map (\<lambda>f. f\<lparr>fld_Relation := renameRelationFieldReferences (fld_Relation f) key old new\<rparr>) (sch_Fields s)\<rparr>)) st"

definition apply_operation :: "operation \<Rightarrow> schemas \<Rightarrow> migration_error + schemas" where
  "apply_operation op st =
     (let key = schema_Key (op_Schema op); s = state_get st key; kind = op_Kind op in
      if kind = ''create_model'' then Inr (AList.update key (op_Schema op) st)
      else if kind = ''delete_model'' then Inr (AList.delete key st)
      else if kind = ''add_field'' then
        Inr (AList.update key (s\<lparr>sch_Fields := sch_Fields s @ [op_Field op]\<rparr>) st)
      else if kind = ''remove_field'' then
        Inr (AList.update key (s\<lparr>sch_Fields := filter (\<lambda>f. fld_Name f \<noteq> fld_Name (op_Field op)) (sch_Fields s)\<rparr>) st)
      else if kind = ''alter_field'' then
        Inr (AList.update key (s\<lparr>sch_Fields :=
          map (\<lambda>f. if fld_Name f = fld_Name (op_OldField op) then op_Field op else f) (sch_Fields s)\<rparr>) st)
      else if kind = ''rename_field'' then
        (case renameFieldState s (op_OldName op) (op_Name op) of
           Inl e \<Rightarrow> Inl e
         | Inr s' \<Rightarrow> Inr (rename_references key (op_OldName op) (op_Name op) (AList.update key s' st)))
      else if kind = ''add_index'' \<or> kind = ''remove_index'' \<or> kind = ''index_order'' then
        (case applyIndexState s op of Inl e \<Rightarrow> Inl e | Inr s' \<Rightarrow> Inr (AList.update key s' st))
      else if kind = ''add_constraint'' \<or> kind = ''remove_constraint'' \<or> kind = ''constraint_order'' then
        (case applyConstraintState s op of Inl e \<Rightarrow> Inl e | Inr s' \<Rightarrow> Inr (AList.update key s' st))
      else Inr st)"

fun apply_operations :: "operation list \<Rightarrow> schemas \<Rightarrow> migration_error + schemas" where
  "apply_operations [] st = Inr st"
| "apply_operations (op # ops) st =
     (case apply_operation op st of Inl e \<Rightarrow> Inl e | Inr st' \<Rightarrow> apply_operations ops st')"

definition sorted_values :: "schemas \<Rightarrow> schema list" where
  "sorted_values st = map (state_get st) (sort (map fst st))"

record migration =
  mig_App :: string
  mig_Name :: string
  mig_Dependencies :: "string list"
  mig_Operations :: "operation list"
  mig_NonAtomic :: bool
  mig_Replaces :: "string list"

definition schemaState :: "migration list \<Rightarrow> migration_error + schema list" where
  "schemaState plan =
     (case apply_operations (concat (map mig_Operations plan)) [] of
        Inl e \<Rightarrow> Inl e
      | Inr st \<Rightarrow> Inr (sorted_values st))"

end
