(* ===== verification/Migration_Order.thy ===== *)
theory Migration_Order
  imports Migration_State "HOL-Library.Multiset"
begin

text \<open>
  The order of detected operations: \<open>core/migrations/dependencies.go\<close>. The dependency graph over
  the positions of the operations, the ready queue (\<open>container/heap\<close> on integers, which hands out
  the least element: an ordered list here) and the loop that empties it. \<open>Detect\<close> of
  \<open>planning.go\<close> closes the theory.
\<close>

subsection \<open>The dependency graph\<close>

record op_graph =
  og_edges :: "(nat \<times> nat) list"
  og_indegree :: "int list"

definition empty_graph :: "nat \<Rightarrow> op_graph" where
  "empty_graph n = \<lparr>og_edges = [], og_indegree = replicate n 0\<rparr>"

definition link :: "nat \<Rightarrow> nat \<Rightarrow> op_graph \<Rightarrow> op_graph" where
  "link from to g =
     (if from = to \<or> (from, to) \<in> set (og_edges g) then g
      else g\<lparr>og_edges := og_edges g @ [(from, to)],
             og_indegree := (og_indegree g)[to := og_indegree g ! to + 1]\<rparr>)"

definition constrainedRelation :: "field \<Rightarrow> bool" where
  "constrainedRelation f =
     ((fld_Kind f = ForeignKey \<or> fld_Kind f = OneToOne) \<and>
      (case fld_Relation f of None \<Rightarrow> False | Some r \<Rightarrow> \<not> rel_NoConstraint r))"

definition createsModelStorage :: "schema \<Rightarrow> bool" where
  "createsModelStorage s = (\<not> sch_Unmanaged s \<and> \<not> sch_Proxy s \<and> \<not> sch_Abstract s)"

definition relation_of :: "field \<Rightarrow> relation" where
  "relation_of f = (case fld_Relation f of None \<Rightarrow> zero_relation | Some r \<Rightarrow> r)"

definition relationKeys :: "schema \<Rightarrow> field \<Rightarrow> string list" where
  "relationKeys s f =
     (if rel_TargetFields (relation_of f) \<noteq> [] then rel_TargetFields (relation_of f)
      else map fld_Name (PKFields s))"

definition sameKeyFields :: "string list \<Rightarrow> string list \<Rightarrow> bool" where
  "sameKeyFields a b = (sort a = sort b)"

text \<open>\<open>strings.EqualFold\<close> against an ASCII word is equality of the lower-case forms here.\<close>

definition uniqueOperationFields :: "operation \<Rightarrow> string list" where
  "uniqueOperationFields op =
     (if op_Kind op = ''add_constraint'' \<or> op_Kind op = ''remove_constraint'' then
        (case op_Constraint op of
           None \<Rightarrow> []
         | Some c \<Rightarrow> if to_lower (con_Kind c) = ''unique'' \<and> con_Condition c = [] \<and> \<not> con_Deferrable c
             then con_Fields c else [])
      else if op_Kind op = ''add_index'' \<or> op_Kind op = ''remove_index'' then
        (if idx_Unique (op_Index op) \<and> idx_Condition (op_Index op) = [] then idx_Fields (op_Index op) else [])
      else [])"

text \<open>The foreign keys of the historical state, by target model, in the order of the sorted model keys.\<close>

definition inbound_references :: "schemas \<Rightarrow> string \<Rightarrow> (string \<times> field) list" where
  "inbound_references before target =
     concat (map (\<lambda>key. let s = state_get before key in
         if sch_Abstract s \<or> sch_Proxy s then []
         else map (\<lambda>f. (key, f))
                (filter (\<lambda>f. constrainedRelation f \<and> rel_Target (relation_of f) = target) (sch_Fields s)))
       (sort (map fst before)))"

text \<open>First pass: operations of one model stay in sequence, renames form one chain.\<close>

record op_scan =
  os_graph :: op_graph
  os_modelOps :: "(string \<times> nat list) list"
  os_removedModels :: "(string \<times> nat) list"
  os_removedFields :: "((string \<times> string) \<times> nat) list"
  os_lastRename :: "nat option"

definition model_ops :: "(string \<times> nat list) list \<Rightarrow> string \<Rightarrow> nat list" where
  "model_ops m key = (case map_of m key of None \<Rightarrow> [] | Some is \<Rightarrow> is)"

definition scan_operation :: "nat \<Rightarrow> operation \<Rightarrow> op_scan \<Rightarrow> op_scan" where
  "scan_operation i op sc =
     (let key = schema_Key (op_Schema op);
          previous = model_ops (os_modelOps sc) key;
          g = (if previous = [] then os_graph sc else link (last previous) i (os_graph sc));
          sc1 = sc\<lparr>os_graph := g, os_modelOps := AList.update key (previous @ [i]) (os_modelOps sc)\<rparr>
      in if op_Kind op = ''rename_field'' then
           sc1\<lparr>os_graph := (case os_lastRename sc1 of None \<Rightarrow> g | Some j \<Rightarrow> link j i g), os_lastRename := Some i\<rparr>
         else if op_Kind op = ''delete_model'' then
           sc1\<lparr>os_removedModels := AList.update key i (os_removedModels sc1)\<rparr>
         else if op_Kind op = ''remove_field'' then
           sc1\<lparr>os_removedFields := AList.update (key, fld_Name (op_Field op)) i (os_removedFields sc1)\<rparr>
         else sc1)"

fun scan_operations :: "nat \<Rightarrow> operation list \<Rightarrow> op_scan \<Rightarrow> op_scan" where
  "scan_operations i [] sc = sc"
| "scan_operations i (op # ops) sc = scan_operations (Suc i) ops (scan_operation i op sc)"

text \<open>Second pass: every other operation follows the last rename.\<close>

fun link_renames :: "nat \<Rightarrow> nat \<Rightarrow> operation list \<Rightarrow> op_graph \<Rightarrow> op_graph" where
  "link_renames r i [] g = g"
| "link_renames r i (op # ops) g =
     link_renames r (Suc i) ops (if op_Kind op \<noteq> ''rename_field'' then link r i g else g)"

text \<open>Third pass: foreign keys. A new key waits for what it refers to \<dots>\<close>

fun link_target :: "operation list \<Rightarrow> string list \<Rightarrow> nat \<Rightarrow> nat list \<Rightarrow> op_graph \<Rightarrow> op_graph" where
  "link_target ops keys i [] g = g"
| "link_target ops keys i (d # ds) g =
     (let other = ops ! d; kind = op_Kind other in
      link_target ops keys i ds
        (if kind = ''create_model'' then (if createsModelStorage (op_Schema other) then link d i g else g)
         else if kind = ''add_field'' \<or> kind = ''alter_field'' then
           (if fld_Name (op_Field other) \<in> set keys then link d i g else g)
         else if kind = ''rename_field'' then (if op_Name other \<in> set keys then link d i g else g)
         else if kind = ''add_constraint'' \<or> kind = ''add_index'' then
           (if createsModelStorage (op_Schema other) \<and> uniqueOperationFields other \<noteq> [] \<and>
               sameKeyFields (uniqueOperationFields other) keys then link d i g else g)
         else g))"

definition added_fields :: "operation \<Rightarrow> field list" where
  "added_fields op =
     (if op_Kind op = ''create_model'' then (if createsModelStorage (op_Schema op) then sch_Fields (op_Schema op) else [])
      else if op_Kind op = ''add_field'' then [op_Field op]
      else [])"

fun link_added ::
  "operation list \<Rightarrow> schemas \<Rightarrow> op_scan \<Rightarrow> nat \<Rightarrow> field list \<Rightarrow> op_graph \<Rightarrow> migration_error + op_graph" where
  "link_added ops after sc i [] g = Inr g"
| "link_added ops after sc i (f # fs) g =
     (if \<not> constrainedRelation f then link_added ops after sc i fs g
      else
        let target = rel_Target (relation_of f);
            keys = relationKeys (state_get after target) f
        in if map_of (os_removedModels sc) target \<noteq> None
             then Inl (Mig ''new foreign key refers to removed model'')
           else if map_of after target \<noteq> None \<and> keys = []
             then Inl (Mig ''new foreign key requires target fields'')
           else if map_of after target \<noteq> None \<and> list_ex (\<lambda>k. schema_Field (state_get after target) k = None) keys
             then Inl (Mig ''new foreign key refers to missing field'')
           else link_added ops after sc i fs (link_target ops keys i (model_ops (os_modelOps sc) target) g))"

text \<open>\<dots> and what a kept foreign key needs is removed only after that key.\<close>

definition affected :: "operation \<Rightarrow> string list \<Rightarrow> bool" where
  "affected op keys =
     (let unique = uniqueOperationFields op in
      if unique \<noteq> [] then sameKeyFields unique keys
      else if op_Kind op = ''remove_field'' then fld_Name (op_Field op) \<in> set keys
      else op_Kind op = ''delete_model'')"

fun link_removed ::
  "operation list \<Rightarrow> schemas \<Rightarrow> op_scan \<Rightarrow> nat \<Rightarrow> operation \<Rightarrow> (string \<times> field) list \<Rightarrow> op_graph \<Rightarrow> migration_error + op_graph" where
  "link_removed ops before sc i op [] g = Inr g"
| "link_removed ops before sc i op ((model, f) # refs) g =
     (let keys = relationKeys (state_get before (schema_Key (op_Schema op))) f in
      if \<not> affected op keys then link_removed ops before sc i op refs g
      else
        (case map_of (os_removedModels sc) model of
           Some r \<Rightarrow>
             if createsModelStorage (op_Schema (ops ! r)) then link_removed ops before sc i op refs (link r i g)
             else (case map_of (os_removedFields sc) (model, fld_Name f) of
                 Some r' \<Rightarrow> link_removed ops before sc i op refs (link r' i g)
               | None \<Rightarrow> Inl (Mig ''retained foreign-key binding''))
         | None \<Rightarrow>
             (case map_of (os_removedFields sc) (model, fld_Name f) of
                Some r' \<Rightarrow> link_removed ops before sc i op refs (link r' i g)
              | None \<Rightarrow> Inl (Mig ''retained foreign-key binding''))))"

definition removes_target :: "operation \<Rightarrow> bool" where
  "removes_target op =
     (op_Kind op = ''remove_field'' \<or>
      (op_Kind op \<in> {''delete_model'', ''remove_constraint'', ''remove_index''} \<and> createsModelStorage (op_Schema op)))"

fun link_relations ::
  "operation list \<Rightarrow> schemas \<Rightarrow> schemas \<Rightarrow> op_scan \<Rightarrow> nat \<Rightarrow> operation list \<Rightarrow> op_graph \<Rightarrow> migration_error + op_graph" where
  "link_relations ops before after sc i [] g = Inr g"
| "link_relations ops before after sc i (op # rest) g =
     (case link_added ops after sc i (added_fields op) g of
        Inl e \<Rightarrow> Inl e
      | Inr g1 \<Rightarrow>
          (case (if removes_target op
                 then link_removed ops before sc i op (inbound_references before (schema_Key (op_Schema op))) g1
                 else Inr g1) of
             Inl e \<Rightarrow> Inl e
           | Inr g2 \<Rightarrow> link_relations ops before after sc (Suc i) rest g2))"

subsection \<open>The ready queue\<close>

text \<open>
  The inner loop: the children lose one incoming edge, and those with none left become ready.
  Positions are in range; a position out of range, where Go panics, is skipped.
\<close>

fun release :: "nat list \<Rightarrow> int list \<times> nat list \<Rightarrow> int list \<times> nat list" where
  "release [] st = st"
| "release (c # cs) (indegree, ready) =
     (if c < length indegree then
        let indegree' = indegree[c := indegree ! c - 1] in
        release cs (indegree', if indegree' ! c = 0 then insort c ready else ready)
      else release cs (indegree, ready))"

definition children :: "(nat \<times> nat) list \<Rightarrow> nat \<Rightarrow> nat list" where
  "children edges n = map snd (filter (\<lambda>e. fst e = n) edges)"

definition positives :: "int list \<Rightarrow> nat" where
  "positives xs = length (filter (\<lambda>x. 0 < x) xs)"

lemma positives_update:
  "i < length xs \<Longrightarrow> positives (xs[i := v]) + (if 0 < xs ! i then 1 else 0) = positives xs + (if 0 < v then 1 else 0)"
proof (induction xs arbitrary: i)
  case (Cons x xs)
  then show ?case by (cases i) (auto simp: positives_def)
qed simp

lemma release_measure:
  "positives (fst (release cs (indegree, ready))) + length (snd (release cs (indegree, ready))) \<le>
     positives indegree + length ready"
proof (induction cs arbitrary: indegree ready)
  case (Cons c cs)
  let ?d = "indegree[c := indegree ! c - 1]"
  show ?case
  proof (cases "c < length indegree")
    case True
    have "positives ?d + (if indegree ! c = 1 then 1 else 0) \<le> positives indegree"
      using positives_update [OF True, of "indegree ! c - 1"]
      by (cases "indegree ! c = 1"; cases "1 < indegree ! c") auto
    then show ?thesis
      using True Cons [of ?d "insort c ready"] Cons [of ?d ready] by (simp add: Let_def split: if_splits)
  qed (use Cons in simp)
qed simp

function kahn :: "(nat \<times> nat) list \<Rightarrow> int list \<Rightarrow> nat list \<Rightarrow> nat list" where
  "kahn edges indegree [] = []"
| "kahn edges indegree (n # ready) =
     (case release (children edges n) (indegree, ready) of
        (indegree', ready') \<Rightarrow> n # kahn edges indegree' ready')"
  by pat_completeness auto

termination kahn
proof (relation "measure (\<lambda>(edges, indegree, ready). positives indegree + length ready)", goal_cases)
  case (2 edges indegree n ready p)
  then show ?case
    using release_measure [of "children edges n" indegree ready] by (auto simp: case_prod_beta)
qed simp

definition initial_ready :: "int list \<Rightarrow> nat list" where
  "initial_ready indegree = filter (\<lambda>i. indegree ! i = 0) [0..<length indegree]"

definition build_graph :: "operation list \<Rightarrow> schemas \<Rightarrow> schemas \<Rightarrow> migration_error + op_graph" where
  "build_graph ops before after =
     (let sc = scan_operations 0 ops
            \<lparr>os_graph = empty_graph (length ops), os_modelOps = [], os_removedModels = [],
             os_removedFields = [], os_lastRename = None\<rparr>;
          g = (case os_lastRename sc of None \<Rightarrow> os_graph sc | Some r \<Rightarrow> link_renames r 0 ops (os_graph sc))
      in link_relations ops before after sc 0 ops g)"

definition orderDetectedOperations ::
  "operation list \<Rightarrow> schemas \<Rightarrow> schemas \<Rightarrow> migration_error + operation list" where
  "orderDetectedOperations ops before after =
     (case build_graph ops before after of
        Inl e \<Rightarrow> Inl e
      | Inr g \<Rightarrow>
          (let result = kahn (og_edges g) (og_indegree g) (initial_ready (og_indegree g)) in
           if length result \<noteq> length ops
             then Inl (Mig ''operation dependency cycle requires explicit staged foreign-key migrations'')
           else Inr (map (\<lambda>i. ops ! i) result)))"

subsection \<open>The loop sorts the graph topologically\<close>

text \<open>
  \<open>pending edges out i\<close> counts the edges into \<open>i\<close> from nodes not yet output; the loop invariant
  says that the indegrees are these counts and that the nodes of count 0 are output or ready.
\<close>

definition pending :: "(nat \<times> nat) list \<Rightarrow> nat set \<Rightarrow> nat \<Rightarrow> nat" where
  "pending edges out i = length (filter (\<lambda>(a, b). b = i \<and> a \<notin> out) edges)"

definition kahn_inv :: "nat \<Rightarrow> (nat \<times> nat) list \<Rightarrow> nat list \<Rightarrow> int list \<Rightarrow> nat list \<Rightarrow> bool" where
  "kahn_inv n edges out indegree ready \<longleftrightarrow>
     length indegree = n \<and> distinct (out @ ready) \<and>
     (\<forall>i < n. indegree ! i = int (pending edges (set out) i)) \<and>
     (\<forall>i. i \<in> set out \<union> set ready \<longleftrightarrow> i < n \<and> pending edges (set out) i = 0)"

definition edges_ok :: "nat \<Rightarrow> (nat \<times> nat) list \<Rightarrow> bool" where
  "edges_ok n edges \<longleftrightarrow> distinct edges \<and> (\<forall>(a, b) \<in> set edges. a < n \<and> b < n \<and> a \<noteq> b)"

lemma release_spec:
  "distinct cs \<Longrightarrow> \<forall>c \<in> set cs. c < length indegree \<Longrightarrow>
     release cs (indegree, ready) = (indegree', ready') \<Longrightarrow>
     length indegree' = length indegree \<and>
     (\<forall>i < length indegree. indegree' ! i = indegree ! i - (if i \<in> set cs then 1 else 0)) \<and>
     mset ready' = mset ready + mset (filter (\<lambda>c. indegree ! c = 1) cs)"
proof (induction cs arbitrary: indegree ready)
  case (Cons c cs)
  let ?d = "indegree[c := indegree ! c - 1]"
  have "filter (\<lambda>x. ?d ! x = 1) cs = filter (\<lambda>x. indegree ! x = 1) cs"
    using Cons.prems(1) by (intro filter_cong refl) (metis distinct.simps(2) nth_list_update_neq)
  then show ?case
    using Cons.prems Cons.IH [of ?d "if indegree ! c - 1 = 0 then insort c ready else ready"]
    by (auto simp: Let_def nth_list_update split: if_splits)
qed simp

lemma children_spec:
  assumes "edges_ok n edges"
  shows "distinct (children edges a) \<and> set (children edges a) = {b. (a, b) \<in> set edges} \<and>
    (\<forall>b \<in> set (children edges a). b < n)"
proof -
  have "inj_on snd (set (filter (\<lambda>e. fst e = a) edges))" by (auto simp: inj_on_def)
  then have "distinct (children edges a)"
    using assms by (simp add: children_def distinct_map edges_ok_def)
  with assms show ?thesis by (force simp: children_def edges_ok_def)
qed

lemma pending_Cons:
  "pending ((x, b) # es) out i = (if b = i \<and> x \<notin> out then 1 else 0) + pending es out i"
  by (simp add: pending_def)

lemma pending_insert:
  assumes "distinct edges" "a \<notin> out"
  shows "pending edges out i = pending edges (insert a out) i + (if (a, i) \<in> set edges then 1 else 0)"
  using assms(1)
proof (induction edges)
  case (Cons e es)
  obtain x b where e: "e = (x, b)" by (cases e)
  with Cons have "pending es out i = pending es (insert a out) i + (if (a, i) \<in> set es then 1 else 0)" by simp
  with Cons.prems assms(2) show ?case by (auto simp: e pending_Cons)
qed (simp add: pending_def)

lemma kahn_inv_step:
  assumes inv: "kahn_inv n edges out indegree (k # ready)" and ok: "edges_ok n edges"
    and run: "release (children edges k) (indegree, ready) = (indegree', ready')"
  shows "kahn_inv n edges (out @ [k]) indegree' ready'"
proof -
  note ch = children_spec [OF ok, of k]
  have len: "length indegree = n" and k: "k \<notin> set out" "k < n" "pending edges (set out) k = 0"
    and val: "\<And>i. i < n \<Longrightarrow> indegree ! i = int (pending edges (set out) i)"
    and mem: "\<And>i. i \<in> set out \<union> set (k # ready) \<longleftrightarrow> i < n \<and> pending edges (set out) i = 0"
    using inv unfolding kahn_inv_def by (simp_all) (metis list.set_intros(1) UnCI)+
  have rel: "length indegree' = n"
      "\<And>i. i < n \<Longrightarrow> indegree' ! i = indegree ! i - (if (k, i) \<in> set edges then 1 else 0)"
      "mset ready' = mset ready + mset (filter (\<lambda>c. indegree ! c = 1) (children edges k))"
    using release_spec [OF _ _ run] ch len by auto
  have pend: "pending edges (set out) i = pending edges (set (out @ [k])) i + (if (k, i) \<in> set edges then 1 else 0)" for i
    using pending_insert [OF _ k(1), of edges] ok by (simp add: edges_ok_def)
  have new: "set ready' = set ready \<union> {c. (k, c) \<in> set edges \<and> pending edges (set out) c = 1}"
    using arg_cong [OF rel(3), of set_mset] ch val by auto
  have old: "pending edges (set out) c \<noteq> 1" if "c \<in> set out \<union> set (k # ready)" for c
    using mem that by auto
  have "distinct ready'"
  proof -
    have "distinct (ready @ filter (\<lambda>c. indegree ! c = 1) (children edges k))"
      using inv ch val old by (fastforce simp: kahn_inv_def)
    then show ?thesis using rel(3) by (metis mset_append mset_eq_imp_distinct_iff)
  qed
  then have "distinct ((out @ [k]) @ ready')"
    using inv old by (auto simp: new kahn_inv_def)
  moreover have "i \<in> set (out @ [k]) \<union> set ready' \<longleftrightarrow> i < n \<and> pending edges (set (out @ [k])) i = 0" for i
    using mem [of i] pend [of i] ok by (auto simp: new edges_ok_def split: if_splits)
  moreover have "\<forall>i < n. indegree' ! i = int (pending edges (set (out @ [k])) i)"
    using rel(2) val pend by simp
  ultimately show ?thesis using rel(1) by (simp add: kahn_inv_def)
qed

lemma kahn_result:
  "kahn_inv n edges out indegree ready \<Longrightarrow> edges_ok n edges \<Longrightarrow> r = kahn edges indegree ready \<Longrightarrow>
     distinct (out @ r) \<and> set (out @ r) \<subseteq> {..<n} \<and>
     (\<forall>t < length r. \<forall>a. (a, r ! t) \<in> set edges \<longrightarrow> a \<in> set out \<union> set (take t r)) \<and>
     (\<forall>i < n. i \<notin> set (out @ r) \<longrightarrow> (\<exists>a. (a, i) \<in> set edges \<and> a \<notin> set (out @ r)))"
proof (induction edges indegree ready arbitrary: out r rule: kahn.induct)
  case (1 edges indegree)
  have "\<exists>a. (a, i) \<in> set edges \<and> a \<notin> set out" if "i < n" "i \<notin> set out" for i
  proof -
    have "pending edges (set out) i \<noteq> 0" using 1(1) that by (auto simp: kahn_inv_def)
    then have "filter (\<lambda>(a, b). b = i \<and> a \<notin> set out) edges \<noteq> []" by (simp add: pending_def)
    then show ?thesis by (fastforce simp: filter_empty_conv)
  qed
  with 1 show ?case by (auto simp: kahn_inv_def)
next
  case (2 edges indegree k ready)
  obtain indegree' ready' where run: "release (children edges k) (indegree, ready) = (indegree', ready')"
    by fastforce
  define r' where "r' = kahn edges indegree' ready'"
  have r: "r = k # r'" using 2(4) run by (simp add: r'_def)
  have IH: "distinct ((out @ [k]) @ r') \<and> set ((out @ [k]) @ r') \<subseteq> {..<n} \<and>
     (\<forall>t < length r'. \<forall>a. (a, r' ! t) \<in> set edges \<longrightarrow> a \<in> set (out @ [k]) \<union> set (take t r')) \<and>
     (\<forall>i < n. i \<notin> set ((out @ [k]) @ r') \<longrightarrow> (\<exists>a. (a, i) \<in> set edges \<and> a \<notin> set ((out @ [k]) @ r')))"
    using 2(1) [OF run [symmetric] kahn_inv_step [OF 2(2,3) run] 2(3) r'_def] .
  have "a \<in> set out" if "(a, k) \<in> set edges" for a
  proof -
    have "pending edges (set out) k = 0" using 2(2) by (auto simp: kahn_inv_def)
    with that show ?thesis by (auto simp: pending_def filter_empty_conv)
  qed
  then have "\<forall>t < length r. \<forall>a. (a, r ! t) \<in> set edges \<longrightarrow> a \<in> set out \<union> set (take t r)"
    using IH by (auto simp: r nth_Cons split: nat.splits)
  then show ?case using IH by (auto simp: r)
qed

text \<open>The graph that the three passes build: indegrees count the edges.\<close>

definition graph_inv :: "nat \<Rightarrow> op_graph \<Rightarrow> bool" where
  "graph_inv n g \<longleftrightarrow> length (og_indegree g) = n \<and> edges_ok n (og_edges g) \<and>
     (\<forall>i < n. og_indegree g ! i = int (pending (og_edges g) {} i))"

lemma graph_inv_empty: "graph_inv n (empty_graph n)"
  by (simp add: graph_inv_def empty_graph_def edges_ok_def pending_def)

lemma graph_inv_link: "graph_inv n g \<Longrightarrow> a < n \<Longrightarrow> b < n \<Longrightarrow> graph_inv n (link a b g)"
  by (auto simp: graph_inv_def link_def edges_ok_def pending_def nth_list_update)

lemma link_edges: "set (og_edges g) \<subseteq> set (og_edges (link a b g))"
  by (auto simp: link_def)

lemma link_edge: "a \<noteq> b \<Longrightarrow> (a, b) \<in> set (og_edges (link a b g))"
  by (auto simp: link_def)

lemma kahn_inv_initial:
  assumes "graph_inv n g"
  shows "kahn_inv n (og_edges g) [] (og_indegree g) (initial_ready (og_indegree g))"
  using assms by (auto simp: graph_inv_def kahn_inv_def initial_ready_def)

text \<open>On a graph of \<open>n\<close> nodes the loop outputs each node once, after all its ancestors, and outputs
  all of them exactly when the graph has no cycle.\<close>

lemma kahn_complete:
  assumes g: "graph_inv n g" and r: "r = kahn (og_edges g) (og_indegree g) (initial_ready (og_indegree g))"
    and len: "length r = n"
  shows "distinct r \<and> set r = {..<n} \<and>
    (\<forall>t < n. \<forall>a. (a, r ! t) \<in> (set (og_edges g))\<^sup>+ \<longrightarrow> a \<in> set (take t r))"
proof -
  have res: "distinct r" "set r \<subseteq> {..<n}"
      "\<And>t a. t < length r \<Longrightarrow> (a, r ! t) \<in> set (og_edges g) \<Longrightarrow> a \<in> set (take t r)"
    using kahn_result [OF kahn_inv_initial [OF g] _ r] g by (auto simp: graph_inv_def)
  have "set r = {..<n}"
    using res(1,2) len by (intro card_subset_eq) (auto simp: distinct_card)
  moreover have "a \<in> set (take t r)" if "t < length r" "(a, r ! t) \<in> (set (og_edges g))\<^sup>+" for t a
    using that(2)
  proof (induction a rule: converse_trancl_induct)
    case (base a)
    with res(3) that(1) show ?case by blast
  next
    case (step a b)
    then obtain u where u: "u < t" "u < length r" "b = r ! u" by (auto simp: in_set_conv_nth)
    then have "a \<in> set (take u r)" using res(3) step(1) by blast
    with u show ?case using set_take_subset_set_take [of u t r] by auto
  qed
  ultimately show ?thesis using res(1) len by blast
qed

lemma kahn_acyclic:
  assumes g: "graph_inv n g" and acyc: "acyclic (set (og_edges g))"
  shows "length (kahn (og_edges g) (og_indegree g) (initial_ready (og_indegree g))) = n"
proof -
  define r where "r = kahn (og_edges g) (og_indegree g) (initial_ready (og_indegree g))"
  have res: "distinct r" "set r \<subseteq> {..<n}"
      "\<And>i. i < n \<Longrightarrow> i \<notin> set r \<Longrightarrow> \<exists>a. (a, i) \<in> set (og_edges g) \<and> a \<notin> set r"
    using kahn_result [OF kahn_inv_initial [OF g] _ r_def] g by (auto simp: graph_inv_def)
  have "wf (set (og_edges g))" using acyc by (simp add: finite_acyclic_wf)
  then have "i < n \<longrightarrow> i \<in> set r" for i
  proof (induction i rule: wf_induct_rule)
    case (less i)
    have "a < n" if "(a, i) \<in> set (og_edges g)" for a
      using that g by (auto simp: graph_inv_def edges_ok_def)
    with less.IH res(3) show ?case by blast
  qed
  then have "set r = {..<n}" using res(2) by auto
  then show ?thesis using distinct_card [OF res(1)] by (simp add: r_def)
qed

subsection \<open>What the passes establish\<close>

abbreviation op_key :: "operation list \<Rightarrow> nat \<Rightarrow> string" where
  "op_key ops i \<equiv> schema_Key (op_Schema (ops ! i))"

abbreviation is_rename :: "operation \<Rightarrow> bool" where
  "is_rename op \<equiv> op_Kind op = ''rename_field''"

text \<open>The order constraints among the first \<open>m\<close> operations, over the edges found so far.\<close>

definition chained :: "operation list \<Rightarrow> nat \<Rightarrow> (nat \<times> nat) list \<Rightarrow> bool" where
  "chained ops m edges \<longleftrightarrow> (\<forall>i j. i < j \<longrightarrow> j < m \<longrightarrow> op_key ops i = op_key ops j \<longrightarrow> (i, j) \<in> (set edges)\<^sup>+)"

definition renames_before :: "operation list \<Rightarrow> nat \<Rightarrow> nat option \<Rightarrow> (nat \<times> nat) list \<Rightarrow> bool" where
  "renames_before ops m lr edges \<longleftrightarrow>
     (case lr of
        None \<Rightarrow> \<forall>i < m. \<not> is_rename (ops ! i)
      | Some r \<Rightarrow> r < m \<and> is_rename (ops ! r) \<and> (\<forall>i < m. is_rename (ops ! i) \<longrightarrow> (i, r) \<in> (set edges)\<^sup>*))"

definition scan_inv :: "operation list \<Rightarrow> nat \<Rightarrow> op_scan \<Rightarrow> bool" where
  "scan_inv ops m sc \<longleftrightarrow>
     graph_inv (length ops) (os_graph sc) \<and>
     (\<forall>key. model_ops (os_modelOps sc) key = filter (\<lambda>i. op_key ops i = key) [0..<m]) \<and>
     (\<forall>i \<in> ran (map_of (os_removedModels sc)). i < m) \<and> (\<forall>i \<in> ran (map_of (os_removedFields sc)). i < m) \<and>
     chained ops m (og_edges (os_graph sc)) \<and>
     renames_before ops m (os_lastRename sc) (og_edges (os_graph sc))"

lemma chained_mono: "chained ops m es \<Longrightarrow> set es \<subseteq> set es' \<Longrightarrow> chained ops m es'"
  unfolding chained_def by (meson trancl_mono)

lemma renames_mono: "renames_before ops m l es \<Longrightarrow> set es \<subseteq> set es' \<Longrightarrow> renames_before ops m l es'"
  unfolding renames_before_def by (cases l) (auto dest: rtrancl_mono)

lemma last_filter_upt:
  assumes "filter P [0..<m] \<noteq> []"
  shows "last (filter P [0..<m]) < m \<and> P (last (filter P [0..<m])) \<and> (\<forall>i < m. P i \<longrightarrow> i \<le> last (filter P [0..<m]))"
  using assms
proof (induction m)
  case (Suc m)
  then show ?case by (cases "P m") (auto simp: less_Suc_eq)
qed simp

lemma chained_step:
  assumes c: "chained ops m es" and sub: "set es \<subseteq> set es'"
    and link: "filter (\<lambda>i. op_key ops i = op_key ops m) [0..<m] \<noteq> [] \<Longrightarrow>
      (last (filter (\<lambda>i. op_key ops i = op_key ops m) [0..<m]), m) \<in> set es'"
  shows "chained ops (Suc m) es'"
  unfolding chained_def
proof (intro allI impI)
  fix i j assume ij: "i < j" "j < Suc m" "op_key ops i = op_key ops j"
  let ?l = "last (filter (\<lambda>i. op_key ops i = op_key ops m) [0..<m])"
  note old = chained_mono [OF c sub, unfolded chained_def, rule_format]
  show "(i, j) \<in> (set es')\<^sup>+"
  proof (cases "j = m")
    case True
    have ne: "filter (\<lambda>i. op_key ops i = op_key ops m) [0..<m] \<noteq> []"
      using ij True by (auto simp: filter_empty_conv)
    note l = last_filter_upt [OF ne]
    have "i \<le> ?l" "?l < m" "op_key ops ?l = op_key ops m" using l ij True by auto
    then have "i = ?l \<or> (i, ?l) \<in> (set es')\<^sup>+" using old [of i ?l] ij True by (cases "i = ?l") auto
    with link [OF ne] True show ?thesis by (auto intro: trancl_into_trancl)
  qed (use ij old in simp)
qed

lemma ran_update: "ran (map_of (AList.update k v xs)) \<subseteq> insert v (ran (map_of xs))"
  by (auto simp: ran_def update_conv' split: if_splits)

lemma model_ops_update: "model_ops (AList.update k is m) = (model_ops m)(k := is)"
  by (auto simp: model_ops_def update_conv' fun_eq_iff)

lemma scan_inv_step:
  assumes inv: "scan_inv ops m sc" and m: "m < length ops"
  shows "scan_inv ops (Suc m) (scan_operation m (ops ! m) sc)"
proof -
  let ?n = "length ops" and ?op = "ops ! m"
  let ?prev = "filter (\<lambda>i. op_key ops i = op_key ops m) [0..<m]"
  define g where "g = (if ?prev = [] then os_graph sc else link (last ?prev) m (os_graph sc))"
  define g' where "g' = (if is_rename ?op then (case os_lastRename sc of None \<Rightarrow> g | Some j \<Rightarrow> link j m g) else g)"
  define sc' where "sc' = scan_operation m ?op sc"
  have prev: "model_ops (os_modelOps sc) (op_key ops m) = ?prev" using inv by (simp add: scan_inv_def)
  have sc': "os_graph sc' = g'" "os_modelOps sc' = AList.update (op_key ops m) (?prev @ [m]) (os_modelOps sc)"
      "os_lastRename sc' = (if is_rename ?op then Some m else os_lastRename sc)"
    by (auto simp: sc'_def scan_operation_def prev g_def g'_def Let_def split: option.split)
  have removed: "ran (map_of (os_removedModels sc')) \<subseteq> insert m (ran (map_of (os_removedModels sc)))"
      "ran (map_of (os_removedFields sc')) \<subseteq> insert m (ran (map_of (os_removedFields sc)))"
    by (auto simp: sc'_def scan_operation_def Let_def dest!: subsetD [OF ran_update])
  have last: "?prev \<noteq> [] \<Longrightarrow> last ?prev < m" using last_filter_upt by blast
  have lr: "os_lastRename sc = Some j \<Longrightarrow> j < m" for j
    using inv by (auto simp: scan_inv_def renames_before_def)
  have gi: "graph_inv ?n g'"
    using inv m last lr by (auto simp: scan_inv_def g_def g'_def graph_inv_link split: option.splits)
  have sub: "set (og_edges (os_graph sc)) \<subseteq> set (og_edges g)" "set (og_edges g) \<subseteq> set (og_edges g')"
    using link_edges by (auto simp: g_def g'_def split: option.splits)
  have "chained ops (Suc m) (og_edges g')"
  proof (rule chained_step [where es = "og_edges (os_graph sc)"])
    assume "?prev \<noteq> []"
    then have "(last ?prev, m) \<in> set (og_edges g)" using last by (auto simp: g_def intro!: link_edge)
    then show "(last ?prev, m) \<in> set (og_edges g')" using sub by blast
  qed (use inv sub in \<open>auto simp: scan_inv_def\<close>)
  moreover have "renames_before ops (Suc m) (os_lastRename sc') (og_edges g')"
  proof -
    have old: "renames_before ops m (os_lastRename sc) (og_edges g')"
      using inv sub renames_mono by (fastforce simp: scan_inv_def)
    show ?thesis
    proof (cases "is_rename ?op")
      case True
      have "(i, m) \<in> (set (og_edges g'))\<^sup>*" if "i < m" "is_rename (ops ! i)" for i
      proof -
        from old that obtain j where j: "os_lastRename sc = Some j" "(i, j) \<in> (set (og_edges g'))\<^sup>*"
          by (auto simp: renames_before_def split: option.splits)
        have "(j, m) \<in> set (og_edges g')"
          using j(1) lr True by (auto simp: g'_def intro!: link_edge)
        with j(2) show ?thesis by (rule rtrancl_into_rtrancl)
      qed
      then show ?thesis using True by (auto simp: renames_before_def sc' less_Suc_eq)
    next
      case False
      with old show ?thesis by (auto simp: renames_before_def sc' less_Suc_eq split: option.splits)
    qed
  qed
  moreover have "model_ops (os_modelOps sc') key = filter (\<lambda>i. op_key ops i = key) [0..<Suc m]" for key
    using inv by (auto simp: sc'(2) model_ops_update scan_inv_def)
  ultimately show ?thesis
    using gi removed inv unfolding scan_inv_def sc'_def [symmetric] sc'(1)
    by (auto simp: less_Suc_eq)
qed

lemma scan_inv_all:
  "scan_inv all m sc \<Longrightarrow> ops = drop m all \<Longrightarrow> scan_inv all (length all) (scan_operations m ops sc) \<or> length all < m"
proof (induction m ops sc rule: scan_operations.induct)
  case (1 i sc)
  then have "length all \<le> i" by simp
  with 1 show ?case by (cases "length all = i") auto
next
  case (2 i op ops sc)
  then have i: "i < length all" by (metis drop_all leI list.distinct(1))
  then have eq: "op = all ! i" "ops = drop (Suc i) all"
    using 2(3) by (metis Cons_nth_drop_Suc list.inject)+
  have "scan_inv all (Suc i) (scan_operation i op sc)"
    using scan_inv_step [OF 2(2) i] eq(1) by simp
  from 2(1) [OF this eq(2)] i show ?case by simp
qed

text \<open>Later passes only add edges between operations.\<close>

definition extends_graph :: "nat \<Rightarrow> op_graph \<Rightarrow> op_graph \<Rightarrow> bool" where
  "extends_graph n g g' \<longleftrightarrow> (graph_inv n g \<longrightarrow> graph_inv n g') \<and> set (og_edges g) \<subseteq> set (og_edges g')"

lemma extends_graph_refl: "extends_graph n g g"
  by (simp add: extends_graph_def)

lemma extends_graph_trans: "extends_graph n g g1 \<Longrightarrow> extends_graph n g1 g2 \<Longrightarrow> extends_graph n g g2"
  by (auto simp: extends_graph_def)

lemma extends_graph_link: "a < n \<Longrightarrow> b < n \<Longrightarrow> extends_graph n g (link a b g)"
  by (simp add: extends_graph_def graph_inv_link link_edges)

lemma link_renames_extends:
  "r < n \<Longrightarrow> i + length ops \<le> n \<Longrightarrow> extends_graph n g (link_renames r i ops g)"
proof (induction r i ops g rule: link_renames.induct)
  case (2 r i op ops g)
  let ?g = "if op_Kind op \<noteq> ''rename_field'' then link r i g else g"
  have "extends_graph n g ?g" using 2 by (simp add: extends_graph_link extends_graph_refl)
  moreover have "extends_graph n ?g (link_renames r (Suc i) ops ?g)" using 2 by simp
  ultimately show ?case unfolding link_renames.simps by (rule extends_graph_trans)
qed (simp add: extends_graph_refl)

lemma link_renames_edges:
  "j < length ops \<Longrightarrow> \<not> is_rename (ops ! j) \<Longrightarrow> r \<noteq> i + j \<Longrightarrow> r < n \<Longrightarrow> i + length ops \<le> n \<Longrightarrow>
     (r, i + j) \<in> set (og_edges (link_renames r i ops g))"
proof (induction r i ops g arbitrary: j rule: link_renames.induct)
  case (2 r i op ops g)
  let ?g = "if op_Kind op \<noteq> ''rename_field'' then link r i g else g"
  show ?case
  proof (cases j)
    case 0
    with 2 have "(r, i) \<in> set (og_edges ?g)" by (simp add: link_edge)
    moreover have "extends_graph n ?g (link_renames r (Suc i) ops ?g)"
      using 2 by (intro link_renames_extends) auto
    ultimately show ?thesis using 0 by (auto simp: extends_graph_def simp del: if_split)
  next
    case (Suc j')
    with 2 show ?thesis by (simp del: if_split)
  qed
qed simp

lemma link_target_extends:
  "i < n \<Longrightarrow> \<forall>d \<in> set ds. d < n \<Longrightarrow> extends_graph n g (link_target ops keys i ds g)"
proof (induction ds arbitrary: g)
  case (Cons d ds)
  obtain g1 where g1: "link_target ops keys i (d # ds) g = link_target ops keys i ds g1" "g1 = g \<or> g1 = link d i g"
    by (simp add: Let_def)
  then have "extends_graph n g g1" using Cons.prems by (auto simp: extends_graph_refl extends_graph_link)
  with Cons g1 show ?case using extends_graph_trans by fastforce
qed (simp add: extends_graph_refl)

lemma link_added_extends:
  "link_added ops after sc i fs g = Inr g' \<Longrightarrow> i < n \<Longrightarrow> \<forall>key. \<forall>d \<in> set (model_ops (os_modelOps sc) key). d < n \<Longrightarrow>
     extends_graph n g g'"
proof (induction fs arbitrary: g)
  case (Cons f fs)
  show ?case
  proof (cases "constrainedRelation f")
    case True
    then obtain keys target where "link_added ops after sc i fs (link_target ops keys i (model_ops (os_modelOps sc) target) g) = Inr g'"
      using Cons.prems(1) by (auto simp: Let_def split: if_splits)
    then show ?thesis
      using Cons.IH Cons.prems(2,3) link_target_extends extends_graph_trans by blast
  qed (use Cons in simp)
qed (simp add: extends_graph_refl)

lemma link_removed_extends:
  "link_removed ops before sc i op refs g = Inr g' \<Longrightarrow> i < n \<Longrightarrow>
     \<forall>r \<in> ran (map_of (os_removedModels sc)). r < n \<Longrightarrow> \<forall>r \<in> ran (map_of (os_removedFields sc)). r < n \<Longrightarrow>
     extends_graph n g g'"
proof (induction refs arbitrary: g)
  case (Cons mf refs)
  obtain model f where mf: "mf = (model, f)" by (cases mf)
  have bound: "map_of (os_removedModels sc) k = Some r \<Longrightarrow> r < n" "map_of (os_removedFields sc) k' = Some r \<Longrightarrow> r < n"
    for k k' r using Cons.prems(3,4) by (meson ranI)+
  obtain g1 where g1: "link_removed ops before sc i op refs g1 = Inr g'"
      "g1 = g \<or> (\<exists>r < n. g1 = link r i g)"
    using Cons.prems(1) bound by (auto simp: mf Let_def split: if_splits option.splits) blast+
  then have "extends_graph n g g1" using Cons.prems(2) by (auto simp: extends_graph_refl extends_graph_link)
  with Cons.IH [OF g1(1)] Cons.prems show ?case using extends_graph_trans by blast
qed (simp add: extends_graph_refl)

lemma link_relations_extends:
  "link_relations ops before after sc i rest g = Inr g' \<Longrightarrow> i + length rest \<le> n \<Longrightarrow>
     \<forall>key. \<forall>d \<in> set (model_ops (os_modelOps sc) key). d < n \<Longrightarrow>
     \<forall>r \<in> ran (map_of (os_removedModels sc)). r < n \<Longrightarrow> \<forall>r \<in> ran (map_of (os_removedFields sc)). r < n \<Longrightarrow>
     extends_graph n g g'"
proof (induction rest arbitrary: i g)
  case (Cons op rest)
  from Cons.prems(1) obtain g1 g2 where add: "link_added ops after sc i (added_fields op) g = Inr g1"
      and rem: "g2 = g1 \<or> link_removed ops before sc i op (inbound_references before (schema_Key (op_Schema op))) g1 = Inr g2"
      and rest: "link_relations ops before after sc (Suc i) rest g2 = Inr g'"
    by (auto split: sum.splits if_splits)
  have "extends_graph n g g1" using link_added_extends [OF add] Cons.prems by simp
  moreover have "extends_graph n g1 g2"
    using rem link_removed_extends Cons.prems extends_graph_refl by fastforce
  moreover have "extends_graph n g2 g'" using Cons.IH [OF rest] Cons.prems by simp
  ultimately show ?case using extends_graph_trans by blast
qed (simp add: extends_graph_refl)

text \<open>The finished graph orders the operations of each model and puts the renames first.\<close>

lemma build_graph_spec:
  assumes "build_graph ops before after = Inr g"
  shows "graph_inv (length ops) g \<and> chained ops (length ops) (og_edges g) \<and>
    (\<forall>i j. i < length ops \<longrightarrow> j < length ops \<longrightarrow> is_rename (ops ! i) \<longrightarrow> \<not> is_rename (ops ! j) \<longrightarrow>
       (i, j) \<in> (set (og_edges g))\<^sup>+)"
proof -
  let ?n = "length ops"
  let ?start = "\<lparr>os_graph = empty_graph ?n, os_modelOps = [], os_removedModels = [], os_removedFields = [], os_lastRename = None\<rparr>"
  define sc where "sc = scan_operations 0 ops ?start"
  define g0 where "g0 = (case os_lastRename sc of None \<Rightarrow> os_graph sc | Some r \<Rightarrow> link_renames r 0 ops (os_graph sc))"
  have "scan_inv ops 0 ?start"
    by (simp add: scan_inv_def graph_inv_empty model_ops_def chained_def renames_before_def)
  then have inv: "scan_inv ops ?n sc"
    using scan_inv_all [of ops 0 ?start ops] by (simp add: sc_def)
  have rel: "link_relations ops before after sc 0 ops g0 = Inr g"
    using assms unfolding build_graph_def g0_def sc_def Let_def .
  have ext: "extends_graph ?n g0 g"
    using link_relations_extends [OF rel, of ?n] inv by (auto simp: scan_inv_def)
  have ext0: "extends_graph ?n (os_graph sc) g0"
    using inv link_renames_extends [of _ ?n 0 ops]
    by (auto simp: g0_def scan_inv_def renames_before_def extends_graph_refl split: option.splits)
  have sub: "set (og_edges (os_graph sc)) \<subseteq> set (og_edges g0)" "set (og_edges g0) \<subseteq> set (og_edges g)"
      "graph_inv ?n g"
    using ext ext0 inv by (auto simp: extends_graph_def scan_inv_def)
  have "chained ops ?n (og_edges g)"
    using inv chained_mono sub by (meson scan_inv_def subset_trans)
  moreover have "(i, j) \<in> (set (og_edges g))\<^sup>+"
    if ij: "i < ?n" "j < ?n" "is_rename (ops ! i)" "\<not> is_rename (ops ! j)" for i j
  proof -
    obtain r where r: "os_lastRename sc = Some r" "r < ?n" "is_rename (ops ! r)" "(i, r) \<in> (set (og_edges (os_graph sc)))\<^sup>*"
      using inv ij by (auto simp: scan_inv_def renames_before_def split: option.splits)
    have "(r, 0 + j) \<in> set (og_edges (link_renames r 0 ops (os_graph sc)))"
      using ij r by (intro link_renames_edges [where n = ?n]) auto
    then have "(r, j) \<in> set (og_edges g)" using sub r(1) by (auto simp: g0_def)
    moreover have "(i, r) \<in> (set (og_edges g))\<^sup>*"
      using r(4) sub rtrancl_mono [of "set (og_edges (os_graph sc))" "set (og_edges g)"] by blast
    ultimately show ?thesis by (rule rtrancl_into_trancl1 [rotated])
  qed
  ultimately show ?thesis using sub(3) by blast
qed

subsection \<open>Properties\<close>

lemma sorted_wrt_filter_if:
  "sorted_wrt (\<lambda>x y. P x \<longrightarrow> P y \<longrightarrow> R x y) xs \<Longrightarrow> sorted_wrt R (filter P xs)"
  by (induction xs) auto

lemma filter_reordered:
  fixes r :: "nat list"
  assumes "distinct r" "set r = {..<n}" "\<And>i j. i < j \<Longrightarrow> j < n \<Longrightarrow> P i \<Longrightarrow> P j \<Longrightarrow> (i, j) \<in> E"
    and "\<And>t a. t < n \<Longrightarrow> (a, r ! t) \<in> E \<Longrightarrow> a \<in> set (take t r)"
  shows "filter P r = filter P [0..<n]"
proof -
  have len: "length r = n" using assms(1,2) by (metis card_lessThan distinct_card)
  have "r ! s < r ! t" if st: "s < t" "t < n" "P (r ! s)" "P (r ! t)" for s t
  proof (rule ccontr)
    assume "\<not> r ! s < r ! t"
    moreover have "r ! s \<noteq> r ! t" using assms(1) st len by (simp add: nth_eq_iff_index_eq)
    moreover have "r ! s < n" using assms(2) st len by (metis lessThan_iff nth_mem order.strict_trans)
    ultimately have "(r ! t, r ! s) \<in> E" using assms(3) [of "r ! t" "r ! s"] st by simp
    then have "r ! t \<in> set (take s r)" using assms(4) st by simp
    then obtain u where "u < s" "r ! u = r ! t" using st len by (auto simp: in_set_conv_nth)
    with st len assms(1) show False by (auto simp: nth_eq_iff_index_eq)
  qed
  then have "sorted_wrt (\<lambda>x y. P x \<longrightarrow> P y \<longrightarrow> x < y) r"
    by (simp add: sorted_wrt_iff_nth_less len)
  then have "sorted_wrt (<) (filter P r)" by (rule sorted_wrt_filter_if)
  moreover have "sorted_wrt (<) (filter P [0..<n])" by (simp add: sorted_wrt_filter)
  moreover have "set (filter P r) = set (filter P [0..<n])" using assms(2) by auto
  ultimately show ?thesis by (metis strict_sorted_equal)
qed

lemma order_positions:
  assumes "orderDetectedOperations ops before after = Inr result"
  obtains g r where "build_graph ops before after = Inr g" "result = map (\<lambda>i. ops ! i) r" "distinct r"
    "set r = {..<length ops}" "length r = length ops"
    "\<And>t a. t < length ops \<Longrightarrow> (a, r ! t) \<in> (set (og_edges g))\<^sup>+ \<Longrightarrow> a \<in> set (take t r)"
proof -
  from assms obtain g where g: "build_graph ops before after = Inr g"
    by (auto simp: orderDetectedOperations_def split: sum.splits)
  define r where "r = kahn (og_edges g) (og_indegree g) (initial_ready (og_indegree g))"
  have len: "length r = length ops" and res: "result = map (\<lambda>i. ops ! i) r"
    using assms g by (auto simp: orderDetectedOperations_def r_def Let_def split: if_splits)
  have "graph_inv (length ops) g" using build_graph_spec [OF g] by blast
  from kahn_complete [OF this r_def len] that g res len show thesis by blast
qed

lemma order_subset:
  assumes "orderDetectedOperations ops before after = Inr result"
  shows "set result \<subseteq> set ops"
  using assms by (rule order_positions) auto

lemmas order_eval = orderDetectedOperations_def build_graph_def scan_operation_def empty_graph_def link_def
  model_ops_def added_fields_def createsModelStorage_def constrainedRelation_def relation_of_def
  relationKeys_def removes_target_def initial_ready_def children_def CreateModel_def zero_operation_def
  zero_schema_def zero_relation_def BigAutoField_def ForeignKeyField_def NewField_def zero_field_def
  IsAuto_def schema_Key_def state_get_def Let_def

text \<open>
  C10. Ordering the detected operations loses nothing and respects the history: the result is a
  permutation of the operations, the operations of each model keep their sequence (so every
  historical snapshot stays exact), and every rename comes before every other operation.
\<close>

theorem orderDetectedOperations_sound:
  assumes "orderDetectedOperations ops before after = Inr result"
  shows "mset result = mset ops \<and>
    (\<forall>key. filter (\<lambda>op. schema_Key (op_Schema op) = key) result = filter (\<lambda>op. schema_Key (op_Schema op) = key) ops) \<and>
    (\<forall>s t. s < t \<longrightarrow> t < length result \<longrightarrow> op_Kind (result ! t) = ''rename_field'' \<longrightarrow> op_Kind (result ! s) = ''rename_field'')"
  using assms
proof (rule order_positions)
  fix g r
  assume g: "build_graph ops before after = Inr g" and res: "result = map (\<lambda>i. ops ! i) r"
    and dist: "distinct r" and set: "set r = {..<length ops}" and len: "length r = length ops"
    and before: "\<And>t a. t < length ops \<Longrightarrow> (a, r ! t) \<in> (set (og_edges g))\<^sup>+ \<Longrightarrow> a \<in> set (take t r)"
  note spec = build_graph_spec [OF g]
  have ops: "map (\<lambda>i. ops ! i) [0..<length ops] = ops" by (rule map_nth)
  have "mset r = mset [0..<length ops]"
    using dist set by (metis atLeast_upt distinct_upt set_eq_iff_mset_eq_distinct)
  then have "mset result = mset ops" by (metis mset_map ops res)
  moreover have "filter (\<lambda>op. schema_Key (op_Schema op) = key) result = filter (\<lambda>op. schema_Key (op_Schema op) = key) ops" for key
  proof -
    have "filter (\<lambda>i. op_key ops i = key) r = filter (\<lambda>i. op_key ops i = key) [0..<length ops]"
      using dist set spec before by (intro filter_reordered [where E = "(set (og_edges g))\<^sup>+"]) (auto simp: chained_def)
    then have "map (\<lambda>i. ops ! i) (filter (\<lambda>i. op_key ops i = key) r) = map (\<lambda>i. ops ! i) (filter (\<lambda>i. op_key ops i = key) [0..<length ops])"
      by simp
    then show ?thesis using ops by (metis (no_types, lifting) filter_map o_apply filter_cong res)
  qed
  moreover have "is_rename (result ! s)" if st: "s < t" "t < length result" "is_rename (result ! t)" for s t
  proof (rule ccontr)
    assume "\<not> is_rename (result ! s)"
    then have "(r ! t, r ! s) \<in> (set (og_edges g))\<^sup>+"
      using spec st set len by (metis (no_types, lifting) length_map lessThan_iff nth_map nth_mem order.strict_trans res)
    then have "r ! t \<in> set (take s r)" using before st len res by simp
    then obtain u where "u < s" "r ! u = r ! t" using st len res by (auto simp: in_set_conv_nth)
    with st len res dist show False by (auto simp: nth_eq_iff_index_eq)
  qed
  ultimately show ?thesis by blast
qed

theorem orderDetectedOperations_sound_witness:
  "\<exists>result. orderDetectedOperations
       [CreateModel (zero_schema\<lparr>sch_AppLabel := ''b'', sch_Name := ''P'', sch_Fields :=
          [BigAutoField ''id'', ForeignKeyField ''t'' (zero_relation\<lparr>rel_Target := ''b.T'', rel_TargetFields := [''id'']\<rparr>)]\<rparr>),
        CreateModel (zero_schema\<lparr>sch_AppLabel := ''b'', sch_Name := ''T'', sch_Fields := [BigAutoField ''id'']\<rparr>)] [] [] = Inr result \<and>
     map (\<lambda>op. sch_Name (op_Schema op)) result = [''T'', ''P''] \<and> size (mset result) = 2"
proof -
  let ?ops = "[CreateModel (zero_schema\<lparr>sch_AppLabel := ''b'', sch_Name := ''P'', sch_Fields :=
          [BigAutoField ''id'', ForeignKeyField ''t'' (zero_relation\<lparr>rel_Target := ''b.T'', rel_TargetFields := [''id'']\<rparr>)]\<rparr>),
        CreateModel (zero_schema\<lparr>sch_AppLabel := ''b'', sch_Name := ''T'', sch_Fields := [BigAutoField ''id'']\<rparr>)]"
  obtain result where run: "orderDetectedOperations ?ops [] [] = Inr result"
      and names: "map (\<lambda>op. sch_Name (op_Schema op)) result = [''T'', ''P'']"
    by (simp add: order_eval)
  from orderDetectedOperations_sound [OF run] have "mset result = mset ?ops" by blast
  then have "size (mset result) = 2" by (simp del: size_mset)
  then show ?thesis by (intro exI [of _ result] conjI run names)
qed

text \<open>
  C11. The loop reports a cycle only when there is one: on an acyclic dependency graph the ordering
  succeeds.
\<close>

theorem orderDetectedOperations_complete:
  assumes "build_graph ops before after = Inr g" "acyclic (set (og_edges g))"
  shows "\<exists>result. orderDetectedOperations ops before after = Inr result"
  using assms kahn_acyclic [OF _ assms(2)] build_graph_spec [OF assms(1)]
  by (auto simp: orderDetectedOperations_def Let_def)

theorem orderDetectedOperations_complete_witness:
  "\<exists>result. orderDetectedOperations [CreateModel zero_schema] [] [] = Inr result"
proof -
  obtain g where g: "build_graph [CreateModel zero_schema] [] [] = Inr g" and e: "og_edges g = []"
    by (simp add: order_eval)
  have "acyclic (set (og_edges g))" using e by (simp add: acyclic_def)
  with orderDetectedOperations_complete [OF g] show ?thesis by blast
qed

end
