(* ===== verification/Migration_Detect.thy ===== *)
theory Migration_Detect
  imports Migration_Order
begin

text \<open>
  Detecting schema changes: \<open>detectFieldRenames\<close> (\<open>core/migrations/rename_state.go\<close>) and \<open>Detect\<close>
  (\<open>core/migrations/planning.go\<close>), with the two promises the source makes of them: a destructive
  operation is only emitted with the caller's explicit intent, and the index operations that are
  emitted reproduce the desired indexes.
\<close>

subsection \<open>Renames\<close>

fun last_index :: "char \<Rightarrow> string \<Rightarrow> nat option" where
  "last_index c [] = None"
| "last_index c (x # xs) =
     (case last_index c xs of Some i \<Rightarrow> Some (Suc i) | None \<Rightarrow> if x = c then Some 0 else None)"

fun detect_renames ::
  "schemas \<Rightarrow> (string \<times> string) list \<Rightarrow> string list \<Rightarrow> schemas \<Rightarrow> migration_error + (operation list \<times> schemas)" where
  "detect_renames after renames [] before = Inr ([], before)"
| "detect_renames after renames (reference # refs) before =
     (case last_index CHR ''.'' reference of
        None \<Rightarrow> Inl (Mig ''field rename requires a model-qualified source'')
      | Some sep \<Rightarrow>
          (let key = take sep reference; old = drop (Suc sep) reference;
               new = (case map_of renames reference of None \<Rightarrow> [] | Some n \<Rightarrow> n)
           in case (map_of before key, map_of after key) of
                (Some s, Some next) \<Rightarrow>
                  if schema_Field next new = None then Inl (Mig ''renamed field is missing from target state'')
                  else (case renameFieldState s old new of
                      Inl e \<Rightarrow> Inl e
                    | Inr renamed \<Rightarrow>
                        (case detect_renames after renames refs
                            (rename_references key old new (AList.update key renamed before)) of
                           Inl e \<Rightarrow> Inl e
                         | Inr (ops, before') \<Rightarrow> Inr (RenameField s old new # ops, before')))
              | _ \<Rightarrow> Inl (Mig ''field rename requires an existing retained model'')))"

definition detectFieldRenames ::
  "schemas \<Rightarrow> schemas \<Rightarrow> (string \<times> string) list \<Rightarrow> migration_error + (operation list \<times> schemas)" where
  "detectFieldRenames before after renames = detect_renames after renames (sort (map fst renames)) before"

subsection \<open>One model\<close>

record detect_options =
  do_AllowRemoveModels :: "string list"
  do_AllowRemoveFields :: "string list"
  do_Renames :: "(string \<times> string) list"

fun fold_state :: "(schema \<Rightarrow> operation \<Rightarrow> migration_error + schema) \<Rightarrow> operation list \<Rightarrow> schema \<Rightarrow> migration_error + schema" where
  "fold_state f [] s = Inr s"
| "fold_state f (op # ops) s = (case f s op of Inl e \<Rightarrow> Inl e | Inr s' \<Rightarrow> fold_state f ops s')"

text \<open>The loop over the fields of the new schema; \<open>oldFields\<close> loses every field that is found.\<close>

fun detect_fields ::
  "field list \<Rightarrow> schema \<Rightarrow> (string \<times> field) list \<Rightarrow>
     migration_error + (operation list \<times> schema \<times> (string \<times> field) list)" where
  "detect_fields [] previous oldFields = Inr ([], previous, oldFields)"
| "detect_fields (f # fs) previous oldFields =
     (case map_of oldFields (fld_Name f) of
        None \<Rightarrow>
          if \<not> fld_Null f \<and> \<not> HasDefault f \<and> \<not> IsAuto f
            then Inl (Mig ''nonnullable added field requires default or staged backfill'')
          else (case detect_fields fs (fieldStateAfter previous (fld_Name f) f) oldFields of
              Inl e \<Rightarrow> Inl e
            | Inr (ops, rest) \<Rightarrow> Inr (AddField previous f # ops, rest))
      | Some oldField \<Rightarrow>
          (let oldFields' = AList.delete (fld_Name f) oldFields in
           if fieldEquivalent oldField f then detect_fields fs previous oldFields'
           else (case detect_fields fs (fieldStateAfter previous (fld_Name oldField) f) oldFields' of
               Inl e \<Rightarrow> Inl e
             | Inr (ops, rest) \<Rightarrow> Inr (AlterField previous oldField f # ops, rest))))"

fun detect_removals ::
  "string list \<Rightarrow> string \<Rightarrow> (string \<times> field) list \<Rightarrow> string list \<Rightarrow> schema \<Rightarrow> migration_error + operation list" where
  "detect_removals allowed key oldFields [] previous = Inr []"
| "detect_removals allowed key oldFields (name # names) previous =
     (if key @ ''.'' @ name \<notin> set allowed then Inl (Mig ''removing a field requires explicit intent'')
      else (case detect_removals allowed key oldFields names
            (previous\<lparr>sch_Fields := filter (\<lambda>f. fld_Name f \<noteq> name) (sch_Fields previous)\<rparr>) of
          Inl e \<Rightarrow> Inl e
        | Inr ops \<Rightarrow> Inr (RemoveField previous (the (map_of oldFields name)) # ops)))"

definition detect_model :: "detect_options \<Rightarrow> string \<Rightarrow> schema \<Rightarrow> schema \<Rightarrow> migration_error + operation list" where
  "detect_model options key previous s =
     (case supportedModelStateChange previous s of
        Some e \<Rightarrow> Inl e
      | None \<Rightarrow>
     (case detectIndexes previous s of
        Inl e \<Rightarrow> Inl e
      | Inr (removeIndexes, addIndexes, indexOrder) \<Rightarrow>
     (case detectConstraints previous s of
        Inl e \<Rightarrow> Inl e
      | Inr (removeConstraints, addConstraints, constraintOrder) \<Rightarrow>
     (case fold_state applyIndexState removeIndexes previous of
        Inl e \<Rightarrow> Inl e
      | Inr previous1 \<Rightarrow>
     (case fold_state applyConstraintState removeConstraints previous1 of
        Inl e \<Rightarrow> Inl e
      | Inr previous2 \<Rightarrow>
     (case detect_fields (sch_Fields s) previous2 (by_name fld_Name (sch_Fields previous2)) of
        Inl e \<Rightarrow> Inl e
      | Inr (fieldOps, previous3, oldFields) \<Rightarrow>
     (case detect_removals (do_AllowRemoveFields options) key oldFields (sort (remdups (map fst oldFields))) previous3 of
        Inl e \<Rightarrow> Inl e
      | Inr removals \<Rightarrow>
          Inr (removeIndexes @ removeConstraints @ fieldOps @ removals @ addIndexes @ addConstraints @
               (case indexOrder of None \<Rightarrow> [] | Some op \<Rightarrow> [op]) @
               (case constraintOrder of None \<Rightarrow> [] | Some op \<Rightarrow> [op])))))))))"

subsection \<open>All models\<close>

fun detect_models :: "detect_options \<Rightarrow> schemas \<Rightarrow> string list \<Rightarrow> schemas \<Rightarrow> migration_error + (operation list \<times> schemas)" where
  "detect_models options new [] old = Inr ([], old)"
| "detect_models options new (key # keys) old =
     (let s = state_get new key in
      case map_of old key of
        None \<Rightarrow>
          (case detect_models options new keys old of
             Inl e \<Rightarrow> Inl e | Inr (ops, rest) \<Rightarrow> Inr (CreateModel s # ops, rest))
      | Some previous \<Rightarrow>
          (case detect_model options key previous s of
             Inl e \<Rightarrow> Inl e
           | Inr modelOps \<Rightarrow>
               (case detect_models options new keys (AList.delete key old) of
                  Inl e \<Rightarrow> Inl e | Inr (ops, rest) \<Rightarrow> Inr (modelOps @ ops, rest))))"

fun detect_deleted :: "string list \<Rightarrow> schemas \<Rightarrow> string list \<Rightarrow> migration_error + operation list" where
  "detect_deleted allowed old [] = Inr []"
| "detect_deleted allowed old (key # keys) =
     (if key \<notin> set allowed then Inl (Mig ''removing a model requires explicit intent'')
      else (case detect_deleted allowed old keys of
          Inl e \<Rightarrow> Inl e | Inr ops \<Rightarrow> Inr (DeleteModel (state_get old key) # ops)))"

definition key_schemas :: "schema list \<Rightarrow> schemas" where
  "key_schemas ss = fold (\<lambda>s m. AList.update (schema_Key s) s m) ss []"

definition Detect :: "schema list \<Rightarrow> schema list \<Rightarrow> detect_options \<Rightarrow> migration_error + operation list" where
  "Detect before after options =
     (let new = key_schemas after in
      case first_error schema_Validate after of
        Some e \<Rightarrow> Inl (Mig_invalid e)
      | None \<Rightarrow>
     (case detectFieldRenames (key_schemas before) new (do_Renames options) of
        Inl e \<Rightarrow> Inl e
      | Inr (renameOps, historical) \<Rightarrow>
     (case detect_models options new (sort (map fst new)) historical of
        Inl e \<Rightarrow> Inl e
      | Inr (modelOps, rest) \<Rightarrow>
     (case detect_deleted (do_AllowRemoveModels options) rest (sort (map fst rest)) of
        Inl e \<Rightarrow> Inl e
      | Inr deleteOps \<Rightarrow> orderDetectedOperations (renameOps @ modelOps @ deleteOps) historical new))))"

subsection \<open>Destructive operations need intent\<close>

definition destructive :: "operation \<Rightarrow> bool" where
  "destructive op \<longleftrightarrow> op_Kind op = ''delete_model'' \<or> op_Kind op = ''remove_field''"

definition intended :: "detect_options \<Rightarrow> operation \<Rightarrow> bool" where
  "intended options op \<longleftrightarrow>
     (op_Kind op = ''delete_model'' \<longrightarrow> schema_Key (op_Schema op) \<in> set (do_AllowRemoveModels options)) \<and>
     (op_Kind op = ''remove_field'' \<longrightarrow>
        schema_Key (op_Schema op) @ ''.'' @ fld_Name (op_Field op) \<in> set (do_AllowRemoveFields options))"

lemma harmless: "\<not> destructive op \<Longrightarrow> intended options op"
  by (simp add: destructive_def intended_def)

definition keyed :: "schemas \<Rightarrow> bool" where
  "keyed st \<longleftrightarrow> (\<forall>k s. map_of st k = Some s \<longrightarrow> schema_Key s = k)"

lemma keyed_update: "keyed st \<Longrightarrow> schema_Key s = k \<Longrightarrow> keyed (AList.update k s st)"
  by (simp add: keyed_def update_conv')

lemma keyed_delete: "keyed st \<Longrightarrow> keyed (AList.delete k st)"
  by (simp add: keyed_def delete_conv')

lemma map_of_rename_references:
  "map_of (rename_references key old new st) k =
     map_option (\<lambda>s. if k = key then s
        else s\<lparr>sch_Fields := map (\<lambda>f. f\<lparr>fld_Relation := renameRelationFieldReferences (fld_Relation f) key old new\<rparr>) (sch_Fields s)\<rparr>)
       (map_of st k)"
  by (induction st) (auto simp: rename_references_def)

lemma keyed_rename_references: "keyed st \<Longrightarrow> keyed (rename_references key old new st)"
  by (auto simp: keyed_def map_of_rename_references schema_Key_def)

lemma keyed_key_schemas: "keyed (key_schemas ss)"
proof -
  have "keyed m \<Longrightarrow> keyed (fold (\<lambda>s m. AList.update (schema_Key s) s m) ss m)" for m
    by (induction ss arbitrary: m) (simp_all add: keyed_update)
  moreover have "keyed []" by (simp add: keyed_def)
  ultimately show ?thesis unfolding key_schemas_def by blast
qed

lemma renameFieldState_key: "renameFieldState s old new = Inr s' \<Longrightarrow> schema_Key s' = schema_Key s"
  by (auto simp: renameFieldState_def schema_Key_def split: if_splits)

lemma detect_renames_spec:
  "detect_renames after renames refs before = Inr (ops, before') \<Longrightarrow> keyed before \<Longrightarrow>
     keyed before' \<and> (\<forall>op \<in> set ops. \<not> destructive op)"
proof (induction refs arbitrary: before ops)
  case (Cons reference refs)
  from Cons.prems(1) obtain sep s renamed ops' where s: "map_of before (take sep reference) = Some s"
      and ren: "renameFieldState s (drop (Suc sep) reference)
        (case map_of renames reference of None \<Rightarrow> [] | Some n \<Rightarrow> n) = Inr renamed"
      and rec: "detect_renames after renames refs
        (rename_references (take sep reference) (drop (Suc sep) reference)
          (case map_of renames reference of None \<Rightarrow> [] | Some n \<Rightarrow> n)
          (AList.update (take sep reference) renamed before)) = Inr (ops', before')"
      and ops: "ops = RenameField s (drop (Suc sep) reference)
          (case map_of renames reference of None \<Rightarrow> [] | Some n \<Rightarrow> n) # ops'"
    by (auto simp: Let_def split: option.splits if_splits sum.splits prod.splits)
  have "schema_Key renamed = take sep reference"
    using renameFieldState_key [OF ren] Cons.prems(2) s by (simp add: keyed_def)
  with Cons.IH [OF rec] Cons.prems(2) show ?case
    by (simp add: ops keyed_rename_references keyed_update destructive_def)
qed simp

lemma validated_Inr: "validated s = Inr s' \<longleftrightarrow> s' = s \<and> schema_Validate s = None"
  by (auto simp: validated_def split: option.splits)

lemma apply_state_key:
  "applyIndexState s op = Inr s' \<Longrightarrow> schema_Key s' = schema_Key s"
  "applyConstraintState s op = Inr s' \<Longrightarrow> schema_Key s' = schema_Key s"
  by (auto simp: applyIndexState_def applyConstraintState_def validated_Inr schema_Key_def Let_def
      split: if_splits option.splits)

lemma fold_state_key:
  assumes "\<And>s op s'. f s op = Inr s' \<Longrightarrow> schema_Key s' = schema_Key s"
  shows "fold_state f ops s = Inr s' \<Longrightarrow> schema_Key s' = schema_Key s"
  using assms by (induction ops arbitrary: s) (auto split: sum.splits)

lemma detect_index_ops:
  "detectIndexes before after = Inr (remove, add, order) \<Longrightarrow>
     (\<forall>op \<in> set remove \<union> set add. \<not> destructive op) \<and> (\<forall>op. order = Some op \<longrightarrow> \<not> destructive op)"
proof -
  have "detect_removed s m ixs = Inr (ops, kept) \<Longrightarrow> \<forall>op \<in> set ops. \<not> destructive op" for s m ixs ops kept
    by (induction ixs arbitrary: ops kept)
       (auto simp: destructive_def split: if_splits sum.splits prod.splits)
  moreover have "detect_added s m ixs = Inr (ops, kept) \<Longrightarrow> \<forall>op \<in> set ops. \<not> destructive op" for s m ixs ops kept
    by (induction ixs arbitrary: ops kept)
       (auto simp: destructive_def split: if_splits sum.splits prod.splits)
  ultimately show "detectIndexes before after = Inr (remove, add, order) \<Longrightarrow> ?thesis"
    by (auto simp: detectIndexes_def destructive_def zero_operation_def Let_def split: if_splits sum.splits prod.splits)
qed

lemma detect_constraint_ops:
  "detectConstraints before after = Inr (remove, add, order) \<Longrightarrow>
     (\<forall>op \<in> set remove \<union> set add. \<not> destructive op) \<and> (\<forall>op. order = Some op \<longrightarrow> \<not> destructive op)"
  by (auto simp: detectConstraints_def destructive_def Let_def split: if_splits)

definition fields_keyed :: "(string \<times> field) list \<Rightarrow> bool" where
  "fields_keyed m \<longleftrightarrow> (\<forall>n f. map_of m n = Some f \<longrightarrow> fld_Name f = n)"

lemma fields_keyed_by_name: "fields_keyed (by_name fld_Name fs)"
  by (auto simp: fields_keyed_def by_name_def dest!: map_of_SomeD)

lemma fields_keyed_delete: "fields_keyed m \<Longrightarrow> fields_keyed (AList.delete n m)"
  by (simp add: fields_keyed_def delete_conv')

lemma fieldStateAfter_key [simp]: "schema_Key (fieldStateAfter s old f) = schema_Key s"
  by (simp add: fieldStateAfter_def schema_Key_def)

lemma detect_fields_step:
  assumes "detect_fields (f # fs) previous oldFields = Inr (ops, previous', oldFields')"
  obtains s m ops' where "detect_fields fs s m = Inr (ops', previous', oldFields')"
    "schema_Key s = schema_Key previous" "m = oldFields \<or> m = AList.delete (fld_Name f) oldFields"
    "\<forall>op \<in> set ops. op \<in> set ops' \<or> \<not> destructive op"
proof (cases "map_of oldFields (fld_Name f)")
  case None
  with assms obtain ops' where "detect_fields fs (fieldStateAfter previous (fld_Name f) f) oldFields = Inr (ops', previous', oldFields')"
      "ops = AddField previous f # ops'"
    by (auto split: if_splits sum.splits prod.splits)
  then show thesis using that [of "fieldStateAfter previous (fld_Name f) f" oldFields ops'] by (simp add: destructive_def)
next
  case (Some oldField)
  show thesis
  proof (cases "fieldEquivalent oldField f")
    case True
    with assms Some show thesis
      using that [of previous "AList.delete (fld_Name f) oldFields" ops] by (simp add: Let_def)
  next
    case False
    with assms Some obtain ops' where
      "detect_fields fs (fieldStateAfter previous (fld_Name oldField) f) (AList.delete (fld_Name f) oldFields) =
         Inr (ops', previous', oldFields')" "ops = AlterField previous oldField f # ops'"
      by (auto simp: Let_def split: sum.splits prod.splits)
    then show thesis
      using that [of "fieldStateAfter previous (fld_Name oldField) f" "AList.delete (fld_Name f) oldFields" ops']
      by (simp add: destructive_def)
  qed
qed

lemma detect_fields_spec:
  "detect_fields fs previous oldFields = Inr (ops, previous', oldFields') \<Longrightarrow> fields_keyed oldFields \<Longrightarrow>
     schema_Key previous' = schema_Key previous \<and> fields_keyed oldFields' \<and> (\<forall>op \<in> set ops. \<not> destructive op)"
proof (induction fs arbitrary: previous oldFields ops)
  case (Cons f fs)
  from Cons.prems(1) show ?case
  proof (rule detect_fields_step)
    fix s m ops'
    assume step: "detect_fields fs s m = Inr (ops', previous', oldFields')" "schema_Key s = schema_Key previous"
        "m = oldFields \<or> m = AList.delete (fld_Name f) oldFields" "\<forall>op \<in> set ops. op \<in> set ops' \<or> \<not> destructive op"
    then have "fields_keyed m" using Cons.prems(2) fields_keyed_delete by blast
    from Cons.IH [OF step(1) this] step(2,4) show ?thesis by auto
  qed
qed simp

lemma detect_removals_spec:
  "detect_removals (do_AllowRemoveFields options) key oldFields names previous = Inr ops \<Longrightarrow>
     fields_keyed oldFields \<Longrightarrow> \<forall>n \<in> set names. map_of oldFields n \<noteq> None \<Longrightarrow> schema_Key previous = key \<Longrightarrow>
     \<forall>op \<in> set ops. intended options op"
proof (induction names arbitrary: previous ops)
  case (Cons name names)
  then show ?case
    by (auto simp: intended_def fields_keyed_def schema_Key_def split: if_splits sum.splits)
qed simp

lemma detect_model_intended:
  assumes "detect_model options key previous s = Inr ops" "schema_Key previous = key"
  shows "\<forall>op \<in> set ops. intended options op"
proof -
  from assms(1) obtain ri ai io rc ac co p1 p2 p3 fieldOps oldFields removals where
    ix: "detectIndexes previous s = Inr (ri, ai, io)" and con: "detectConstraints previous s = Inr (rc, ac, co)"
    and p1: "fold_state applyIndexState ri previous = Inr p1"
    and p2: "fold_state applyConstraintState rc p1 = Inr p2"
    and flds: "detect_fields (sch_Fields s) p2 (by_name fld_Name (sch_Fields p2)) = Inr (fieldOps, p3, oldFields)"
    and rem: "detect_removals (do_AllowRemoveFields options) key oldFields (sort (remdups (map fst oldFields))) p3 = Inr removals"
    and ops: "ops = ri @ rc @ fieldOps @ removals @ ai @ ac @
        (case io of None \<Rightarrow> [] | Some op \<Rightarrow> [op]) @ (case co of None \<Rightarrow> [] | Some op \<Rightarrow> [op])"
    by (auto simp: detect_model_def split: option.splits sum.splits prod.splits)
  have "schema_Key p2 = key"
    using fold_state_key [OF apply_state_key(1) p1] fold_state_key [OF apply_state_key(2) p2] assms(2) by simp
  then have p3: "schema_Key p3 = key" "fields_keyed oldFields" "\<forall>op \<in> set fieldOps. \<not> destructive op"
    using detect_fields_spec [OF flds fields_keyed_by_name] by auto
  have "\<forall>op \<in> set removals. intended options op"
    using detect_removals_spec [OF rem p3(2) _ p3(1)] by (auto simp: map_of_eq_None_iff)
  then show ?thesis
    using detect_index_ops [OF ix] detect_constraint_ops [OF con] p3(3) harmless
    by (auto simp: ops split: option.splits)
qed

lemma detect_models_intended:
  "detect_models options new keys old = Inr (ops, rest) \<Longrightarrow> keyed old \<Longrightarrow>
     keyed rest \<and> (\<forall>op \<in> set ops. intended options op)"
proof (induction keys arbitrary: old ops)
  case (Cons key keys)
  show ?case
  proof (cases "map_of old key")
    case None
    with Cons.prems(1) obtain ops' where "detect_models options new keys old = Inr (ops', rest)"
        "ops = CreateModel (state_get new key) # ops'"
      by (auto simp: Let_def split: sum.splits prod.splits)
    with Cons.IH [of old ops'] Cons.prems(2) show ?thesis by (auto intro: harmless simp: destructive_def)
  next
    case (Some previous)
    with Cons.prems(1) obtain mops ops' where m: "detect_model options key previous (state_get new key) = Inr mops"
        and rec: "detect_models options new keys (AList.delete key old) = Inr (ops', rest)" and ops: "ops = mops @ ops'"
      by (auto simp: Let_def split: sum.splits prod.splits)
    have "schema_Key previous = key" using Some Cons.prems(2) by (simp add: keyed_def)
    with detect_model_intended [OF m] Cons.IH [OF rec] Cons.prems(2) show ?thesis
      by (auto simp: ops keyed_delete)
  qed
qed simp

lemma detect_deleted_intended:
  "detect_deleted (do_AllowRemoveModels options) old keys = Inr ops \<Longrightarrow> keyed old \<Longrightarrow>
     \<forall>k \<in> set keys. map_of old k \<noteq> None \<Longrightarrow> \<forall>op \<in> set ops. intended options op"
  by (induction keys arbitrary: ops)
     (auto simp: intended_def keyed_def state_get_def split: if_splits sum.splits option.splits)

text \<open>
  C12. \<open>Detect\<close> is never destructive without intent: every model deletion and every field removal it
  emits was allowed by the caller under the name of that very model or field.
\<close>

theorem Detect_explicit_intent:
  assumes "Detect before after options = Inr ops" "op \<in> set ops"
  shows "(op_Kind op = ''delete_model'' \<longrightarrow> schema_Key (op_Schema op) \<in> set (do_AllowRemoveModels options)) \<and>
    (op_Kind op = ''remove_field'' \<longrightarrow>
       schema_Key (op_Schema op) @ ''.'' @ fld_Name (op_Field op) \<in> set (do_AllowRemoveFields options))"
proof -
  from assms(1) obtain r h m rest d where
    ren: "detectFieldRenames (key_schemas before) (key_schemas after) (do_Renames options) = Inr (r, h)"
    and mods: "detect_models options (key_schemas after) (sort (map fst (key_schemas after))) h = Inr (m, rest)"
    and del: "detect_deleted (do_AllowRemoveModels options) rest (sort (map fst rest)) = Inr d"
    and ord: "orderDetectedOperations (r @ m @ d) h (key_schemas after) = Inr ops"
    by (auto simp: Detect_def Let_def split: option.splits sum.splits prod.splits)
  have h: "keyed h" "\<forall>op \<in> set r. \<not> destructive op"
    using detect_renames_spec [OF ren [unfolded detectFieldRenames_def] keyed_key_schemas] by auto
  have m: "keyed rest" "\<forall>op \<in> set m. intended options op"
    using detect_models_intended [OF mods h(1)] by auto
  have "\<forall>op \<in> set d. intended options op"
    using detect_deleted_intended [OF del m(1)] by (auto simp: map_of_eq_None_iff)
  moreover have "set ops \<subseteq> set (r @ m @ d)"
    by (rule order_subset [OF ord])
  ultimately have "intended options op" using assms(2) h(2) m(2) harmless by auto
  then show ?thesis by (simp add: intended_def)
qed

theorem Detect_explicit_intent_witness:
  "\<exists>ops op. Detect [zero_schema\<lparr>sch_AppLabel := ''b'', sch_Name := ''P''\<rparr>] []
      \<lparr>do_AllowRemoveModels = [''b.P''], do_AllowRemoveFields = [], do_Renames = []\<rparr> = Inr ops \<and> op \<in> set ops \<and>
    op_Kind op = ''delete_model'' \<and> schema_Key (op_Schema op) \<in> set [''b.P'']"
proof -
  let ?s = "zero_schema\<lparr>sch_AppLabel := ''b'', sch_Name := ''P''\<rparr>"
  let ?o = "\<lparr>do_AllowRemoveModels = [''b.P''], do_AllowRemoveFields = [], do_Renames = []\<rparr>"
  have run: "Detect [?s] [] ?o = Inr [DeleteModel ?s]"
    by (simp add: Detect_def key_schemas_def detectFieldRenames_def schema_Key_def state_get_def
        orderDetectedOperations_def build_graph_def scan_operation_def empty_graph_def model_ops_def
        added_fields_def createsModelStorage_def removes_target_def inbound_references_def
        initial_ready_def children_def zero_schema_def Let_def)
  have "DeleteModel ?s \<in> set [DeleteModel ?s]" "op_Kind (DeleteModel ?s) = ''delete_model''" by simp_all
  then show ?thesis using Detect_explicit_intent [OF run, of "DeleteModel ?s"] run by fastforce
qed

subsection \<open>Detected index operations reproduce the desired indexes\<close>

lemma indexEquivalent_eq: "indexEquivalent a b \<longleftrightarrow> a = b"
  by (cases a; cases b) (auto simp: indexEquivalent_def)

lemma map_of_by_name:
  assumes "distinct (map name xs)"
  shows "map_of (by_name name xs) n = Some x \<longleftrightarrow> x \<in> set xs \<and> name x = n"
proof -
  have "distinct (map fst (by_name name xs))" using assms by (simp add: by_name_def rev_map [symmetric] o_def)
  then show ?thesis by (auto simp: map_of_eq_Some_iff by_name_def)
qed

lemma kept_index_iff:
  assumes "distinct (map idx_Name xs)"
  shows "kept_index (by_name idx_Name xs) ix \<longleftrightarrow> ix \<in> set xs"
proof (cases "map_of (by_name idx_Name xs) (idx_Name ix)")
  case None
  then show ?thesis
    using map_of_by_name [OF assms, of "idx_Name ix" ix] by (auto simp: kept_index_def)
next
  case (Some y)
  then show ?thesis
    using map_of_by_name [OF assms, of "idx_Name ix" ix] map_of_by_name [OF assms, of "idx_Name ix" y]
    by (auto simp: kept_index_def indexEquivalent_eq)
qed

lemma kept_index_fun:
  "distinct (map idx_Name xs) \<Longrightarrow> kept_index (by_name idx_Name xs) = (\<lambda>ix. ix \<in> set xs)"
  by (simp add: fun_eq_iff kept_index_iff)

lemma detect_removed_filter:
  "detect_removed s m ixs = Inr (ops, kept) \<Longrightarrow>
     ops = map (RemoveIndex s) (filter (\<lambda>x. \<not> kept_index m x) ixs) \<and> kept = filter (kept_index m) ixs"
  by (induction ixs arbitrary: ops kept) (auto split: if_splits sum.splits prod.splits)

lemma detect_added_filter:
  "detect_added s m ixs = Inr (ops, added) \<Longrightarrow>
     ops = map (AddIndex s) added \<and> added = filter (\<lambda>x. \<not> kept_index m x) ixs"
  by (induction ixs arbitrary: ops added) (auto split: if_splits sum.splits prod.splits)

lemma position_unique:
  assumes "distinct (map name xs)" "x \<in> set xs"
  shows "\<exists>i < length xs. position (\<lambda>y. name y = name x) xs = Some i \<and> xs ! i = x \<and>
    remove_at i xs = filter (\<lambda>y. y \<noteq> x) xs"
  using assms
proof (induction xs)
  case (Cons y ys)
  show ?case
  proof (cases "y = x")
    case True
    with Cons.prems have "x \<notin> set ys" by auto
    then have "filter (\<lambda>z. z \<noteq> x) ys = ys" by (simp add: filter_id_conv) metis
    with True show ?thesis by (auto simp: remove_at_def)
  next
    case False
    then have "x \<in> set ys" "name y \<noteq> name x" using Cons.prems by auto
    with Cons False obtain i where "i < length ys" "position (\<lambda>y. name y = name x) ys = Some i" "ys ! i = x"
        "remove_at i ys = filter (\<lambda>y. y \<noteq> x) ys" by auto
    with False \<open>name y \<noteq> name x\<close> show ?thesis by (auto simp: remove_at_def)
  qed
qed simp

lemma position_None: "position p xs = None \<longleftrightarrow> (\<forall>x \<in> set xs. \<not> p x)"
  by (induction xs) auto

lemma reorder_by_name:
  "distinct (map name ys) \<Longrightarrow> \<forall>y \<in> set ys. map_of m (name y) = Some y \<Longrightarrow> reorder m (map name ys) = Some ys"
proof (induction ys arbitrary: m)
  case (Cons y ys)
  have "\<forall>z \<in> set ys. map_of (AList.delete (name y) m) (name z) = Some z"
  proof
    fix z assume z: "z \<in> set ys"
    then have "name z \<in> set (map name ys)" by simp
    then have "name z \<noteq> name y" using Cons.prems(1) by (metis distinct.simps(2) list.simps(9))
    moreover have "map_of m (name z) = Some z" using Cons.prems(2) z by simp
    ultimately show "map_of (AList.delete (name y) m) (name z) = Some z" by (simp add: delete_conv')
  qed
  with Cons.prems Cons.IH [of "AList.delete (name y) m"] show ?case by simp
qed simp

text \<open>What replaying operations may end in: the indexes \<open>ixs\<close>, or a schema that fails \<open>Validate\<close>.\<close>

definition reaches :: "model_index list \<Rightarrow> migration_error + schema \<Rightarrow> bool" where
  "reaches ixs res \<longleftrightarrow> (case res of Inr s \<Rightarrow> sch_Indexes s = ixs | Inl (Mig_invalid e) \<Rightarrow> True | Inl _ \<Rightarrow> False)"

lemma fold_state_append:
  "fold_state f (xs @ ys) s = (case fold_state f xs s of Inl e \<Rightarrow> Inl e | Inr s' \<Rightarrow> fold_state f ys s')"
  by (induction xs arbitrary: s) (auto split: sum.splits)

lemma reaches_validated: "reaches (sch_Indexes s) (validated s)"
  by (simp add: reaches_def validated_def split: option.splits)

lemma reaches_bind:
  "reaches ixs res \<Longrightarrow> (\<And>s. sch_Indexes s = ixs \<Longrightarrow> reaches ixs' (f s)) \<Longrightarrow>
     reaches ixs' (case res of Inl e \<Rightarrow> Inl e | Inr s \<Rightarrow> f s)"
  by (cases res) (auto simp: reaches_def split: migration_error.splits)

lemma replay_removals:
  "set xs \<subseteq> set (sch_Indexes s) \<Longrightarrow> distinct xs \<Longrightarrow> distinct (map idx_Name (sch_Indexes s)) \<Longrightarrow>
     reaches (filter (\<lambda>y. y \<notin> set xs) (sch_Indexes s)) (fold_state applyIndexState (map (RemoveIndex old) xs) s)"
proof (induction xs arbitrary: s)
  case (Cons x xs)
  obtain i where i: "position (\<lambda>y. idx_Name y = idx_Name x) (sch_Indexes s) = Some i" "sch_Indexes s ! i = x"
      "remove_at i (sch_Indexes s) = filter (\<lambda>y. y \<noteq> x) (sch_Indexes s)"
    using position_unique [OF Cons.prems(3), of x] Cons.prems(1) by auto
  have one: "applyIndexState s (RemoveIndex old x) = validated (s\<lparr>sch_Indexes := filter (\<lambda>y. y \<noteq> x) (sch_Indexes s)\<rparr>)"
    by (simp add: applyIndexState_def i indexEquivalent_eq)
  have first: "reaches (filter (\<lambda>y. y \<noteq> x) (sch_Indexes s)) (applyIndexState s (RemoveIndex old x))"
    unfolding one by (rule reaches_validated [where s = "s\<lparr>sch_Indexes := filter (\<lambda>y. y \<noteq> x) (sch_Indexes s)\<rparr>", simplified])
  have "reaches (filter (\<lambda>y. y \<notin> set (x # xs)) (sch_Indexes s)) (fold_state applyIndexState (map (RemoveIndex old) xs) t)"
    if t: "sch_Indexes t = filter (\<lambda>y. y \<noteq> x) (sch_Indexes s)" for t
  proof -
    have "set xs \<subseteq> set (sch_Indexes t)" "distinct (map idx_Name (sch_Indexes t))"
      using Cons.prems by (auto simp: t distinct_map_filter)
    then have "reaches (filter (\<lambda>y. y \<notin> set xs) (sch_Indexes t)) (fold_state applyIndexState (map (RemoveIndex old) xs) t)"
      using Cons.IH [of t] Cons.prems(2) by simp
    moreover have "filter (\<lambda>y. y \<notin> set xs) (sch_Indexes t) = filter (\<lambda>y. y \<notin> set (x # xs)) (sch_Indexes s)"
      by (simp add: t conj_commute cong: filter_cong)
    ultimately show ?thesis by simp
  qed
  then show ?case using reaches_bind [OF first] by simp
qed (simp add: reaches_def)

lemma replay_additions:
  "distinct (map idx_Name (sch_Indexes s @ xs)) \<Longrightarrow>
     reaches (sch_Indexes s @ xs) (fold_state applyIndexState (map (AddIndex new) xs) s)"
proof (induction xs arbitrary: s)
  case (Cons x xs)
  have "position (\<lambda>y. idx_Name y = idx_Name x) (sch_Indexes s) = None"
    using Cons.prems by (simp add: position_None) (metis image_eqI)
  then have one: "applyIndexState s (AddIndex new x) = validated (s\<lparr>sch_Indexes := sch_Indexes s @ [x]\<rparr>)"
    by (simp add: applyIndexState_def)
  have first: "reaches (sch_Indexes s @ [x]) (applyIndexState s (AddIndex new x))"
    unfolding one by (rule reaches_validated [where s = "s\<lparr>sch_Indexes := sch_Indexes s @ [x]\<rparr>", simplified])
  have "reaches (sch_Indexes s @ x # xs) (fold_state applyIndexState (map (AddIndex new) xs) t)"
    if "sch_Indexes t = sch_Indexes s @ [x]" for t
    using Cons.IH [of t] Cons.prems that by simp
  then show ?case using reaches_bind [OF first] by simp
qed (simp add: reaches_def)

lemma same_elements:
  assumes "distinct (map name xs)" "distinct (map name ys)" "set xs = set ys"
  shows "length xs = length ys" "map name xs = map name ys \<Longrightarrow> xs = ys"
proof -
  have "distinct xs" "distinct ys" using assms(1,2) by (simp_all add: distinct_map)
  then show "length xs = length ys" using assms(3) by (metis distinct_card)
  show "xs = ys" if "map name xs = map name ys"
    using that assms by (metis distinct_map map_inj_on sup.idem)
qed

lemma replay_order:
  assumes "distinct (map idx_Name (sch_Indexes s))" "distinct (map idx_Name ixs)" "set (sch_Indexes s) = set ixs"
  shows "reaches ixs (applyIndexState s (zero_operation\<lparr>op_Kind := ''index_order'', op_Schema := new,
      op_OldIndexOrder := map idx_Name (sch_Indexes s), op_IndexOrder := map idx_Name ixs\<rparr>))"
proof -
  have "reorder (by_name idx_Name (sch_Indexes s)) (map idx_Name ixs) = Some ixs"
    using assms by (intro reorder_by_name) (auto simp: map_of_by_name)
  moreover have "length ixs = length (sch_Indexes s)" using same_elements(1) [OF assms] by simp
  ultimately show ?thesis
    using reaches_validated [of "s\<lparr>sch_Indexes := ixs\<rparr>"] by (simp add: applyIndexState_def)
qed

text \<open>
  The index operations that \<open>detectIndexes\<close> emits, replayed on the historical schema by
  \<open>applyIndexState\<close>, lead to exactly the desired indexes in the desired order; the replay never
  finds the history different from what it expects, and can only stop because an intermediate
  schema fails \<open>Validate\<close>.
\<close>

lemma detectIndexes_replay:
  assumes "detectIndexes before after = Inr (remove, add, order)"
    and "distinct (map idx_Name (sch_Indexes after))"
  shows "case fold_state applyIndexState (remove @ add @ (case order of None \<Rightarrow> [] | Some op \<Rightarrow> [op])) before of
      Inr s \<Rightarrow> sch_Indexes s = sch_Indexes after
    | Inl (Mig_invalid e) \<Rightarrow> True
    | Inl _ \<Rightarrow> False"
proof -
  let ?B = "sch_Indexes before" and ?A = "sch_Indexes after"
  let ?kept = "filter (\<lambda>x. x \<in> set ?A) ?B" and ?added = "filter (\<lambda>x. x \<notin> set ?B) ?A"
  from assms(1) obtain kept added where dist: "distinct (map idx_Name ?B)"
      and rem: "detect_removed before (by_name idx_Name ?A) ?B = Inr (remove, kept)"
      and add: "detect_added after (by_name idx_Name ?B) ?A = Inr (add, added)"
      and order: "order = (if map idx_Name (kept @ added) = map idx_Name ?A then None
        else Some (zero_operation\<lparr>op_Kind := ''index_order'', op_Schema := after,
          op_OldIndexOrder := map idx_Name (kept @ added), op_IndexOrder := map idx_Name ?A\<rparr>))"
    by (auto simp: detectIndexes_def Let_def split: if_splits sum.splits prod.splits)
  have lists: "remove = map (RemoveIndex before) (filter (\<lambda>x. x \<notin> set ?A) ?B)" "kept = ?kept"
      "add = map (AddIndex after) ?added" "added = ?added"
    using detect_removed_filter [OF rem] detect_added_filter [OF add]
    by (simp_all add: kept_index_fun dist assms(2))
  have inj: "x = y" if "x \<in> set ?A" "y \<in> set ?A" "idx_Name x = idx_Name y" for x y
    using assms(2) that by (auto simp: distinct_map dest: inj_onD)
  have all: "distinct (map idx_Name (?kept @ ?added))" "set (?kept @ ?added) = set ?A"
    using dist assms(2) inj by (auto simp: distinct_map_filter)
  have "reaches ?kept (fold_state applyIndexState remove before)"
    using replay_removals [of "filter (\<lambda>x. x \<notin> set ?A) ?B" before before] dist
    by (simp add: lists distinct_map cong: filter_cong)
  moreover have "reaches (?kept @ ?added) (fold_state applyIndexState add s)" if "sch_Indexes s = ?kept" for s
    using replay_additions [of s ?added after] all(1) that lists(3) by simp
  moreover have "reaches ?A (fold_state applyIndexState (case order of None \<Rightarrow> [] | Some op \<Rightarrow> [op]) s)"
    if s: "sch_Indexes s = ?kept @ ?added" for s
    using replay_order [of s ?A after] same_elements(2) [OF all(1) assms(2) all(2)] all assms(2) s
    by (auto simp: order lists reaches_def split: sum.splits)
  ultimately have "reaches ?A (fold_state applyIndexState (remove @ add @ (case order of None \<Rightarrow> [] | Some op \<Rightarrow> [op])) before)"
    unfolding fold_state_append by (intro reaches_bind) 
  then show ?thesis by (simp add: reaches_def split: sum.splits migration_error.splits)
qed

lemma detectIndexes_replay_example:
  "\<exists>remove add order. detectIndexes
       (zero_schema\<lparr>sch_Indexes := [zero_index\<lparr>idx_Name := ''a''\<rparr>]\<rparr>)
       (zero_schema\<lparr>sch_Indexes := [zero_index\<lparr>idx_Name := ''b''\<rparr>, zero_index\<lparr>idx_Name := ''a''\<rparr>]\<rparr>) =
       Inr (remove, add, order) \<and>
     (case fold_state applyIndexState (remove @ add @ (case order of None \<Rightarrow> [] | Some op \<Rightarrow> [op]))
         (zero_schema\<lparr>sch_Indexes := [zero_index\<lparr>idx_Name := ''a''\<rparr>]\<rparr>) of
        Inr s \<Rightarrow> map idx_Name (sch_Indexes s) = [''b'', ''a''] | Inl (Mig_invalid e) \<Rightarrow> True | Inl _ \<Rightarrow> False)"
proof -
  let ?b = "zero_schema\<lparr>sch_Indexes := [zero_index\<lparr>idx_Name := ''a''\<rparr>]\<rparr>"
  let ?a = "zero_schema\<lparr>sch_Indexes := [zero_index\<lparr>idx_Name := ''b''\<rparr>, zero_index\<lparr>idx_Name := ''a''\<rparr>]\<rparr>"
  obtain remove add order where run: "detectIndexes ?b ?a = Inr (remove, add, order)"
    by (simp add: detectIndexes_def by_name_def kept_index_def concurrent_in_def indexEquivalent_def zero_index_def)
  from detectIndexes_replay [OF run] run show ?thesis
    by (intro exI [of _ remove] exI [of _ add] exI [of _ order])
       (auto split: sum.splits migration_error.splits)
qed

end
