(* ===== verification/Migration_Plan.thy ===== *)
theory Migration_Plan
  imports Dependency_Visit Migration_Order
begin

text \<open>
  Planning and running migrations: \<open>Plan\<close>, \<open>Apply\<close> (\<open>core/migrations/migrations.go\<close>) and \<open>Reverse\<close>
  (\<open>core/migrations/planning.go\<close>), with the preflight checks of \<open>index_preflight.go\<close>,
  \<open>constraint_lifecycle.go\<close> and \<open>schema_transition.go\<close>.

  The database is a value of type \<open>'d\<close>; the recorded history, the table \<open>gogo_migrations\<close>, is the
  list of its rows in order. What the schema editor and the data callbacks do to the database is the
  parameter \<open>exec\<close>, the encoding \<open>json.Marshal\<close> of a migration is the parameter \<open>marshal\<close>; the
  editor's optional interfaces are fields of a record.
\<close>

subsection \<open>Identifiers and checksums\<close>

definition migration_Key :: "migration \<Rightarrow> string" where
  "migration_Key m = mig_App m @ ''.'' @ mig_Name m"

text \<open>\<open>migrationName\<close> is \<^verbatim>\<open>^[A-Za-z0-9_]{1,128}$\<close>.\<close>

definition migrationName :: "string \<Rightarrow> bool" where
  "migrationName s = (1 \<le> length s \<and> length s \<le> 128 \<and> list_all ident_char s)"

definition Checksum :: "(migration \<Rightarrow> string option) \<Rightarrow> migration \<Rightarrow> migration_error + string" where
  "Checksum marshal m =
     (if list_ex (\<lambda>op. op_Kind op = ''data'' \<and> (op_CodeID op = [] \<or> \<not> op_Forward op)) (mig_Operations m)
        then Inl (Mig ''data operation requires stable CodeID and forward callback'')
      else case marshal m of
        None \<Rightarrow> Inl (Mig ''json'')
      | Some encoded \<Rightarrow> Inr (hex_encode (sha256 encoded)))"

subsection \<open>Plan\<close>

type_synonym migration_index = "(string \<times> migration) list"

fun index_migrations ::
  "(migration \<Rightarrow> string option) \<Rightarrow> migration list \<Rightarrow> migration_index \<Rightarrow> migration_error + migration_index" where
  "index_migrations marshal [] byID = Inr byID"
| "index_migrations marshal (m # ms) byID =
     (if \<not> ValidIdentifier (mig_App m) \<or> \<not> migrationName (mig_Name m)
        then Inl (Mig ''invalid migration identifier'')
      else if map_of byID (migration_Key m) \<noteq> None then Inl (Mig ''duplicate migration'')
      else case Checksum marshal m of
        Inl e \<Rightarrow> Inl e
      | Inr _ \<Rightarrow> index_migrations marshal ms (byID @ [(migration_Key m, m)]))"

record plan_state =
  ps_visiting :: "string \<Rightarrow> bool"
  ps_visited :: "string \<Rightarrow> bool"
  ps_order :: "migration list"

function plan_visit :: "migration_index \<Rightarrow> string list \<Rightarrow> plan_state \<Rightarrow> string visit_error + plan_state" where
  "plan_visit byID [] s = Inr s"
| "plan_visit byID (key # keys) s =
     (if ps_visiting s key then Inl (Cycle key)
      else if ps_visited s key then plan_visit byID keys s
      else case map_of byID key of
        None \<Rightarrow> Inl (Missing key)
      | Some m \<Rightarrow>
          (case plan_visit byID (mig_Dependencies m) (s\<lparr>ps_visiting := (ps_visiting s)(key := True)\<rparr>) of
             Inl e \<Rightarrow> Inl e
           | Inr s' \<Rightarrow> plan_visit byID keys
               (s'\<lparr>ps_visiting := (ps_visiting s')(key := False), ps_visited := (ps_visited s')(key := True),
                   ps_order := ps_order s' @ [m]\<rparr>)))"
  by pat_completeness auto

abbreviation ps_marked :: "plan_state \<Rightarrow> string \<Rightarrow> bool" where
  "ps_marked s k \<equiv> ps_visiting s k \<or> ps_visited s k"

definition plan_todo :: "migration_index \<Rightarrow> plan_state \<Rightarrow> string set" where
  "plan_todo byID s = {k \<in> set (map fst byID). \<not> ps_marked s k}"

lemma plan_visit_marks:
  "plan_visit_dom (byID, keys, s) \<Longrightarrow> plan_visit byID keys s = Inr s' \<Longrightarrow> ps_marked s k \<Longrightarrow> ps_marked s' k"
proof (induction byID keys s arbitrary: s' rule: plan_visit.pinduct)
  case (2 byID key keys s)
  then show ?case
    by (auto simp: plan_visit.psimps split: if_splits option.splits sum.splits)
qed (simp add: plan_visit.psimps)

lemma plan_todo_enter:
  assumes "map_of byID key = Some m" "\<not> ps_marked s key"
    and "\<And>k. ps_marked s k \<or> k = key \<Longrightarrow> ps_marked s' k"
  shows "card (plan_todo byID s') < card (plan_todo byID s)"
proof (rule psubset_card_mono)
  show "finite (plan_todo byID s)" by (simp add: plan_todo_def)
  have "key \<in> plan_todo byID s" "key \<notin> plan_todo byID s'"
    using assms by (auto simp: plan_todo_def dest: map_of_SomeD intro: rev_image_eqI)
  moreover have "plan_todo byID s' \<subseteq> plan_todo byID s"
    using assms(3) by (auto simp: plan_todo_def)
  ultimately show "plan_todo byID s' \<subset> plan_todo byID s" by blast
qed

termination plan_visit
proof (relation "measures [\<lambda>(b, ks, s). card (plan_todo b s), \<lambda>(b, ks, s). length ks]", goal_cases)
  case (3 byID key keys s m)
  then have "card (plan_todo byID (s\<lparr>ps_visiting := (ps_visiting s)(key := True)\<rparr>)) < card (plan_todo byID s)"
    by (intro plan_todo_enter [where key = key and m = m]) (auto split: if_splits)
  then show ?case by simp
next
  case (4 byID key keys s m s')
  have "ps_marked s' k" if "ps_marked s k \<or> k = key" for k
    using plan_visit_marks [OF 4(5) 4(4), of k] that by (cases "k = key") auto
  with 4 have "card (plan_todo byID (s'\<lparr>ps_visiting := (ps_visiting s')(key := False),
      ps_visited := (ps_visited s')(key := True), ps_order := ps_order s' @ [m]\<rparr>)) < card (plan_todo byID s)"
    by (intro plan_todo_enter [where key = key and m = m]) (auto split: if_splits)
  then show ?case by simp
qed auto

definition plan_error :: "string visit_error \<Rightarrow> migration_error" where
  "plan_error e = (case e of Cycle k \<Rightarrow> Mig (''dependency cycle at '' @ k) | Missing k \<Rightarrow> Mig (''missing dependency '' @ k))"

definition plan_start :: plan_state where
  "plan_start = \<lparr>ps_visiting = \<lambda>_. False, ps_visited = \<lambda>_. False, ps_order = []\<rparr>"

definition Plan :: "(migration \<Rightarrow> string option) \<Rightarrow> migration list \<Rightarrow> string \<Rightarrow> migration_error + migration list" where
  "Plan marshal migrations target =
     (case index_migrations marshal migrations [] of
        Inl e \<Rightarrow> Inl e
      | Inr byID \<Rightarrow>
          (case plan_visit byID (if target \<noteq> [] then [target] else sort (map fst byID)) plan_start of
             Inl e \<Rightarrow> Inl (plan_error e)
           | Inr s \<Rightarrow> Inr (ps_order s)))"

subsection \<open>Preflight checks\<close>

record editor =
  ed_constraint_lifecycle :: bool
  ed_index_lifecycle :: bool
  ed_transition :: "(schema list \<Rightarrow> schema list \<Rightarrow> migration_error option) option"
  ed_resolver :: "(schema list \<Rightarrow> migration_error option) option"

definition validateConstraintOperations :: "editor \<Rightarrow> migration \<Rightarrow> migration_error option" where
  "validateConstraintOperations ed m =
     first_error (\<lambda>op.
       if op_Kind op \<noteq> ''add_constraint'' \<and> op_Kind op \<noteq> ''remove_constraint'' then None
       else if op_Constraint op = None then Some (Mig ''constraint operation requires immutable descriptor'')
       else if \<not> ed_constraint_lifecycle ed
         then Some (Mig_unsupported ''Constraint operations require a definition-aware schema editor'')
       else if mig_NonAtomic m then Some (Mig_unsupported ''Constraint lifecycle requires an atomic migration'')
       else None) (mig_Operations m)"

definition validateIndexOperations :: "editor \<Rightarrow> migration \<Rightarrow> bool \<Rightarrow> migration_error option" where
  "validateIndexOperations ed m reverse =
     (case validateConstraintOperations ed m of
        Some e \<Rightarrow> Some e
      | None \<Rightarrow>
          first_error (\<lambda>op.
            let kind = op_Kind op; concurrent = idx_Concurrent (op_Index op);
                removes = ((kind = ''remove_index'' \<and> \<not> reverse) \<or> (kind = ''add_index'' \<and> reverse))
            in
            if kind = ''create_model'' \<and> \<not> reverse \<and> \<not> mig_NonAtomic m \<and>
               list_ex idx_Concurrent (sch_Indexes (op_Schema op))
              then Some (Mig_unsupported ''Concurrent indexes cannot be created inside an atomic model migration'')
            else if removes \<and> \<not> ed_index_lifecycle ed
              then Some (Mig_unsupported ''Historical index removal requires a definition-aware schema editor'')
            else if removes \<and> (concurrent \<or> mig_NonAtomic m)
              then Some (Mig_unsupported ''Index lifecycle removal requires an atomic nonconcurrent migration'')
            else if kind = ''add_index'' \<and> \<not> reverse \<and> concurrent \<and> \<not> mig_NonAtomic m
              then Some (Mig_unsupported ''Concurrent index creation requires an explicit non-atomic migration'')
            else if kind = ''remove_index'' \<and> concurrent
              then Some (Mig_unsupported ''Concurrent index removal requires an explicit online migration'')
            else None) (mig_Operations m))"

definition validateAutomaticTransitionTargets ::
  "migration \<Rightarrow> schema list \<Rightarrow> schema list \<Rightarrow> migration_error option" where
  "validateAutomaticTransitionTargets m before after =
     (let known = map schema_Key before @ map schema_Key after in
      first_error (\<lambda>op.
        first_error (\<lambda>f.
          if automatic_m2m f \<and> rel_Target (relation_of f) \<notin> set known
            then Some (Mig_unsupported ''Automatic relations to transient targets require separate migrations'')
          else None) (added_fields op)) (mig_Operations m))"

definition removesAutomaticRelations :: "schema list \<Rightarrow> schema list \<Rightarrow> bool" where
  "removesAutomaticRelations before after =
     (let current = rev (map (\<lambda>s. (schema_Key s, s)) after) in
      list_ex (\<lambda>source.
        createsModelStorage source \<and>
        list_ex (\<lambda>f. automatic_m2m f \<and>
          (case map_of current (schema_Key source) of
             None \<Rightarrow> True
           | Some newSource \<Rightarrow>
               (case schema_Field newSource (fld_Name f) of
                  None \<Rightarrow> True
                | Some newField \<Rightarrow>
                    map_of current (rel_Target (relation_of f)) = None \<or> \<not> automatic_m2m newField \<or>
                    rel_Target (relation_of newField) \<noteq> rel_Target (relation_of f)))) (sch_Fields source)) before)"

definition needsAutomaticTransition :: "migration \<Rightarrow> schema list \<Rightarrow> schema list \<Rightarrow> bool" where
  "needsAutomaticTransition m before after =
     (removesAutomaticRelations before after \<or>
      list_ex (\<lambda>source.
        createsModelStorage source \<and>
        list_ex (\<lambda>f. automatic_m2m f \<and>
          list_ex (\<lambda>op.
            (op_Kind op = ''delete_model'' \<and> createsModelStorage (op_Schema op) \<and>
              (schema_Key (op_Schema op) = schema_Key source \<or> schema_Key (op_Schema op) = rel_Target (relation_of f))) \<or>
            (op_Kind op = ''remove_field'' \<and> schema_Key (op_Schema op) = schema_Key source \<and>
              fld_Name (op_Field op) = fld_Name f)) (mig_Operations m)) (sch_Fields source)) before)"

text \<open>
  \<open>withHistoricalSchemas\<close>, reduced to whether it fails. \<open>detach\<close> is \<open>detachTransitionValues\<close>, which
  copies metadata values and can only refuse them.
\<close>

definition withHistoricalSchemas ::
  "(migration \<Rightarrow> string option) \<Rightarrow> (schema list \<Rightarrow> migration_error option) \<Rightarrow> editor \<Rightarrow> migration list \<Rightarrow>
     string \<Rightarrow> bool \<Rightarrow> migration_error option" where
  "withHistoricalSchemas marshal detach ed migrations target reverse =
     (case Plan marshal migrations target of
        Inl e \<Rightarrow> Some e
      | Inr plan \<Rightarrow>
          if plan = [] then Some (Mig ''schema transition requires a migration'')
          else (case (schemaState plan, schemaState (butlast plan)) of
              (Inl e, _) \<Rightarrow> Some e
            | (Inr _, Inl e) \<Rightarrow> Some e
            | (Inr after, Inr before) \<Rightarrow>
                (case validateAutomaticTransitionTargets (last plan) before after of
                   Some e \<Rightarrow> Some e
                 | None \<Rightarrow>
                     (case first_error detach [before, after] of
                        Some e \<Rightarrow> Some e
                      | None \<Rightarrow>
                          (case ed_transition ed of
                             Some f \<Rightarrow> if reverse then f after before else f before after
                           | None \<Rightarrow>
                               if \<not> reverse \<and> needsAutomaticTransition (last plan) before after
                                 then Some (Mig_unsupported ''Automatic relation removal requires a historical schema transition editor'')
                               else (case ed_resolver ed of Some f \<Rightarrow> f after | None \<Rightarrow> None))))))"

definition preflight ::
  "(migration \<Rightarrow> string option) \<Rightarrow> (schema list \<Rightarrow> migration_error option) \<Rightarrow> editor \<Rightarrow> migration list \<Rightarrow>
     bool \<Rightarrow> migration \<Rightarrow> migration_error option" where
  "preflight marshal detach ed migrations reverse m =
     (case validateIndexOperations ed m reverse of
        Some e \<Rightarrow> Some e
      | None \<Rightarrow>
          (case withHistoricalSchemas marshal detach ed migrations (migration_Key m) reverse of
             Some e \<Rightarrow> Some e
           | None \<Rightarrow> validateIndexOperations ed m reverse))"

subsection \<open>Apply\<close>

type_synonym history = "(string \<times> string) list"

text \<open>
  The executor's world: the database and the history table. \<open>exec\<close> runs the operations of one
  migration and returns the database it leaves and an error, if any; an atomic migration that fails
  leaves the database as it was, a non-atomic one leaves what it did. The row is written in the same
  step.
\<close>

type_synonym 'd world = "'d \<times> history"

definition run_migration ::
  "(migration \<Rightarrow> bool \<Rightarrow> 'd \<Rightarrow> migration_error option \<times> 'd) \<Rightarrow> migration \<Rightarrow> bool \<Rightarrow> (history \<Rightarrow> history) \<Rightarrow>
     'd world \<Rightarrow> migration_error option \<times> 'd world" where
  "run_migration exec m reverse record w =
     (case exec m reverse (fst w) of
        (None, d) \<Rightarrow> (None, d, record (snd w))
      | (Some e, d) \<Rightarrow> (Some e, if mig_NonAtomic m then (d, snd w) else w))"

fun check_history ::
  "(migration \<Rightarrow> string option) \<Rightarrow> migration_index \<Rightarrow> history \<Rightarrow> migration_error option" where
  "check_history marshal known [] = None"
| "check_history marshal known ((key, digest) # rest) =
     (case map_of known key of
        None \<Rightarrow> Some (Mig ''applied migration has no source'')
      | Some m \<Rightarrow>
          if Checksum marshal m \<noteq> Inr digest then Some (Mig ''checksum mismatch'')
          else check_history marshal known rest)"

definition history_deps_missing :: "migration_index \<Rightarrow> history \<Rightarrow> bool" where
  "history_deps_missing known hist =
     list_ex (\<lambda>(key, digest). list_ex (\<lambda>dep. dep \<notin> set (map fst hist))
       (case map_of known key of None \<Rightarrow> [] | Some m \<Rightarrow> mig_Dependencies m)) hist"

definition checksum_of :: "(migration \<Rightarrow> string option) \<Rightarrow> migration \<Rightarrow> string" where
  "checksum_of marshal m = (case Checksum marshal m of Inl _ \<Rightarrow> [] | Inr s \<Rightarrow> s)"

text \<open>The loop over the plan. \<open>after_migrate\<close> is the optional callback; its error stops the loop.\<close>

fun apply_plan ::
  "(migration \<Rightarrow> string option) \<Rightarrow> (migration \<Rightarrow> bool \<Rightarrow> 'd \<Rightarrow> migration_error option \<times> 'd) \<Rightarrow>
     (migration \<Rightarrow> migration_error option) option \<Rightarrow> migration list \<Rightarrow> string list \<Rightarrow> 'd world \<Rightarrow>
     migration_error option \<times> 'd world" where
  "apply_plan marshal exec after_migrate [] applied w = (None, w)"
| "apply_plan marshal exec after_migrate (m # ms) applied w =
     (if migration_Key m \<in> set applied then apply_plan marshal exec after_migrate ms applied w
      else case run_migration exec m False (\<lambda>h. h @ [(migration_Key m, checksum_of marshal m)]) w of
        (Some e, w') \<Rightarrow> (Some e, w')
      | (None, w') \<Rightarrow>
          (case (case after_migrate of None \<Rightarrow> None | Some f \<Rightarrow> f m) of
             Some e \<Rightarrow> (Some e, w')
           | None \<Rightarrow> apply_plan marshal exec after_migrate ms (migration_Key m # applied) w'))"

definition Apply ::
  "(migration \<Rightarrow> string option) \<Rightarrow> (schema list \<Rightarrow> migration_error option) \<Rightarrow> editor \<Rightarrow>
     (migration \<Rightarrow> bool \<Rightarrow> 'd \<Rightarrow> migration_error option \<times> 'd) \<Rightarrow> (migration \<Rightarrow> migration_error option) option \<Rightarrow>
     migration list \<Rightarrow> string \<Rightarrow> 'd world \<Rightarrow> migration_error option \<times> 'd world" where
  "Apply marshal detach ed exec after_migrate migrations target w =
     (case Plan marshal migrations target of
        Inl e \<Rightarrow> (Some e, w)
      | Inr plan \<Rightarrow>
          (case first_error (preflight marshal detach ed migrations False) plan of
             Some e \<Rightarrow> (Some e, w)
           | None \<Rightarrow>
               (case Plan marshal migrations [] of
                  Inl e \<Rightarrow> (Some e, w)
                | Inr all \<Rightarrow>
                    (let known = map (\<lambda>m. (migration_Key m, m)) all in
                     case check_history marshal known (snd w) of
                       Some e \<Rightarrow> (Some e, w)
                     | None \<Rightarrow>
                         if history_deps_missing known (snd w) then (Some (Mig ''applied dependency missing''), w)
                         else apply_plan marshal exec after_migrate plan (map fst (snd w)) w))))"

subsection \<open>Reverse\<close>

text \<open>One pass of the marking loop, and the loop: it ends because every pass but the last marks a key.\<close>

fun mark_pass :: "migration list \<Rightarrow> string list \<Rightarrow> string list \<times> bool" where
  "mark_pass [] remove = (remove, False)"
| "mark_pass (m # ms) remove =
     (if migration_Key m \<in> set remove then mark_pass ms remove
      else if list_ex (\<lambda>d. d \<in> set remove) (mig_Dependencies m) then
        (fst (mark_pass ms (migration_Key m # remove)), True)
      else mark_pass ms remove)"

definition unmarked :: "migration list \<Rightarrow> string list \<Rightarrow> nat" where
  "unmarked ms remove = card (migration_Key ` set ms - set remove)"

lemma mark_pass_superset: "set remove \<subseteq> set (fst (mark_pass ms remove))"
  by (induction ms remove rule: mark_pass.induct) auto

lemma mark_pass_progress:
  "snd (mark_pass ms remove) \<Longrightarrow> \<exists>k \<in> migration_Key ` set ms. k \<notin> set remove \<and> k \<in> set (fst (mark_pass ms remove))"
proof (induction ms remove rule: mark_pass.induct)
  case (2 m ms remove)
  then show ?case
    using mark_pass_superset [of "migration_Key m # remove" ms] by (auto split: if_splits)
qed simp

lemma mark_pass_decreases:
  assumes "mark_pass ms remove = (remove', True)"
  shows "unmarked ms remove' < unmarked ms remove"
proof -
  have "set remove \<subseteq> set remove'" "\<exists>k \<in> migration_Key ` set ms. k \<notin> set remove \<and> k \<in> set remove'"
    using mark_pass_superset [of remove ms] mark_pass_progress [of ms remove] assms by auto
  then have "migration_Key ` set ms - set remove' \<subset> migration_Key ` set ms - set remove" by blast
  then show ?thesis by (auto simp: unmarked_def intro: psubset_card_mono)
qed

function mark_all :: "migration list \<Rightarrow> string list \<Rightarrow> string list" where
  "mark_all ms remove =
     (case mark_pass ms remove of (remove', changed) \<Rightarrow> if changed then mark_all ms remove' else remove')"
  by pat_completeness auto

termination mark_all
  by (relation "measure (\<lambda>(ms, remove). unmarked ms remove)") (auto simp: mark_pass_decreases eq_commute)

declare mark_all.simps [simp del]

definition reverse_marks :: "string \<Rightarrow> migration list \<Rightarrow> migration list \<Rightarrow> string list" where
  "reverse_marks app keep all =
     mark_all all (map migration_Key
       (filter (\<lambda>m. mig_App m = app \<and> migration_Key m \<notin> migration_Key ` set keep) all))"






subsection \<open>Plan meets the dependency contract\<close>

definition migration_index_of :: "migration list \<Rightarrow> migration_index" where
  "migration_index_of ms = map (\<lambda>m. (migration_Key m, m)) ms"

definition plan_deps :: "migration list \<Rightarrow> string \<Rightarrow> string list option" where
  "plan_deps ms k = map_option mig_Dependencies (map_of (migration_index_of ms) k)"

definition plan_colour :: "plan_state \<Rightarrow> string \<Rightarrow> colour" where
  "plan_colour s k = (if ps_visiting s k then Grey else if ps_visited s k then Black else White)"

lemma migration_index_key:
  "map_of (migration_index_of ms) k = Some m \<Longrightarrow> migration_Key m = k \<and> m \<in> set ms"
  by (auto simp: migration_index_of_def dest!: map_of_SomeD)

lemma migration_index_dom: "map_of (migration_index_of ms) k = None \<longleftrightarrow> k \<notin> migration_Key ` set ms"
  by (simp add: migration_index_of_def map_of_eq_None_iff image_image)

interpretation pv: dependency_visit
  "plan_deps ms" "plan_visit (migration_index_of ms)" plan_colour
  "\<lambda>k s. s\<lparr>ps_visiting := (ps_visiting s)(k := True)\<rparr>"
  "\<lambda>k s. s\<lparr>ps_visiting := (ps_visiting s)(k := False), ps_visited := (ps_visited s)(k := True),
      ps_order := ps_order s @ [the (map_of (migration_index_of ms) k)]\<rparr>"
  "\<lambda>s. map migration_Key (ps_order s)"
  for ms :: "migration list"
proof (unfold_locales, goal_cases)
  case 1
  have "{k. plan_deps ms k \<noteq> None} = migration_Key ` set ms"
    by (auto simp: plan_deps_def migration_index_dom)
  then show ?case by simp
qed (auto simp: plan_colour_def plan_deps_def fun_eq_iff dest: migration_index_key split: if_splits sum.splits)

lemma index_migrations_ok:
  "index_migrations marshal ms (migration_index_of prev) = Inr byID \<Longrightarrow>
     byID = migration_index_of (prev @ ms) \<and> distinct (map migration_Key ms) \<and>
     migration_Key ` set prev \<inter> migration_Key ` set ms = {} \<and> (\<forall>m \<in> set ms. \<exists>s. Checksum marshal m = Inr s)"
proof (induction ms arbitrary: prev)
  case (Cons m ms)
  have snoc: "migration_index_of prev @ [(migration_Key m, m)] = migration_index_of (prev @ [m])"
    by (simp add: migration_index_of_def)
  from Cons.prems have "map_of (migration_index_of prev) (migration_Key m) = None"
      "\<exists>s. Checksum marshal m = Inr s" "index_migrations marshal ms (migration_index_of (prev @ [m])) = Inr byID"
    by (auto simp: snoc split: if_splits sum.splits)
  with Cons.IH [of "prev @ [m]"] show ?case by (auto simp: migration_index_dom)
qed simp

lemma plan_visit_order_from:
  "plan_visit byID ks s = Inr s' \<Longrightarrow> set (ps_order s) \<subseteq> ran (map_of byID) \<Longrightarrow>
     set (ps_order s') \<subseteq> ran (map_of byID)"
proof (induction byID ks s arbitrary: s' rule: plan_visit.induct)
  case (2 byID key keys s)
  then show ?case
    by (auto split: if_splits option.splits sum.splits simp: ranI)
qed simp

lemma plan_fresh: "pv.fresh plan_start"
  by (simp add: pv.fresh_def plan_colour_def plan_start_def)

text \<open>A dependency-ordered list of migrations, over the whole list \<open>ms\<close>.\<close>

definition plan_ordered :: "migration list \<Rightarrow> bool" where
  "plan_ordered plan \<longleftrightarrow> distinct (map migration_Key plan) \<and>
     (\<forall>i < length plan. set (mig_Dependencies (plan ! i)) \<subseteq> migration_Key ` set (take i plan))"

lemma Plan_spec:
  assumes "Plan marshal ms target = Inr plan"
  shows "plan_ordered plan \<and> set plan \<subseteq> set ms \<and> distinct (map migration_Key ms) \<and>
    (\<forall>m \<in> set ms. \<exists>s. Checksum marshal m = Inr s) \<and>
    (if target = [] then set plan = set ms else target \<in> migration_Key ` set plan)"
proof -
  from assms obtain byID s where ix: "index_migrations marshal ms [] = Inr byID"
      and run: "plan_visit byID (if target \<noteq> [] then [target] else sort (map fst byID)) plan_start = Inr s"
      and plan: "plan = ps_order s"
    by (auto simp: Plan_def split: sum.splits)
  have ok: "byID = migration_index_of ms" "distinct (map migration_Key ms)"
      "\<forall>m \<in> set ms. \<exists>s. Checksum marshal m = Inr s"
    using index_migrations_ok [of marshal ms "[]" byID] ix by (auto simp: migration_index_of_def)
  have run': "plan_visit (migration_index_of ms) (if target \<noteq> [] then [target] else sort (map fst byID)) plan_start = Inr s"
    using run ok(1) by simp
  have sub: "set plan \<subseteq> set ms"
    using plan_visit_order_from [OF run'] by (fastforce simp: plan plan_start_def ran_def dest: migration_index_key)
  have res: "dependency_visit.ordered (plan_deps ms) (map migration_Key plan)"
      "set (if target \<noteq> [] then [target] else sort (map fst byID)) \<subseteq> migration_Key ` set plan"
    using pv.fresh_result [OF plan_fresh run'] plan by auto
  have look: "map_of (migration_index_of ms) (migration_Key m) = Some m" if "m \<in> set ms" for m
    using that ok(2) by (intro map_of_is_SomeI) (auto simp: migration_index_of_def o_def)
  have "set (mig_Dependencies (plan ! i)) \<subseteq> migration_Key ` set (take i plan)" if "i < length plan" for i
  proof -
    have "plan ! i \<in> set ms" using that sub by auto
    then have "plan_deps ms (map migration_Key plan ! i) = Some (mig_Dependencies (plan ! i))"
      using that look by (simp add: plan_deps_def)
    then show ?thesis using res(1) that unfolding pv.ordered_def by (fastforce simp: take_map)
  qed
  then have "plan_ordered plan" using res(1) by (simp add: plan_ordered_def pv.ordered_def)
  moreover have "set plan = set ms" if "target = []"
  proof -
    have "m \<in> set plan" if m: "m \<in> set ms" for m
    proof -
      have "migration_Key m \<in> migration_Key ` set plan"
        using res(2) m \<open>target = []\<close> by (auto simp: ok(1) migration_index_of_def)
      with m sub ok(2) show ?thesis by (metis (no_types, lifting) distinct_map imageE inj_on_eq_iff subsetD)
    qed
    with sub show ?thesis by blast
  qed
  ultimately show ?thesis using sub ok(2,3) res(2) by (auto split: if_splits)
qed

text \<open>
  A plan is a dependency order: keys are unique, every migration is one of the given ones and
  follows all its dependencies; the plan of a target contains it, the plan of no target contains
  every migration.
\<close>

lemma Plan_sound:
  assumes "Plan marshal ms target = Inr plan"
  shows "distinct (map migration_Key plan) \<and> set plan \<subseteq> set ms \<and>
    (\<forall>i < length plan. set (mig_Dependencies (plan ! i)) \<subseteq> migration_Key ` set (take i plan)) \<and>
    (if target = [] then set plan = set ms else target \<in> migration_Key ` set plan)"
  using Plan_spec [OF assms] unfolding plan_ordered_def by blast

lemma Plan_sound_example:
  "\<exists>plan. Plan (\<lambda>m. Some (mig_Name m))
      [\<lparr>mig_App = ''b'', mig_Name = ''two'', mig_Dependencies = [''b.one''], mig_Operations = [], mig_NonAtomic = False, mig_Replaces = []\<rparr>,
       \<lparr>mig_App = ''b'', mig_Name = ''one'', mig_Dependencies = [], mig_Operations = [], mig_NonAtomic = False, mig_Replaces = []\<rparr>]
      ''b.two'' = Inr plan \<and> map mig_Name plan = [''one'', ''two''] \<and> distinct (map migration_Key plan)"
proof -
  let ?two = "\<lparr>mig_App = ''b'', mig_Name = ''two'', mig_Dependencies = [''b.one''], mig_Operations = [], mig_NonAtomic = False, mig_Replaces = []\<rparr>"
  let ?one = "\<lparr>mig_App = ''b'', mig_Name = ''one'', mig_Dependencies = [], mig_Operations = [], mig_NonAtomic = False, mig_Replaces = []\<rparr>"
  have run: "Plan (\<lambda>m. Some (mig_Name m)) [?two, ?one] ''b.two'' = Inr [?one, ?two]"
    by (simp add: Plan_def ident_eval migrationName_def migration_Key_def Checksum_def plan_start_def)
  show ?thesis using Plan_sound [OF run] run by auto
qed

subsection \<open>The history stays closed under dependencies\<close>

definition history_closed :: "migration list \<Rightarrow> history \<Rightarrow> bool" where
  "history_closed ms hist \<longleftrightarrow>
     (\<forall>m \<in> set ms. migration_Key m \<in> fst ` set hist \<longrightarrow> set (mig_Dependencies m) \<subseteq> fst ` set hist)"

lemma run_migration_history:
  assumes "run_migration exec m reverse record w = (err, w')"
  shows "snd w' = (if err = None then record (snd w) else snd w)"
  using assms by (auto simp: run_migration_def split: prod.splits option.splits if_splits)

text \<open>\<open>seen\<close> is the part of the plan already passed.\<close>

lemma apply_plan_closed:
  assumes "apply_plan marshal exec after_migrate ms applied w = (err, w')"
    and "set applied = fst ` set (snd w)" "history_closed all (snd w)"
    and "plan_ordered (seen @ ms)" "migration_Key ` set seen \<subseteq> set applied"
    and "set (seen @ ms) \<subseteq> set all" "distinct (map migration_Key all)"
  shows "history_closed all (snd w') \<and> (\<exists>new. snd w' = snd w @ new) \<and>
    (err = None \<longrightarrow> migration_Key ` set (seen @ ms) \<subseteq> fst ` set (snd w'))"
  using assms
proof (induction ms arbitrary: seen applied w)
  case (Cons m ms)
  show ?case
  proof (cases "migration_Key m \<in> set applied")
    case True
    with Cons.prems Cons.IH [of applied w "seen @ [m]"] show ?thesis by auto
  next
    case False
    obtain err1 w1 where run: "run_migration exec m False (\<lambda>h. h @ [(migration_Key m, checksum_of marshal m)]) w = (err1, w1)"
      using prod.exhaust by blast
    note hist = run_migration_history [OF run]
    have deps: "set (mig_Dependencies m) \<subseteq> fst ` set (snd w)"
    proof -
      have "set (mig_Dependencies ((seen @ m # ms) ! length seen)) \<subseteq> migration_Key ` set (take (length seen) (seen @ m # ms))"
        using Cons.prems(4) unfolding plan_ordered_def by (metis add_Suc_right length_Cons length_append less_add_Suc1)
      then show ?thesis using Cons.prems(2,5) by auto
    qed
    have closed1: "history_closed all (snd w @ [(migration_Key m, checksum_of marshal m)])"
      unfolding history_closed_def
    proof (intro ballI impI)
      fix m' assume m': "m' \<in> set all" "migration_Key m' \<in> fst ` set (snd w @ [(migration_Key m, checksum_of marshal m)])"
      show "set (mig_Dependencies m') \<subseteq> fst ` set (snd w @ [(migration_Key m, checksum_of marshal m)])"
      proof (cases "migration_Key m' = migration_Key m")
        case True
        then have "m' = m" using m'(1) Cons.prems(6,7) by (auto simp: distinct_map dest: inj_onD)
        with deps show ?thesis by auto
      next
        case False
        with m' Cons.prems(3) show ?thesis by (auto simp: history_closed_def)
      qed
    qed
    show ?thesis
    proof (cases "err1 = None \<and> (case after_migrate of None \<Rightarrow> None | Some f \<Rightarrow> f m) = None")
      case True
      then have rec: "apply_plan marshal exec after_migrate ms (migration_Key m # applied) w1 = (err, w')"
        using Cons.prems(1) False run by auto
      have "snd w1 = snd w @ [(migration_Key m, checksum_of marshal m)]" using hist True by simp
      then have "history_closed all (snd w') \<and> (\<exists>new. snd w' = snd w1 @ new) \<and>
          (err = None \<longrightarrow> migration_Key ` set ((seen @ [m]) @ ms) \<subseteq> fst ` set (snd w'))"
        using Cons.prems closed1 by (intro Cons.IH [OF rec]) auto
      with hist True show ?thesis by auto
    next
      case stop: False
      then have "w' = w1" "err \<noteq> None"
        using Cons.prems(1) False run by (auto split: option.splits) metis
      with hist closed1 Cons.prems(3) show ?thesis by auto
    qed
  qed
qed auto

lemma index_lookup:
  "distinct (map migration_Key ms) \<Longrightarrow> m \<in> set ms \<Longrightarrow> map_of (migration_index_of ms) (migration_Key m) = Some m"
  by (rule map_of_is_SomeI) (auto simp: migration_index_of_def o_def)

text \<open>
  C13. \<open>Apply\<close> only extends the history, and whatever fails on the way, every recorded migration has
  all its dependencies recorded, if the history was so before; when it returns without error, the
  target and everything it needs is recorded.
\<close>

theorem Apply_history_closed:
  assumes "Apply marshal detach ed exec after_migrate ms target w = (err, w')"
    and "history_closed ms (snd w)"
  shows "history_closed ms (snd w') \<and> (\<exists>new. snd w' = snd w @ new) \<and>
    (err = None \<longrightarrow> (\<exists>plan. Plan marshal ms target = Inr plan \<and> migration_Key ` set plan \<subseteq> fst ` set (snd w')))"
proof (cases "\<exists>plan. Plan marshal ms target = Inr plan \<and>
    apply_plan marshal exec after_migrate plan (map fst (snd w)) w = (err, w')")
  case True
  then obtain plan where plan: "Plan marshal ms target = Inr plan"
      and run: "apply_plan marshal exec after_migrate plan (map fst (snd w)) w = (err, w')" by blast
  note spec = Plan_spec [OF plan]
  have "history_closed ms (snd w') \<and> (\<exists>new. snd w' = snd w @ new) \<and>
      (err = None \<longrightarrow> migration_Key ` set ([] @ plan) \<subseteq> fst ` set (snd w'))"
    using spec assms(2) by (intro apply_plan_closed [OF run]) auto
  with plan show ?thesis by auto
next
  case False
  then have "w' = w" "err \<noteq> None"
    using assms(1)
    by (auto simp: Apply_def Let_def split: sum.splits option.splits if_splits) metis+
  with assms(2) show ?thesis by auto
qed

theorem Apply_history_closed_witness:
  "\<exists>w'. Apply (\<lambda>m. Some (mig_Name m)) (\<lambda>_. None)
      \<lparr>ed_constraint_lifecycle = True, ed_index_lifecycle = True, ed_transition = None, ed_resolver = None\<rparr>
      (\<lambda>m reverse d. (None, Suc d)) None
      [\<lparr>mig_App = ''b'', mig_Name = ''one'', mig_Dependencies = [], mig_Operations = [], mig_NonAtomic = False, mig_Replaces = []\<rparr>]
      [] (0 :: nat, []) = (None, w') \<and> ''b.one'' \<in> fst ` set (snd w') \<and> history_closed
      [\<lparr>mig_App = ''b'', mig_Name = ''one'', mig_Dependencies = [], mig_Operations = [], mig_NonAtomic = False, mig_Replaces = []\<rparr>] (snd w')"
proof -
  let ?m = "\<lparr>mig_App = ''b'', mig_Name = ''one'', mig_Dependencies = [], mig_Operations = [], mig_NonAtomic = False, mig_Replaces = []\<rparr>"
  let ?ed = "\<lparr>ed_constraint_lifecycle = True, ed_index_lifecycle = True, ed_transition = None, ed_resolver = None\<rparr>"
  have plan: "Plan (\<lambda>m. Some (mig_Name m)) [?m] t = Inr [?m]" if "t = [] \<or> t = ''b.one''" for t
    using that by (auto simp: Plan_def ident_eval migrationName_def migration_Key_def Checksum_def plan_start_def)
  have pre: "preflight (\<lambda>m. Some (mig_Name m)) (\<lambda>_. None) ?ed [?m] False ?m = None"
    by (simp add: preflight_def validateIndexOperations_def validateConstraintOperations_def withHistoricalSchemas_def
        migration_Key_def plan schemaState_def sorted_values_def validateAutomaticTransitionTargets_def
        needsAutomaticTransition_def removesAutomaticRelations_def)
  obtain w' where run: "Apply (\<lambda>m. Some (mig_Name m)) (\<lambda>_. None) ?ed (\<lambda>m reverse d. (None, Suc d)) None [?m] [] (0, []) = (None, w')"
    by (simp add: Apply_def plan pre history_deps_missing_def run_migration_def)
  have "history_closed [?m] (snd (0 :: nat, []))" by (simp add: history_closed_def)
  from Apply_history_closed [OF run this] plan [of "[]"] have
    "history_closed [?m] (snd w')" "migration_Key ` set [?m] \<subseteq> fst ` set (snd w')" by auto
  with run show ?thesis by (intro exI [of _ w']) (simp add: migration_Key_def)
qed

subsection \<open>Reversal takes the dependents\<close>

definition depends_on :: "migration list \<Rightarrow> (string \<times> string) set" where
  "depends_on ms = {(migration_Key m, d) | m d. m \<in> set ms \<and> d \<in> set (mig_Dependencies m)}"

lemma mark_pass_sound:
  "k \<in> set (fst (mark_pass ms remove)) \<Longrightarrow> set ms \<subseteq> set all \<Longrightarrow> \<exists>k0 \<in> set remove. (k, k0) \<in> (depends_on all)\<^sup>*"
proof (induction ms remove rule: mark_pass.induct)
  case (2 m ms remove)
  show ?case
  proof (cases "migration_Key m \<in> set remove")
    case False
    show ?thesis
    proof (cases "list_ex (\<lambda>d. d \<in> set remove) (mig_Dependencies m)")
      case True
      then obtain d where d: "d \<in> set (mig_Dependencies m)" "d \<in> set remove" by (auto simp: list_ex_iff)
      then have edge: "(migration_Key m, d) \<in> depends_on all" using 2(5) by (auto simp: depends_on_def)
      obtain k0 where k0: "k0 \<in> set (migration_Key m # remove)" "(k, k0) \<in> (depends_on all)\<^sup>*"
        using 2(2) [OF False True] 2(4,5) False True by auto
      show ?thesis
      proof (cases "k0 = migration_Key m")
        case True
        with k0(2) edge have "(k, d) \<in> (depends_on all)\<^sup>*" by (auto intro: rtrancl_into_rtrancl)
        with d(2) show ?thesis by blast
      qed (use k0 in auto)
    qed (use 2 False in auto)
  qed (use 2 in auto)
qed auto

lemma mark_pass_fixed:
  "\<not> snd (mark_pass ms remove) \<Longrightarrow> fst (mark_pass ms remove) = remove \<and>
     (\<forall>m \<in> set ms. set (mig_Dependencies m) \<inter> set remove \<noteq> {} \<longrightarrow> migration_Key m \<in> set remove)"
proof (induction ms)
  case (Cons m ms)
  show ?case
  proof (cases "migration_Key m \<in> set remove")
    case False
    with Cons.prems have "\<not> list_ex (\<lambda>d. d \<in> set remove) (mig_Dependencies m)" by (auto split: if_splits)
    then have "set (mig_Dependencies m) \<inter> set remove = {}" by (auto simp: list_ex_iff)
    with Cons False \<open>\<not> list_ex _ _\<close> show ?thesis by simp
  qed (use Cons in simp)
qed simp

lemma mark_all_superset: "set remove \<subseteq> set (mark_all ms remove)"
proof (induction ms remove rule: mark_all.induct)
  case (1 ms remove)
  obtain r' c where run: "mark_pass ms remove = (r', c)" by fastforce
  then have "set remove \<subseteq> set r'" using mark_pass_superset [of remove ms] by simp
  then show ?case using 1 run mark_all.simps [of ms remove] by (cases c) auto
qed

lemma mark_all_sound:
  "k \<in> set (mark_all ms remove) \<Longrightarrow> \<exists>k0 \<in> set remove. (k, k0) \<in> (depends_on ms)\<^sup>*"
proof (induction ms remove rule: mark_all.induct)
  case (1 ms remove)
  obtain r' c where run: "mark_pass ms remove = (r', c)" by fastforce
  have "\<exists>k0 \<in> set r'. (k, k0) \<in> (depends_on ms)\<^sup>*"
    using 1 run mark_all.simps [of ms remove] by (cases c) auto
  then obtain k1 where k1: "k1 \<in> set r'" "(k, k1) \<in> (depends_on ms)\<^sup>*" by blast
  then obtain k0 where "k0 \<in> set remove" "(k1, k0) \<in> (depends_on ms)\<^sup>*"
    using mark_pass_sound [of k1 ms remove ms] run by auto
  with k1(2) show ?case by (meson rtrancl_trans)
qed


lemma mark_all_closed:
  "m \<in> set ms \<Longrightarrow> set (mig_Dependencies m) \<inter> set (mark_all ms remove) \<noteq> {} \<Longrightarrow> migration_Key m \<in> set (mark_all ms remove)"
proof (induction ms remove rule: mark_all.induct)
  case (1 ms remove)
  obtain r' c where run: "mark_pass ms remove = (r', c)" by fastforce
  show ?case
  proof (cases c)
    case True
    then have "mark_all ms remove = mark_all ms r'" using run mark_all.simps [of ms remove] by simp
    with 1 run True show ?thesis by simp
  next
    case False
    then have "mark_all ms remove = remove"
      using run mark_all.simps [of ms remove] mark_pass_fixed [of ms remove] by simp
    with 1 run False mark_pass_fixed [of ms remove] show ?thesis by simp
  qed
qed

text \<open>
  What a reversal removes is exactly the later migrations of the application and everything that
  depends on them, directly or not.
\<close>

lemma reverse_marks_dependents:
  "set (reverse_marks app keep all) =
     {k. \<exists>m \<in> set all. mig_App m = app \<and> migration_Key m \<notin> migration_Key ` set keep \<and>
        (k, migration_Key m) \<in> (depends_on all)\<^sup>*}"
  (is "?marks = ?dependents")
proof
  show "?marks \<subseteq> ?dependents"
    unfolding reverse_marks_def by (auto dest!: mark_all_sound)
  have "k \<in> ?marks" if "(k, k0) \<in> (depends_on all)\<^sup>*" "k0 \<in> ?marks" for k k0
    using that
  proof (induction rule: converse_rtrancl_induct)
    case (step a b)
    then obtain m where "m \<in> set all" "a = migration_Key m" "b \<in> set (mig_Dependencies m)"
      by (auto simp: depends_on_def)
    with step show ?case unfolding reverse_marks_def by (auto intro!: mark_all_closed)
  qed
  moreover have "migration_Key m \<in> ?marks"
    if "m \<in> set all" "mig_App m = app" "migration_Key m \<notin> migration_Key ` set keep" for m
    using that unfolding reverse_marks_def by (intro subsetD [OF mark_all_superset]) auto
  ultimately show "?dependents \<subseteq> ?marks" by blast
qed








end
