(* ===== verification/Async_Protocol.thy ===== *)
theory Async_Protocol
  imports Sha256
begin

text \<open>
  The wire protocol and the ports of the task queue (\<open>src/async/protocol.go\<close>,
  \<open>src/async/ports.go\<close>, the signature of \<open>src/async/task.go\<close>): task states, errors, envelopes,
  records, transitions, intents, completions and workflow graphs, envelope validation, digests
  and the identifiers \<open>NewID\<close>, \<open>StableID\<close> and \<open>formatID\<close>.

  Raw JSON (\<open>json.RawMessage\<close>) is the byte string it is, a nil slice being the empty string. What
  the code asks of \<open>encoding/json\<close> is a record of functions, the \<open>codec\<close>: the validity test,
  the encoders, and what encoding and decoding make of raw JSON (\<open>json_Compact\<close>: white space goes, HTML
  characters are escaped, a nil slice becomes \<open>null\<close>); every theorem holds for every codec. Strings are valid
  UTF-8 and instants lie in the years JSON can hold, so \<open>cloneJSON\<close> keeps everything but raw JSON; records
  and graphs come from a store, their raw JSON has been through the encoder, and \<open>cloneJSON\<close> is the identity
  on them. A pointer field is an \<open>option\<close>; a Go map with string keys is an
  association list.
\<close>

unbundle bit_operations_syntax

subsection \<open>Errors and states\<close>

datatype async_error =
  ErrInvalid | ErrUnknownTask | ErrFrozen | ErrNotFound | ErrBusy | ErrLeaseLost | ErrConflict
| ErrResultExpired | ErrPinned | ErrWorkerJoin | ErrDenied | ErrUnavailable | ErrCanceled
| ErrWorkflowSize | ErrBackend string

text \<open>The zero value of the string type \<open>State\<close> is \<open>NoState\<close>; the code tests for it in intents.\<close>

datatype task_state =
  NoState | Unknown | Scheduled | Queued | Running | RetryWait | Succeeded | Failed | Revoked
| Expired

definition Terminal :: "task_state \<Rightarrow> bool" where
  "Terminal s = (s = Succeeded \<or> s = Failed \<or> s = Revoked \<or> s = Expired)"

lemma Terminal_simps [simp]:
  "Terminal Succeeded" "Terminal Failed" "Terminal Revoked" "Terminal Expired"
  "\<not> Terminal Running" "\<not> Terminal RetryWait" "\<not> Terminal Queued" "\<not> Terminal Scheduled"
  "\<not> Terminal Unknown" "\<not> Terminal NoState"
  by (simp_all add: Terminal_def)

record failure =
  f_Code :: string
  f_Message :: string

subsection \<open>Signatures and envelopes\<close>

type_synonym raw_json = string
type_synonym headers = "(string \<times> string) list"

record dispatch_options =
  o_ID :: string
  o_Queue :: string
  o_Priority :: int
  o_ETA :: go_time
  o_Countdown :: go_duration
  o_ExpiresAt :: go_time
  o_Scope :: string
  o_Principal :: string
  o_IdempotencyKey :: string
  o_CorrelationID :: string
  o_Headers :: headers
  o_Stamps :: headers

datatype signature =
  Signature (s_Task: string) (s_Version: int) (s_Args: raw_json) (s_Options: dispatch_options)
    (s_Immutable: bool) (s_ParentField: string)
    (s_Callbacks: "signature list") (s_Errbacks: "signature list")

record envelope =
  e_ProtocolVersion :: int
  e_ID :: string
  e_Task :: string
  e_Version :: int
  e_Args :: raw_json
  e_CreatedAt :: go_time
  e_Queue :: string
  e_Retries :: int
  e_MaxRetries :: "int option"
  e_ETA :: go_time
  e_ExpiresAt :: go_time
  e_Priority :: int
  e_WorkflowID :: string
  e_ParentID :: string
  e_RootID :: string
  e_Scope :: string
  e_Principal :: string
  e_IdempotencyKey :: string
  e_CorrelationID :: string
  e_Headers :: headers
  e_TraceContext :: headers
  e_Stamps :: headers
  e_Callbacks :: "signature list"
  e_Errbacks :: "signature list"
  e_ReplacementDepth :: int

subsection \<open>Workflow graphs, intents, records\<close>

record completion =
  c_ID :: string
  c_State :: task_state
  c_Output :: raw_json
  c_Failure :: "failure option"

record canvas_node =
  n_ID :: string
  n_Kind :: string
  n_Dependencies :: "string list"
  n_WaitFor :: "string list"
  n_Signature :: "signature option"
  n_Dispatched :: bool

text \<open>
  \<open>Members\<close> of a graph is a Go map, an association list with distinct keys; \<open>g_MembersNil\<close> tells
  the nil map, which \<open>CreateGraph\<close> refuses, from an empty one.
\<close>

record graph =
  g_ID :: string
  g_Kind :: string
  g_Scope :: string
  g_Children :: "envelope list"
  g_Signatures :: "signature list"
  g_Callback :: "signature option"
  g_CallbackID :: string
  g_Members :: "(string \<times> completion) list"
  g_MembersNil :: bool
  g_State :: task_state
  g_Output :: raw_json
  g_Failure :: "failure option"
  g_Next :: nat
  g_Revision :: "64 word"
  g_CallbackClaimed :: bool
  g_CallbackEnvelope :: "envelope option"
  g_CancelRequested :: bool
  g_Plan :: "canvas_node list"
  g_RootNode :: string
  g_OriginTaskID :: string
  g_OriginDigest :: string
  g_AbortFailure :: "failure option"
  g_PayloadForgotten :: bool

record intent =
  i_ID :: string
  i_SourceID :: string
  i_Kind :: string
  i_Envelope :: "envelope option"
  i_WorkflowID :: string
  i_TargetID :: string
  i_Completion :: "completion option"
  i_Failure :: "failure option"
  i_State :: task_state
  i_Graph :: "graph option"
  i_Fence :: "64 word"
  i_Owner :: string
  i_LeaseUntil :: go_time
  i_Delivered :: bool

record task_record =
  r_Envelope :: envelope
  r_Digest :: string
  r_State :: task_state
  r_Fence :: "64 word"
  r_Owner :: string
  r_LeaseUntil :: go_time
  r_Revision :: "64 word"
  r_DeliveryCount :: int
  r_Output :: raw_json
  r_Failure :: "failure option"
  r_Progress :: raw_json
  r_CancelRequested :: bool
  r_FinishedAt :: go_time
  r_PayloadExpiresAt :: go_time
  r_TombstoneUntil :: go_time
  r_ReplayUntil :: go_time
  r_Pinned :: bool
  r_ReplacementID :: string

record claim =
  cl_Record :: task_record
  cl_Acquired :: bool
  cl_Duplicate :: bool

record transition =
  t_ID :: string
  t_Fence :: "64 word"
  t_Owner :: string
  t_State :: task_state
  t_Output :: raw_json
  t_Failure :: "failure option"
  t_Next :: "envelope option"
  t_Intents :: "intent list"
  t_ReplacementID :: string

definition zero_intent :: intent where
  "zero_intent =
     \<lparr>i_ID = [], i_SourceID = [], i_Kind = [], i_Envelope = None, i_WorkflowID = [],
      i_TargetID = [], i_Completion = None, i_Failure = None, i_State = NoState, i_Graph = None,
      i_Fence = 0, i_Owner = [], i_LeaseUntil = 0, i_Delivered = False\<rparr>"

lemma zero_intent_sel [simp]:
  "i_ID zero_intent = []" "i_SourceID zero_intent = []" "i_Kind zero_intent = []"
  "i_Envelope zero_intent = None" "i_WorkflowID zero_intent = []" "i_TargetID zero_intent = []"
  "i_Completion zero_intent = None" "i_Failure zero_intent = None"
  "i_State zero_intent = NoState" "i_Graph zero_intent = None" "i_Fence zero_intent = 0"
  "i_Owner zero_intent = []" "i_LeaseUntil zero_intent = 0" "i_Delivered zero_intent = False"
  by (simp_all add: zero_intent_def)

subsection \<open>The codec\<close>

record codec =
  json_Valid :: "raw_json \<Rightarrow> bool"
  marshal_Envelope :: "envelope \<Rightarrow> string option"
  marshal_Graph :: "graph \<Rightarrow> string option"
  marshal_Intents :: "intent list \<Rightarrow> string option"
  marshal_Outputs :: "raw_json list \<Rightarrow> string option"
  marshal_Failure :: "failure option \<Rightarrow> string option"
  bind_field :: "raw_json \<Rightarrow> string \<Rightarrow> raw_json \<Rightarrow> raw_json option"
  json_Compact :: "raw_json \<Rightarrow> raw_json"

subsection \<open>Names and identifiers\<close>

definition ProtocolVersion :: int where "ProtocolVersion = 1"
definition MaxPayloadBytes :: nat where "MaxPayloadBytes = 262144"
definition MaxReplacementDepth :: int where "MaxReplacementDepth = 16"

definition name_char :: "char \<Rightarrow> bool" where
  "name_char c = (is_alpha c \<or> is_digit c \<or> c \<in> set ''_.-'')"

fun namePattern :: "string \<Rightarrow> bool" where
  "namePattern [] = False"
| "namePattern (c # cs) = (is_alpha c \<and> length cs \<le> 191 \<and> list_all name_char cs)"

text \<open>The pattern of identifiers: five groups of 8, 4, 4, 4 and 12 hexadecimal digits.\<close>

fun hex_groups :: "nat list \<Rightarrow> string \<Rightarrow> bool" where
  "hex_groups [] s = (s = [])"
| "hex_groups [n] s = (length s = n \<and> list_all is_hex s)"
| "hex_groups (n # ns) s =
     (n < length s \<and> list_all is_hex (take n s) \<and> s ! n = CHR ''-''
      \<and> hex_groups ns (drop (Suc n) s))"

definition idPattern :: "string \<Rightarrow> bool" where
  "idPattern s = hex_groups [8, 4, 4, 4, 12] s"

definition formatID :: "string \<Rightarrow> string" where
  "formatID b =
     hex_encode (take 4 b) @ ''-'' @ hex_encode (take 2 (drop 4 b)) @ ''-''
     @ hex_encode (take 2 (drop 6 b)) @ ''-'' @ hex_encode (take 2 (drop 8 b)) @ ''-''
     @ hex_encode (drop 10 b)"

definition byte_of :: "char \<Rightarrow> 8 word" where "byte_of c = word_of_nat (of_char c)"
definition char_of_byte :: "8 word \<Rightarrow> char" where "char_of_byte w = char_of (unat w)"

definition mark_version :: "8 word \<Rightarrow> string \<Rightarrow> string" where
  "mark_version v b =
     (let b' = b[6 := char_of_byte ((byte_of (b ! 6) AND 0x0f) OR v)]
      in b'[8 := char_of_byte ((byte_of (b' ! 8) AND 0x3f) OR 0x80)])"

text \<open>\<open>NewID\<close> takes the 16 bytes that \<open>rand.Read\<close> delivers, or \<open>None\<close> when it fails.\<close>

definition NewID :: "string option \<Rightarrow> async_error + string" where
  "NewID random =
     (case random of
        None \<Rightarrow> Inl (ErrBackend ''rand'')
      | Some b \<Rightarrow> Inr (formatID (mark_version 0x40 b)))"

definition StableID :: "string \<Rightarrow> string \<Rightarrow> string" where
  "StableID parent label =
     formatID (take 16 (mark_version 0x50 (sha256 (parent @ [CHR 0x00] @ label))))"

subsection \<open>Envelope validation and digests\<close>

definition headers_ok :: "headers \<Rightarrow> bool" where
  "headers_ok hs =
     (length hs \<le> 32 \<and> list_all (\<lambda>(k, v). namePattern k \<and> length v \<le> 1024) hs)"

definition optional_id :: "string \<Rightarrow> bool" where
  "optional_id i = (i = [] \<or> idPattern i)"

definition envelope_Validate :: "codec \<Rightarrow> envelope \<Rightarrow> async_error option" where
  "envelope_Validate C e =
     (if e_ReplacementDepth e < 0 \<or> e_ReplacementDepth e > MaxReplacementDepth then Some ErrInvalid
      else if e_ProtocolVersion e \<noteq> ProtocolVersion \<or> \<not> idPattern (e_ID e)
        \<or> \<not> namePattern (e_Task e) \<or> e_Version e < 1 \<or> \<not> namePattern (e_Queue e)
        \<or> e_CreatedAt e = 0 \<or> e_Retries e < 0 \<or> e_Priority e < 0 \<or> e_Priority e > 9
        \<or> \<not> json_Valid C (e_Args e) then Some ErrInvalid
      else if (case e_MaxRetries e of None \<Rightarrow> False | Some n \<Rightarrow> n < 0 \<or> e_Retries e > n)
        then Some ErrInvalid
      else if \<not> list_all optional_id [e_WorkflowID e, e_ParentID e, e_RootID e]
        then Some ErrInvalid
      else if length (e_Scope e) > 256 \<or> length (e_Principal e) > 256
        \<or> length (e_IdempotencyKey e) > 256 \<or> length (e_CorrelationID e) > 256
        then Some ErrInvalid
      else if \<not> list_all headers_ok [e_Headers e, e_TraceContext e, e_Stamps e]
        then Some ErrInvalid
      else case marshal_Envelope C e of
             None \<Rightarrow> Some ErrInvalid
           | Some b \<Rightarrow> if length b > MaxPayloadBytes then Some ErrInvalid else None)"

definition hash_text :: "string option \<Rightarrow> string" where
  "hash_text b = hex_encode (sha256 (case b of None \<Rightarrow> [] | Some s \<Rightarrow> s))"

definition Digest :: "codec \<Rightarrow> envelope \<Rightarrow> string" where
  "Digest C e = hash_text (marshal_Envelope C (e\<lparr>e_ETA := 0, e_Retries := 0\<rparr>))"

definition DispatchDigest :: "codec \<Rightarrow> envelope \<Rightarrow> string" where
  "DispatchDigest C e = hash_text (marshal_Envelope C e)"

subsection \<open>Facts\<close>

lemma Digest_retry [simp]:
  "Digest C (e\<lparr>e_ETA := t\<rparr>) = Digest C e" "Digest C (e\<lparr>e_Retries := n\<rparr>) = Digest C e"
  by (simp_all add: Digest_def)

lemma is_hex_not_dash: "is_hex c \<Longrightarrow> c \<noteq> CHR ''-''"
  by (auto simp: is_hex_def is_digit_def less_eq_char_def)

lemma envelope_Validate_id: "envelope_Validate C e = None \<Longrightarrow> idPattern (e_ID e)"
  by (auto simp: envelope_Validate_def split: if_splits)

lemma hex_groups_append:
  "length a = n \<Longrightarrow> list_all is_hex a \<Longrightarrow> ns \<noteq> [] \<Longrightarrow>
   hex_groups (n # ns) (a @ CHR ''-'' # s) = hex_groups ns s"
  by (cases ns) (auto simp: nth_append)

lemma formatID_idPattern: "length b = 16 \<Longrightarrow> idPattern (formatID b)"
  by (simp add: idPattern_def formatID_def nth_append hex_encode_alphabet)

lemma length_mark_version [simp]: "length (mark_version v b) = length b"
  by (simp add: mark_version_def Let_def)

lemma of_char_of_byte [simp]: "of_char (char_of_byte w) = unat w"
  using unsigned_less [of w, where ?'a = nat] by (simp add: char_of_byte_def)

lemma unat_high_nibble: "unat v div 16 = unat (drop_bit 4 v)" for v :: "8 word"
  by (simp add: drop_bit_eq_div unat_div_distrib)

lemma version_nibble:
  fixes w :: "8 word"
  shows "unat ((w AND 0x0f) OR 0x50) div 16 = 5" "unat ((w AND 0x0f) OR 0x40) div 16 = 4"
  unfolding unat_high_nibble by (simp_all add: drop_bit_and drop_bit_or)

lemma variant_nibble:
  fixes w :: "8 word"
  shows "unat ((w AND 0x3f) OR 0x80) div 16 \<in> {8, 9, 10, 11}"
proof -
  define x where "x = unat (drop_bit 4 w)"
  have "unat (drop_bit 4 ((w AND 0x3f) OR 0x80)) = (x AND 3) OR 8"
    by (simp add: drop_bit_and drop_bit_or x_def unsigned_or_eq unsigned_and_eq)
  also have "x AND 3 = x mod 4"
    using take_bit_eq_mask [of 2 x] by (simp add: mask_eq_exp_minus_1 take_bit_eq_mod)
  finally have "unat (drop_bit 4 ((w AND 0x3f) OR 0x80)) = (x mod 4) OR 8" .
  moreover have "x mod 4 \<in> {0, 1, 2, 3}" by auto
  ultimately show ?thesis unfolding unat_high_nibble by auto
qed

lemma hex_encode_first: "s \<noteq> [] \<Longrightarrow> hex_encode s ! 0 = hex_digit (of_char (s ! 0) div 16)"
  by (cases s) (simp_all add: hex_encode_def)

lemma formatID_nibbles:
  assumes "length b = 16"
  shows "formatID b ! 14 = hex_digit (of_char (b ! 6) div 16)"
    "formatID b ! 19 = hex_digit (of_char (b ! 8) div 16)"
  using assms hex_encode_first [of "take 2 (drop 6 b)"] hex_encode_first [of "take 2 (drop 8 b)"]
  by (simp_all add: formatID_def nth_append)

lemma mark_version_nth:
  assumes "8 < length b"
  shows "mark_version v b ! 6 = char_of_byte ((byte_of (b ! 6) AND 0x0f) OR v)"
    "mark_version v b ! 8 = char_of_byte ((byte_of (b ! 8) AND 0x3f) OR 0x80)"
  using assms by (simp_all add: mark_version_def Let_def)

lemma hex_digit_variant: "n \<in> {8, 9, 10, 11} \<Longrightarrow> hex_digit n \<in> set ''89ab''"
  by (auto simp: hex_digit_def)

text \<open>
  C15. Every identifier the framework derives or draws is a well-formed identifier: \<open>StableID\<close>
  has the shape the validators require, with version digit 5 and the RFC variant, whatever its
  arguments; \<open>NewID\<close> has it with version digit 4, whatever 16 random bytes it got.
\<close>

theorem identifier_format:
  "idPattern (StableID parent label) \<and> StableID parent label ! 14 = CHR ''5''
     \<and> StableID parent label ! 19 \<in> set ''89ab''
   \<and> (length b = 16 \<longrightarrow>
        (\<exists>i. NewID (Some b) = Inr i \<and> idPattern i \<and> i ! 14 = CHR ''4'' \<and> i ! 19 \<in> set ''89ab''))"
proof -
  define d where "d = sha256 (parent @ [CHR 0x00] @ label)"
  have "idPattern (StableID parent label)"
    by (simp add: StableID_def formatID_idPattern)
  moreover have "StableID parent label ! 14 = CHR ''5''" "StableID parent label ! 19 \<in> set ''89ab''"
    using hex_digit_variant [OF variant_nibble [of "byte_of (d ! 8)"]]
    by (simp_all add: StableID_def formatID_nibbles mark_version_nth version_nibble d_def)
       (simp add: hex_digit_def)
  moreover have "\<exists>i. NewID (Some b) = Inr i \<and> idPattern i \<and> i ! 14 = CHR ''4'' \<and> i ! 19 \<in> set ''89ab''"
    if "length b = 16"
    using that hex_digit_variant [OF variant_nibble [of "byte_of (b ! 8)"]]
    by (simp add: NewID_def formatID_idPattern formatID_nibbles mark_version_nth version_nibble)
       (simp add: hex_digit_def)
  ultimately show ?thesis by blast
qed

theorem identifier_format_witness:
  "idPattern (StableID ''a'' ''b'') \<and> (\<exists>i. NewID (Some (replicate 16 CHR ''x'')) = Inr i \<and> idPattern i)"
  using identifier_format [of "''a''" "''b''" "replicate 16 CHR ''x''"] by auto
end
