(* ===== verification/Async_Record.thy ===== *)
theory Async_Record
  imports Async_Protocol
begin

text \<open>
  The backend-neutral state machine of one task (\<open>src/async/state.go\<close> and the intents of
  \<open>src/async/replacement.go\<close>): the first record of a task, the claim of an execution lease, the
  lease check, and the transitions a worker or a finished replacement applies. Every function is
  pure; the store of \<open>Async_Store\<close> makes them atomic.

  Fences and revisions are \<open>uint64\<close> words: the guards against \<open>math.MaxUint64\<close> are what keeps them
  from wrapping around.
\<close>

subsection \<open>Records\<close>

definition max_uint64 :: "64 word" where "max_uint64 = - 1"

definition later :: "go_time \<Rightarrow> go_time \<Rightarrow> go_time" where
  "later a b = (if a > b then a else b)"

lemma later_max: "later a b = max a b"
  by (auto simp: later_def)

definition InitialRecord :: "codec \<Rightarrow> envelope \<Rightarrow> task_state \<Rightarrow> async_error + task_record" where
  "InitialRecord C e state =
     (case envelope_Validate C e of
        Some err \<Rightarrow> Inl err
      | None \<Rightarrow>
          if state \<noteq> Queued \<and> state \<noteq> Scheduled then Inl ErrInvalid
          else Inr \<lparr>r_Envelope = e, r_Digest = Digest C e, r_State = state, r_Fence = 0,
                    r_Owner = [], r_LeaseUntil = 0, r_Revision = 1, r_DeliveryCount = 0,
                    r_Output = [], r_Failure = None, r_Progress = [], r_CancelRequested = False,
                    r_FinishedAt = 0, r_PayloadExpiresAt = 0, r_TombstoneUntil = 0,
                    r_ReplayUntil = later (e_ETA e) (e_ExpiresAt e),
                    r_Pinned = (e_WorkflowID e \<noteq> []), r_ReplacementID = []\<rparr>)"

text \<open>The zero envelope, \<open>Envelope{}\<close>.\<close>

definition zero_envelope :: envelope where
  "zero_envelope =
     \<lparr>e_ProtocolVersion = 0, e_ID = [], e_Task = [], e_Version = 0, e_Args = [], e_CreatedAt = 0,
      e_Queue = [], e_Retries = 0, e_MaxRetries = None, e_ETA = 0, e_ExpiresAt = 0,
      e_Priority = 0, e_WorkflowID = [], e_ParentID = [], e_RootID = [], e_Scope = [],
      e_Principal = [], e_IdempotencyKey = [], e_CorrelationID = [], e_Headers = [],
      e_TraceContext = [], e_Stamps = [], e_Callbacks = [], e_Errbacks = [],
      e_ReplacementDepth = 0\<rparr>"

subsection \<open>Leases\<close>

definition ClaimRecord ::
  "codec \<Rightarrow> task_record \<Rightarrow> envelope \<Rightarrow> string \<Rightarrow> go_time \<Rightarrow> go_duration \<Rightarrow> async_error + claim" where
  "ClaimRecord C rc e owner now lease =
     (if owner = [] \<or> lease \<le> 0 then Inl ErrInvalid
      else if r_Digest rc \<noteq> Digest C e then Inl ErrConflict
      else if Terminal (r_State rc) \<or> r_ReplacementID rc \<noteq> [] \<or> e_Retries e < e_Retries (r_Envelope rc)
        then Inr \<lparr>cl_Record = rc, cl_Acquired = False, cl_Duplicate = True\<rparr>
      else if e_Retries e > e_Retries (r_Envelope rc) then Inl ErrConflict
      else if r_State rc = Running \<and> r_LeaseUntil rc > now
        then Inr \<lparr>cl_Record = rc, cl_Acquired = False, cl_Duplicate = False\<rparr>
      else if e_ETA (r_Envelope rc) > now \<and> \<not> r_CancelRequested rc
        then Inr \<lparr>cl_Record = rc, cl_Acquired = False, cl_Duplicate = False\<rparr>
      else if r_Fence rc = max_uint64 \<or> r_Revision rc = max_uint64 then Inl ErrUnavailable
      else Inr \<lparr>cl_Record = rc\<lparr>r_State := Running, r_Owner := owner, r_Fence := r_Fence rc + 1,
                               r_Revision := r_Revision rc + 1,
                               r_DeliveryCount := r_DeliveryCount rc + 1,
                               r_LeaseUntil := now + lease\<rparr>,
                cl_Acquired = True, cl_Duplicate = False\<rparr>)"

definition ValidateLease :: "task_record \<Rightarrow> 64 word \<Rightarrow> string \<Rightarrow> go_time \<Rightarrow> async_error option" where
  "ValidateLease rc fence owner now =
     (if r_State rc \<noteq> Running \<or> r_Fence rc \<noteq> fence \<or> r_Owner rc \<noteq> owner \<or> \<not> r_LeaseUntil rc > now
      then Some ErrLeaseLost else None)"

subsection \<open>Transitions\<close>

definition outcome_error :: "codec \<Rightarrow> task_record \<Rightarrow> transition \<Rightarrow> async_error option" where
  "outcome_error C rc t =
     (if r_Revision rc = max_uint64 then Some ErrUnavailable
      else if t_ID t \<noteq> e_ID (r_Envelope rc) \<or> (\<not> Terminal (t_State t) \<and> t_State t \<noteq> RetryWait)
        then Some ErrInvalid
      else if length (t_Output t) > MaxPayloadBytes \<or> (t_Output t \<noteq> [] \<and> \<not> json_Valid C (t_Output t))
        then Some ErrInvalid
      else if t_State t = Succeeded \<and> t_Output t = [] then Some ErrInvalid
      else if t_State t = RetryWait then
        (case t_Next t of
           None \<Rightarrow> Some ErrInvalid
         | Some next \<Rightarrow>
             if e_ID next \<noteq> e_ID (r_Envelope rc) \<or> e_Retries next \<noteq> e_Retries (r_Envelope rc) + 1
                \<or> Digest C next \<noteq> r_Digest rc \<or> t_Intents t = []
             then Some ErrInvalid else envelope_Validate C next)
      else None)"

definition applyOutcome ::
  "codec \<Rightarrow> task_record \<Rightarrow> transition \<Rightarrow> go_time \<Rightarrow> go_duration \<Rightarrow> go_duration
   \<Rightarrow> async_error + task_record" where
  "applyOutcome C rc t now resultTTL tombstoneTTL =
     (case outcome_error C rc t of
        Some err \<Rightarrow> Inl err
      | None \<Rightarrow>
          let rc1 = rc\<lparr>r_State := t_State t, r_Revision := r_Revision rc + 1,
                      r_Output := t_Output t, r_Failure := t_Failure t, r_Owner := [],
                      r_LeaseUntil := 0\<rparr>;
              rc2 = (case t_Next t of
                       None \<Rightarrow> rc1
                     | Some next \<Rightarrow>
                         rc1\<lparr>r_Envelope := next,
                            r_ReplayUntil := later (r_ReplayUntil rc1)
                                               (later (e_ETA next) (e_ExpiresAt next))\<rparr>)
          in Inr (if Terminal (t_State t)
                  then rc2\<lparr>r_FinishedAt := now, r_PayloadExpiresAt := now + resultTTL,
                          r_TombstoneUntil := later now (r_ReplayUntil rc2) + tombstoneTTL\<rparr>
                  else rc2))"

text \<open>The checks of a yield: one \<open>replace\<close> intent carrying a fresh graph of this very task.\<close>

definition replacement_error :: "task_record \<Rightarrow> transition \<Rightarrow> async_error option" where
  "replacement_error rc t =
     (case t_Intents t of
        [intent] \<Rightarrow>
          (case i_Graph intent of
             None \<Rightarrow> Some ErrInvalid
           | Some g \<Rightarrow>
               if t_ID t \<noteq> e_ID (r_Envelope rc) \<or> t_State t \<noteq> Running
                  \<or> i_Kind intent \<noteq> ''replace'' \<or> g_ID g \<noteq> t_ReplacementID t
                  \<or> g_OriginTaskID g \<noteq> t_ID t \<or> g_OriginDigest g \<noteq> r_Digest rc
                  \<or> t_Output t \<noteq> [] \<or> t_Next t \<noteq> None \<or> t_Failure t \<noteq> None
               then Some ErrInvalid
               else if \<not> idPattern (t_ReplacementID t) \<or> g_Scope g \<noteq> e_Scope (r_Envelope rc)
                  \<or> g_State g \<noteq> Running \<or> g_Revision g \<noteq> 1 \<or> g_Kind g \<noteq> ''dag''
                  \<or> g_RootNode g = [] \<or> g_MembersNil g \<or> g_Members g \<noteq> []
                  \<or> i_SourceID intent \<noteq> t_ID t \<or> i_WorkflowID intent \<noteq> t_ReplacementID t
               then Some ErrInvalid
               else if r_CancelRequested rc then Some ErrCanceled else None)
      | _ \<Rightarrow> Some ErrInvalid)"

fun replay_children :: "envelope list \<Rightarrow> go_time \<Rightarrow> go_time" where
  "replay_children [] t = t"
| "replay_children (child # cs) t =
     replay_children cs (later t (later (e_ETA child) (e_ExpiresAt child)))"

definition intent_children :: "intent list \<Rightarrow> envelope list" where
  "intent_children is =
     (case is of
        intent # _ \<Rightarrow> (case i_Graph intent of Some g \<Rightarrow> g_Children g | None \<Rightarrow> [])
      | [] \<Rightarrow> [])"

definition ApplyTransition ::
  "codec \<Rightarrow> task_record \<Rightarrow> transition \<Rightarrow> go_time \<Rightarrow> go_duration \<Rightarrow> go_duration
   \<Rightarrow> async_error + task_record" where
  "ApplyTransition C rc t now resultTTL tombstoneTTL =
     (case ValidateLease rc (t_Fence t) (t_Owner t) now of
        Some err \<Rightarrow> Inl err
      | None \<Rightarrow>
          if r_Revision rc = max_uint64 then Inl ErrUnavailable
          else if t_ReplacementID t \<noteq> [] then
            (case replacement_error rc t of
               Some err \<Rightarrow> Inl err
             | None \<Rightarrow>
                 Inr (rc\<lparr>r_ReplacementID := t_ReplacementID t,
                        r_ReplayUntil := replay_children (intent_children (t_Intents t))
                                           (r_ReplayUntil rc),
                        r_Revision := r_Revision rc + 1, r_Owner := [], r_LeaseUntil := 0\<rparr>))
          else applyOutcome C rc t now resultTTL tombstoneTTL)"

definition ApplyReplacementOutcome ::
  "codec \<Rightarrow> task_record \<Rightarrow> string \<Rightarrow> transition \<Rightarrow> go_time \<Rightarrow> go_duration \<Rightarrow> go_duration
   \<Rightarrow> async_error + task_record" where
  "ApplyReplacementOutcome C rc workflowID t now resultTTL tombstoneTTL =
     (if r_ReplacementID rc = [] \<or> r_ReplacementID rc \<noteq> workflowID \<or> r_State rc \<noteq> Running
         \<or> r_Owner rc \<noteq> [] \<or> r_LeaseUntil rc \<noteq> 0 then Inl ErrConflict
      else if \<not> Terminal (t_State t) \<or> t_Next t \<noteq> None \<or> t_ReplacementID t \<noteq> []
         \<or> r_CancelRequested rc \<and> t_State t \<noteq> Revoked then Inl ErrInvalid
      else applyOutcome C rc t now resultTTL tombstoneTTL)"

subsection \<open>Intents of a record\<close>

definition CompletionIntents ::
  "envelope \<Rightarrow> task_state \<Rightarrow> raw_json \<Rightarrow> failure option \<Rightarrow> intent list" where
  "CompletionIntents e state out fl =
     (if e_WorkflowID e = [] \<or> \<not> Terminal state then []
      else [zero_intent\<lparr>i_ID := StableID (e_ID e) ''completion'', i_SourceID := e_ID e,
                        i_Kind := ''completion'', i_WorkflowID := e_WorkflowID e,
                        i_Completion := Some \<lparr>c_ID = e_ID e, c_State = state, c_Output = out,
                                              c_Failure = fl\<rparr>\<rparr>])"

definition ReplacementCancellationIntents :: "task_record \<Rightarrow> intent list" where
  "ReplacementCancellationIntents rc =
     (if \<not> r_CancelRequested rc \<or> r_ReplacementID rc = [] \<or> Terminal (r_State rc) then []
      else [zero_intent\<lparr>i_ID := StableID (e_ID (r_Envelope rc)) ''replacement-cancel'',
                        i_SourceID := e_ID (r_Envelope rc), i_Kind := ''cancel_workflow'',
                        i_WorkflowID := r_ReplacementID rc,
                        i_Envelope := Some (r_Envelope rc)\<rparr>])"

subsection \<open>How a record may change\<close>

text \<open>
  \<open>evolves a b\<close>: what every change of a stored record keeps. Identity and digest are fixed, the
  revision grows, the fence never shrinks, cancellation and the replacement are never taken back,
  one fence has one owner at most, and a terminal outcome is final: only its payload may be
  dropped.
\<close>

definition evolves :: "task_record \<Rightarrow> task_record \<Rightarrow> bool" where
  "evolves a b =
     (r_Digest b = r_Digest a \<and> e_ID (r_Envelope b) = e_ID (r_Envelope a)
      \<and> r_Revision a < r_Revision b \<and> r_Fence a \<le> r_Fence b
      \<and> e_Retries (r_Envelope a) \<le> e_Retries (r_Envelope b)
      \<and> (r_CancelRequested a \<longrightarrow> r_CancelRequested b)
      \<and> (r_ReplacementID a \<noteq> [] \<longrightarrow> r_ReplacementID b = r_ReplacementID a)
      \<and> (r_Fence b = r_Fence a \<longrightarrow> r_Owner b = r_Owner a \<or> r_Owner b = [])
      \<and> (Terminal (r_State a) \<longrightarrow>
           r_State b = r_State a \<and> r_Failure b = r_Failure a \<and> r_FinishedAt b = r_FinishedAt a
           \<and> r_Envelope b = r_Envelope a \<and> r_Fence b = r_Fence a
           \<and> (r_Output b = r_Output a \<or> r_Output b = [])))"

lemma evolves_terminal:
  "evolves a b \<Longrightarrow> Terminal (r_State a) \<Longrightarrow>
   r_State b = r_State a \<and> r_Failure b = r_Failure a \<and> r_FinishedAt b = r_FinishedAt a
   \<and> r_Envelope b = r_Envelope a \<and> r_Fence b = r_Fence a
   \<and> (r_Output b = r_Output a \<or> r_Output b = [])"
  by (simp add: evolves_def)

lemma evolves_order:
  "evolves a b \<Longrightarrow> r_Revision a < r_Revision b"
  "evolves a b \<Longrightarrow> r_Fence a \<le> r_Fence b"
  "evolves a b \<Longrightarrow> e_Retries (r_Envelope a) \<le> e_Retries (r_Envelope b)"
  by (simp_all add: evolves_def)

lemma evolves_trans:
  assumes "evolves a b" "evolves b c"
  shows "evolves a c"
proof -
  have "r_Owner c = r_Owner a \<or> r_Owner c = []" if "r_Fence c = r_Fence a"
  proof -
    have "r_Fence a \<le> r_Fence b" "r_Fence b \<le> r_Fence c" using assms by (simp_all add: evolves_def)
    with that have "r_Fence b = r_Fence a" by simp
    with that assms show ?thesis by (simp add: evolves_def) metis
  qed
  moreover have "r_State c = r_State a \<and> r_Failure c = r_Failure a
      \<and> r_FinishedAt c = r_FinishedAt a \<and> r_Envelope c = r_Envelope a \<and> r_Fence c = r_Fence a
      \<and> (r_Output c = r_Output a \<or> r_Output c = [])" if "Terminal (r_State a)"
    using evolves_terminal [OF assms(1) that] evolves_terminal [OF assms(2)] that by metis
  moreover have "r_Revision a < r_Revision c" "r_Fence a \<le> r_Fence c"
      "e_Retries (r_Envelope a) \<le> e_Retries (r_Envelope c)"
    using evolves_order [OF assms(1)] evolves_order [OF assms(2)] by (blast intro: order.strict_trans order.trans)+
  moreover have "r_Digest c = r_Digest a" "e_ID (r_Envelope c) = e_ID (r_Envelope a)"
    using assms by (simp_all add: evolves_def)
  moreover have "r_CancelRequested a \<longrightarrow> r_CancelRequested c"
      "r_ReplacementID a \<noteq> [] \<longrightarrow> r_ReplacementID c = r_ReplacementID a"
    using assms by (simp_all add: evolves_def)
  ultimately show ?thesis unfolding evolves_def by blast
qed

text \<open>
  \<open>proper t\<close>: a transition carries a next envelope only when it asks for a retry. Every caller
  builds its transitions this way; \<open>applyOutcome\<close> relies on it.
\<close>

definition proper :: "transition \<Rightarrow> bool" where
  "proper t = (t_Next t \<noteq> None \<longrightarrow> t_State t = RetryWait)"

lemma revision_grows [simp]: "r \<noteq> max_uint64 \<Longrightarrow> r < r + 1" for r :: "64 word"
  by (simp add: max_uint64_def word_Suc_greater)

lemma ClaimRecord_evolves:
  "ClaimRecord C rc e owner now lease = Inr cl \<Longrightarrow> cl_Acquired cl \<Longrightarrow> evolves rc (cl_Record cl)"
  by (auto simp: ClaimRecord_def evolves_def less_imp_le split: if_splits)

lemma ClaimRecord_lease:
  "ClaimRecord C rc e owner now lease = Inr cl \<Longrightarrow> cl_Acquired cl \<Longrightarrow>
   r_Fence rc < r_Fence (cl_Record cl) \<and> r_State (cl_Record cl) = Running
   \<and> r_Owner (cl_Record cl) = owner \<and> owner \<noteq> [] \<and> \<not> Terminal (r_State rc)
   \<and> r_ReplacementID rc = [] \<and> r_ReplacementID (cl_Record cl) = []
   \<and> r_Revision (cl_Record cl) = r_Revision rc + 1 \<and> r_Revision rc \<noteq> max_uint64
   \<and> r_Envelope (cl_Record cl) = r_Envelope rc"
  by (auto simp: ClaimRecord_def split: if_splits)

lemma applyOutcome_spec:
  assumes "applyOutcome C rc t now rttl tttl = Inr rc'" "proper t"
  shows "r_Digest rc' = r_Digest rc" "e_ID (r_Envelope rc') = e_ID (r_Envelope rc)"
    "r_Revision rc' = r_Revision rc + 1" "r_Revision rc \<noteq> max_uint64" "r_Fence rc' = r_Fence rc"
    "e_Retries (r_Envelope rc) \<le> e_Retries (r_Envelope rc')"
    "r_CancelRequested rc' = r_CancelRequested rc" "r_ReplacementID rc' = r_ReplacementID rc"
    "r_Owner rc' = []" "r_LeaseUntil rc' = 0" "r_State rc' = t_State t"
    "Terminal (t_State t) \<or> t_State t = RetryWait"
  using assms
  by (auto simp: applyOutcome_def outcome_error_def proper_def Let_def
           split: if_splits option.splits)

lemma applyOutcome_evolves:
  assumes "applyOutcome C rc t now rttl tttl = Inr rc'" "proper t" "\<not> Terminal (r_State rc)"
  shows "evolves rc rc'"
  using applyOutcome_spec [OF assms(1,2)] assms(3) by (auto simp: evolves_def)

lemma ApplyTransition_lease:
  "ApplyTransition C rc t now rttl tttl = Inr rc' \<Longrightarrow>
   r_State rc = Running \<and> r_Fence rc = t_Fence t \<and> r_Owner rc = t_Owner t"
  by (auto simp: ApplyTransition_def ValidateLease_def split: if_splits)

lemma ApplyTransition_cases:
  assumes "ApplyTransition C rc t now rttl tttl = Inr rc'"
  obtains (yield) "t_ReplacementID t \<noteq> []" "replacement_error rc t = None"
      "r_Revision rc \<noteq> max_uint64"
      "rc' = rc\<lparr>r_ReplacementID := t_ReplacementID t,
              r_ReplayUntil := replay_children (intent_children (t_Intents t)) (r_ReplayUntil rc),
              r_Revision := r_Revision rc + 1, r_Owner := [], r_LeaseUntil := 0\<rparr>"
  | (outcome) "t_ReplacementID t = []" "applyOutcome C rc t now rttl tttl = Inr rc'"
  using assms by (auto simp: ApplyTransition_def split: if_splits option.splits)

lemma ApplyTransition_evolves:
  assumes "ApplyTransition C rc t now rttl tttl = Inr rc'" "proper t" "r_ReplacementID rc = []"
  shows "evolves rc rc'"
  using assms(1)
proof (cases rule: ApplyTransition_cases)
  case yield
  then show ?thesis using ApplyTransition_lease [OF assms(1)] assms(3) by (auto simp: evolves_def)
next
  case outcome
  then show ?thesis
    using applyOutcome_evolves assms(2) ApplyTransition_lease [OF assms(1)] by fastforce
qed

lemma ApplyReplacementOutcome_spec:
  assumes "ApplyReplacementOutcome C rc w t now rttl tttl = Inr rc'"
  shows "r_ReplacementID rc = w" "w \<noteq> []" "r_State rc = Running" "r_Owner rc = []"
    "proper t" "Terminal (t_State t)" "applyOutcome C rc t now rttl tttl = Inr rc'"
  using assms by (auto simp: ApplyReplacementOutcome_def proper_def split: if_splits)

lemma ApplyReplacementOutcome_evolves:
  assumes "ApplyReplacementOutcome C rc w t now rttl tttl = Inr rc'"
  shows "evolves rc rc'"
  using ApplyReplacementOutcome_spec [OF assms] applyOutcome_evolves by fastforce

text \<open>A small codec for concrete examples.\<close>

definition plain_codec :: codec where
  "plain_codec =
     \<lparr>json_Valid = \<lambda>s. s \<noteq> [], marshal_Envelope = \<lambda>e. Some (e_Args e),
      marshal_Graph = \<lambda>g. Some (g_ID g), marshal_Intents = \<lambda>is. Some (concat (map i_ID is)),
      marshal_Outputs = \<lambda>os. Some (concat os), marshal_Failure = \<lambda>f. Some ''null'',
      bind_field = \<lambda>args f v. Some v, json_Compact = \<lambda>s. if s = [] then ''null'' else s\<rparr>"

end
