(* ===== verification/Async_Outbox.thy ===== *)
theory Async_Outbox
  imports Async_Record
begin

text \<open>
  The outbox both durable stores share (\<open>intentBackend\<close> and the intent part of the Lua scripts in
  \<open>src/async/redis/results.go\<close> and \<open>workflows.go\<close>, \<open>src/async/redis/codec.go\<close>): the intents of a
  source are documents in one hash, with a lease for their delivery, and an index holds the
  references of the undelivered ones. The record \<open>outbox\<close> is the part of a store's state that these
  scripts touch; each store extends it.
\<close>

subsection \<open>Documents and index\<close>

text \<open>The metadata document of an intent (\<open>opaqueDocument\<close>) with its payload.\<close>

record intent_doc =
  d_Payload :: intent
  d_Fence :: "64 word"
  d_Owner :: string
  d_LeaseMillis :: int
  d_Delivered :: bool

record outbox =
  st_intents :: "string \<Rightarrow> string \<Rightarrow> intent_doc option"
  st_pending :: "string \<Rightarrow> string \<Rightarrow> int option"

subsection \<open>Milliseconds\<close>

definition UnixMilli :: "go_time \<Rightarrow> int" where
  "UnixMilli t = (t - unix_epoch) div millisecond"

definition FromUnixMilli :: "int \<Rightarrow> go_time" where
  "FromUnixMilli n = n * millisecond + unix_epoch"

definition Milliseconds :: "go_duration \<Rightarrow> int" where
  "Milliseconds d = (if 0 \<le> d then d div millisecond else - ((- d) div millisecond))"

lemma UnixMilli_From [simp]: "UnixMilli (FromUnixMilli n) = n"
  by (simp add: UnixMilli_def FromUnixMilli_def millisecond_def)

lemma FromUnixMilli_nonzero: "0 \<le> n \<Longrightarrow> FromUnixMilli n \<noteq> 0"
  by (simp add: FromUnixMilli_def unix_epoch_def duration_defs)

definition max_lua_integer :: int where "max_lua_integer = 9007199254740991"

subsection \<open>Staging\<close>

definition intent_document :: "intent \<Rightarrow> intent_doc" where
  "intent_document i =
     \<lparr>d_Payload = i, d_Fence = i_Fence i, d_Owner = i_Owner i, d_LeaseMillis = 0,
      d_Delivered = i_Delivered i\<rparr>"

definition stage_intent :: "int \<Rightarrow> intent \<Rightarrow> 's outbox_scheme \<Rightarrow> 's outbox_scheme" where
  "stage_intent now i st =
     (let src = i_SourceID i; iid = i_ID i in
      if st_intents st src iid = None
      then st\<lparr>st_intents := (st_intents st)(src := (st_intents st src)(iid \<mapsto> intent_document i)),
             st_pending := (st_pending st)(src := (st_pending st src)(iid \<mapsto> now))\<rparr>
      else st)"

fun stage_intents :: "int \<Rightarrow> intent list \<Rightarrow> 's outbox_scheme \<Rightarrow> 's outbox_scheme" where
  "stage_intents now [] st = st"
| "stage_intents now (i # is) st = stage_intents now is (stage_intent now i st)"

subsection \<open>Delivery of intents\<close>

definition validIntentIDs :: "string \<Rightarrow> string \<Rightarrow> bool" where
  "validIntentIDs source i = (idPattern source \<and> idPattern i)"

definition unmarshalIntent :: "intent_doc \<Rightarrow> intent" where
  "unmarshalIntent d =
     (d_Payload d)\<lparr>i_Owner := d_Owner d, i_Delivered := d_Delivered d, i_Fence := d_Fence d,
                   i_LeaseUntil := (if d_LeaseMillis d > 0 then FromUnixMilli (d_LeaseMillis d)
                                    else 0)\<rparr>"

definition intent_claim ::
  "go_time \<Rightarrow> 's outbox_scheme \<Rightarrow> string \<Rightarrow> string \<Rightarrow> string \<Rightarrow> go_duration
   \<Rightarrow> (async_error + intent) \<times> 's outbox_scheme" where
  "intent_claim now st source i owner lease =
     (let ms = UnixMilli now in
      if \<not> validIntentIDs source i \<or> owner = [] \<or> lease < millisecond then (Inl ErrInvalid, st)
      else case st_intents st source i of
             None \<Rightarrow> (Inl ErrNotFound, st)
           | Some d \<Rightarrow>
               if d_Delivered d then (Inr (unmarshalIntent d), st)
               else if d_LeaseMillis d > ms then (Inl ErrBusy, st)
               else if ms + Milliseconds lease > max_lua_integer
                 then (Inl (ErrBackend ''invalid intent lease''), st)
               else if d_Fence d = max_uint64
                 then (Inl (ErrBackend ''GOGO_COUNTER_EXHAUSTED''), st)
               else let d' = d\<lparr>d_LeaseMillis := ms + Milliseconds lease, d_Fence := d_Fence d + 1,
                              d_Owner := owner\<rparr>
                    in (Inr (unmarshalIntent d'),
                        st\<lparr>st_intents := (st_intents st)(source := (st_intents st source)(i \<mapsto> d')),
                          st_pending := (st_pending st)
                            (source := (st_pending st source)(i \<mapsto> d_LeaseMillis d'))\<rparr>))"

definition intent_mark ::
  "go_time \<Rightarrow> 's outbox_scheme \<Rightarrow> string \<Rightarrow> string \<Rightarrow> 64 word \<Rightarrow> string
   \<Rightarrow> async_error option \<times> 's outbox_scheme" where
  "intent_mark now st source i fence owner =
     (if \<not> validIntentIDs source i \<or> owner = [] then (Some ErrInvalid, st)
      else case st_intents st source i of
             None \<Rightarrow> (Some ErrNotFound, st)
           | Some d \<Rightarrow>
               if d_Delivered d then (None, st)
               else if d_Owner d \<noteq> owner \<or> d_Fence d \<noteq> fence \<or> d_LeaseMillis d \<le> UnixMilli now
                 then (Some ErrLeaseLost, st)
               else (None,
                     st\<lparr>st_intents := (st_intents st)
                         (source := (st_intents st source)(i \<mapsto> d\<lparr>d_Delivered := True\<rparr>)),
                       st_pending := (st_pending st)
                         (source := (st_pending st source)(i := None))\<rparr>))"


subsection \<open>Intents are kept\<close>

definition doc_follows :: "intent_doc \<Rightarrow> intent_doc \<Rightarrow> bool" where
  "doc_follows d d' =
     (d_Payload d' = d_Payload d \<and> d_Fence d \<le> d_Fence d' \<and> (d_Delivered d \<longrightarrow> d' = d))"

definition outbox_follows :: "'s outbox_scheme \<Rightarrow> 's outbox_scheme \<Rightarrow> bool" where
  "outbox_follows st st' =
     (\<forall>src i d. st_intents st src i = Some d \<longrightarrow>
        (\<exists>d'. st_intents st' src i = Some d' \<and> doc_follows d d'))"

definition indexed :: "'s outbox_scheme \<Rightarrow> bool" where
  "indexed st =
     (\<forall>src i d. st_intents st src i = Some d \<longrightarrow> \<not> d_Delivered d \<longrightarrow> st_pending st src i \<noteq> None)"

lemma doc_follows_trans: "doc_follows a b \<Longrightarrow> doc_follows b c \<Longrightarrow> doc_follows a c"
  by (auto simp: doc_follows_def)

lemma outbox_refl [simp]: "st_intents st' = st_intents st \<Longrightarrow> outbox_follows st st'"
  by (simp add: outbox_follows_def doc_follows_def)

lemma outbox_trans: "outbox_follows a b \<Longrightarrow> outbox_follows b c \<Longrightarrow> outbox_follows a c"
  unfolding outbox_follows_def using doc_follows_trans by meson

lemma outbox_update:
  assumes "\<And>d. st_intents st src i = Some d \<Longrightarrow> doc_follows d d'"
    and "st_intents st' = (st_intents st)(src := (st_intents st src)(i \<mapsto> d'))"
  shows "outbox_follows st st'"
  using assms by (simp add: outbox_follows_def doc_follows_def)

lemma stage_one_follows: "outbox_follows st (stage_intent now i st)"
  by (auto simp: stage_intent_def Let_def
           intro: outbox_update [where src = "i_SourceID i" and i = "i_ID i"])

lemma stage_one_indexed: "indexed st \<Longrightarrow> indexed (stage_intent now i st)"
  by (simp add: stage_intent_def Let_def indexed_def)

lemma stage_one_stored: "st_intents (stage_intent now i st) (i_SourceID i) (i_ID i) \<noteq> None"
  by (simp add: stage_intent_def Let_def)

lemma stage_follows: "outbox_follows st (stage_intents now is st)"
  by (induction "now" "is" st rule: stage_intents.induct)
     (auto intro: outbox_trans stage_one_follows)

lemma stage_indexed: "indexed st \<Longrightarrow> indexed (stage_intents now is st)"
  by (induction "now" "is" st rule: stage_intents.induct) (simp_all add: stage_one_indexed)

lemma outbox_stored:
  "outbox_follows st st' \<Longrightarrow> st_intents st src i \<noteq> None \<Longrightarrow> st_intents st' src i \<noteq> None"
  unfolding outbox_follows_def by force

lemma stage_stored:
  "i \<in> set is \<Longrightarrow> st_intents (stage_intents now is st) (i_SourceID i) (i_ID i) \<noteq> None"
proof (induction "now" "is" st rule: stage_intents.induct)
  case (2 "now" j "is" st)
  show ?case
  proof (cases "i = j")
    case True
    show ?thesis
      using outbox_stored [OF stage_follows stage_one_stored [of "now" j st]] True by simp
  next
    case False
    with "2.prems" "2.IH" show ?thesis by simp
  qed
qed simp

text \<open>What staging adds are the documents of the intents; a known identifier keeps its document.\<close>

lemma outbox_followsD:
  "outbox_follows st st' \<Longrightarrow> st_intents st src i = Some d \<Longrightarrow> \<exists>d'. st_intents st' src i = Some d' \<and> doc_follows d d'"
  by (simp add: outbox_follows_def)

lemma stage_one_keeps: "st_intents st src n = Some d \<Longrightarrow> st_intents (stage_intent now i st) src n = Some d"
  by (cases "src = i_SourceID i \<and> n = i_ID i") (auto simp: stage_intent_def Let_def)

lemma stage_keeps: "st_intents st src n = Some d \<Longrightarrow> st_intents (stage_intents now is st) src n = Some d"
  by (induction "now" "is" st rule: stage_intents.induct) (simp_all add: stage_one_keeps)

lemma stage_new:
  "st_intents (stage_intents now is st) src n = Some d \<Longrightarrow> st_intents st src n = None
   \<Longrightarrow> \<exists>x \<in> set is. i_SourceID x = src \<and> i_ID x = n \<and> d = intent_document x"
proof (induction "now" "is" st rule: stage_intents.induct)
  case (2 "now" j "is" st)
  show ?case
  proof (cases "st_intents (stage_intent now j st) src n")
    case None
    then show ?thesis using 2 by auto
  next
    case (Some d')
    then have "i_SourceID j = src \<and> i_ID j = n \<and> d' = intent_document j"
      using "2.prems"(2) by (cases "src = i_SourceID j \<and> n = i_ID j") (auto simp: stage_intent_def Let_def split: if_splits)
    then show ?thesis using "2.prems"(1) stage_keeps[OF Some] by auto
  qed
qed simp

lemma intent_claim_cases:
  "snd (intent_claim now st src i owner lease) = st
   \<or> (\<exists>d. st_intents st src i = Some d \<and> \<not> d_Delivered d \<and> d_Fence d \<noteq> max_uint64
        \<and> snd (intent_claim now st src i owner lease)
          = st\<lparr>st_intents := (st_intents st)(src := (st_intents st src)
                 (i \<mapsto> d\<lparr>d_LeaseMillis := UnixMilli now + Milliseconds lease,
                         d_Fence := d_Fence d + 1, d_Owner := owner\<rparr>)),
              st_pending := (st_pending st)(src := (st_pending st src)
                 (i \<mapsto> UnixMilli now + Milliseconds lease))\<rparr>)"
  by (simp add: intent_claim_def Let_def split: option.split)

lemma intent_mark_cases:
  "snd (intent_mark now st src i fence owner) = st
   \<or> (\<exists>d. st_intents st src i = Some d \<and> \<not> d_Delivered d
        \<and> d_Owner d = owner \<and> d_Fence d = fence \<and> UnixMilli now < d_LeaseMillis d
        \<and> snd (intent_mark now st src i fence owner)
          = st\<lparr>st_intents := (st_intents st)(src := (st_intents st src)
                 (i \<mapsto> d\<lparr>d_Delivered := True\<rparr>)),
              st_pending := (st_pending st)(src := (st_pending st src)(i := None))\<rparr>)"
  by (simp add: intent_mark_def split: option.split)

lemma intent_claim_outbox:
  "outbox_follows st (snd (intent_claim now st src i owner lease))"
  using intent_claim_cases [of "now" st src i owner lease]
  by (elim disjE exE conjE) (simp_all add: outbox_follows_def doc_follows_def less_imp_le)

lemma intent_mark_outbox: "outbox_follows st (snd (intent_mark now st src i fence owner))"
  using intent_mark_cases [of "now" st src i fence owner]
  by (elim disjE exE conjE) (simp_all add: outbox_follows_def doc_follows_def)

lemma intent_claim_indexed:
  "indexed st \<Longrightarrow> indexed (snd (intent_claim now st src i owner lease))"
  using intent_claim_cases [of "now" st src i owner lease]
  by (elim disjE exE conjE) (simp_all add: indexed_def)

lemma intent_mark_indexed: "indexed st \<Longrightarrow> indexed (snd (intent_mark now st src i fence owner))"
  using intent_mark_cases [of "now" st src i fence owner]
  by (elim disjE exE conjE) (simp_all add: indexed_def)

end
