(* ===== verification/Optimistic_Loop.thy ===== *)
theory Optimistic_Loop
  imports Go_Prelude
begin

text \<open>
  Optimistic concurrency, as both durable stores of the task queue use it
  (\<open>src/async/redis/results.go\<close>, \<open>src/async/redis/workflows.go\<close>): an operation reads one row and
  the server clock, computes a replacement, and submits it to an atomic script that accepts it
  only while the row's revision is the one that was read; a refused operation starts over, a
  bounded number of times. Many clients run such loops against one store, in any interleaving.

  \<open>loop_step\<close> is one atomic action of one client (or of the clock, or of another atomic script).
  The locale \<open>optimistic_store\<close> states what a store promises to its loops, and proves what every
  run then has: a script accepts a request only if the row still is the one the request was
  computed from, so an accepted operation acts atomically at its commit; and rows change only by
  accepted operations.
\<close>

datatype ('q, 'a, 'e) turn = Return "'e + 'a" | Commit 'q 'a

datatype ('c, 'q, 'a, 'e) phase =
  Idle | Trying 'c nat | Committing 'c nat 'q 'a | Finished 'c "'e + 'a"

record ('c, 'q, 'a, 'e, 'st) loop_system =
  lp_store :: 'st
  lp_now :: int
  lp_clients :: "nat \<Rightarrow> ('c, 'q, 'a, 'e) phase"

definition may_call :: "('c, 'q, 'a, 'e) phase \<Rightarrow> bool" where
  "may_call p = (case p of Idle \<Rightarrow> True | Finished _ _ \<Rightarrow> True | _ \<Rightarrow> False)"

inductive loop_step
  for allowed :: "'c \<Rightarrow> bool"
    and attempt :: "int \<Rightarrow> nat \<Rightarrow> 'c \<Rightarrow> 'st \<Rightarrow> ('q, 'a, 'e) turn"
    and commit :: "int \<Rightarrow> 'st \<Rightarrow> 'q \<Rightarrow> 'e option \<times> 'st"
    and again :: "'c \<Rightarrow> 'e \<Rightarrow> bool"
    and limit :: "'c \<Rightarrow> nat"
    and busy :: 'e
    and other :: "'st \<Rightarrow> 'st \<Rightarrow> bool"
where
  tick: "lp_now s \<le> now \<Longrightarrow>
    loop_step allowed attempt commit again limit busy other s (s\<lparr>lp_now := now\<rparr>)"
| call: "may_call (lp_clients s k) \<Longrightarrow> allowed c \<Longrightarrow>
    loop_step allowed attempt commit again limit busy other s
      (s\<lparr>lp_clients := (lp_clients s)(k := Trying c 0)\<rparr>)"
| exhausted: "lp_clients s k = Trying c n \<Longrightarrow> limit c \<le> n \<Longrightarrow>
    loop_step allowed attempt commit again limit busy other s
      (s\<lparr>lp_clients := (lp_clients s)(k := Finished c (Inl busy))\<rparr>)"
| answer: "lp_clients s k = Trying c n \<Longrightarrow> n < limit c \<Longrightarrow> 0 \<le> t \<Longrightarrow>
    attempt t n c (lp_store s) = Return r \<Longrightarrow>
    loop_step allowed attempt commit again limit busy other s
      (s\<lparr>lp_clients := (lp_clients s)(k := Finished c r)\<rparr>)"
| ask: "lp_clients s k = Trying c n \<Longrightarrow> n < limit c \<Longrightarrow> 0 \<le> t \<Longrightarrow>
    attempt t n c (lp_store s) = Commit q a \<Longrightarrow>
    loop_step allowed attempt commit again limit busy other s
      (s\<lparr>lp_clients := (lp_clients s)(k := Committing c n q a)\<rparr>)"
| accept: "lp_clients s k = Committing c n q a \<Longrightarrow>
    commit (lp_now s) (lp_store s) q = (None, st) \<Longrightarrow>
    loop_step allowed attempt commit again limit busy other s
      (s\<lparr>lp_store := st, lp_clients := (lp_clients s)(k := Finished c (Inr a))\<rparr>)"
| retry: "lp_clients s k = Committing c n q a \<Longrightarrow>
    commit (lp_now s) (lp_store s) q = (Some e, st) \<Longrightarrow> again c e \<Longrightarrow>
    loop_step allowed attempt commit again limit busy other s
      (s\<lparr>lp_store := st, lp_clients := (lp_clients s)(k := Trying c (Suc n))\<rparr>)"
| refuse: "lp_clients s k = Committing c n q a \<Longrightarrow>
    commit (lp_now s) (lp_store s) q = (Some e, st) \<Longrightarrow> \<not> again c e \<Longrightarrow>
    loop_step allowed attempt commit again limit busy other s
      (s\<lparr>lp_store := st, lp_clients := (lp_clients s)(k := Finished c (Inl e))\<rparr>)"
| script: "other (lp_store s) st \<Longrightarrow>
    loop_step allowed attempt commit again limit busy other s (s\<lparr>lp_store := st\<rparr>)"

locale optimistic_store =
  fixes row :: "'st \<Rightarrow> 'k \<Rightarrow> 'row option"
    and rev_of :: "'row option \<Rightarrow> 64 word"
    and ok :: "'k \<Rightarrow> 'row option \<Rightarrow> bool"
    and follows :: "'row \<Rightarrow> 'row \<Rightarrow> bool"
    and key :: "'c \<Rightarrow> 'k"
    and allowed :: "'c \<Rightarrow> bool"
    and attempt :: "int \<Rightarrow> nat \<Rightarrow> 'c \<Rightarrow> 'st \<Rightarrow> ('q, 'a, 'e) turn"
    and commit :: "int \<Rightarrow> 'st \<Rightarrow> 'q \<Rightarrow> 'e option \<times> 'st"
    and again :: "'c \<Rightarrow> 'e \<Rightarrow> bool"
    and limit :: "'c \<Rightarrow> nat"
    and busy :: 'e
    and other :: "'st \<Rightarrow> 'st \<Rightarrow> bool"
  assumes attempt_reads:
      "row st (key c) = row st' (key c) \<Longrightarrow> attempt t n c st = attempt t n c st'"
    and commit_refused: "commit now st q = (Some e, st') \<Longrightarrow> st' = st"
    and commit_fresh:
      "allowed c \<Longrightarrow> 0 \<le> t \<Longrightarrow> ok (key c) (row base (key c)) \<Longrightarrow>
       attempt t n c base = Commit q a \<Longrightarrow> commit now st q = (None, st') \<Longrightarrow>
       rev_of (row st (key c)) \<le> rev_of (row base (key c))"
    and commit_changes:
      "allowed c \<Longrightarrow> 0 \<le> t \<Longrightarrow> ok (key c) (row st (key c)) \<Longrightarrow>
       attempt t n c st = Commit q a \<Longrightarrow> commit now st q = (None, st') \<Longrightarrow>
       (\<exists>w. row st' (key c) = Some w \<and> ok (key c) (Some w)
            \<and> rev_of (row st (key c)) < rev_of (Some w)
            \<and> (\<forall>v. row st (key c) = Some v \<longrightarrow> follows v w))
       \<and> (\<forall>k. k \<noteq> key c \<longrightarrow> row st' k = row st k)"
    and other_rows: "other st st' \<Longrightarrow> row st' = row st"
    and follows_trans: "follows u v \<Longrightarrow> follows v w \<Longrightarrow> follows u w"
begin

abbreviation step where
  "step \<equiv> loop_step allowed attempt commit again limit busy other"

text \<open>
  The request a client holds was computed from a well-formed row, and the store's row is still
  that one or has a larger revision.
\<close>

definition backed :: "'st \<Rightarrow> 'c \<Rightarrow> nat \<Rightarrow> 'q \<Rightarrow> 'a \<Rightarrow> bool" where
  "backed st c n q a =
     (\<exists>t base. 0 \<le> t \<and> ok (key c) (row base (key c)) \<and> attempt t n c base = Commit q a
        \<and> (row st (key c) = row base (key c)
           \<or> rev_of (row base (key c)) < rev_of (row st (key c))))"

fun phase_ok :: "'st \<Rightarrow> ('c, 'q, 'a, 'e) phase \<Rightarrow> bool" where
  "phase_ok st (Trying c n) = allowed c"
| "phase_ok st (Committing c n q a) = (allowed c \<and> backed st c n q a)"
| "phase_ok st _ = True"

definition inv :: "('c, 'q, 'a, 'e, 'st) loop_system \<Rightarrow> bool" where
  "inv s = ((\<forall>k. ok k (row (lp_store s) k)) \<and> (\<forall>k. phase_ok (lp_store s) (lp_clients s k)))"

definition moved :: "'row option \<Rightarrow> 'row option \<Rightarrow> bool" where
  "moved a b =
     (b = a \<or> (\<exists>w. b = Some w \<and> rev_of a < rev_of b \<and> (\<forall>v. a = Some v \<longrightarrow> follows v w)))"

definition rows_follow :: "'st \<Rightarrow> 'st \<Rightarrow> bool" where
  "rows_follow st st' = (\<forall>k. moved (row st k) (row st' k))"

lemma moved_trans:
  assumes "moved a b" "moved b c"
  shows "moved a c"
proof (cases "b = a \<or> c = b")
  case True
  with assms show ?thesis by auto
next
  case False
  then obtain v w where "b = Some v" "c = Some w" "rev_of a < rev_of b" "rev_of b < rev_of c"
      "follows v w" and a: "\<And>u. a = Some u \<Longrightarrow> follows u v"
    using assms by (auto simp: moved_def)
  then have "rev_of a < rev_of c" "\<forall>u. a = Some u \<longrightarrow> follows u w"
    by (auto intro: follows_trans order.strict_trans)
  with \<open>c = Some w\<close> show ?thesis by (simp add: moved_def)
qed

lemma moved_cases: "moved a b \<Longrightarrow> b = a \<or> rev_of a < rev_of b"
  by (auto simp: moved_def)

lemma rows_follow_refl [simp]: "row st' = row st \<Longrightarrow> rows_follow st st'"
  by (simp add: rows_follow_def moved_def)

lemma rows_follow_trans:
  "rows_follow st st1 \<Longrightarrow> rows_follow st1 st2 \<Longrightarrow> rows_follow st st2"
  unfolding rows_follow_def using moved_trans by blast

lemma backed_moved:
  assumes "backed st c n q a" "moved (row st (key c)) (row st' (key c))"
  shows "backed st' c n q a"
proof -
  obtain t base where base: "0 \<le> t" "ok (key c) (row base (key c))"
      "attempt t n c base = Commit q a"
      "row st (key c) = row base (key c) \<or> rev_of (row base (key c)) < rev_of (row st (key c))"
    using assms(1) unfolding backed_def by blast
  have "row st' (key c) = row st (key c) \<or> rev_of (row st (key c)) < rev_of (row st' (key c))"
    using assms(2) moved_cases by simp
  then have "row st' (key c) = row base (key c)
      \<or> rev_of (row base (key c)) < rev_of (row st' (key c))"
    using base(4) order.strict_trans by (elim disjE) auto
  with base show ?thesis unfolding backed_def by blast
qed

lemma backed_mono: "backed st c n q a \<Longrightarrow> rows_follow st st' \<Longrightarrow> backed st' c n q a"
  using backed_moved by (simp add: rows_follow_def)

lemma phase_ok_mono: "phase_ok st p \<Longrightarrow> rows_follow st st' \<Longrightarrow> phase_ok st' p"
  by (cases p) (auto intro: backed_mono)

lemma accepted_is_current:
  assumes "allowed c" "backed st c n q a" "commit now st q = (None, st')"
  shows "\<exists>t. 0 \<le> t \<and> ok (key c) (row st (key c)) \<and> attempt t n c st = Commit q a"
proof -
  from assms(2) obtain t base where base: "0 \<le> t" "ok (key c) (row base (key c))"
      "attempt t n c base = Commit q a"
      "row st (key c) = row base (key c) \<or> rev_of (row base (key c)) < rev_of (row st (key c))"
    unfolding backed_def by blast
  with commit_fresh [OF assms(1) base(1-3) assms(3)] have eq: "row st (key c) = row base (key c)"
    by auto
  then have "attempt t n c st = Commit q a" using attempt_reads [of st c base] base(3) by simp
  with base eq show ?thesis by auto
qed

lemma step_rows:
  assumes "step s s'" "inv s"
  shows "rows_follow (lp_store s) (lp_store s') \<and> (\<forall>k. ok k (row (lp_store s') k))"
  using assms(1)
proof (cases rule: loop_step.cases)
  case (accept k c n q a st)
  have "phase_ok (lp_store s) (lp_clients s k)" using assms(2) by (simp add: inv_def)
  then have "allowed c" "backed (lp_store s) c n q a" using accept by simp_all
  from accepted_is_current [OF this accept(3)] obtain t where
    "0 \<le> t" "ok (key c) (row (lp_store s) (key c))" "attempt t n c (lp_store s) = Commit q a" by blast
  from commit_changes [OF \<open>allowed c\<close> this accept(3)] obtain w where
    w: "row st (key c) = Some w" "ok (key c) (Some w)"
      "moved (row (lp_store s) (key c)) (row st (key c))"
    and same: "\<And>j. j \<noteq> key c \<Longrightarrow> row st j = row (lp_store s) j"
    by (auto simp: moved_def)
  have "moved (row (lp_store s) j) (row st j) \<and> ok j (row st j)" for j
    using w same [of j] assms(2) by (cases "j = key c") (simp_all add: moved_def inv_def)
  then show ?thesis using accept(1) by (simp add: rows_follow_def)
next
  case (retry k c n q a e st)
  with commit_refused [of "lp_now s" "lp_store s" q e st] assms(2) show ?thesis
    by (simp add: inv_def)
next
  case (refuse k c n q a e st)
  with commit_refused [of "lp_now s" "lp_store s" q e st] assms(2) show ?thesis
    by (simp add: inv_def)
next
  case (script st)
  with other_rows [of "lp_store s" st] assms(2) show ?thesis by (simp add: inv_def)
qed (use assms(2) in \<open>simp_all add: inv_def\<close>)

lemma phase_update:
  "(\<And>j. phase_ok st (f j)) \<Longrightarrow> phase_ok st p \<Longrightarrow> phase_ok st ((f(k := p)) j)"
  by simp

lemma step_inv:
  assumes "step s s'" "inv s"
  shows "inv s'"
proof -
  note rows = step_rows [OF assms]
  have old: "phase_ok (lp_store s') (lp_clients s j)" for j
    using assms(2) rows by (auto simp: inv_def intro: phase_ok_mono)
  have here: "phase_ok (lp_store s) (lp_clients s j)" and oks: "ok k (row (lp_store s) k)" for j k
    using assms(2) by (simp_all add: inv_def)
  have "phase_ok (lp_store s') (lp_clients s' j)" for j
    using assms(1)
  proof (cases rule: loop_step.cases)
    case (ask k c n t q a)
    then have "phase_ok (lp_store s') (Committing c n q a)"
      using here [of k] oks [of "key c"] by (auto simp: backed_def)
    with ask old show ?thesis by (auto intro: phase_update)
  next
    case (retry k c n q a e st)
    with old here [of k] show ?thesis by (auto intro: phase_update)
  qed (use old in \<open>auto intro: phase_update\<close>)
  with rows show ?thesis by (simp add: inv_def)
qed

lemma run_inv:
  assumes "step\<^sup>*\<^sup>* s s'" "inv s"
  shows "inv s' \<and> rows_follow (lp_store s) (lp_store s')"
  using assms
proof (induction rule: rtranclp_induct)
  case (step s1 s2)
  then have "inv s1" "rows_follow (lp_store s) (lp_store s1)" by simp_all
  with step_inv [OF step.hyps(2)] step_rows [OF step.hyps(2)] show ?case
    by (blast intro: rows_follow_trans)
qed simp

text \<open>Every accepted commit is the operation applied to the row as it is at that moment.\<close>

lemma commit_atomic:
  assumes "inv s" "lp_clients s k = Committing c n q a"
    and "commit (lp_now s) (lp_store s) q = (None, st')"
  shows "allowed c \<and> (\<exists>t. 0 \<le> t \<and> ok (key c) (row (lp_store s) (key c))
                       \<and> attempt t n c (lp_store s) = Commit q a)"
proof -
  have "phase_ok (lp_store s) (lp_clients s k)" using assms(1) by (simp add: inv_def)
  with assms(2) have "allowed c" "backed (lp_store s) c n q a" by simp_all
  with accepted_is_current [OF this assms(3)] show ?thesis by blast
qed

end

end
