(* ===== verification/Async_Store.thy ===== *)
theory Async_Store
  imports Async_Outbox Optimistic_Loop
begin

text \<open>
  The durable result store on Redis (\<open>src/async/redis/results.go\<close>). A task is one row: the encoded
  record beside the revision, lease deadline (server milliseconds), owner and fence that the Lua
  script \<open>recordCAS\<close> compares. The script runs atomically at a server time; everything else of an
  operation (reading the row, reading the clock, computing the next record) happens earlier, on
  another connection turn, and other clients may run in between. Each operation is therefore an
  \<open>attempt\<close> (from what was read to either an answer or a compare-and-swap request) and a commit
  (the script on the row as it is then), repeated as the code's loops do.

  A row keeps the record itself: encoding and decoding a record are inverse. Counters are words;
  the decimal strings that Lua compares are equal exactly when the words are.
\<close>

subsection \<open>Rows, documents and configuration\<close>

record task_row =
  row_record :: task_record
  row_revision :: "64 word"
  row_lease :: int
  row_owner :: string
  row_fence :: "64 word"

record result_store = outbox +
  st_tasks :: "string \<Rightarrow> task_row option"
  st_inventory :: "string set"

record results_config =
  rs_usable :: bool
  rs_ResultTTL :: go_duration
  rs_TombstoneTTL :: go_duration

definition resultTTL :: "results_config \<Rightarrow> go_duration" where
  "resultTTL cfg = (if rs_ResultTTL cfg = 0 then 24 * hour else rs_ResultTTL cfg)"

definition tombstoneTTL :: "results_config \<Rightarrow> go_duration" where
  "tombstoneTTL cfg = (if rs_TombstoneTTL cfg = 0 then 7 * 24 * hour else rs_TombstoneTTL cfg)"

definition results_valid :: "results_config \<Rightarrow> bool" where
  "results_valid cfg =
     (rs_usable cfg \<and> resultTTL cfg > 0 \<and> tombstoneTTL cfg \<ge> 7 * 24 * hour
      \<and> tombstoneTTL cfg \<ge> resultTTL cfg)"

subsection \<open>Reading\<close>

definition overlay_lease :: "task_record \<Rightarrow> int \<Rightarrow> task_record" where
  "overlay_lease rc n = rc\<lparr>r_LeaseUntil := (if n > 0 then FromUnixMilli n else 0)\<rparr>"

definition results_read ::
  "results_config \<Rightarrow> task_row option \<Rightarrow> async_error + task_record" where
  "results_read cfg row =
     (if \<not> results_valid cfg then Inl ErrInvalid
      else case row of
             None \<Rightarrow> Inl ErrNotFound
           | Some w \<Rightarrow>
               if row_revision w = 0 \<or> row_revision w \<noteq> r_Revision (row_record w)
               then Inl ErrUnavailable
               else Inr (overlay_lease (row_record w) (row_lease w)))"

definition Lookup ::
  "results_config \<Rightarrow> go_time \<Rightarrow> task_row option \<Rightarrow> async_error + task_record" where
  "Lookup cfg now row =
     (case results_read cfg row of
        Inl err \<Rightarrow> Inl err
      | Inr rc \<Rightarrow>
          Inr (if Terminal (r_State rc) \<and> \<not> r_Pinned rc \<and> \<not> r_PayloadExpiresAt rc > now
               then rc\<lparr>r_Output := []\<rparr> else rc))"

subsection \<open>The compare-and-swap script\<close>

datatype cas_mode = Create | ClaimMode | Live | Update

record cas_request =
  q_Expected :: "64 word"
  q_Record :: task_record
  q_Mode :: cas_mode
  q_OldFence :: "64 word"
  q_OldOwner :: string
  q_Lease :: go_duration
  q_Intents :: "intent list"

datatype cas_outcome = CasOK | CasConflict | CasLease | CasFault

definition q_ID :: "cas_request \<Rightarrow> string" where
  "q_ID q = e_ID (r_Envelope (q_Record q))"

definition row_live :: "task_row option \<Rightarrow> int \<Rightarrow> string \<Rightarrow> 64 word \<Rightarrow> bool" where
  "row_live row now owner fence =
     (case row of
        None \<Rightarrow> False
      | Some w \<Rightarrow> row_lease w > now \<and> row_owner w = owner \<and> row_fence w = fence)"

definition new_lease :: "int \<Rightarrow> cas_request \<Rightarrow> int" where
  "new_lease now q =
     (if Milliseconds (q_Lease q) \<noteq> 0 then now + Milliseconds (q_Lease q)
      else if r_LeaseUntil (q_Record q) = 0 then 0
      else UnixMilli (r_LeaseUntil (q_Record q)))"

definition recordCAS :: "int \<Rightarrow> result_store \<Rightarrow> cas_request \<Rightarrow> cas_outcome \<times> result_store" where
  "recordCAS now st q =
     (let row = st_tasks st (q_ID q);
          old = (case row of None \<Rightarrow> 0 | Some w \<Rightarrow> row_revision w);
          lease = (case row of None \<Rightarrow> 0 | Some w \<Rightarrow> row_lease w)
      in if old \<noteq> q_Expected q then (CasConflict, st)
         else if q_Mode q = ClaimMode \<and> lease > now then (CasLease, st)
         else if q_Mode q = Live \<and> \<not> row_live row now (q_OldOwner q) (q_OldFence q)
           then (CasLease, st)
         else if \<bar>new_lease now q\<bar> > max_lua_integer then (CasFault, st)
         else (CasOK,
               stage_intents now (q_Intents q)
                 (st\<lparr>st_tasks := (st_tasks st)(q_ID q \<mapsto>
                        \<lparr>row_record = q_Record q, row_revision = r_Revision (q_Record q),
                         row_lease = new_lease now q, row_owner = r_Owner (q_Record q),
                         row_fence = r_Fence (q_Record q)\<rparr>),
                     st_inventory := insert (q_ID q) (st_inventory st)\<rparr>)))"

definition cas_check :: "cas_request \<Rightarrow> async_error option" where
  "cas_check q =
     (if q_Expected q = max_uint64 \<or> r_Revision (q_Record q) = 0 then Some ErrUnavailable
      else if \<not> idPattern (q_ID q) then Some ErrInvalid
      else if \<not> list_all (\<lambda>i. i_SourceID i = q_ID q \<and> idPattern (i_ID i)) (q_Intents q)
              \<or> \<not> distinct (map i_ID (q_Intents q))
        then Some ErrInvalid
      else None)"

definition cas :: "int \<Rightarrow> result_store \<Rightarrow> cas_request \<Rightarrow> async_error option \<times> result_store" where
  "cas now st q =
     (case cas_check q of
        Some err \<Rightarrow> (Some err, st)
      | None \<Rightarrow>
          (case recordCAS now st q of
             (CasOK, st') \<Rightarrow> (None, st')
           | (CasLease, st') \<Rightarrow> (Some ErrLeaseLost, st')
           | (CasConflict, st') \<Rightarrow> (Some ErrConflict, st')
           | (CasFault, st') \<Rightarrow> (Some (ErrBackend ''invalid task lease''), st')))"

subsection \<open>The operations\<close>

text \<open>
  What one turn of an operation's loop decides from what it read: answer the caller, or commit a
  request and, when the commit is accepted, give the answer kept beside it.
\<close>

datatype answer = Done | ClaimAnswer claim | RecordAnswer task_record | Applied bool

type_synonym store_turn = "(cas_request, answer, async_error) turn"

definition request ::
  "64 word \<Rightarrow> task_record \<Rightarrow> cas_mode \<Rightarrow> 64 word \<Rightarrow> string \<Rightarrow> go_duration \<Rightarrow> intent list
   \<Rightarrow> cas_request" where
  "request expected rc mode fence owner lease is =
     \<lparr>q_Expected = expected, q_Record = rc, q_Mode = mode, q_OldFence = fence,
      q_OldOwner = owner, q_Lease = lease, q_Intents = is\<rparr>"

lemma request_sel [simp]:
  "q_Expected (request x rc m f ow l is) = x" "q_Record (request x rc m f ow l is) = rc"
  "q_Mode (request x rc m f ow l is) = m" "q_OldFence (request x rc m f ow l is) = f"
  "q_OldOwner (request x rc m f ow l is) = ow" "q_Lease (request x rc m f ow l is) = l"
  "q_Intents (request x rc m f ow l is) = is"
  "q_ID (request x rc m f ow l is) = e_ID (r_Envelope rc)"
  by (simp_all add: request_def q_ID_def)

definition Register_begin ::
  "codec \<Rightarrow> results_config \<Rightarrow> envelope \<Rightarrow> task_state \<Rightarrow> store_turn" where
  "Register_begin C cfg e state =
     (if \<not> results_valid cfg then Return (Inl ErrInvalid)
      else case InitialRecord C e state of
             Inl err \<Rightarrow> Return (Inl err)
           | Inr rc \<Rightarrow> Commit (request 0 rc Create 0 [] 0 []) Done)"

definition Register_conflict ::
  "codec \<Rightarrow> envelope \<Rightarrow> async_error + task_record \<Rightarrow> store_turn" where
  "Register_conflict C e old =
     (case old of
        Inl err \<Rightarrow> Return (Inl err)
      | Inr rc \<Rightarrow> if r_Digest rc \<noteq> Digest C e then Return (Inl ErrConflict) else Return (Inr Done))"

definition Claim_attempt ::
  "codec \<Rightarrow> results_config \<Rightarrow> go_time \<Rightarrow> envelope \<Rightarrow> string \<Rightarrow> go_duration
   \<Rightarrow> async_error + task_record \<Rightarrow> store_turn" where
  "Claim_attempt C cfg now e owner lease old =
     (if \<not> results_valid cfg then Return (Inl ErrInvalid)
      else case (if old = Inl ErrNotFound
                 then map_sum id (\<lambda>rc. (rc, 0)) (InitialRecord C e Queued)
                 else map_sum id (\<lambda>rc. (rc, r_Revision rc)) old) of
             Inl err \<Rightarrow> Return (Inl err)
           | Inr (rc, expected) \<Rightarrow>
               (case ClaimRecord C rc e owner now lease of
                  Inl err \<Rightarrow> Return (Inl err)
                | Inr cl \<Rightarrow>
                    if \<not> cl_Acquired cl then Return (Inr (ClaimAnswer cl))
                    else Commit (request expected (cl_Record cl) ClaimMode 0 [] lease [])
                           (ClaimAnswer cl)))"

definition Renew_attempt ::
  "go_time \<Rightarrow> 64 word \<Rightarrow> string \<Rightarrow> go_duration \<Rightarrow> async_error + task_record \<Rightarrow> store_turn" where
  "Renew_attempt now fence owner lease old =
     (case old of
        Inl err \<Rightarrow> Return (Inl err)
      | Inr rc \<Rightarrow>
          (case ValidateLease rc fence owner now of
             Some err \<Rightarrow> Return (Inl err)
           | None \<Rightarrow>
               let rc' = rc\<lparr>r_Revision := r_Revision rc + 1, r_LeaseUntil := now + lease\<rparr>
               in Commit (request (r_Revision rc) rc' Live fence owner lease []) (RecordAnswer rc')))"

definition Transition_attempt ::
  "codec \<Rightarrow> results_config \<Rightarrow> go_time \<Rightarrow> transition \<Rightarrow> async_error + task_record \<Rightarrow> store_turn" where
  "Transition_attempt C cfg now t old =
     (if \<not> results_valid cfg then Return (Inl ErrInvalid)
      else case old of
             Inl err \<Rightarrow> Return (Inl err)
           | Inr rc \<Rightarrow>
               (case ApplyTransition C rc t now (resultTTL cfg) (tombstoneTTL cfg) of
                  Inl err \<Rightarrow> Return (Inl err)
                | Inr rc' \<Rightarrow>
                    Commit (request (r_Revision rc) rc' Live (t_Fence t) (t_Owner t) 0
                              (t_Intents t)) Done))"

definition RecordProgress_attempt ::
  "codec \<Rightarrow> go_time \<Rightarrow> 64 word \<Rightarrow> string \<Rightarrow> raw_json \<Rightarrow> async_error + task_record \<Rightarrow> store_turn" where
  "RecordProgress_attempt C now fence owner b old =
     (if length b > 16384 \<or> \<not> json_Valid C b then Return (Inl ErrInvalid)
      else case old of
             Inl err \<Rightarrow> Return (Inl err)
           | Inr rc \<Rightarrow>
               (case ValidateLease rc fence owner now of
                  Some err \<Rightarrow> Return (Inl err)
                | None \<Rightarrow>
                    Commit (request (r_Revision rc)
                              (rc\<lparr>r_Progress := b, r_Revision := r_Revision rc + 1\<rparr>)
                              Live fence owner 0 []) Done))"

definition RequestCancel_attempt :: "string \<Rightarrow> async_error + task_record \<Rightarrow> store_turn" where
  "RequestCancel_attempt scope old =
     (case old of
        Inl err \<Rightarrow> Return (Inl err)
      | Inr rc \<Rightarrow>
          if e_Scope (r_Envelope rc) \<noteq> scope then Return (Inl ErrDenied)
          else if Terminal (r_State rc) then Return (Inr Done)
          else let rc' = rc\<lparr>r_CancelRequested := True, r_Revision := r_Revision rc + 1\<rparr>
               in Commit (request (r_Revision rc) rc' Update 0 [] 0
                            (ReplacementCancellationIntents rc')) Done)"

definition ResolveReplacement_attempt ::
  "codec \<Rightarrow> results_config \<Rightarrow> go_time \<Rightarrow> string \<Rightarrow> (task_record \<Rightarrow> async_error + transition)
   \<Rightarrow> async_error + task_record \<Rightarrow> store_turn" where
  "ResolveReplacement_attempt C cfg now workflowID finalize old =
     (if \<not> results_valid cfg then Return (Inl ErrInvalid)
      else if workflowID = [] then Return (Inl ErrInvalid)
      else case old of
             Inl err \<Rightarrow> Return (Inl err)
           | Inr rc \<Rightarrow>
               if r_ReplacementID rc \<noteq> workflowID then Return (Inl ErrConflict)
               else if Terminal (r_State rc) then Return (Inr (Applied False))
               else case finalize rc of
                      Inl err \<Rightarrow> Return (Inl err)
                    | Inr t \<Rightarrow>
                        (case ApplyReplacementOutcome C rc workflowID t now (resultTTL cfg)
                                (tombstoneTTL cfg) of
                           Inl err \<Rightarrow> Return (Inl err)
                         | Inr rc' \<Rightarrow>
                             Commit (request (r_Revision rc) rc' Update 0 [] 0 (t_Intents t))
                               (Applied True)))"

definition Forget_attempt :: "async_error + task_record \<Rightarrow> store_turn" where
  "Forget_attempt old =
     (case old of
        Inl err \<Rightarrow> Return (Inl err)
      | Inr rc \<Rightarrow>
          if r_Pinned rc \<or> \<not> Terminal (r_State rc) then Return (Inl ErrPinned)
          else Commit (request (r_Revision rc)
                         (rc\<lparr>r_Output := [], r_Progress := [], r_Revision := r_Revision rc + 1\<rparr>)
                         Update 0 [] 0 []) Done)"

definition ReleasePin_attempt :: "async_error + task_record \<Rightarrow> store_turn" where
  "ReleasePin_attempt old =
     (case old of
        Inl err \<Rightarrow> Return (Inl err)
      | Inr rc \<Rightarrow>
          if \<not> Terminal (r_State rc) then Return (Inl ErrPinned)
          else Commit (request (r_Revision rc)
                         (rc\<lparr>r_Pinned := False, r_Revision := r_Revision rc + 1\<rparr>)
                         Update 0 [] 0 []) Done)"

subsection \<open>Calls\<close>

datatype call =
  CallRegister envelope task_state
| CallClaim envelope string go_duration
| CallRenew string "64 word" string go_duration
| CallTransition transition
| CallProgress string "64 word" string raw_json
| CallCancel string string
| CallResolve string string "task_record \<Rightarrow> async_error + transition"
| CallForget string
| CallRelease string

fun call_id :: "call \<Rightarrow> string" where
  "call_id (CallRegister e s) = e_ID e"
| "call_id (CallClaim e ow l) = e_ID e"
| "call_id (CallRenew i f ow l) = i"
| "call_id (CallTransition t) = t_ID t"
| "call_id (CallProgress i f ow b) = i"
| "call_id (CallCancel i sc) = i"
| "call_id (CallResolve i w f) = i"
| "call_id (CallForget i) = i"
| "call_id (CallRelease i) = i"

fun call_turn ::
  "codec \<Rightarrow> results_config \<Rightarrow> go_time \<Rightarrow> nat \<Rightarrow> call \<Rightarrow> async_error + task_record \<Rightarrow> store_turn" where
  "call_turn C cfg now n (CallRegister e s) old =
     (if n = 0 then Register_begin C cfg e s else Register_conflict C e old)"
| "call_turn C cfg now n (CallClaim e ow l) old = Claim_attempt C cfg now e ow l old"
| "call_turn C cfg now n (CallRenew i f ow l) old = Renew_attempt now f ow l old"
| "call_turn C cfg now n (CallTransition t) old = Transition_attempt C cfg now t old"
| "call_turn C cfg now n (CallProgress i f ow b) old = RecordProgress_attempt C now f ow b old"
| "call_turn C cfg now n (CallCancel i sc) old = RequestCancel_attempt sc old"
| "call_turn C cfg now n (CallResolve i w f) old = ResolveReplacement_attempt C cfg now w f old"
| "call_turn C cfg now n (CallForget i) old = Forget_attempt old"
| "call_turn C cfg now n (CallRelease i) old = ReleasePin_attempt old"

definition results_attempt ::
  "codec \<Rightarrow> results_config \<Rightarrow> go_time \<Rightarrow> nat \<Rightarrow> call \<Rightarrow> result_store \<Rightarrow> store_turn" where
  "results_attempt C cfg now n c st =
     call_turn C cfg now n c (results_read cfg (st_tasks st (call_id c)))"

text \<open>
  A conflict starts the loop over; \<open>Claim\<close> also does when the lease became live. \<open>Register\<close> has no
  loop: after a conflict it compares digests once.
\<close>

definition call_again :: "call \<Rightarrow> async_error \<Rightarrow> bool" where
  "call_again c err =
     (err = ErrConflict \<or> (err = ErrLeaseLost \<and> (case c of CallClaim _ _ _ \<Rightarrow> True | _ \<Rightarrow> False)))"

definition call_limit :: "call \<Rightarrow> nat" where
  "call_limit c = (case c of CallRegister _ _ \<Rightarrow> 2 | _ \<Rightarrow> 16)"

definition call_allowed :: "call \<Rightarrow> bool" where
  "call_allowed c = (case c of CallTransition t \<Rightarrow> proper t | _ \<Rightarrow> True)"

text \<open>The script runs at the server's current time, in milliseconds.\<close>

definition results_commit ::
  "go_time \<Rightarrow> result_store \<Rightarrow> cas_request \<Rightarrow> async_error option \<times> result_store" where
  "results_commit now st q = cas (UnixMilli now) st q"

end
