(* ===== verification/Async_Results.thy ===== *)
theory Async_Results
  imports Async_Store
begin

text \<open>
  Correctness of the durable result store: the laws of \<open>optimistic_store\<close> for the model of
  \<open>src/async/redis/results.go\<close>, and what follows for every interleaving of clients.
\<close>

subsection \<open>Well-formed rows\<close>

definition row_rev :: "task_row option \<Rightarrow> 64 word" where
  "row_rev row = (case row of None \<Rightarrow> 0 | Some w \<Rightarrow> row_revision w)"

text \<open>A task that yielded to a replacement holds no lease.\<close>

definition released :: "task_record \<Rightarrow> bool" where
  "released rc = (r_ReplacementID rc \<noteq> [] \<longrightarrow> r_Owner rc = [] \<and> r_LeaseUntil rc = 0)"

definition row_ok :: "string \<Rightarrow> task_row option \<Rightarrow> bool" where
  "row_ok i row =
     (case row of
        None \<Rightarrow> True
      | Some w \<Rightarrow>
          row_revision w = r_Revision (row_record w) \<and> row_revision w \<noteq> 0
          \<and> e_ID (r_Envelope (row_record w)) = i
          \<and> row_owner w = r_Owner (row_record w) \<and> row_fence w = r_Fence (row_record w)
          \<and> released (overlay_lease (row_record w) (row_lease w)))"

definition row_follows :: "task_row \<Rightarrow> task_row \<Rightarrow> bool" where
  "row_follows v w = evolves (row_record v) (row_record w)"

definition delivery :: "result_store \<Rightarrow> result_store \<Rightarrow> bool" where
  "delivery st st' =
     (\<exists>now source i owner.
        (\<exists>lease. snd (intent_claim now st source i owner lease) = st')
        \<or> (\<exists>fence. snd (intent_mark now st source i fence owner) = st'))"

lemma overlay_sel [simp]:
  "r_Revision (overlay_lease rc n) = r_Revision rc" "r_Envelope (overlay_lease rc n) = r_Envelope rc"
  "r_ReplacementID (overlay_lease rc n) = r_ReplacementID rc"
  "r_Owner (overlay_lease rc n) = r_Owner rc" "r_Fence (overlay_lease rc n) = r_Fence rc"
  "r_State (overlay_lease rc n) = r_State rc" "r_Digest (overlay_lease rc n) = r_Digest rc"
  by (simp_all add: overlay_lease_def)

lemma evolves_overlay [simp]: "evolves (overlay_lease rc n) rc' = evolves rc rc'"
  by (simp add: evolves_def overlay_lease_def)

subsection \<open>Requests\<close>

text \<open>
  What a request that was computed from the record \<open>rc\<close> promises: it expects the revision of
  \<open>rc\<close>, replaces it by the next one, and keeps a yielded task without a lease.
\<close>

definition good_request :: "task_record \<Rightarrow> cas_request \<Rightarrow> bool" where
  "good_request rc q =
     (q_Expected q = r_Revision rc \<and> q_ID q = e_ID (r_Envelope rc)
      \<and> r_Revision (q_Record q) = r_Revision rc + 1
      \<and> (r_Revision rc \<noteq> max_uint64 \<longrightarrow> evolves rc (q_Record q))
      \<and> (r_ReplacementID (q_Record q) \<noteq> [] \<longrightarrow>
           r_Owner (q_Record q) = [] \<and> r_LeaseUntil (q_Record q) = 0 \<and> q_Lease q = 0))"

lemma released_no_lease:
  "released rc \<Longrightarrow> 0 \<le> now \<Longrightarrow> ValidateLease rc fence owner now = None \<Longrightarrow> r_ReplacementID rc = []"
  by (auto simp: released_def ValidateLease_def split: if_splits)

lemma InitialRecord_fresh:
  "InitialRecord C e s = Inr rc \<Longrightarrow>
   r_Envelope rc = e \<and> r_Revision rc = 1 \<and> r_Fence rc = 0 \<and> r_ReplacementID rc = [] \<and> r_Owner rc = []
   \<and> r_LeaseUntil rc = 0 \<and> \<not> Terminal (r_State rc) \<and> r_Digest rc = Digest C e"
  by (auto simp: InitialRecord_def split: option.splits if_splits)

lemma Claim_good:
  assumes "Claim_attempt C cfg now e owner lease (Inr rc) = Commit q a"
  shows "good_request rc q"
  using assms ClaimRecord_evolves ClaimRecord_lease
  by (fastforce simp: Claim_attempt_def good_request_def split: if_splits sum.splits)

lemma Renew_good:
  assumes "Renew_attempt now fence owner lease (Inr rc) = Commit q a" "released rc" "0 \<le> now"
  shows "good_request rc q"
  using assms released_no_lease [OF assms(2,3), of fence owner]
  by (auto simp: Renew_attempt_def good_request_def evolves_def Let_def ValidateLease_def
           split: option.splits if_splits)

lemma Transition_good:
  assumes "Transition_attempt C cfg now t (Inr rc) = Commit q a" "released rc" "0 \<le> now" "proper t"
  shows "good_request rc q"
proof -
  from assms(1) obtain rc' where
    t: "ApplyTransition C rc t now (resultTTL cfg) (tombstoneTTL cfg) = Inr rc'"
    and q: "q = request (r_Revision rc) rc' Live (t_Fence t) (t_Owner t) 0 (t_Intents t)"
    by (auto simp: Transition_attempt_def split: if_splits sum.splits)
  have "r_ReplacementID rc = []"
    using t released_no_lease [OF assms(2,3), of "t_Fence t" "t_Owner t"]
    by (auto simp: ApplyTransition_def split: option.splits)
  then have ev: "evolves rc rc'" using ApplyTransition_evolves [OF t assms(4)] by simp
  from t show ?thesis
  proof (cases rule: ApplyTransition_cases)
    case yield
    with ev q show ?thesis by (simp add: good_request_def)
  next
    case outcome
    with applyOutcome_spec [OF outcome(2) assms(4)] ev q show ?thesis
      by (simp add: good_request_def)
  qed
qed

lemma Progress_good:
  assumes "RecordProgress_attempt C now fence owner b (Inr rc) = Commit q a" "released rc" "0 \<le> now"
  shows "good_request rc q"
  using assms released_no_lease [OF assms(2,3), of fence owner]
  by (auto simp: RecordProgress_attempt_def good_request_def evolves_def ValidateLease_def
           split: option.splits if_splits)

lemma Cancel_good:
  assumes "RequestCancel_attempt scope (Inr rc) = Commit q a" "released rc"
  shows "good_request rc q"
  using assms
  by (auto simp: RequestCancel_attempt_def good_request_def evolves_def released_def Let_def
           split: if_splits)

lemma Resolve_good:
  assumes "ResolveReplacement_attempt C cfg now w f (Inr rc) = Commit q a"
  shows "good_request rc q"
proof -
  from assms obtain t rc' where
    t: "ApplyReplacementOutcome C rc w t now (resultTTL cfg) (tombstoneTTL cfg) = Inr rc'"
    and q: "q = request (r_Revision rc) rc' Update 0 [] 0 (t_Intents t)"
    by (auto simp: ResolveReplacement_attempt_def split: if_splits sum.splits)
  note spec = ApplyReplacementOutcome_spec [OF t]
  show ?thesis
    using applyOutcome_spec [OF spec(7,5)] ApplyReplacementOutcome_evolves [OF t] q
    by (simp add: good_request_def)
qed

lemma Forget_good:
  "Forget_attempt (Inr rc) = Commit q a \<Longrightarrow> released rc \<Longrightarrow> good_request rc q"
  by (auto simp: Forget_attempt_def good_request_def evolves_def released_def split: if_splits)

lemma Release_good:
  "ReleasePin_attempt (Inr rc) = Commit q a \<Longrightarrow> released rc \<Longrightarrow> good_request rc q"
  by (auto simp: ReleasePin_attempt_def good_request_def evolves_def released_def split: if_splits)

lemma Register_request:
  "Register_begin C cfg e s = Commit q a \<Longrightarrow>
   q_Expected q = 0 \<and> q_ID q = e_ID e \<and> r_ReplacementID (q_Record q) = []"
  "Register_conflict C e old \<noteq> Commit q a"
  by (auto simp: Register_begin_def Register_conflict_def dest: InitialRecord_fresh
           split: if_splits sum.splits)

lemma call_turn_good:
  assumes "call_turn C cfg t n c (Inr rc) = Commit q a" "call_allowed c" "0 \<le> t" "released rc"
    and "e_ID (r_Envelope rc) = call_id c"
  shows "q_ID q = call_id c \<and> (good_request rc q \<or> q_Expected q = 0)"
proof (cases c)
  case (CallRegister e s)
  then show ?thesis using assms Register_request by (auto split: if_splits)
next
  case (CallTransition t')
  then show ?thesis using assms Transition_good [of C cfg t t' rc q a]
    by (simp add: call_allowed_def good_request_def)
qed (use assms in \<open>auto simp: good_request_def dest: Claim_good Renew_good Progress_good Cancel_good
       Resolve_good Forget_good Release_good\<close>)

lemma call_turn_absent:
  assumes "call_turn C cfg t n c (Inl err) = Commit q a"
  shows "q_Expected q = 0 \<and> q_ID q = call_id c \<and> r_ReplacementID (q_Record q) = []"
proof (cases c)
  case (CallRegister e s)
  then show ?thesis using assms Register_request by (auto split: if_splits)
next
  case (CallClaim e owner lease)
  from assms CallClaim obtain rc cl where "InitialRecord C e Queued = Inr rc"
      "ClaimRecord C rc e owner t lease = Inr cl" "cl_Acquired cl"
      "q = request 0 (cl_Record cl) ClaimMode 0 [] lease []"
    by (cases "InitialRecord C e Queued") (auto simp: Claim_attempt_def split: if_splits sum.splits)
  with InitialRecord_fresh [of C e Queued rc] ClaimRecord_lease [of C rc e owner t lease cl]
    CallClaim show ?thesis by simp
qed (use assms in \<open>auto simp: Renew_attempt_def Transition_attempt_def RecordProgress_attempt_def
       RequestCancel_attempt_def ResolveReplacement_attempt_def Forget_attempt_def
       ReleasePin_attempt_def split: if_splits\<close>)

subsection \<open>The script\<close>

lemma stage_one_tasks [simp]:
  "st_tasks (stage_intent now i st) = st_tasks st" "st_inventory (stage_intent now i st) = st_inventory st"
  by (simp_all add: stage_intent_def Let_def)

lemma stage_tasks [simp]: "st_tasks (stage_intents now is st) = st_tasks st"
  by (induction "is" arbitrary: st) simp_all

definition written :: "int \<Rightarrow> cas_request \<Rightarrow> task_row" where
  "written ms q =
     \<lparr>row_record = q_Record q, row_revision = r_Revision (q_Record q), row_lease = new_lease ms q,
      row_owner = r_Owner (q_Record q), row_fence = r_Fence (q_Record q)\<rparr>"

lemma results_commit_cases:
  assumes "results_commit now st q = (None, st')"
  shows "cas_check q = None" "row_rev (st_tasks st (q_ID q)) = q_Expected q"
    "st' = stage_intents (UnixMilli now) (q_Intents q)
             (st\<lparr>st_tasks := (st_tasks st)(q_ID q \<mapsto> written (UnixMilli now) q),
                st_inventory := insert (q_ID q) (st_inventory st)\<rparr>)"
    "q_Mode q = ClaimMode \<Longrightarrow>
       (case st_tasks st (q_ID q) of None \<Rightarrow> 0 | Some w \<Rightarrow> row_lease w) \<le> UnixMilli now"
    "q_Mode q = Live \<Longrightarrow>
       row_live (st_tasks st (q_ID q)) (UnixMilli now) (q_OldOwner q) (q_OldFence q)"
  using assms
  by (auto simp: results_commit_def cas_def recordCAS_def written_def row_rev_def Let_def
           split: option.splits if_splits)

lemma results_commit_rows:
  assumes "results_commit now st q = (None, st')"
  shows "st_tasks st' = (st_tasks st)(q_ID q \<mapsto> written (UnixMilli now) q)"
  using results_commit_cases(3) [OF assms] by simp

lemma results_commit_refused: "results_commit now st q = (Some e, st') \<Longrightarrow> st' = st"
  by (auto simp: results_commit_def cas_def recordCAS_def Let_def split: option.splits if_splits)

lemma cas_check_bounds:
  "cas_check q = None \<Longrightarrow> q_Expected q \<noteq> max_uint64 \<and> r_Revision (q_Record q) \<noteq> 0"
  by (auto simp: cas_check_def split: if_splits)

lemma results_read_row:
  "row_ok i row \<Longrightarrow> results_read cfg row = Inr rc \<Longrightarrow>
   \<exists>w. row = Some w \<and> rc = overlay_lease (row_record w) (row_lease w) \<and> released rc
       \<and> e_ID (r_Envelope rc) = i \<and> r_Revision rc = row_rev row \<and> row_rev row \<noteq> 0"
  by (auto simp: results_read_def row_ok_def row_rev_def split: if_splits option.splits)

lemma results_read_absent:
  "row_ok i row \<Longrightarrow> results_read cfg row = Inl err \<Longrightarrow> results_valid cfg \<Longrightarrow> row = None"
  by (auto simp: results_read_def row_ok_def split: if_splits option.splits)

lemma call_turn_invalid:
  "\<not> results_valid cfg \<Longrightarrow> call_turn C cfg t n c (results_read cfg row) \<noteq> Commit q a"
  by (cases c)
    (auto simp: results_read_def Register_begin_def Register_conflict_def Claim_attempt_def
       Renew_attempt_def Transition_attempt_def RecordProgress_attempt_def RequestCancel_attempt_def
       ResolveReplacement_attempt_def Forget_attempt_def ReleasePin_attempt_def)

text \<open>What an attempt that commits has read, and what it asks for.\<close>

lemma results_attempt_commit:
  assumes "results_attempt C cfg t n c st = Commit q a" "call_allowed c" "0 \<le> t"
    and "row_ok (call_id c) (st_tasks st (call_id c))"
  shows "q_ID q = call_id c"
    and "q_Expected q = 0 \<and> st_tasks st (call_id c) = None \<and> r_ReplacementID (q_Record q) = []
         \<or> q_Expected q = 0 \<and> row_rev (st_tasks st (call_id c)) \<noteq> 0
         \<or> (\<exists>w. st_tasks st (call_id c) = Some w
               \<and> good_request (overlay_lease (row_record w) (row_lease w)) q)"
proof -
  let ?row = "st_tasks st (call_id c)"
  have turn: "call_turn C cfg t n c (results_read cfg ?row) = Commit q a"
    using assms(1) by (simp add: results_attempt_def)
  then have valid: "results_valid cfg" using call_turn_invalid by blast
  have "q_ID q = call_id c \<and>
     (q_Expected q = 0 \<and> ?row = None \<and> r_ReplacementID (q_Record q) = []
      \<or> q_Expected q = 0 \<and> row_rev ?row \<noteq> 0
      \<or> (\<exists>w. ?row = Some w \<and> good_request (overlay_lease (row_record w) (row_lease w)) q))"
  proof (cases "results_read cfg ?row")
    case (Inl err)
    with turn results_read_absent [OF assms(4) Inl valid] show ?thesis
      using call_turn_absent by auto
  next
    case (Inr rc)
    from results_read_row [OF assms(4) Inr] obtain w where
      w: "?row = Some w" "rc = overlay_lease (row_record w) (row_lease w)" "released rc"
        "e_ID (r_Envelope rc) = call_id c" "row_rev ?row \<noteq> 0" by blast
    have "q_ID q = call_id c \<and> (good_request rc q \<or> q_Expected q = 0)"
      using call_turn_good turn Inr w assms(2,3) by simp
    with w show ?thesis by auto
  qed
  then show "q_ID q = call_id c"
    and "q_Expected q = 0 \<and> ?row = None \<and> r_ReplacementID (q_Record q) = []
         \<or> q_Expected q = 0 \<and> row_rev ?row \<noteq> 0
         \<or> (\<exists>w. ?row = Some w \<and> good_request (overlay_lease (row_record w) (row_lease w)) q)"
    by blast+
qed

subsection \<open>The laws of an optimistic store\<close>

lemma results_fresh:
  assumes "call_allowed c" "0 \<le> t" "row_ok (call_id c) (st_tasks base (call_id c))"
    and "results_attempt C cfg t n c base = Commit q a" "results_commit now st q = (None, st')"
  shows "row_rev (st_tasks st (call_id c)) \<le> row_rev (st_tasks base (call_id c))"
proof -
  note req = results_attempt_commit [OF assms(4,1,2,3)]
  have "row_rev (st_tasks st (call_id c)) = q_Expected q"
    using results_commit_cases(2) [OF assms(5)] req(1) by simp
  with req(2) assms(3) show ?thesis
    by (auto simp: good_request_def row_rev_def row_ok_def)
qed

lemma written_ok:
  assumes "cas_check q = None"
    and "r_ReplacementID (q_Record q) \<noteq> [] \<longrightarrow>
         r_Owner (q_Record q) = [] \<and> r_LeaseUntil (q_Record q) = 0 \<and> q_Lease q = 0"
  shows "row_ok (q_ID q) (Some (written ms q))"
  using assms cas_check_bounds [OF assms(1)]
  by (auto simp: row_ok_def written_def q_ID_def released_def overlay_lease_def new_lease_def
        Milliseconds_def)

lemma results_changes:
  assumes "call_allowed c" "0 \<le> t" "row_ok (call_id c) (st_tasks st (call_id c))"
    and "results_attempt C cfg t n c st = Commit q a" "results_commit now st q = (None, st')"
  shows "(\<exists>w. st_tasks st' (call_id c) = Some w \<and> row_ok (call_id c) (Some w)
            \<and> row_rev (st_tasks st (call_id c)) < row_rev (Some w)
            \<and> (\<forall>v. st_tasks st (call_id c) = Some v \<longrightarrow> row_follows v w))
       \<and> (\<forall>k. k \<noteq> call_id c \<longrightarrow> st_tasks st' k = st_tasks st k)"
proof -
  note req = results_attempt_commit [OF assms(4,1,2,3)]
  note com = results_commit_cases [OF assms(5)]
  let ?w = "written (UnixMilli now) q"
  have bounds: "q_Expected q \<noteq> max_uint64" "r_Revision (q_Record q) \<noteq> 0"
    using cas_check_bounds [OF com(1)] by simp_all
  have rev: "row_rev (st_tasks st (call_id c)) = q_Expected q" using com(2) req(1) by simp
  have rows: "st_tasks st' = (st_tasks st)(call_id c \<mapsto> ?w)"
    using results_commit_rows [OF assms(5)] req(1) by simp
  from req(2) have "row_ok (q_ID q) (Some ?w)
      \<and> row_rev (st_tasks st (call_id c)) < row_rev (Some ?w)
      \<and> (\<forall>v. st_tasks st (call_id c) = Some v \<longrightarrow> row_follows v ?w)"
  proof (elim disjE exE conjE)
    assume "q_Expected q = 0" "st_tasks st (call_id c) = None" "r_ReplacementID (q_Record q) = []"
    then show ?thesis using written_ok [OF com(1)] bounds
      by (simp add: row_rev_def written_def word_gt_0)
  next
    assume "q_Expected q = 0" "row_rev (st_tasks st (call_id c)) \<noteq> 0"
    with rev show ?thesis by simp
  next
    fix w
    assume w: "st_tasks st (call_id c) = Some w"
      and good: "good_request (overlay_lease (row_record w) (row_lease w)) q"
    then have "evolves (row_record w) (q_Record q)" using bounds by (auto simp: good_request_def)
    moreover have "row_ok (q_ID q) (Some ?w)"
      using written_ok [OF com(1)] good by (simp add: good_request_def)
    moreover have "r_Revision (row_record w) = row_rev (Some w)"
      using assms(3) w by (simp add: row_ok_def row_rev_def)
    ultimately show ?thesis using w evolves_order(1) [of "row_record w" "q_Record q"]
      by (simp add: row_follows_def written_def row_rev_def)
  qed
  with rows req(1) show ?thesis by auto
qed

lemma intent_claim_tasks [simp]:
  "st_tasks (snd (intent_claim now st source i owner lease)) = st_tasks st"
  by (simp add: intent_claim_def Let_def split: option.split)

lemma intent_mark_tasks [simp]:
  "st_tasks (snd (intent_mark now st source i fence owner)) = st_tasks st"
  by (simp add: intent_mark_def split: option.split)

lemma delivery_rows: "delivery st st' \<Longrightarrow> st_tasks st' = st_tasks st"
  unfolding delivery_def by (elim exE disjE) (drule sym, simp)+

interpretation rs: optimistic_store st_tasks row_rev row_ok row_follows call_id call_allowed
  "results_attempt C cfg" results_commit call_again call_limit ErrBusy delivery
  for C cfg
proof (unfold_locales, goal_cases)
  case 1
  then show ?case by (simp add: results_attempt_def)
next
  case 2
  then show ?case by (rule results_commit_refused)
next
  case 3
  then show ?case by (rule results_fresh)
next
  case 4
  then show ?case by (rule results_changes)
next
  case 5
  then show ?case by (rule delivery_rows)
next
  case 6
  then show ?case unfolding row_follows_def by (rule evolves_trans)
qed

subsection \<open>Runs\<close>

type_synonym results_system =
  "(call, cas_request, answer, async_error, result_store) loop_system"

abbreviation results_step :: "codec \<Rightarrow> results_config \<Rightarrow> results_system \<Rightarrow> results_system \<Rightarrow> bool" where
  "results_step C cfg \<equiv>
     loop_step call_allowed (results_attempt C cfg) results_commit call_again call_limit ErrBusy
       delivery"

definition empty_store :: result_store where
  "empty_store =
     \<lparr>st_intents = \<lambda>_ _. None, st_pending = \<lambda>_ _. None, st_tasks = \<lambda>_. None, st_inventory = {}\<rparr>"

definition results_initial :: "results_system \<Rightarrow> bool" where
  "results_initial s = (lp_store s = empty_store \<and> (\<forall>k. lp_clients s k = Idle))"

lemma results_reach_inv:
  assumes "results_initial s0" "(results_step C cfg)\<^sup>*\<^sup>* s0 s"
  shows "rs.inv C cfg s"
proof -
  have "rs.inv C cfg s0"
    using assms(1) by (simp add: rs.inv_def results_initial_def empty_store_def row_ok_def)
  then show ?thesis using rs.run_inv [OF assms(2)] by simp
qed

lemma results_rows_follow:
  assumes "rs.inv C cfg s" "(results_step C cfg)\<^sup>*\<^sup>* s s'" "st_tasks (lp_store s) i = Some w"
  shows "\<exists>w'. st_tasks (lp_store s') i = Some w' \<and> (w' = w \<or> evolves (row_record w) (row_record w'))"
proof -
  have "rs.moved (st_tasks (lp_store s) i) (st_tasks (lp_store s') i)"
    using rs.run_inv [OF assms(2,1)] by (simp add: rs.rows_follow_def)
  with assms(3) show ?thesis by (auto simp: rs.moved_def row_follows_def)
qed

lemma run_ask:
  assumes "may_call (lp_clients s k)" "call_allowed c" "0 \<le> t"
    and "results_attempt C cfg t 0 c (lp_store s) = Commit q a"
  shows "(results_step C cfg)\<^sup>*\<^sup>* s (s\<lparr>lp_clients := (lp_clients s)(k := Committing c 0 q a)\<rparr>)"
proof -
  let ?s1 = "s\<lparr>lp_clients := (lp_clients s)(k := Trying c 0)\<rparr>"
  have "results_step C cfg s ?s1" using assms(1,2) by (rule loop_step.call)
  moreover have "results_step C cfg ?s1
      (?s1\<lparr>lp_clients := (lp_clients ?s1)(k := Committing c 0 q a)\<rparr>)"
    by (rule loop_step.ask [where n = 0 and t = t])
       (use assms(3,4) in \<open>simp_all add: call_limit_def split: call.split\<close>)
  ultimately show ?thesis by (simp add: rtranclp.rtrancl_into_rtrancl)
qed

lemma run_call:
  assumes "may_call (lp_clients s k)" "call_allowed c" "0 \<le> t"
    and "results_attempt C cfg t 0 c (lp_store s) = Commit q a"
    and "results_commit (lp_now s) (lp_store s) q = (None, st)"
  shows "(results_step C cfg)\<^sup>*\<^sup>* s
           (s\<lparr>lp_store := st, lp_clients := (lp_clients s)(k := Finished c (Inr a))\<rparr>)"
proof -
  let ?s2 = "s\<lparr>lp_clients := (lp_clients s)(k := Committing c 0 q a)\<rparr>"
  have "results_step C cfg ?s2
      (?s2\<lparr>lp_store := st, lp_clients := (lp_clients ?s2)(k := Finished c (Inr a))\<rparr>)"
    by (rule loop_step.accept) (use assms(5) in simp_all)
  with run_ask [OF assms(1-4)] show ?thesis by (simp add: rtranclp.rtrancl_into_rtrancl)
qed

subsection \<open>A small run\<close>

text \<open>A worker registers and claims one task; the examples below start from this run.\<close>

definition demo_config :: results_config where
  "demo_config = \<lparr>rs_usable = True, rs_ResultTTL = 0, rs_TombstoneTTL = 0\<rparr>"

definition demo_id :: string where
  "demo_id = ''00000000-0000-5000-8000-000000000000''"

definition demo_envelope :: envelope where
  "demo_envelope =
     zero_envelope\<lparr>e_ProtocolVersion := 1, e_ID := demo_id, e_Task := ''mail'', e_Version := 1,
       e_Args := ''{}'', e_CreatedAt := 1, e_Queue := ''default''\<rparr>"

definition demo_record :: task_record where
  "demo_record =
     (case InitialRecord plain_codec demo_envelope Queued of Inr rc \<Rightarrow> rc)"

definition demo_now :: go_time where "demo_now = FromUnixMilli 1000"

definition demo_claimed :: task_record where
  "demo_claimed =
     demo_record\<lparr>r_State := Running, r_Owner := ''w1'', r_Fence := 1, r_Revision := 2,
                r_DeliveryCount := 1, r_LeaseUntil := demo_now + minute\<rparr>"

definition demo_store :: "task_row \<Rightarrow> result_store" where
  "demo_store w =
     empty_store\<lparr>st_tasks := (\<lambda>_. None)(demo_id \<mapsto> w), st_inventory := {demo_id}\<rparr>"

definition demo_row1 :: task_row where
  "demo_row1 = \<lparr>row_record = demo_record, row_revision = 1, row_lease = 0, row_owner = [],
                row_fence = 0\<rparr>"

definition demo_row2 :: task_row where
  "demo_row2 = \<lparr>row_record = demo_claimed, row_revision = 2, row_lease = 61000,
                row_owner = ''w1'', row_fence = 1\<rparr>"

definition demo_system :: "result_store \<Rightarrow> (call, cas_request, answer, async_error) phase
    \<Rightarrow> results_system" where
  "demo_system st p = \<lparr>lp_store = st, lp_now = demo_now, lp_clients = (\<lambda>_. Idle)(0 := p)\<rparr>"

lemma demo_id_ok: "idPattern demo_id"
  by (simp add: idPattern_def demo_id_def is_hex_def is_digit_def less_eq_char_def)

lemma demo_valid: "results_valid demo_config"
  by (simp add: results_valid_def demo_config_def resultTTL_def tombstoneTTL_def duration_defs)

lemma demo_envelope_sel [simp]:
  "e_ID demo_envelope = demo_id" "e_Retries demo_envelope = 0" "e_ETA demo_envelope = 0"
  "e_ExpiresAt demo_envelope = 0" "e_WorkflowID demo_envelope = []"
  by (simp_all add: demo_envelope_def zero_envelope_def)

lemma demo_envelope_valid: "envelope_Validate plain_codec demo_envelope = None"
  by (simp add: envelope_Validate_def demo_envelope_def zero_envelope_def plain_codec_def demo_id_ok
      MaxReplacementDepth_def ProtocolVersion_def MaxPayloadBytes_def optional_id_def headers_ok_def
      name_char_def is_alpha_def is_lower_def is_digit_def is_upper_def less_eq_char_def)

lemma demo_initial: "InitialRecord plain_codec demo_envelope Queued = Inr demo_record"
  by (simp add: demo_record_def InitialRecord_def demo_envelope_valid)

lemma demo_record_sel [simp]:
  "r_Envelope demo_record = demo_envelope" "r_Revision demo_record = 1" "r_Fence demo_record = 0"
  "r_ReplacementID demo_record = []" "r_Owner demo_record = []" "r_LeaseUntil demo_record = 0"
  "r_State demo_record = Queued" "r_Digest demo_record = Digest plain_codec demo_envelope"
  "r_CancelRequested demo_record = False" "r_DeliveryCount demo_record = 0"
  by (simp_all add: demo_record_def InitialRecord_def demo_envelope_valid)

lemma demo_unix [simp]: "UnixMilli demo_now = 1000"
  by (simp add: demo_now_def)

lemma demo_now_pos: "0 \<le> demo_now"
  by (simp add: demo_now_def FromUnixMilli_def unix_epoch_def duration_defs)

lemma demo_ask:
  assumes "may_call p" "call_allowed c"
    and "results_attempt plain_codec demo_config demo_now 0 c st = Commit q a"
  shows "(results_step plain_codec demo_config)\<^sup>*\<^sup>* (demo_system st p)
           (demo_system st (Committing c 0 q a))"
  using run_ask [of "demo_system st p" 0 c demo_now plain_codec demo_config q a] assms demo_now_pos
  by (simp add: demo_system_def)

lemma demo_call:
  assumes "may_call p" "call_allowed c"
    and "results_attempt plain_codec demo_config demo_now 0 c st = Commit q a"
    and "results_commit demo_now st q = (None, st')"
  shows "(results_step plain_codec demo_config)\<^sup>*\<^sup>* (demo_system st p)
           (demo_system st' (Finished c (Inr a)))"
  using run_call [of "demo_system st p" 0 c demo_now plain_codec demo_config q a st'] assms
    demo_now_pos
  by (simp add: demo_system_def)

lemma demo_register_turn:
  "results_attempt plain_codec demo_config demo_now 0 (CallRegister demo_envelope Queued) empty_store
     = Commit (request 0 demo_record Create 0 [] 0 []) Done"
  by (simp add: results_attempt_def Register_begin_def demo_valid demo_initial)

lemma demo_register_commit:
  "results_commit demo_now empty_store (request 0 demo_record Create 0 [] 0 [])
     = (None, demo_store demo_row1)"
  by (simp add: results_commit_def cas_def cas_check_def demo_id_ok max_uint64_def recordCAS_def
      empty_store_def new_lease_def Milliseconds_def max_lua_integer_def demo_store_def
      demo_row1_def)

lemma demo_registered:
  "(results_step plain_codec demo_config)\<^sup>*\<^sup>* (demo_system empty_store Idle)
     (demo_system (demo_store demo_row1) (Finished (CallRegister demo_envelope Queued) (Inr Done)))"
  by (rule demo_call [OF _ _ demo_register_turn demo_register_commit])
     (simp_all add: may_call_def call_allowed_def)

lemma demo_start: "results_initial (demo_system empty_store Idle)"
  by (simp add: results_initial_def demo_system_def)

lemma demo_read1: "results_read demo_config (Some demo_row1) = Inr demo_record"
  by (simp add: results_read_def demo_valid demo_row1_def overlay_lease_def)

definition demo_claim :: claim where
  "demo_claim = \<lparr>cl_Record = demo_claimed, cl_Acquired = True, cl_Duplicate = False\<rparr>"

definition demo_claim_request :: cas_request where
  "demo_claim_request = request 1 demo_claimed ClaimMode 0 [] minute []"

lemma demo_claim_turn:
  "results_attempt plain_codec demo_config demo_now 0 (CallClaim demo_envelope ''w1'' minute)
     (demo_store demo_row1) = Commit demo_claim_request (ClaimAnswer demo_claim)"
proof -
  have "ClaimRecord plain_codec demo_record demo_envelope ''w1'' demo_now minute = Inr demo_claim"
    using demo_now_pos
    by (simp add: ClaimRecord_def demo_claim_def demo_claimed_def max_uint64_def duration_defs)
  then show ?thesis
    by (simp add: results_attempt_def Claim_attempt_def demo_valid demo_store_def demo_read1
        demo_claim_def demo_claim_request_def)
qed

lemma demo_claim_commit:
  "results_commit demo_now (demo_store demo_row1) demo_claim_request = (None, demo_store demo_row2)"
  by (simp add: results_commit_def cas_def cas_check_def demo_id_ok max_uint64_def recordCAS_def
      demo_store_def demo_row1_def demo_row2_def new_lease_def Milliseconds_def max_lua_integer_def
      duration_defs demo_claim_request_def demo_claimed_def)

lemma demo_claiming:
  "(results_step plain_codec demo_config)\<^sup>*\<^sup>* (demo_system empty_store Idle)
     (demo_system (demo_store demo_row1)
        (Committing (CallClaim demo_envelope ''w1'' minute) 0 demo_claim_request
           (ClaimAnswer demo_claim)))"
  by (rule rtranclp_trans [OF demo_registered demo_ask [OF _ _ demo_claim_turn]])
     (simp_all add: may_call_def call_allowed_def)

lemma demo_claims:
  "(results_step plain_codec demo_config)\<^sup>*\<^sup>*
     (demo_system (demo_store demo_row1) (Finished (CallRegister demo_envelope Queued) (Inr Done)))
     (demo_system (demo_store demo_row2)
        (Finished (CallClaim demo_envelope ''w1'' minute) (Inr (ClaimAnswer demo_claim))))"
  by (rule demo_call [OF _ _ demo_claim_turn demo_claim_commit])
     (simp_all add: may_call_def call_allowed_def)

end
