(* ===== verification/Async_Cleanup.thy ===== *)
theory Async_Cleanup
  imports Async_Results
begin

text \<open>
  \<open>Results.Cleanup\<close> (\<open>src/async/redis/reconcile.go\<close>): for each task of a page of the inventory it reads the record,
  decides whether the payload has expired or the whole record may go, and runs a script that does so only if the
  revision is still the one it read. The script and the clients of the store interleave freely.

  A record that has been removed can be stored anew under its identifier, with revisions that start over. A
  request that was prepared before the removal may then be accepted by chance of its revision; so what holds of
  a task is stated up to its removal.

  The choice of the page and its cursor are not part of the model: any task may be visited at any time.
\<close>

subsection \<open>One visited task\<close>

datatype cleanup_mode = ClearPayload | DeleteRecord

record cleanup_plan =
  cp_Expected :: "64 word"
  cp_Mode :: cleanup_mode
  cp_Record :: task_record

definition cleanup_visit ::
  "codec \<Rightarrow> results_config \<Rightarrow> go_time \<Rightarrow> string \<Rightarrow> task_row option \<Rightarrow> async_error + cleanup_plan option" where
  "cleanup_visit C cfg now i row =
     (case results_read cfg row of
        Inl err \<Rightarrow> Inl (if err = ErrNotFound then ErrBackend ''authoritative task record missing from inventory'' else err)
      | Inr rc \<Rightarrow>
          if e_ID (r_Envelope rc) \<noteq> i \<or> r_Revision rc = 0 \<or> envelope_Validate C (r_Envelope rc) \<noteq> None
             \<or> r_Digest rc \<noteq> Digest C (r_Envelope rc) then Inl ErrUnavailable
          else if \<not> Terminal (r_State rc) \<and> r_State rc \<notin> {Scheduled, Queued, Running, RetryWait} then Inl ErrUnavailable
          else if Terminal (r_State rc) \<and> (r_FinishedAt rc = 0 \<or> r_PayloadExpiresAt rc = 0 \<or> r_TombstoneUntil rc = 0
                  \<or> r_TombstoneUntil rc < r_PayloadExpiresAt rc) then Inl ErrUnavailable
          else if \<not> Terminal (r_State rc) \<or> r_Pinned rc then Inr None
          else if r_TombstoneUntil rc > now \<and> (r_PayloadExpiresAt rc > now \<or> r_Output rc = [] \<and> r_Progress rc = [])
            then Inr None
          else if r_Revision rc = max_uint64 then Inl ErrUnavailable
          else Inr (Some \<lparr>cp_Expected = r_Revision rc,
                          cp_Mode = (if \<not> r_TombstoneUntil rc > now then DeleteRecord else ClearPayload),
                          cp_Record = rc\<lparr>r_Output := [], r_Progress := [], r_Revision := r_Revision rc + 1\<rparr>\<rparr>))"

datatype cleanup_outcome = CleanMissing | CleanConflict | CleanPinned | CleanDeleted | CleanCleared

definition cleanupScript :: "result_store \<Rightarrow> string \<Rightarrow> cleanup_plan \<Rightarrow> cleanup_outcome \<times> result_store" where
  "cleanupScript st i plan =
     (case st_tasks st i of
        None \<Rightarrow> (CleanMissing, st)
      | Some w \<Rightarrow>
          if row_revision w \<noteq> cp_Expected plan then (CleanConflict, st)
          else case cp_Mode plan of
            DeleteRecord \<Rightarrow>
              if card (dom (st_intents st i)) > 1000 then (CleanPinned, st)
              else if \<exists>d \<in> ran (st_intents st i). \<not> d_Delivered d then (CleanPinned, st)
              else (CleanDeleted,
                    st\<lparr>st_tasks := (st_tasks st)(i := None), st_intents := (st_intents st)(i := (\<lambda>_. None)),
                      st_inventory := st_inventory st - {i}\<rparr>)
          | ClearPayload \<Rightarrow>
              (CleanCleared,
               st\<lparr>st_tasks := (st_tasks st)(i \<mapsto> w\<lparr>row_record := cp_Record plan,
                                                 row_revision := r_Revision (cp_Record plan)\<rparr>)\<rparr>))"

subsection \<open>Clients and cleaners\<close>

record cleanup_system =
  cs_loop :: results_system
  cs_plans :: "nat \<Rightarrow> (string \<times> cleanup_plan) option"

abbreviation cs_store :: "cleanup_system \<Rightarrow> result_store" where
  "cs_store s \<equiv> lp_store (cs_loop s)"

text \<open>
  One atomic action of a client, a relay, the clock or a cleaner. \<open>K\<close> are tasks that are not removed: with
  \<open>K = {}\<close> this is the whole system, and with \<open>K = {i}\<close> the system for as long as the task \<open>i\<close> is not removed.
\<close>

inductive store_step :: "codec \<Rightarrow> results_config \<Rightarrow> string set \<Rightarrow> cleanup_system \<Rightarrow> cleanup_system \<Rightarrow> bool"
  for C :: codec and cfg :: results_config and K :: "string set"
where
  client: "results_step C cfg (cs_loop s) l \<Longrightarrow> store_step C cfg K s (s\<lparr>cs_loop := l\<rparr>)"
| visit: "t \<le> lp_now (cs_loop s) \<Longrightarrow> cleanup_visit C cfg t i (st_tasks (cs_store s) i) = Inr (Some plan) \<Longrightarrow>
    store_step C cfg K s (s\<lparr>cs_plans := (cs_plans s)(k \<mapsto> (i, plan))\<rparr>)"
| clean: "cs_plans s k = Some (i, plan) \<Longrightarrow> cleanupScript (cs_store s) i plan = (out, st) \<Longrightarrow>
    i \<notin> K \<or> out \<noteq> CleanDeleted \<Longrightarrow>
    store_step C cfg K s (s\<lparr>cs_loop := (cs_loop s)\<lparr>lp_store := st\<rparr>, cs_plans := (cs_plans s)(k := None)\<rparr>)"

definition store_initial :: "cleanup_system \<Rightarrow> bool" where
  "store_initial s \<longleftrightarrow> results_initial (cs_loop s) \<and> cs_plans s = (\<lambda>_. None)"

subsection \<open>What a request is about\<close>

definition sane :: "string \<Rightarrow> task_row option \<Rightarrow> bool" where
  "sane i row \<longleftrightarrow> (\<forall>w. row = Some w \<longrightarrow> e_ID (r_Envelope (row_record w)) = i)"

lemma Transition_target:
  assumes "Transition_attempt C cfg now t (Inr rc) = Commit q a" "proper t"
  shows "q_ID q = e_ID (r_Envelope rc)"
proof -
  from assms(1) obtain rc' where
    t: "ApplyTransition C rc t now (resultTTL cfg) (tombstoneTTL cfg) = Inr rc'"
    and q: "q = request (r_Revision rc) rc' Live (t_Fence t) (t_Owner t) 0 (t_Intents t)"
    by (auto simp: Transition_attempt_def split: if_splits sum.splits)
  from t show ?thesis
  proof (cases rule: ApplyTransition_cases)
    case yield
    then show ?thesis using q by simp
  next
    case outcome
    with applyOutcome_spec [OF outcome(2) assms(2)] q show ?thesis by simp
  qed
qed

lemma attempt_target:
  assumes "results_attempt C cfg t n c st = Commit q a" "call_allowed c" "sane (call_id c) (st_tasks st (call_id c))"
  shows "q_ID q = call_id c"
proof (cases "results_read cfg (st_tasks st (call_id c))")
  case (Inl err)
  then show ?thesis using assms(1) call_turn_absent by (simp add: results_attempt_def)
next
  case (Inr rc)
  have "e_ID (r_Envelope rc) = call_id c"
    using Inr assms(3) by (auto simp: results_read_def sane_def split: if_splits option.splits)
  moreover have turn: "call_turn C cfg t n c (Inr rc) = Commit q a" using assms(1) Inr by (simp add: results_attempt_def)
  ultimately show ?thesis
  proof (cases c)
    case (CallTransition t')
    then show ?thesis using turn assms(2) \<open>e_ID (r_Envelope rc) = call_id c\<close> Transition_target
      by (simp add: call_allowed_def)
  next
    case (CallClaim e ow l)
    then show ?thesis using turn \<open>e_ID (r_Envelope rc) = call_id c\<close> Claim_good by (fastforce simp: good_request_def)
  next
    case (CallResolve i w f)
    then show ?thesis using turn \<open>e_ID (r_Envelope rc) = call_id c\<close> Resolve_good by (fastforce simp: good_request_def)
  next
    case (CallRegister e s)
    then show ?thesis using turn Register_request by (auto split: if_splits)
  qed (use turn in \<open>auto simp: Renew_attempt_def RecordProgress_attempt_def RequestCancel_attempt_def Forget_attempt_def
      ReleasePin_attempt_def Let_def split: if_splits option.splits\<close>)
qed

subsection \<open>One task until its removal\<close>

text \<open>A plan was made from a row that is still there or has been overtaken, at a time that has passed.\<close>

definition plan_backed :: "codec \<Rightarrow> results_config \<Rightarrow> string \<Rightarrow> cleanup_system \<Rightarrow> cleanup_plan \<Rightarrow> bool" where
  "plan_backed C cfg i s plan \<longleftrightarrow>
     (\<exists>t base. t \<le> lp_now (cs_loop s) \<and> row_ok i base \<and> cleanup_visit C cfg t i base = Inr (Some plan)
        \<and> (st_tasks (cs_store s) i = base \<or> row_rev base < row_rev (st_tasks (cs_store s) i)))"

definition client_ok :: "codec \<Rightarrow> results_config \<Rightarrow> string \<Rightarrow> result_store
    \<Rightarrow> (call, cas_request, answer, async_error) phase \<Rightarrow> bool" where
  "client_ok C cfg i st p =
     (case p of
        Trying c n \<Rightarrow> call_allowed c
      | Committing c n q a \<Rightarrow> call_allowed c \<and> q_ID q = call_id c \<and> (call_id c = i \<longrightarrow> rs.backed C cfg st c n q a)
      | _ \<Rightarrow> True)"

definition task_inv :: "codec \<Rightarrow> results_config \<Rightarrow> string \<Rightarrow> cleanup_system \<Rightarrow> bool" where
  "task_inv C cfg i s \<longleftrightarrow>
     (\<forall>j. sane j (st_tasks (cs_store s) j)) \<and> row_ok i (st_tasks (cs_store s) i)
     \<and> (\<forall>k. client_ok C cfg i (cs_store s) (lp_clients (cs_loop s) k))
     \<and> (\<forall>k j plan. cs_plans s k = Some (j, plan) \<longrightarrow> e_ID (r_Envelope (cp_Record plan)) = j \<and> (j = i \<longrightarrow> plan_backed C cfg i s plan))"

lemma row_moves [simp]: "rs.moved row row"
  by (simp add: rs.moved_def)

lemma client_ok_moved:
  assumes "client_ok C cfg i st p" "rs.moved (st_tasks st i) (st_tasks st' i)"
  shows "client_ok C cfg i st' p"
  using assms rs.backed_moved[of C cfg st _ _ _ _ st'] by (auto simp: client_ok_def split: phase.splits)

lemma plan_backed_moved:
  assumes "plan_backed C cfg i s plan" "rs.moved (st_tasks (cs_store s) i) (st_tasks (cs_store s') i)"
    "lp_now (cs_loop s) \<le> lp_now (cs_loop s')"
  shows "plan_backed C cfg i s' plan"
proof -
  obtain t base where b: "t \<le> lp_now (cs_loop s)" "row_ok i base" "cleanup_visit C cfg t i base = Inr (Some plan)"
      "st_tasks (cs_store s) i = base \<or> row_rev base < row_rev (st_tasks (cs_store s) i)"
    using assms(1) unfolding plan_backed_def by blast
  have "st_tasks (cs_store s') i = base \<or> row_rev base < row_rev (st_tasks (cs_store s') i)"
    using b(4) rs.moved_cases[OF assms(2)] order.strict_trans by (elim disjE) auto
  moreover have "t \<le> lp_now (cs_loop s')" using b(1) assms(3) by linarith
  ultimately show ?thesis using b(2,3) unfolding plan_backed_def by blast
qed

lemma sane_commit:
  assumes "results_commit now st q = (None, st')" "\<forall>j. sane j (st_tasks st j)"
  shows "\<forall>j. sane j (st_tasks st' j)"
  using assms(2) results_commit_rows[OF assms(1)] by (auto simp: sane_def written_def q_ID_def)

text \<open>A step of a client.\<close>

lemma results_step_time: "results_step C cfg l l' \<Longrightarrow> lp_now l \<le> lp_now l'"
  by (erule loop_step.cases) simp_all

lemma client_step_rows:
  assumes "results_step C cfg l l'" "\<forall>j. sane j (st_tasks (lp_store l) j)" "row_ok i (st_tasks (lp_store l) i)"
    "\<forall>k. client_ok C cfg i (lp_store l) (lp_clients l k)"
  shows "(\<forall>j. sane j (st_tasks (lp_store l') j)) \<and> row_ok i (st_tasks (lp_store l') i)
    \<and> rs.moved (st_tasks (lp_store l) i) (st_tasks (lp_store l') i)"
  using assms(1)
proof (cases rule: loop_step.cases)
  case (accept k c n q a st)
  have c: "call_allowed c" "q_ID q = call_id c" "call_id c = i \<Longrightarrow> rs.backed C cfg (lp_store l) c n q a"
    using assms(4)[rule_format, of k] accept(2) by (auto simp: client_ok_def)
  have "row_ok i (st_tasks st i) \<and> rs.moved (st_tasks (lp_store l) i) (st_tasks st i)"
  proof (cases "call_id c = i")
    case True
    obtain t where t: "0 \<le> t" "row_ok (call_id c) (st_tasks (lp_store l) (call_id c))"
        "results_attempt C cfg t n c (lp_store l) = Commit q a"
      using rs.accepted_is_current[OF c(1) c(3)[OF True] accept(3)] by blast
    show ?thesis using results_changes[OF c(1) t accept(3)] True by (auto simp: rs.moved_def)
  next
    case False
    then show ?thesis using results_commit_rows[OF accept(3)] c(2) assms(3) by simp
  qed
  then show ?thesis using sane_commit[OF accept(3) assms(2)] accept(1) by simp
next
  case (retry k c n q a e st)
  then show ?thesis using results_commit_refused[of "lp_now l" "lp_store l" q e st] assms(2,3) by simp
next
  case (refuse k c n q a e st)
  then show ?thesis using results_commit_refused[of "lp_now l" "lp_store l" q e st] assms(2,3) by simp
next
  case (script st)
  then show ?thesis using delivery_rows[of "lp_store l" st] assms(2,3) by simp
qed (use assms(2,3) in simp_all)

lemma client_step_clients:
  assumes "results_step C cfg l l'" "\<forall>j. sane j (st_tasks (lp_store l) j)" "row_ok i (st_tasks (lp_store l) i)"
    "\<forall>k. client_ok C cfg i (lp_store l) (lp_clients l k)"
  shows "client_ok C cfg i (lp_store l') (lp_clients l' k)"
proof -
  have old: "client_ok C cfg i (lp_store l') (lp_clients l j)" for j
    using client_step_rows[OF assms] assms(4) client_ok_moved by blast
  from assms(1) show ?thesis
  proof (cases rule: loop_step.cases)
    case (ask j c n t q a)
    have allowed: "call_allowed c" using old[of j] ask(2) by (simp add: client_ok_def)
    moreover have "q_ID q = call_id c" using attempt_target[OF ask(5) allowed] assms(2) by blast
    moreover have "rs.backed C cfg (lp_store l) c n q a" if "call_id c = i"
      using ask(4,5) assms(3) that by (auto simp: rs.backed_def)
    ultimately show ?thesis using ask(1) old[of k] by (simp add: client_ok_def)
  next
    case (retry j c n q a e st)
    then show ?thesis using old[of k] old[of j] by (simp add: client_ok_def)
  qed (use old[of k] in \<open>auto simp: client_ok_def\<close>)
qed

text \<open>A step of a cleaner.\<close>

lemma visit_plan:
  assumes "cleanup_visit C cfg t i row = Inr (Some plan)"
  obtains w where "row = Some w" "row_revision w \<noteq> 0" "row_revision w = r_Revision (row_record w)" "e_ID (r_Envelope (row_record w)) = i"
    "Terminal (r_State (row_record w))" "\<not> r_Pinned (row_record w)" "row_revision w \<noteq> max_uint64" "cp_Expected plan = row_revision w"
    "cp_Mode plan = DeleteRecord \<Longrightarrow> r_TombstoneUntil (row_record w) \<le> t"
    "cp_Record plan = (overlay_lease (row_record w) (row_lease w))\<lparr>r_Output := [], r_Progress := [], r_Revision := row_revision w + 1\<rparr>"
proof -
  obtain rc where rc: "results_read cfg row = Inr rc" using assms by (auto simp: cleanup_visit_def split: sum.splits)
  then obtain w where w: "row = Some w" "row_revision w \<noteq> 0" "row_revision w = r_Revision (row_record w)"
      "rc = overlay_lease (row_record w) (row_lease w)"
    by (auto simp: results_read_def split: if_splits option.splits)
  show thesis
    using that[OF w(1,2,3)] assms rc w(3,4)
    by (auto simp: cleanup_visit_def overlay_lease_def split: if_splits)
qed

lemma clear_row:
  assumes "row_ok i (Some w)" "cleanup_visit C cfg t i (Some w) = Inr (Some plan)"
  shows "row_ok i (Some (w\<lparr>row_record := cp_Record plan, row_revision := r_Revision (cp_Record plan)\<rparr>))
    \<and> rs.moved (Some w) (Some (w\<lparr>row_record := cp_Record plan, row_revision := r_Revision (cp_Record plan)\<rparr>))"
proof -
  obtain w' where w': "Some w = Some w'" "row_revision w' \<noteq> 0" "row_revision w' = r_Revision (row_record w')" "e_ID (r_Envelope (row_record w')) = i"
    "Terminal (r_State (row_record w'))" "row_revision w' \<noteq> max_uint64"
    "cp_Record plan = (overlay_lease (row_record w') (row_lease w'))\<lparr>r_Output := [], r_Progress := [], r_Revision := row_revision w' + 1\<rparr>"
    using visit_plan[OF assms(2)] by metis
  then have r: "cp_Record plan = (overlay_lease (row_record w) (row_lease w))\<lparr>r_Output := [], r_Progress := [], r_Revision := row_revision w + 1\<rparr>"
      "row_revision w \<noteq> max_uint64" "Terminal (r_State (row_record w))" "row_revision w = r_Revision (row_record w)" by simp_all
  have "row_revision w < row_revision w + 1" using r(2) by (simp add: max_uint64_def word_Suc_greater)
  moreover then have "row_revision w + 1 \<noteq> 0" by auto
  ultimately show ?thesis
    using assms(1) r
    by (simp add: row_ok_def released_def overlay_lease_def rs.moved_def row_rev_def row_follows_def evolves_def)
qed

lemma clean_rows:
  assumes "cleanupScript st j plan = (out, st')" "\<forall>j. sane j (st_tasks st j)" "row_ok i (st_tasks st i)"
    "e_ID (r_Envelope (cp_Record plan)) = j" "i \<noteq> j \<or> out \<noteq> CleanDeleted"
    "i = j \<Longrightarrow> \<exists>t base. row_ok i base \<and> cleanup_visit C cfg t i base = Inr (Some plan)
        \<and> (st_tasks st i = base \<or> row_rev base < row_rev (st_tasks st i))"
  shows "(\<forall>j. sane j (st_tasks st' j)) \<and> row_ok i (st_tasks st' i) \<and> rs.moved (st_tasks st i) (st_tasks st' i)"
proof (cases "st' = st")
  case True
  then show ?thesis using assms(2,3) by simp
next
  case False
  then obtain w where w: "st_tasks st j = Some w" "row_revision w = cp_Expected plan"
      "out = CleanDeleted \<and> st_tasks st' = (st_tasks st)(j := None)
       \<or> out = CleanCleared \<and> st_tasks st' = (st_tasks st)(j \<mapsto> w\<lparr>row_record := cp_Record plan, row_revision := r_Revision (cp_Record plan)\<rparr>)"
    using assms(1) by (auto simp: cleanupScript_def split: option.splits if_splits cleanup_mode.splits)
  have sane: "\<forall>j. sane j (st_tasks st' j)" using w(3) assms(2,4) by (auto simp: sane_def split: if_splits)
  show ?thesis
  proof (cases "i = j")
    case True
    obtain t base where b: "row_ok i base" "cleanup_visit C cfg t i base = Inr (Some plan)"
        "st_tasks st i = base \<or> row_rev base < row_rev (st_tasks st i)"
      using assms(6)[OF True] by blast
    obtain w0 where "base = Some w0" "cp_Expected plan = row_revision w0" using visit_plan[OF b(2)] by metis
    then have "base = Some w" using b(3) w(1,2) True by (auto simp: row_rev_def)
    then show ?thesis using clear_row[of i w C cfg t plan] b(1,2) w(1,3) True assms(5) sane by auto
  next
    case False
    then show ?thesis using w(3) sane assms(3) by auto
  qed
qed

lemma task_inv_plans:
  assumes "task_inv C cfg i s" "rs.moved (st_tasks (cs_store s) i) (st_tasks (cs_store s') i)"
    "lp_now (cs_loop s) \<le> lp_now (cs_loop s')" "cs_plans s k = Some (j, plan)"
  shows "e_ID (r_Envelope (cp_Record plan)) = j \<and> (j = i \<longrightarrow> plan_backed C cfg i s' plan)"
  using assms plan_backed_moved[OF _ assms(2,3)] by (auto simp: task_inv_def)

lemma store_step_inv:
  assumes "store_step C cfg K s s'" "task_inv C cfg i s" "i \<in> K"
  shows "task_inv C cfg i s' \<and> rs.moved (st_tasks (cs_store s) i) (st_tasks (cs_store s') i)"
  using assms(1)
proof cases
  case (client l)
  have I: "\<forall>j. sane j (st_tasks (cs_store s) j)" "row_ok i (st_tasks (cs_store s) i)"
      "\<forall>k. client_ok C cfg i (cs_store s) (lp_clients (cs_loop s) k)"
    using assms(2) by (auto simp: task_inv_def)
  note rows = client_step_rows[OF client(2) I]
  have plans: "e_ID (r_Envelope (cp_Record plan)) = j \<and> (j = i \<longrightarrow> plan_backed C cfg i s' plan)"
    if "cs_plans s k = Some (j, plan)" for k j plan
    using rows results_step_time[OF client(2)] client(1) by (intro task_inv_plans[OF assms(2) _ _ that]) simp_all
  show ?thesis
    using rows client_step_clients[OF client(2) I] plans client(1) by (auto simp: task_inv_def)
next
  case (visit t j plan k)
  have ids: "e_ID (r_Envelope (cp_Record plan)) = j" using visit_plan[OF visit(3)] by fastforce
  have backed: "plan_backed C cfg i s' plan" if "j = i"
    using that visit assms(2) unfolding plan_backed_def task_inv_def
    by (intro exI[of _ t] exI[of _ "st_tasks (cs_store s) i"]) simp
  have plans: "e_ID (r_Envelope (cp_Record pl)) = j' \<and> (j' = i \<longrightarrow> plan_backed C cfg i s' pl)"
    if "cs_plans s k' = Some (j', pl)" for k' j' pl
    using visit(1) by (intro task_inv_plans[OF assms(2) _ _ that]) simp_all
  show ?thesis using assms(2) visit(1) ids backed plans by (auto simp: task_inv_def split: if_splits)
next
  case (clean k j plan out st)
  have I: "\<forall>j. sane j (st_tasks (cs_store s) j)" "row_ok i (st_tasks (cs_store s) i)"
      "e_ID (r_Envelope (cp_Record plan)) = j" "j = i \<Longrightarrow> plan_backed C cfg i s plan"
    using assms(2) clean(2) by (auto simp: task_inv_def)
  have rows: "(\<forall>j. sane j (st_tasks st j)) \<and> row_ok i (st_tasks st i) \<and> rs.moved (st_tasks (cs_store s) i) (st_tasks st i)"
    using I(4) assms(3) clean(4)
    by (intro clean_rows[OF clean(3) I(1,2,3), of C cfg]) (auto simp: plan_backed_def)
  have plans: "e_ID (r_Envelope (cp_Record pl)) = j' \<and> (j' = i \<longrightarrow> plan_backed C cfg i s' pl)"
    if "cs_plans s k' = Some (j', pl)" for k' j' pl
    using clean(1) rows by (intro task_inv_plans[OF assms(2) _ _ that]) simp_all
  show ?thesis
    using assms(2) rows plans clean(1) client_ok_moved[of C cfg i "cs_store s" _ st] by (auto simp: task_inv_def split: if_splits)
qed

lemma store_run_inv:
  assumes "(store_step C cfg K)\<^sup>*\<^sup>* s s'" "task_inv C cfg i s" "i \<in> K"
  shows "task_inv C cfg i s' \<and> rs.moved (st_tasks (cs_store s) i) (st_tasks (cs_store s') i)"
  using assms(1)
proof (induction rule: rtranclp_induct)
  case (step s1 s2)
  then show ?case using store_step_inv[OF step.hyps(2) _ assms(3)] rs.moved_trans by blast
qed (use assms(2) in simp)

lemma store_reach_inv:
  assumes "store_initial s0" "(store_step C cfg K)\<^sup>*\<^sup>* s0 s" "i \<in> K"
  shows "task_inv C cfg i s"
proof -
  have "task_inv C cfg i s0"
    using assms(1) by (simp add: task_inv_def store_initial_def results_initial_def empty_store_def sane_def row_ok_def client_ok_def)
  then show ?thesis using store_run_inv[OF assms(2) _ assms(3)] by blast
qed

text \<open>Only a cleaner removes a task, and only a finished one whose time is over and whose intents are delivered.\<close>

lemma removal:
  assumes "task_inv C cfg i s" "store_step C cfg K s s'" "st_tasks (cs_store s) i = Some w" "st_tasks (cs_store s') i = None"
  shows "Terminal (r_State (row_record w)) \<and> \<not> r_Pinned (row_record w) \<and> r_TombstoneUntil (row_record w) \<le> lp_now (cs_loop s)
    \<and> (\<forall>n d. st_intents (cs_store s) i n = Some d \<longrightarrow> d_Delivered d)"
  using assms(2)
proof cases
  case (client l)
  have "rs.moved (st_tasks (cs_store s) i) (st_tasks (lp_store l) i)"
    using client_step_rows[OF client(2)] assms(1) by (auto simp: task_inv_def)
  then show ?thesis using client(1) assms(3,4) by (simp add: rs.moved_def)
next
  case (clean k j plan out st)
  have j: "j = i" "out = CleanDeleted" "cp_Mode plan = DeleteRecord" "row_revision w = cp_Expected plan"
      "\<forall>d \<in> ran (st_intents (cs_store s) i). d_Delivered d"
    using clean(1,3) assms(3,4) by (auto simp: cleanupScript_def split: option.splits if_splits cleanup_mode.splits)
  obtain t base where b: "t \<le> lp_now (cs_loop s)" "cleanup_visit C cfg t i base = Inr (Some plan)"
      "st_tasks (cs_store s) i = base \<or> row_rev base < row_rev (st_tasks (cs_store s) i)"
    using assms(1) clean(2) j(1) unfolding task_inv_def plan_backed_def by blast
  obtain w0 where w0: "base = Some w0" "Terminal (r_State (row_record w0))" "\<not> r_Pinned (row_record w0)" "cp_Expected plan = row_revision w0"
      "r_TombstoneUntil (row_record w0) \<le> t"
    using visit_plan[OF b(2)] j(3) by metis
  then have "w0 = w" using b(3) assms(3) j(4) by (auto simp: row_rev_def)
  then show ?thesis using w0 b(1) j(5) by (auto simp: ran_def)
qed (use assms(3,4) in simp)

lemma client_run:
  assumes "(results_step C cfg)\<^sup>*\<^sup>* l l'" "cs_loop s = l"
  shows "(store_step C cfg K)\<^sup>*\<^sup>* s (s\<lparr>cs_loop := l'\<rparr>)"
  using assms(1)
proof (induction rule: rtranclp_induct)
  case base
  then show ?case using assms(2) by (metis cleanup_system.surjective cleanup_system.update_convs(1) rtranclp.rtrancl_refl)
next
  case (step l1 l2)
  have "store_step C cfg K (s\<lparr>cs_loop := l1\<rparr>) ((s\<lparr>cs_loop := l1\<rparr>)\<lparr>cs_loop := l2\<rparr>)"
    by (rule store_step.client) (use step.hyps(2) in simp)
  then show ?case using step.IH by (simp add: rtranclp.rtrancl_into_rtrancl)
qed

end
