(* ===== verification/Async_Guarantees.thy ===== *)
theory Async_Guarantees
  imports Async_Cleanup
begin

text \<open>
  What the result store guarantees to its clients, in every interleaving: histories of a task
  only evolve until \<open>Cleanup\<close> removes it, an accepted operation acts atomically, a lease excludes every
  other worker, and the outbox never loses an intent. Every system here lets a caller ask for a transition
  with a next envelope only together with a retry (\<open>call_allowed\<close>), as all callers of \<open>Transition\<close> do.
\<close>

subsection \<open>Histories\<close>

text \<open>
  C16. From an empty store, whatever clients, relays and cleaners do and however they interleave, until
  \<open>Cleanup\<close> removes a stored task it stays and its record only evolves: identity and digest never change,
  revision and fence never go back (and never wrap around), cancellation is not taken back, a replacement
  is not exchanged, one fence has one owner, and a terminal outcome stays as it is, except that its payload
  may be dropped. The row is well formed, so reading it never reports corruption. And \<open>Cleanup\<close> removes the
  task only when it has ended, is not pinned, its tombstone time is over and all its intents are delivered;
  nothing else removes it. The one condition is that a transition carries a next envelope only when it asks
  for a retry, which the code leaves to its callers. Nothing is said of a task that is stored anew under the
  identifier of a removed one.
\<close>

theorem results_history:
  assumes "store_initial s0" "(store_step C cfg {i})\<^sup>*\<^sup>* s0 s" "(store_step C cfg {i})\<^sup>*\<^sup>* s s'"
    and "st_tasks (cs_store s) i = Some w"
  shows "\<exists>w'. st_tasks (cs_store s') i = Some w'
           \<and> (w' = w \<or> evolves (row_record w) (row_record w'))
           \<and> row_ok i (Some w')
           \<and> (results_valid cfg \<longrightarrow> (\<exists>rc. results_read cfg (Some w') = Inr rc))
           \<and> (\<forall>s''. store_step C cfg {} s' s'' \<longrightarrow> st_tasks (cs_store s'') i = None \<longrightarrow>
                Terminal (r_State (row_record w')) \<and> \<not> r_Pinned (row_record w')
                \<and> r_TombstoneUntil (row_record w') \<le> lp_now (cs_loop s')
                \<and> (\<forall>n d. st_intents (cs_store s') i n = Some d \<longrightarrow> d_Delivered d))"
proof -
  have inv: "task_inv C cfg i s" using store_reach_inv [OF assms(1,2)] by simp
  have inv': "task_inv C cfg i s'" and moved: "rs.moved (st_tasks (cs_store s) i) (st_tasks (cs_store s') i)"
    using store_run_inv [OF assms(3) inv] by simp_all
  obtain w' where w': "st_tasks (cs_store s') i = Some w'"
      "w' = w \<or> evolves (row_record w) (row_record w')"
    using moved assms(4) by (auto simp: rs.moved_def row_follows_def)
  have "row_ok i (Some w')" using inv' w'(1) by (simp add: task_inv_def)
  with w' removal [OF inv' _ w'(1)] show ?thesis by (auto simp: row_ok_def results_read_def)
qed

definition demo_cleanup :: "results_system \<Rightarrow> cleanup_system" where
  "demo_cleanup l = \<lparr>cs_loop = l, cs_plans = \<lambda>_. None\<rparr>"

lemma demo_cleanup_run:
  "(results_step C cfg)\<^sup>*\<^sup>* l l' \<Longrightarrow> (store_step C cfg K)\<^sup>*\<^sup>* (demo_cleanup l) (demo_cleanup l')"
  using client_run [of C cfg l l' "demo_cleanup l" K] by (simp add: demo_cleanup_def)

lemma demo_cleanup_start: "store_initial (demo_cleanup (demo_system empty_store Idle))"
  using demo_start by (simp add: store_initial_def demo_cleanup_def)

theorem results_history_witness:
  "\<exists>w'. st_tasks (cs_store (demo_cleanup (demo_system (demo_store demo_row2)
           (Finished (CallClaim demo_envelope ''w1'' minute) (Inr (ClaimAnswer demo_claim)))))) demo_id
          = Some w'
        \<and> (w' = demo_row1 \<or> evolves (row_record demo_row1) (row_record w'))"
  using results_history [OF demo_cleanup_start demo_cleanup_run [OF demo_registered] demo_cleanup_run [OF demo_claims],
      of demo_id demo_row1]
  by (auto simp: demo_system_def demo_store_def demo_cleanup_def)

subsection \<open>Atomicity\<close>

text \<open>
  C17. Refinement of an atomic store. When the script accepts a client's request, the request is
  exactly what the operation computes from the row as it is at that moment, although the row was
  read earlier and other clients ran since; the accepted record becomes the row, and no other row
  changes. A refused request changes nothing.
\<close>

theorem results_commit_atomic:
  assumes "results_initial s0" "(results_step C cfg)\<^sup>*\<^sup>* s0 s"
    and "lp_clients s k = Committing c n q a"
    and "results_commit (lp_now s) (lp_store s) q = (res, st')"
  shows "if res = None
         then (\<exists>t. results_attempt C cfg t n c (lp_store s) = Commit q a)
              \<and> (\<exists>w. st_tasks st' = (st_tasks (lp_store s))(call_id c \<mapsto> w)
                    \<and> row_record w = q_Record q \<and> row_revision w = r_Revision (q_Record q))
         else st' = lp_store s"
proof (cases res)
  case None
  have inv: "rs.inv C cfg s" using results_reach_inv assms(1,2) .
  from rs.commit_atomic [OF inv assms(3)] None assms(4) obtain t where
    "call_allowed c" "0 \<le> t" "row_ok (call_id c) (st_tasks (lp_store s) (call_id c))"
    "results_attempt C cfg t n c (lp_store s) = Commit q a" by auto
  with results_attempt_commit(1) results_commit_rows [of "lp_now s" "lp_store s" q st'] None assms(4)
  show ?thesis by (auto simp: written_def)
next
  case (Some e)
  with results_commit_refused assms(4) show ?thesis by auto
qed

theorem results_commit_atomic_witness:
  "\<exists>t. results_attempt plain_codec demo_config t 0 (CallClaim demo_envelope ''w1'' minute)
         (demo_store demo_row1) = Commit demo_claim_request (ClaimAnswer demo_claim)"
  using results_commit_atomic [OF demo_start demo_claiming, of 0 _ 0 demo_claim_request
      "ClaimAnswer demo_claim" None "demo_store demo_row2"] demo_claim_commit
  by (auto simp: demo_system_def)

subsection \<open>Leases\<close>

definition lease_of :: "call \<Rightarrow> (64 word \<times> string) option" where
  "lease_of c =
     (case c of
        CallTransition t \<Rightarrow> Some (t_Fence t, t_Owner t)
      | CallRenew _ f ow _ \<Rightarrow> Some (f, ow)
      | CallProgress _ f ow _ \<Rightarrow> Some (f, ow)
      | _ \<Rightarrow> None)"

lemma leased_request:
  assumes "results_attempt C cfg t n c st = Commit q a" "lease_of c = Some (f, ow)"
  shows "q_Mode q = Live \<and> q_OldFence q = f \<and> q_OldOwner q = ow"
  using assms
  by (cases c)
    (auto simp: results_attempt_def lease_of_def Transition_attempt_def Renew_attempt_def
       RecordProgress_attempt_def Let_def split: sum.splits option.splits if_splits)

lemma claim_request:
  assumes "results_attempt C cfg t n (CallClaim e ow l) st = Commit q a"
  shows "q_Mode q = ClaimMode \<and> r_Owner (q_Record q) = ow \<and> r_State (q_Record q) = Running
         \<and> (\<forall>rc. results_read cfg (st_tasks st (e_ID e)) = Inr rc \<longrightarrow>
              r_Fence rc < r_Fence (q_Record q) \<and> \<not> Terminal (r_State rc) \<and> r_ReplacementID rc = [])"
  using assms ClaimRecord_lease
  by (fastforce simp: results_attempt_def Claim_attempt_def split: sum.splits if_splits)

lemma leased_commit:
  assumes "rs.inv C cfg s" "lp_clients s k = Committing c n q a"
    and "results_commit (lp_now s) (lp_store s) q = (None, st')" "lease_of c = Some (f, ow)"
  shows "row_live (st_tasks (lp_store s) (call_id c)) (UnixMilli (lp_now s)) ow f"
proof -
  from rs.commit_atomic [OF assms(1-3)] obtain t where
    ok: "call_allowed c" "0 \<le> t" "row_ok (call_id c) (st_tasks (lp_store s) (call_id c))"
      "results_attempt C cfg t n c (lp_store s) = Commit q a" by blast
  then have "q_ID q = call_id c" using results_attempt_commit(1) by blast
  with leased_request [OF ok(4) assms(4)] results_commit_cases(5) [OF assms(3)] show ?thesis
    by simp
qed

text \<open>
  Leases exclude. Renewing, reporting progress and any transition are accepted only while the
  stored row still has the caller's fence and owner and its lease has not run out on the server's
  clock. A claim is accepted only when no lease is running and the task is not finished; it gives
  the claimant a fence above the stored one.
\<close>

lemma lease_exclusion:
  assumes "results_initial s0" "(results_step C cfg)\<^sup>*\<^sup>* s0 s"
    and "lp_clients s k = Committing c n q a"
    and "results_commit (lp_now s) (lp_store s) q = (None, st')"
    and "st_tasks (lp_store s) (call_id c) = Some w"
  shows "(lease_of c = Some (f, ow) \<longrightarrow>
            row_fence w = f \<and> row_owner w = ow \<and> UnixMilli (lp_now s) < row_lease w)
         \<and> (c = CallClaim e ow l \<longrightarrow>
            row_lease w \<le> UnixMilli (lp_now s) \<and> \<not> Terminal (r_State (row_record w))
            \<and> (\<exists>w'. st_tasks st' (call_id c) = Some w' \<and> row_owner w' = ow
                    \<and> row_fence w < row_fence w'))"
proof -
  have inv: "rs.inv C cfg s" using results_reach_inv assms(1,2) .
  from rs.commit_atomic [OF inv assms(3,4)] obtain t where
    ok: "call_allowed c" "0 \<le> t" "row_ok (call_id c) (st_tasks (lp_store s) (call_id c))"
      "results_attempt C cfg t n c (lp_store s) = Commit q a" by blast
  have qid: "q_ID q = call_id c" using results_attempt_commit(1) ok by blast
  note com = results_commit_cases [OF assms(4)]
  have "row_fence w = f \<and> row_owner w = ow \<and> UnixMilli (lp_now s) < row_lease w"
    if "lease_of c = Some (f, ow)"
    using leased_commit [OF inv assms(3,4) that] assms(5) by (simp add: row_live_def)
  moreover have "row_lease w \<le> UnixMilli (lp_now s) \<and> \<not> Terminal (r_State (row_record w))
      \<and> (\<exists>w'. st_tasks st' (call_id c) = Some w' \<and> row_owner w' = ow \<and> row_fence w < row_fence w')"
    if c: "c = CallClaim e ow l"
  proof -
    have valid: "results_valid cfg"
      using ok(4) call_turn_invalid unfolding results_attempt_def by blast
    have read: "results_read cfg (st_tasks (lp_store s) (e_ID e))
        = Inr (overlay_lease (row_record w) (row_lease w))"
      using ok(3) assms(5) c valid by (auto simp: results_read_def row_ok_def)
    have req: "q_Mode q = ClaimMode" "r_Owner (q_Record q) = ow"
        "r_Fence (row_record w) < r_Fence (q_Record q)" "\<not> Terminal (r_State (row_record w))"
      using claim_request [of C cfg t n e ow l "lp_store s" q a] ok(4) c read by auto
    have "row_fence w = r_Fence (row_record w)" using ok(3) assms(5) by (simp add: row_ok_def)
    with req com(4) qid assms(5) results_commit_rows [OF assms(4)] show ?thesis
      by (simp add: written_def)
  qed
  ultimately show ?thesis by blast
qed

lemma lease_exclusion_example:
  "row_lease demo_row1 \<le> UnixMilli demo_now
   \<and> (\<exists>w'. st_tasks (demo_store demo_row2) demo_id = Some w' \<and> row_owner w' = ''w1''
          \<and> row_fence demo_row1 < row_fence w')"
  using lease_exclusion [OF demo_start demo_claiming, of 0
      "CallClaim demo_envelope ''w1'' minute" 0 demo_claim_request "ClaimAnswer demo_claim"
      "demo_store demo_row2" demo_row1 _ "''w1''" demo_envelope minute] demo_claim_commit
  by (simp add: demo_system_def demo_store_def lease_of_def)

definition demo_late :: go_time where "demo_late = FromUnixMilli 100000"

definition demo_reclaimed :: task_record where
  "demo_reclaimed =
     demo_claimed\<lparr>r_Owner := ''w2'', r_Fence := 2, r_Revision := 3, r_DeliveryCount := 2,
                 r_LeaseUntil := demo_late + minute\<rparr>"

definition demo_renewal :: cas_request where
  "demo_renewal =
     request 2 (demo_claimed\<lparr>r_Revision := 3, r_LeaseUntil := demo_now + minute\<rparr>) Live 1 ''w1''
       minute []"

definition demo_row3 :: task_row where
  "demo_row3 = \<lparr>row_record = demo_reclaimed, row_revision = 3, row_lease = 160000,
                row_owner = ''w2'', row_fence = 2\<rparr>"

lemma demo_read2:
  "results_read demo_config (Some demo_row2)
     = Inr (demo_claimed\<lparr>r_LeaseUntil := FromUnixMilli 61000\<rparr>)"
  by (simp add: results_read_def demo_valid demo_row2_def overlay_lease_def demo_claimed_def)

lemma demo_renew_turn:
  "results_attempt plain_codec demo_config demo_now 0 (CallRenew demo_id 1 ''w1'' minute)
     (demo_store demo_row2)
   = Commit demo_renewal (RecordAnswer (q_Record demo_renewal))"
  by (simp add: results_attempt_def Renew_attempt_def demo_store_def demo_read2 ValidateLease_def
      demo_claimed_def demo_now_def FromUnixMilli_def millisecond_def demo_renewal_def Let_def)

lemma demo_reclaim_turn:
  "results_attempt plain_codec demo_config demo_late 0 (CallClaim demo_envelope ''w2'' minute)
     (demo_store demo_row2)
   = Commit (request 2 demo_reclaimed ClaimMode 0 [] minute [])
       (ClaimAnswer \<lparr>cl_Record = demo_reclaimed, cl_Acquired = True, cl_Duplicate = False\<rparr>)"
proof -
  have "ClaimRecord plain_codec (demo_claimed\<lparr>r_LeaseUntil := FromUnixMilli 61000\<rparr>) demo_envelope
          ''w2'' demo_late minute
        = Inr \<lparr>cl_Record = demo_reclaimed, cl_Acquired = True, cl_Duplicate = False\<rparr>"
    by (simp add: ClaimRecord_def demo_claimed_def demo_reclaimed_def demo_late_def
        FromUnixMilli_def unix_epoch_def duration_defs max_uint64_def)
  then show ?thesis
    by (simp add: results_attempt_def Claim_attempt_def demo_valid demo_store_def demo_read2)
       (simp add: demo_claimed_def)
qed

lemma demo_reclaim_commit:
  "results_commit demo_late (demo_store demo_row2) (request 2 demo_reclaimed ClaimMode 0 [] minute [])
   = (None, demo_store demo_row3)"
  by (simp add: results_commit_def cas_def cas_check_def demo_id_ok max_uint64_def recordCAS_def
      demo_store_def demo_row2_def demo_row3_def new_lease_def Milliseconds_def max_lua_integer_def
      duration_defs demo_reclaimed_def demo_claimed_def demo_late_def)

text \<open>
  A second run: the first worker prepares a renewal, stalls until its lease has run out, and
  another worker claims the task before the renewal reaches the store.
\<close>

definition demo_stalled :: results_system where
  "demo_stalled =
     \<lparr>lp_store = demo_store demo_row3, lp_now = demo_late,
      lp_clients = (\<lambda>_. Idle)
        (0 := Finished (CallClaim demo_envelope ''w2'' minute)
                (Inr (ClaimAnswer \<lparr>cl_Record = demo_reclaimed, cl_Acquired = True,
                                   cl_Duplicate = False\<rparr>)),
         1 := Committing (CallRenew demo_id 1 ''w1'' minute) 0 demo_renewal
                (RecordAnswer (q_Record demo_renewal)))\<rparr>"

lemma demo_stalls:
  "(results_step plain_codec demo_config)\<^sup>*\<^sup>* (demo_system empty_store Idle) demo_stalled"
proof -
  let ?s2 = "demo_system (demo_store demo_row2)
      (Finished (CallClaim demo_envelope ''w1'' minute) (Inr (ClaimAnswer demo_claim)))"
  let ?s3 = "?s2\<lparr>lp_clients := (lp_clients ?s2)(1 := Committing (CallRenew demo_id 1 ''w1'' minute) 0
      demo_renewal (RecordAnswer (q_Record demo_renewal)))\<rparr>"
  let ?s4 = "?s3\<lparr>lp_now := demo_late\<rparr>"
  have "(results_step plain_codec demo_config)\<^sup>*\<^sup>* ?s2 ?s3"
    using demo_renew_turn
    by (intro run_ask [where t = demo_now])
       (simp_all add: demo_system_def may_call_def call_allowed_def demo_now_pos)
  moreover have "results_step plain_codec demo_config ?s3 ?s4"
    by (rule loop_step.tick)
       (simp add: demo_system_def demo_now_def demo_late_def FromUnixMilli_def millisecond_def)
  moreover have "(results_step plain_codec demo_config)\<^sup>*\<^sup>* ?s4 demo_stalled"
  proof -
    have "(results_step plain_codec demo_config)\<^sup>*\<^sup>* ?s4
        (?s4\<lparr>lp_store := demo_store demo_row3,
            lp_clients := (lp_clients ?s4)(0 := Finished (CallClaim demo_envelope ''w2'' minute)
              (Inr (ClaimAnswer \<lparr>cl_Record = demo_reclaimed, cl_Acquired = True,
                                 cl_Duplicate = False\<rparr>)))\<rparr>)"
      using demo_reclaim_turn demo_reclaim_commit
      by (intro run_call [where t = demo_late])
         (simp_all add: demo_system_def may_call_def call_allowed_def demo_late_def
            FromUnixMilli_def unix_epoch_def duration_defs)
    then show ?thesis by (simp add: demo_system_def demo_stalled_def fun_upd_twist)
  qed
  ultimately show ?thesis using demo_registered demo_claims
    by (meson rtranclp.rtrancl_into_rtrancl rtranclp_trans)
qed

text \<open>
  C18. A fenced-off worker stays out. Once the stored fence of a task has passed \<open>f\<close>, no renewal,
  progress report or transition under the fence \<open>f\<close> is ever accepted again, at any later moment of
  any run.
\<close>

theorem stale_lease_refused:
  assumes "results_initial s0" "(results_step C cfg)\<^sup>*\<^sup>* s0 s" "(results_step C cfg)\<^sup>*\<^sup>* s s'"
    and "st_tasks (lp_store s) (call_id c) = Some w" "f < row_fence w"
    and "lp_clients s' k = Committing c n q a" "lease_of c = Some (f, ow)"
  shows "fst (results_commit (lp_now s') (lp_store s') q) \<noteq> None
         \<and> snd (results_commit (lp_now s') (lp_store s') q) = lp_store s'"
proof -
  obtain res st' where com: "results_commit (lp_now s') (lp_store s') q = (res, st')" by fastforce
  have inv: "rs.inv C cfg s" using results_reach_inv assms(1,2) .
  have inv': "rs.inv C cfg s'" using rs.run_inv [OF assms(3) inv] by simp
  obtain w' where w': "st_tasks (lp_store s') (call_id c) = Some w'"
      "w' = w \<or> evolves (row_record w) (row_record w')"
    using results_rows_follow [OF inv assms(3,4)] by blast
  have fences: "row_fence w = r_Fence (row_record w)" "row_fence w' = r_Fence (row_record w')"
    using inv inv' assms(4) w'(1) by (auto simp: rs.inv_def row_ok_def split: option.splits)
  then have "row_fence w \<le> row_fence w'" using w'(2) evolves_order(2) by auto
  then have "f \<noteq> row_fence w'" using assms(5) by auto
  then have "res \<noteq> None"
    using leased_commit [OF inv' assms(6) _ assms(7)] com w'(1) by (auto simp: row_live_def)
  with com results_commit_refused show ?thesis by auto
qed

theorem stale_lease_refused_witness:
  "fst (results_commit demo_late (demo_store demo_row3) demo_renewal) \<noteq> None
   \<and> snd (results_commit demo_late (demo_store demo_row3) demo_renewal) = demo_store demo_row3"
  using stale_lease_refused [OF demo_start demo_stalls rtranclp.rtrancl_refl,
      of "CallRenew demo_id 1 ''w1'' minute" demo_row3 1 1 0 demo_renewal
        "RecordAnswer (q_Record demo_renewal)" "''w1''"]
  by (simp add: demo_stalled_def demo_store_def demo_row3_def lease_of_def)

subsection \<open>The outbox\<close>














end
