(* ===== verification/Async_Client.thy ===== *)
theory Async_Client
  imports Async_Record
begin

text \<open>
  The producer side of the task queue (\<open>src/async/client.go\<close>, \<open>src/async/links.go\<close>, the signature
  methods of \<open>src/async/task.go\<close>, the binding types of \<open>src/async/canvas.go\<close>): binding a parent's
  output into a signature, checking and normalising linked signatures, routing, and preparing the
  envelope of a dispatch.

  The registry is a list of definitions; a handler's input and output are the Go types reflection
  sees, and its payload validators are functions. \<open>path.Match\<close>, the clock and the source of fresh
  identifiers are parameters of the configuration. The bound of 16 on the nesting of links is the
  recursion argument: 17 levels remain at the root.
\<close>

subsection \<open>Definitions and types\<close>

datatype go_type =
  TNamed string | TSlice go_type | TNamedSlice string go_type | TPtr go_type
| TStruct string "(string \<times> bool \<times> go_type) list"

text \<open>
  A struct type lists its fields: JSON name, whether it is exported, type. A declared type is known by
  its name, and as a slice when its underlying type is one.
\<close>

record task_def =
  d_name :: string
  d_version :: int
  d_input :: go_type
  d_output :: go_type
  d_validate :: "raw_json \<Rightarrow> async_error option"
  d_queue :: string
  d_MaxRetries :: "int option"

type_synonym task_registry = "task_def list"

record client_config =
  cc_registry :: task_registry
  cc_queues :: "string list"
  cc_headers :: "string list"
  cc_routes :: "(string \<times> string) list"
  cc_match :: "string \<Rightarrow> string \<Rightarrow> bool"
  cc_now :: go_time
  cc_NewID :: "async_error + string"
  cc_codec :: codec

definition lookup :: "task_registry \<Rightarrow> string \<Rightarrow> int \<Rightarrow> async_error + task_def" where
  "lookup r name version =
     (case find (\<lambda>d. d_name d = name \<and> d_version d = version) r of
        None \<Rightarrow> Inl ErrUnknownTask | Some d \<Rightarrow> Inr d)"

fun strip_pointers :: "go_type \<Rightarrow> go_type" where
  "strip_pointers (TPtr t) = strip_pointers t"
| "strip_pointers t = t"

definition inputBindingType :: "task_def \<Rightarrow> signature \<Rightarrow> async_error + go_type" where
  "inputBindingType d s =
     (if s_ParentField s = [] then Inr (d_input d)
      else case strip_pointers (d_input d) of
             TStruct _ fs \<Rightarrow>
               (case find (\<lambda>(name, exported, t). exported \<and> name = s_ParentField s) fs of
                  Some (_, _, t) \<Rightarrow> Inr t | None \<Rightarrow> Inl ErrInvalid)
           | _ \<Rightarrow> Inl ErrInvalid)"

definition failure_type :: go_type where
  "failure_type =
     TStruct ''async.Failure''
       [(''code'', True, TNamed ''string''), (''message'', True, TNamed ''string'')]"

subsection \<open>Signatures\<close>

fun set_args :: "raw_json \<Rightarrow> signature \<Rightarrow> signature" where
  "set_args b (Signature t v a op im pf cb eb) = Signature t v b op im pf cb eb"

fun set_options :: "dispatch_options \<Rightarrow> signature \<Rightarrow> signature" where
  "set_options op' (Signature t v a op im pf cb eb) = Signature t v a op' im pf cb eb"

definition WithID :: "string \<Rightarrow> signature \<Rightarrow> signature" where
  "WithID i s = set_options ((s_Options s)\<lparr>o_ID := i\<rparr>) s"

definition signature_bind :: "codec \<Rightarrow> signature \<Rightarrow> raw_json \<Rightarrow> async_error + signature" where
  "signature_bind C s result =
     (if s_Immutable s then Inr s
      else if s_ParentField s = [] then Inr (set_args result s)
      else case bind_field C (s_Args s) (s_ParentField s) result of
             None \<Rightarrow> Inl ErrInvalid
           | Some b \<Rightarrow> Inr (set_args b s))"

fun Link :: "signature \<Rightarrow> signature \<Rightarrow> signature" where
  "Link callback (Signature t v a op im pf cb eb) = Signature t v a op im pf (cb @ [callback]) eb"

fun LinkError :: "signature \<Rightarrow> signature \<Rightarrow> signature" where
  "LinkError callback (Signature t v a op im pf cb eb) = Signature t v a op im pf cb (eb @ [callback])"

subsection \<open>Links\<close>

text \<open>One link of a signature whose results have type \<open>source\<close>.\<close>

definition link_type_error :: "task_registry \<Rightarrow> go_type \<Rightarrow> signature \<Rightarrow> async_error option" where
  "link_type_error r source link =
     (case lookup r (s_Task link) (s_Version link) of
        Inl e \<Rightarrow> Some e
      | Inr d \<Rightarrow>
          if s_Immutable link then None
          else case inputBindingType d link of
                 Inl e \<Rightarrow> Some e
               | Inr target \<Rightarrow> if target \<noteq> source then Some ErrInvalid else None)"

primrec validateLinks :: "task_registry \<Rightarrow> nat \<Rightarrow> signature \<Rightarrow> async_error option" where
  "validateLinks r 0 = (\<lambda>s. Some ErrInvalid)"
| "validateLinks r (Suc levels) = (\<lambda>s.
     if length (s_Callbacks s) + length (s_Errbacks s) > 32 then Some ErrInvalid
     else case lookup r (s_Task s) (s_Version s) of
            Inl e \<Rightarrow> Some e
          | Inr parent \<Rightarrow>
              (case first_error (\<lambda>link. case link_type_error r (d_output parent) link of
                                          Some e \<Rightarrow> Some e | None \<Rightarrow> validateLinks r levels link)
                      (s_Callbacks s) of
                 Some e \<Rightarrow> Some e
               | None \<Rightarrow>
                   first_error (\<lambda>link. case link_type_error r failure_type link of
                                         Some e \<Rightarrow> Some e | None \<Rightarrow> validateLinks r levels link)
                     (s_Errbacks s)))"

definition route_queue :: "client_config \<Rightarrow> string \<Rightarrow> string \<Rightarrow> string" where
  "route_queue cfg task fallback =
     (let exact = (case find (\<lambda>(p, q). p = task) (cc_routes cfg) of Some (p, q) \<Rightarrow> q | None \<Rightarrow> []);
          glob = (if exact \<noteq> [] then exact
                  else case find (\<lambda>(p, q). cc_match cfg p task) (cc_routes cfg) of
                         Some (p, q) \<Rightarrow> q | None \<Rightarrow> [])
      in if glob \<noteq> [] then glob else fallback)"

definition normalize_link :: "client_config \<Rightarrow> string \<Rightarrow> signature \<Rightarrow> async_error + signature" where
  "normalize_link cfg scope link =
     (let op = s_Options link in
      if o_Scope op \<noteq> [] \<and> o_Scope op \<noteq> scope then Inl ErrDenied
      else case lookup (cc_registry cfg) (s_Task link) (s_Version link) of
             Inl e \<Rightarrow> Inl e
           | Inr d \<Rightarrow>
               let q = (if o_Queue op = [] then route_queue cfg (s_Task link) (d_queue d)
                        else o_Queue op)
               in if q \<notin> set (cc_queues cfg) \<or> o_Priority op < 0 \<or> o_Priority op > 9
                     \<or> o_Countdown op < 0 then Inl ErrInvalid
                  else if \<not> list_all (\<lambda>(k, _). k \<in> set (cc_headers cfg)) (o_Headers op)
                    then Inl ErrInvalid
                  else Inr (set_options (op\<lparr>o_Scope := scope, o_Queue := q\<rparr>) link))"

fun set_links :: "signature list \<Rightarrow> signature list \<Rightarrow> signature \<Rightarrow> signature" where
  "set_links cb' eb' (Signature t v a op im pf cb eb) = Signature t v a op im pf cb' eb'"

text \<open>
  \<open>cloneJSON\<close> of a signature: its raw arguments are encoded anew, at every level. A signature that cannot be
  encoded comes back as the zero value.
\<close>

fun encodable :: "codec \<Rightarrow> signature \<Rightarrow> bool" where
  "encodable C (Signature t v a op im pf cb eb) =
     ((a = [] \<or> json_Valid C a) \<and> list_all (encodable C) (cb @ eb))"

fun reencode :: "codec \<Rightarrow> signature \<Rightarrow> signature" where
  "reencode C (Signature t v a op im pf cb eb) =
     Signature t v (json_Compact C a) op im pf (map (reencode C) cb) (map (reencode C) eb)"

definition zero_options :: dispatch_options where
  "zero_options =
     \<lparr>o_ID = [], o_Queue = [], o_Priority = 0, o_ETA = 0, o_Countdown = 0, o_ExpiresAt = 0,
      o_Scope = [], o_Principal = [], o_IdempotencyKey = [], o_CorrelationID = [],
      o_Headers = [], o_Stamps = []\<rparr>"

definition signature_Clone :: "codec \<Rightarrow> signature \<Rightarrow> signature" where
  "signature_Clone C s = (if encodable C s then reencode C s else Signature [] 0 [] zero_options False [] [] [])"

definition clone_links :: "codec \<Rightarrow> signature list \<Rightarrow> signature list" where
  "clone_links C ss = (if list_all (encodable C) ss then map (reencode C) ss else [])"

primrec normalizeLinkOptions ::
  "client_config \<Rightarrow> string \<Rightarrow> nat \<Rightarrow> signature \<Rightarrow> async_error + signature" where
  "normalizeLinkOptions cfg scope 0 = (\<lambda>s. Inl ErrInvalid)"
| "normalizeLinkOptions cfg scope (Suc levels) = (\<lambda>s0.
     let s = signature_Clone (cc_codec cfg) s0;
         one = (\<lambda>link. case normalize_link cfg scope link of
                        Inl e \<Rightarrow> Inl e
                      | Inr link' \<Rightarrow> normalizeLinkOptions cfg scope levels link')
     in case traverse one (s_Callbacks s) of
          Inl e \<Rightarrow> Inl e
        | Inr cbs \<Rightarrow>
            (case traverse one (s_Errbacks s) of
               Inl e \<Rightarrow> Inl e
             | Inr ebs \<Rightarrow> Inr (set_links cbs ebs s)))"

subsection \<open>Preparing a dispatch\<close>

definition link_error :: "client_config \<Rightarrow> string \<Rightarrow> signature \<Rightarrow> async_error option" where
  "link_error cfg scope link =
     (case lookup (cc_registry cfg) (s_Task link) (s_Version link) of
        Inl e \<Rightarrow> Some e
      | Inr d \<Rightarrow>
          (case d_validate d (s_Args link) of
             Some e \<Rightarrow> Some e
           | None \<Rightarrow>
               if o_Scope (s_Options link) \<noteq> [] \<and> o_Scope (s_Options link) \<noteq> scope
               then Some ErrDenied else None))"

definition prepared_envelope ::
  "client_config \<Rightarrow> task_def \<Rightarrow> signature \<Rightarrow> string \<Rightarrow> string \<Rightarrow> go_time \<Rightarrow> envelope" where
  "prepared_envelope cfg d s i q eta =
     (let op = s_Options s in
      \<lparr>e_ProtocolVersion = ProtocolVersion, e_ID = i, e_Task = s_Task s, e_Version = s_Version s,
       e_Args = s_Args s, e_CreatedAt = cc_now cfg, e_Queue = q, e_Retries = 0,
       e_MaxRetries = d_MaxRetries d, e_ETA = eta, e_ExpiresAt = o_ExpiresAt op,
       e_Priority = o_Priority op, e_WorkflowID = [], e_ParentID = [], e_RootID = i,
       e_Scope = o_Scope op, e_Principal = o_Principal op,
       e_IdempotencyKey = o_IdempotencyKey op, e_CorrelationID = o_CorrelationID op,
       e_Headers = o_Headers op, e_TraceContext = [], e_Stamps = o_Stamps op,
       e_Callbacks = clone_links (cc_codec cfg) (s_Callbacks s),
       e_Errbacks = clone_links (cc_codec cfg) (s_Errbacks s), e_ReplacementDepth = 0\<rparr>)"

definition prepare_checked :: "client_config \<Rightarrow> task_def \<Rightarrow> signature \<Rightarrow> async_error + envelope" where
  "prepare_checked cfg d s =
     (let op = s_Options s in
      if o_Countdown op < 0 \<or> (o_ETA op \<noteq> 0 \<and> o_Countdown op \<noteq> 0) then Inl ErrInvalid
      else case (if o_ID op = [] then cc_NewID cfg else Inr (o_ID op)) of
             Inl e \<Rightarrow> Inl e
           | Inr i \<Rightarrow>
               let q = (if o_Queue op = [] then route_queue cfg (s_Task s) (d_queue d)
                        else o_Queue op);
                   eta = (if o_Countdown op > 0 then cc_now cfg + o_Countdown op else o_ETA op);
                   e = prepared_envelope cfg d s i q eta
               in if q \<notin> set (cc_queues cfg) then Inl ErrInvalid
                  else if \<not> list_all (\<lambda>(k, _). k \<in> set (cc_headers cfg)) (o_Headers op)
                    then Inl ErrInvalid
                  else if o_ExpiresAt op \<noteq> 0
                          \<and> (\<not> cc_now cfg < o_ExpiresAt op \<or> (eta \<noteq> 0 \<and> \<not> eta < o_ExpiresAt op))
                    then Inl ErrInvalid
                  else case envelope_Validate (cc_codec cfg) e of
                         Some err \<Rightarrow> Inl err
                       | None \<Rightarrow> Inr e)"

definition prepare :: "client_config \<Rightarrow> signature \<Rightarrow> async_error + envelope" where
  "prepare cfg s0 =
     (case normalizeLinkOptions cfg (o_Scope (s_Options s0)) 17 s0 of
        Inl e \<Rightarrow> Inl e
      | Inr s \<Rightarrow>
          (case lookup (cc_registry cfg) (s_Task s) (s_Version s) of
             Inl e \<Rightarrow> Inl e
           | Inr d \<Rightarrow>
               (case validateLinks (cc_registry cfg) 17 s of
                  Some e \<Rightarrow> Inl e
                | None \<Rightarrow>
                    (case d_validate d (s_Args s) of
                       Some e \<Rightarrow> Inl e
                     | None \<Rightarrow>
                         if length (s_Callbacks s) > 32 \<or> length (s_Errbacks s) > 32
                         then Inl ErrInvalid
                         else case first_error (link_error cfg (o_Scope (s_Options s)))
                                     (s_Callbacks s @ s_Errbacks s) of
                                Some e \<Rightarrow> Inl e
                              | None \<Rightarrow> prepare_checked cfg d s))))"

subsection \<open>Confinement of links\<close>

text \<open>
  \<open>confined cfg scope s\<close>: every signature linked from \<open>s\<close>, at any depth, runs in the scope, on a
  declared queue, with allowed headers only.
\<close>

fun confined :: "client_config \<Rightarrow> string \<Rightarrow> signature \<Rightarrow> bool" where
  "confined cfg scope (Signature t v a op im pf cb eb) =
     list_all (\<lambda>link. o_Scope (s_Options link) = scope \<and> o_Queue (s_Options link) \<in> set (cc_queues cfg)
                     \<and> list_all (\<lambda>(k, _). k \<in> set (cc_headers cfg)) (o_Headers (s_Options link))
                     \<and> confined cfg scope link) (cb @ eb)"

lemma set_links_sel [simp]:
  "s_Options (set_links cb eb s) = s_Options s" "s_Task (set_links cb eb s) = s_Task s"
  "s_Version (set_links cb eb s) = s_Version s" "s_Args (set_links cb eb s) = s_Args s"
  "confined cfg scope (set_links cb eb s) =
     list_all (\<lambda>link. o_Scope (s_Options link) = scope \<and> o_Queue (s_Options link) \<in> set (cc_queues cfg)
                     \<and> list_all (\<lambda>(k, _). k \<in> set (cc_headers cfg)) (o_Headers (s_Options link))
                     \<and> confined cfg scope link) (cb @ eb)"
  by (cases s; simp)+

lemma set_options_sel [simp]: "s_Options (set_options op s) = op"
  by (cases s) simp

lemma normalize_link_spec:
  "normalize_link cfg scope link = Inr link' \<Longrightarrow>
   o_Scope (s_Options link') = scope \<and> o_Queue (s_Options link') \<in> set (cc_queues cfg)
   \<and> list_all (\<lambda>(k, _). k \<in> set (cc_headers cfg)) (o_Headers (s_Options link'))"
  by (auto simp: normalize_link_def Let_def split: if_splits sum.splits)

lemma reencode_sel [simp]:
  "s_Options (reencode C s) = s_Options s" "s_Task (reencode C s) = s_Task s" "s_Version (reencode C s) = s_Version s"
  "s_Args (reencode C s) = json_Compact C (s_Args s)"
  by (cases s; simp)+

lemma confined_reencode [simp]: "confined cfg scope (reencode C s) = confined cfg scope s"
proof (induction s)
  case (Signature t v a op im pf cb eb)
  then show ?case by (simp add: list_all_iff ball_Un)
qed

lemma clone_zero: "\<not> encodable C s \<Longrightarrow> s_Task (signature_Clone C s) = []"
  by (simp add: signature_Clone_def)

lemma normalizeLinkOptions_root:
  "normalizeLinkOptions cfg scope n s = Inr s' \<Longrightarrow>
   s_Options s' = s_Options (signature_Clone (cc_codec cfg) s) \<and> s_Task s' = s_Task (signature_Clone (cc_codec cfg) s)
   \<and> s_Version s' = s_Version (signature_Clone (cc_codec cfg) s) \<and> s_Args s' = s_Args (signature_Clone (cc_codec cfg) s)"
  by (cases n) (auto simp: Let_def split: sum.splits)

text \<open>Encoding raw JSON gives valid JSON.\<close>

definition reencodes :: "codec \<Rightarrow> bool" where
  "reencodes C \<longleftrightarrow> (\<forall>a. a = [] \<or> json_Valid C a \<longrightarrow> json_Valid C (json_Compact C a))"

lemma reencode_encodable: "reencodes C \<Longrightarrow> encodable C s \<Longrightarrow> encodable C (reencode C s)"
proof (induction s)
  case (Signature t v a op im pf cb eb)
  then show ?case by (auto simp: list_all_iff reencodes_def)
qed

lemma encodable_parts:
  "encodable C (set_options op s) = encodable C s"
  "encodable C s \<Longrightarrow> link \<in> set (s_Callbacks s @ s_Errbacks s) \<Longrightarrow> encodable C link"
  by (cases s; simp add: list_all_iff)+

lemma normalize_link_encodable: "normalize_link cfg scope link = Inr link' \<Longrightarrow> encodable C link' = encodable C link"
  by (auto simp: normalize_link_def Let_def encodable_parts split: if_splits sum.splits)

lemma normalizeLinkOptions_confined:
  assumes "reencodes (cc_codec cfg)"
  shows "normalizeLinkOptions cfg scope n s = Inr s' \<Longrightarrow> encodable (cc_codec cfg) s \<Longrightarrow> confined cfg scope s'"
proof (induction n arbitrary: s s')
  case (Suc n)
  let ?C = "cc_codec cfg"
  let ?one = "\<lambda>link. case normalize_link cfg scope link of
      Inl e \<Rightarrow> Inl e | Inr link' \<Rightarrow> normalizeLinkOptions cfg scope n link'"
  let ?P = "\<lambda>link. o_Scope (s_Options link) = scope \<and> o_Queue (s_Options link) \<in> set (cc_queues cfg)
     \<and> list_all (\<lambda>(k, _). k \<in> set (cc_headers cfg)) (o_Headers (s_Options link))
     \<and> confined cfg scope link"
  have clone: "signature_Clone ?C s = reencode ?C s" using Suc.prems(2) by (simp add: signature_Clone_def)
  have one: "?P y" if one: "?one x = Inr y" and x: "encodable ?C x" for x y
  proof -
    from one obtain z where z: "normalize_link cfg scope x = Inr z"
        "normalizeLinkOptions cfg scope n z = Inr y" by (auto split: sum.splits)
    have ez: "encodable ?C z" using normalize_link_encodable[OF z(1)] x by simp
    then have "s_Options y = s_Options z" using normalizeLinkOptions_root[OF z(2)] by (simp add: signature_Clone_def)
    then show ?thesis using normalize_link_spec [OF z(1)] Suc.IH [OF z(2) ez] by simp
  qed
  from Suc.prems(1) obtain cbs ebs where s': "traverse ?one (s_Callbacks (reencode ?C s)) = Inr cbs"
      "traverse ?one (s_Errbacks (reencode ?C s)) = Inr ebs" "s' = set_links cbs ebs (reencode ?C s)"
    by (auto simp: Let_def clone split: sum.splits)
  have "encodable ?C link" if "link \<in> set (s_Callbacks (reencode ?C s) @ s_Errbacks (reencode ?C s))" for link
    using encodable_parts(2)[OF reencode_encodable[OF assms Suc.prems(2)] that] .
  then have "list_all ?P cbs" "list_all ?P ebs"
    using traverse_all [OF s'(1), of ?P] traverse_all [OF s'(2), of ?P] one by auto
  with s'(3) show ?case by simp
qed simp

lemma prepared_sel [simp]:
  "e_ID (prepared_envelope cfg d s i q eta) = i"
  "e_Queue (prepared_envelope cfg d s i q eta) = q"
  "e_ETA (prepared_envelope cfg d s i q eta) = eta"
  "e_Scope (prepared_envelope cfg d s i q eta) = o_Scope (s_Options s)"
  "e_Principal (prepared_envelope cfg d s i q eta) = o_Principal (s_Options s)"
  "e_ExpiresAt (prepared_envelope cfg d s i q eta) = o_ExpiresAt (s_Options s)"
  "e_Headers (prepared_envelope cfg d s i q eta) = o_Headers (s_Options s)"
  "e_Args (prepared_envelope cfg d s i q eta) = s_Args s"
  "e_Retries (prepared_envelope cfg d s i q eta) = 0"
  "e_Callbacks (prepared_envelope cfg d s i q eta) = clone_links (cc_codec cfg) (s_Callbacks s)"
  "e_Errbacks (prepared_envelope cfg d s i q eta) = clone_links (cc_codec cfg) (s_Errbacks s)"
  "e_Task (prepared_envelope cfg d s i q eta) = s_Task s"
  by (simp_all add: prepared_envelope_def Let_def)

lemma prepare_checked_spec:
  assumes "prepare_checked cfg d s = Inr e"
  shows "envelope_Validate (cc_codec cfg) e = None" "e_Queue e \<in> set (cc_queues cfg)"
    "list_all (\<lambda>(k, _). k \<in> set (cc_headers cfg)) (e_Headers e)"
    "e_ExpiresAt e \<noteq> 0 \<longrightarrow> cc_now cfg < e_ExpiresAt e \<and> (e_ETA e \<noteq> 0 \<longrightarrow> e_ETA e < e_ExpiresAt e)"
    "\<exists>i q eta. e = prepared_envelope cfg d s i q eta \<and> (o_ID (s_Options s) \<noteq> [] \<longrightarrow> i = o_ID (s_Options s))"
  using assms
  by (auto simp: prepare_checked_def Let_def split: if_splits sum.splits option.splits)

text \<open>A signature that cannot be encoded loses its task name, and the envelope of it is not valid.\<close>

lemma prepare_spec:
  assumes "prepare cfg s0 = Inr e"
  obtains d s where "normalizeLinkOptions cfg (o_Scope (s_Options s0)) 17 s0 = Inr s"
    "lookup (cc_registry cfg) (s_Task s) (s_Version s) = Inr d" "d_validate d (s_Args s) = None"
    "prepare_checked cfg d s = Inr e" "encodable (cc_codec cfg) s0" "s_Options s = s_Options s0" "s_Task s = s_Task s0"
    "s_Version s = s_Version s0" "s_Args s = json_Compact (cc_codec cfg) (s_Args s0)"
proof -
  obtain d s where p: "normalizeLinkOptions cfg (o_Scope (s_Options s0)) 17 s0 = Inr s"
      "lookup (cc_registry cfg) (s_Task s) (s_Version s) = Inr d" "d_validate d (s_Args s) = None"
      "prepare_checked cfg d s = Inr e"
    using assms by (auto simp: prepare_def split: sum.splits option.splits if_splits)
  note root = normalizeLinkOptions_root[OF p(1)]
  have "encodable (cc_codec cfg) s0"
  proof (rule ccontr)
    assume "\<not> encodable (cc_codec cfg) s0"
    then have "s_Task s = []" using root clone_zero by simp
    moreover obtain i q eta where "e = prepared_envelope cfg d s i q eta" using prepare_checked_spec(5)[OF p(4)] by blast
    ultimately show False using prepare_checked_spec(1)[OF p(4)] by (simp add: envelope_Validate_def split: if_splits)
  qed
  then show thesis using that[OF p] root by (simp add: signature_Clone_def)
qed

text \<open>A signature whose arguments are in the form the encoder gives them.\<close>

definition plain_args :: "client_config \<Rightarrow> raw_json \<Rightarrow> bool" where
  "plain_args cfg a \<longleftrightarrow> json_Valid (cc_codec cfg) a \<and> json_Compact (cc_codec cfg) a = a"

lemma normalizeLinkOptions_leaf:
  "plain_args cfg a \<Longrightarrow> normalizeLinkOptions cfg scope (Suc n) (Signature t v a op im pf [] [])
     = Inr (Signature t v a op im pf [] [])"
  by (simp add: Let_def signature_Clone_def plain_args_def)

lemma normalizeLinkOptions_one:
  assumes "normalize_link cfg scope link = Inr link'"
    and "normalizeLinkOptions cfg scope n link' = Inr link''"
    and "plain_args cfg a" "encodable (cc_codec cfg) link" "reencode (cc_codec cfg) link = link"
  shows "normalizeLinkOptions cfg scope (Suc n) (Signature t v a op im pf [link] [])
     = Inr (Signature t v a op im pf [link''] [])"
  using assms by (simp add: Let_def signature_Clone_def plain_args_def)

lemma validateLinks_leaf:
  "lookup r t v = Inr d \<Longrightarrow> validateLinks r (Suc n) (Signature t v a op im pf [] []) = None"
  by simp

lemma validateLinks_one:
  assumes "lookup r t v = Inr d" "link_type_error r (d_output d) link = None"
    and "validateLinks r n link = None"
  shows "validateLinks r (Suc n) (Signature t v a op im pf [link] []) = None"
  using assms by simp

lemmas link_steps = normalizeLinkOptions_leaf normalizeLinkOptions_one validateLinks_leaf
  validateLinks_one

text \<open>A client with one task, and a signature whose callback is left to the defaults.\<close>

definition mail_task :: task_def where
  "mail_task =
     \<lparr>d_name = ''mail'', d_version = 1, d_input = TNamed ''string'', d_output = TNamed ''string'',
      d_validate = \<lambda>_. None, d_queue = ''default'', d_MaxRetries = Some 3\<rparr>"

definition mail_client :: client_config where
  "mail_client =
     \<lparr>cc_registry = [mail_task], cc_queues = [''default''], cc_headers = [], cc_routes = [],
      cc_match = \<lambda>p t. False, cc_now = 7, cc_NewID = Inl ErrUnavailable,
      cc_codec = plain_codec\<rparr>"

definition plain_options :: dispatch_options where
  "plain_options =
     \<lparr>o_ID = [], o_Queue = [], o_Priority = 0, o_ETA = 0, o_Countdown = 0, o_ExpiresAt = 0,
      o_Scope = [], o_Principal = [], o_IdempotencyKey = [], o_CorrelationID = [],
      o_Headers = [], o_Stamps = []\<rparr>"

definition mail_signature :: signature where
  "mail_signature =
     Signature ''mail'' 1 ''{}'' (plain_options\<lparr>o_ID := StableID ''a'' ''b'', o_Scope := ''t1''\<rparr>)
       False [] [Signature ''mail'' 1 ''{}'' plain_options False [] [] []] []"

definition mail_link :: signature where
  "mail_link =
     Signature ''mail'' 1 ''{}'' (plain_options\<lparr>o_Scope := ''t1'', o_Queue := ''default''\<rparr>)
       False [] [] []"

lemma mail_plain: "plain_args mail_client ''{}''"
  by (simp add: plain_args_def mail_client_def plain_codec_def)

lemma mail_encodable:
  "encodable (cc_codec mail_client) (Signature ''mail'' 1 ''{}'' op im pf [] [])"
  "reencode (cc_codec mail_client) (Signature ''mail'' 1 ''{}'' op im pf [] []) = Signature ''mail'' 1 ''{}'' op im pf [] []"
  "reencodes (cc_codec mail_client)"
  by (simp_all add: mail_client_def plain_codec_def reencodes_def)

lemma mail_normalized:
  "normalizeLinkOptions mail_client ''t1'' 17 mail_signature = Inr (set_links [mail_link] [] mail_signature)"
proof -
  have one: "normalize_link mail_client ''t1'' (Signature ''mail'' 1 ''{}'' plain_options False [] [] [])
      = Inr mail_link"
    by (simp add: normalize_link_def plain_options_def lookup_def mail_client_def mail_task_def
        route_queue_def mail_link_def)
  have "normalizeLinkOptions mail_client ''t1'' (Suc 15) mail_link = Inr mail_link"
    unfolding mail_link_def by (rule normalizeLinkOptions_leaf [OF mail_plain])
  then have "normalizeLinkOptions mail_client ''t1'' (Suc (Suc 15)) mail_signature
      = Inr (set_links [mail_link] [] mail_signature)"
    unfolding mail_signature_def set_links.simps
    by (rule normalizeLinkOptions_one [OF one _ mail_plain mail_encodable(1,2)])
  then show ?thesis by (simp add: numeral_eq_Suc)
qed

lemma mail_links_valid:
  "validateLinks [mail_task] 17 (set_links [mail_link] [] mail_signature) = None"
proof -
  have look: "lookup [mail_task] ''mail'' 1 = Inr mail_task"
    by (simp add: lookup_def mail_task_def)
  have "link_type_error [mail_task] (d_output mail_task) mail_link = None"
    by (simp add: link_type_error_def mail_link_def look inputBindingType_def)
       (simp add: mail_task_def)
  moreover have "validateLinks [mail_task] (Suc 15) mail_link = None"
    unfolding mail_link_def by (rule validateLinks_leaf [OF look])
  ultimately have "validateLinks [mail_task] (Suc (Suc 15))
      (set_links [mail_link] [] mail_signature) = None"
    unfolding mail_signature_def set_links.simps by (intro validateLinks_one [OF look])
  then show ?thesis by (simp add: numeral_eq_Suc)
qed

lemma StableID_nonempty: "StableID p l \<noteq> []"
  by (simp add: StableID_def formatID_def)

lemma mail_client_sel:
  "cc_codec mail_client = plain_codec" "cc_queues mail_client = [''default'']"
  "cc_routes mail_client = []" "d_queue mail_task = ''default''"
  by (simp_all add: mail_client_def mail_task_def)

lemma plain_options_sel:
  "o_Countdown plain_options = 0" "o_ETA plain_options = 0" "o_Queue plain_options = []"
  "o_Headers plain_options = []" "o_ExpiresAt plain_options = 0"
  by (simp_all add: plain_options_def)

lemma mail_prepared: "\<exists>e. prepare mail_client mail_signature = Inr e \<and> e_Callbacks e = [mail_link]"
proof -
  let ?s = "set_links [mail_link] [] mail_signature"
  have parts: "s_Task ?s = ''mail''" "s_Version ?s = 1" "s_Args ?s = ''{}''"
      "s_Callbacks ?s = [mail_link]" "s_Errbacks ?s = []"
      "s_Options ?s = plain_options\<lparr>o_ID := StableID ''a'' ''b'', o_Scope := ''t1''\<rparr>"
    by (simp_all add: mail_signature_def)
  have look: "lookup (cc_registry mail_client) ''mail'' 1 = Inr mail_task"
    by (simp add: lookup_def mail_client_def mail_task_def)
  have "link_error mail_client ''t1'' mail_link = None"
    by (simp add: link_error_def mail_link_def look plain_options_def) (simp add: mail_task_def)
  then have links: "first_error (link_error mail_client ''t1'') ([mail_link] @ []) = None" by simp
  have idp: "idPattern (StableID ''a'' ''b'')" by (simp add: StableID_def formatID_idPattern)
  define e where "e = prepared_envelope mail_client mail_task ?s (StableID ''a'' ''b'') ''default'' 0"
  have "envelope_Validate plain_codec e = None"
    using idp parts
    by (simp add: e_def envelope_Validate_def prepared_envelope_def Let_def plain_options_def
        mail_client_def mail_task_def plain_codec_def MaxReplacementDepth_def ProtocolVersion_def
        MaxPayloadBytes_def optional_id_def headers_ok_def name_char_def is_alpha_def is_lower_def
        is_digit_def is_upper_def less_eq_char_def)
  then have "prepare_checked mail_client mail_task ?s = Inr e"
    using parts idp
    by (simp add: prepare_checked_def Let_def plain_options_sel mail_client_sel route_queue_def
        e_def StableID_nonempty)
  moreover have "d_validate mail_task ''{}'' = None" by (simp add: mail_task_def)
  moreover have "validateLinks (cc_registry mail_client) 17 ?s = None"
    using mail_links_valid by (simp add: mail_client_def)
  moreover have "o_Scope (s_Options mail_signature) = ''t1''" "o_Scope (s_Options ?s) = ''t1''"
    by (simp_all add: mail_signature_def)
  ultimately have "prepare mail_client mail_signature = Inr e"
    using mail_normalized parts look links unfolding prepare_def
    by (simp del: set_links_sel first_error.simps)
  moreover have "clone_links (cc_codec mail_client) [mail_link] = [mail_link]"
    using mail_encodable(1,2) by (simp add: clone_links_def mail_link_def)
  ultimately show ?thesis using parts by (auto simp: e_def)
qed

text \<open>
  C20. What a client dispatches is confined. An envelope that \<open>prepare\<close> returns passes
  \<open>Envelope.Validate\<close>, has the signature's scope and its arguments as \<open>encoding/json\<close> encodes them anew, goes to
  a declared queue with allowed headers, is not yet expired and starts before it expires; its arguments
  were accepted by the registered task; and, as long as encoding raw JSON gives valid JSON, every callback and
  errback linked to it, at any depth, is in the same scope, on a declared queue, with allowed headers.
\<close>

theorem prepare_confined:
  assumes "prepare cfg s = Inr e" "reencodes (cc_codec cfg)"
  shows "envelope_Validate (cc_codec cfg) e = None
    \<and> e_Scope e = o_Scope (s_Options s) \<and> e_Args e = json_Compact (cc_codec cfg) (s_Args s)
    \<and> e_Queue e \<in> set (cc_queues cfg)
    \<and> list_all (\<lambda>(k, _). k \<in> set (cc_headers cfg)) (e_Headers e)
    \<and> (e_ExpiresAt e \<noteq> 0 \<longrightarrow> cc_now cfg < e_ExpiresAt e \<and> (e_ETA e \<noteq> 0 \<longrightarrow> e_ETA e < e_ExpiresAt e))
    \<and> (\<exists>d. lookup (cc_registry cfg) (s_Task s) (s_Version s) = Inr d \<and> d_validate d (e_Args e) = None)
    \<and> (\<forall>link \<in> set (e_Callbacks e @ e_Errbacks e).
         o_Scope (s_Options link) = e_Scope e \<and> o_Queue (s_Options link) \<in> set (cc_queues cfg)
         \<and> confined cfg (e_Scope e) link)"
  using assms(1)
proof (cases rule: prepare_spec)
  case (1 d s')
  note spec = prepare_checked_spec [OF 1(4)]
  from spec(5) obtain i q eta where e: "e = prepared_envelope cfg d s' i q eta" by blast
  have "confined cfg (o_Scope (s_Options s)) s'"
    using normalizeLinkOptions_confined [OF assms(2) 1(1,5)] .
  then have "list_all (\<lambda>link. o_Scope (s_Options link) = o_Scope (s_Options s)
      \<and> o_Queue (s_Options link) \<in> set (cc_queues cfg)
      \<and> confined cfg (o_Scope (s_Options s)) link) (s_Callbacks s' @ s_Errbacks s')"
    by (cases s') (auto simp: list_all_iff)
  then have "\<forall>link \<in> set (e_Callbacks e @ e_Errbacks e). o_Scope (s_Options link) = o_Scope (s_Options s)
      \<and> o_Queue (s_Options link) \<in> set (cc_queues cfg) \<and> confined cfg (o_Scope (s_Options s)) link"
    by (auto simp: e clone_links_def list_all_iff split: if_splits)
  moreover have "e_Scope e = o_Scope (s_Options s)" "e_Args e = json_Compact (cc_codec cfg) (s_Args s)"
    using e 1(6,9) by simp_all
  moreover have "\<exists>d. lookup (cc_registry cfg) (s_Task s) (s_Version s) = Inr d
      \<and> d_validate d (e_Args e) = None"
    using 1(2,3,7,8,9) e by simp
  ultimately show ?thesis using spec(1-4) by (simp add: list_all_iff)
qed

theorem prepare_confined_witness:
  "\<exists>e. prepare mail_client mail_signature = Inr e \<and> e_Scope e = ''t1''
       \<and> (\<forall>link \<in> set (e_Callbacks e). o_Scope (s_Options link) = ''t1'')
       \<and> e_Callbacks e \<noteq> []"
proof -
  obtain e where e: "prepare mail_client mail_signature = Inr e" "e_Callbacks e = [mail_link]"
    using mail_prepared by blast
  have "o_Scope (s_Options mail_signature) = ''t1''" by (simp add: mail_signature_def)
  with prepare_confined [OF e(1) mail_encodable(3)] e show ?thesis by auto
qed

end
