(* ===== verification/Async_Canvas.thy ===== *)
theory Async_Canvas
  imports Async_Client
begin

text \<open>
  Workflow coordination (\<open>src/async/canvas.go\<close>, \<open>canvas_cancel.go\<close>, \<open>canvas_limits.go\<close>,
  \<open>nested.go\<close>): how a durable graph advances when a member completes, is cancelled or outgrows its
  payload budget, and which intents each step leaves in the outbox.

  A step returns an error or the next graph with its intents. The members of a graph are a Go map:
  an association list whose order stands for the iteration order of the map. The loop over turns
  of a nested graph recurses on the number of turns left, as the code bounds it by the number of
  nodes.
\<close>

type_synonym advance_result = "async_error + (graph \<times> intent list)"

subsection \<open>Members and intents\<close>

definition member :: "graph \<Rightarrow> string \<Rightarrow> completion option" where
  "member g i = map_of (g_Members g) i"

fun set_member :: "string \<Rightarrow> completion \<Rightarrow> (string \<times> completion) list \<Rightarrow> (string \<times> completion) list" where
  "set_member i c [] = [(i, c)]"
| "set_member i c ((j, d) # ms) = (if i = j then (j, c) # ms else (j, d) # set_member i c ms)"

lemma map_of_set_member [simp]: "map_of (set_member i c ms) = (map_of ms)(i \<mapsto> c)"
  by (induction ms) auto

definition dispatchIntent :: "string \<Rightarrow> envelope \<Rightarrow> intent" where
  "dispatchIntent source e =
     zero_intent\<lparr>i_ID := StableID source (''dispatch-'' @ e_ID e), i_SourceID := source,
                 i_Kind := ''publish'', i_Envelope := Some e\<rparr>"

definition unpin_intent :: "graph \<Rightarrow> string \<Rightarrow> intent" where
  "unpin_intent g i =
     zero_intent\<lparr>i_ID := StableID (g_ID g) (''unpin-'' @ i), i_SourceID := g_ID g,
                 i_Kind := ''unpin'', i_TargetID := i\<rparr>"

definition graphUnpins :: "graph \<Rightarrow> intent list" where
  "graphUnpins g =
     map (\<lambda>child. unpin_intent g (e_ID child)) (filter (\<lambda>child. member g (e_ID child) \<noteq> None) (g_Children g))
     @ (if g_CallbackID g \<noteq> [] \<and> member g (g_CallbackID g) \<noteq> None
        then [unpin_intent g (g_CallbackID g)] else [])"

definition revoked_failure :: "string \<Rightarrow> failure" where
  "revoked_failure msg = \<lparr>f_Code = ''REVOKED'', f_Message = msg\<rparr>"

definition cancellationIntent :: "string \<Rightarrow> envelope \<Rightarrow> bool \<Rightarrow> intent" where
  "cancellationIntent source e dispatched =
     (let i = zero_intent\<lparr>i_ID := StableID source (''cancel-'' @ e_ID e), i_SourceID := source,
                          i_Kind := ''cancel'', i_Envelope := Some e\<rparr>
      in if dispatched then i
         else i\<lparr>i_Kind := ''fail'', i_State := Revoked,
               i_Failure := Some (revoked_failure ''Workflow task was canceled before dispatch'')\<rparr>)"

definition replacementCompletionIntents :: "graph \<Rightarrow> intent list" where
  "replacementCompletionIntents g =
     (if g_OriginTaskID g = [] \<or> \<not> Terminal (g_State g) then []
      else [zero_intent\<lparr>i_ID := StableID (g_ID g) ''replacement-completion'',
                        i_SourceID := g_ID g, i_Kind := ''replacement_complete'',
                        i_WorkflowID := g_ID g, i_TargetID := g_OriginTaskID g,
                        i_Completion := Some \<lparr>c_ID = g_OriginTaskID g, c_State = g_State g,
                                              c_Output = g_Output g, c_Failure = g_Failure g\<rparr>\<rparr>])"

subsection \<open>Cancellation\<close>

definition pending_children :: "graph \<Rightarrow> (nat \<times> envelope) list" where
  "pending_children g =
     filter (\<lambda>(i, child). member g (e_ID child) = None) (List.enumerate 0 (g_Children g))"

definition callback_pending :: "graph \<Rightarrow> bool" where
  "callback_pending g = (g_CallbackClaimed g \<and> member g (g_CallbackID g) = None)"

definition advanceCanceled :: "graph \<Rightarrow> advance_result" where
  "advanceCanceled g =
     (let cancels = map (\<lambda>(i, child). cancellationIntent (g_ID g) child
                           (g_Kind g \<noteq> ''chain'' \<or> i \<le> g_Next g)) (pending_children g)
      in if callback_pending g then
           (case g_CallbackEnvelope g of
              None \<Rightarrow> Inl ErrUnavailable
            | Some e \<Rightarrow> Inr (g, cancels @ [cancellationIntent (g_ID g) e True]))
         else if pending_children g = [] then
           (let g' = g\<lparr>g_State := Revoked, g_Output := [],
                      g_Failure := Some (revoked_failure ''Workflow cancellation was recorded'')\<rparr>
            in Inr (g', cancels @ graphUnpins g'))
         else Inr (g, cancels))"

subsection \<open>Budgets and aborted graphs\<close>

definition MaxWorkflowInitialBytes :: nat where "MaxWorkflowInitialBytes = 2097152"
definition MaxWorkflowWorkingBytes :: nat where "MaxWorkflowWorkingBytes = 4194304"
definition MaxWorkflowDurableBytes :: nat where "MaxWorkflowDurableBytes = 8388608"

definition withinGraphBudget :: "codec \<Rightarrow> graph \<Rightarrow> intent list \<Rightarrow> nat \<Rightarrow> bool" where
  "withinGraphBudget C g is limit =
     ((case marshal_Graph C g of None \<Rightarrow> False | Some b \<Rightarrow> length b \<le> limit)
      \<and> (case marshal_Intents C is of None \<Rightarrow> False | Some b \<Rightarrow> length b \<le> limit))"

definition validateGraphAcceptance :: "codec \<Rightarrow> graph \<Rightarrow> intent list \<Rightarrow> async_error option" where
  "validateGraphAcceptance C g is =
     (if withinGraphBudget C g is MaxWorkflowInitialBytes then None else Some ErrInvalid)"

definition abort_intent :: "graph \<Rightarrow> envelope \<Rightarrow> intent" where
  "abort_intent g child =
     (dispatchIntent (g_ID g) child)\<lparr>i_Kind := ''fail'', i_Failure := g_AbortFailure g,
                                     i_State := Failed\<rparr>"

definition last_child :: "envelope list \<Rightarrow> string \<Rightarrow> envelope option" where
  "last_child cs i = find (\<lambda>child. e_ID child = i) (rev cs)"

text \<open>The nodes of an aborted nested graph: the new plan, the synthetic failures, and whether all
  tasks have completed.\<close>

fun abort_plan :: "graph \<Rightarrow> canvas_node list \<Rightarrow> async_error + (canvas_node list \<times> intent list \<times> bool)" where
  "abort_plan g [] = Inr ([], [], True)"
| "abort_plan g (node # ns) =
     (if n_Kind node \<noteq> ''task'' \<or> member g (n_ID node) \<noteq> None then
        (case abort_plan g ns of Inl e \<Rightarrow> Inl e | Inr (ns', is, fin) \<Rightarrow> Inr (node # ns', is, fin))
      else if n_Dispatched node then
        (case abort_plan g ns of Inl e \<Rightarrow> Inl e | Inr (ns', is, fin) \<Rightarrow> Inr (node # ns', is, False))
      else (case last_child (g_Children g) (n_ID node) of
              None \<Rightarrow> Inl ErrInvalid
            | Some child \<Rightarrow>
                (case abort_plan g ns of
                   Inl e \<Rightarrow> Inl e
                 | Inr (ns', is, fin) \<Rightarrow>
                     Inr (node\<lparr>n_Dispatched := True\<rparr> # ns', abort_intent g child # is, False))))"

definition drop_outputs :: "graph \<Rightarrow> graph" where
  "drop_outputs g =
     g\<lparr>g_Members := map (\<lambda>(i, c). (i, c\<lparr>c_Output := []\<rparr>)) (g_Members g), g_Output := []\<rparr>"

definition abort_finish :: "graph \<Rightarrow> intent list \<Rightarrow> bool \<Rightarrow> advance_result" where
  "abort_finish g is fin =
     (if fin then
        (let g' = g\<lparr>g_State := Failed, g_Failure := g_AbortFailure g\<rparr>
         in Inr (g', is @ graphUnpins g'))
      else Inr (g, is))"

definition advanceAbortedGraph :: "graph \<Rightarrow> advance_result" where
  "advanceAbortedGraph g0 =
     (if g_AbortFailure g0 = None then Inl ErrInvalid
      else let g = drop_outputs g0 in
        if g_Kind g = ''dag'' then
          (case abort_plan g (g_Plan g) of
             Inl e \<Rightarrow> Inl e
           | Inr (plan, is, fin) \<Rightarrow> abort_finish (g\<lparr>g_Plan := plan\<rparr>) is fin)
        else abort_finish g
               (map (\<lambda>(i, child). abort_intent g child)
                  (filter (\<lambda>(i, child). g_Kind g = ''chain'' \<and> i > g_Next g) (pending_children g)))
               (pending_children g = [] \<and> \<not> callback_pending g))"

subsection \<open>Chains, groups and chords\<close>

definition finish :: "graph \<Rightarrow> task_state \<Rightarrow> raw_json \<Rightarrow> advance_result" where
  "finish g state out =
     (let g' = g\<lparr>g_State := state, g_Output := out\<rparr>
      in Inr (g', map (\<lambda>(i, _). unpin_intent g' i) (g_Members g)))"

definition failed_with :: "graph \<Rightarrow> string \<Rightarrow> string \<Rightarrow> advance_result" where
  "failed_with g code msg =
     finish (g\<lparr>g_Failure := Some \<lparr>f_Code = code, f_Message = msg\<rparr>\<rparr>) Failed []"

definition fail_intent :: "graph \<Rightarrow> envelope \<Rightarrow> intent" where
  "fail_intent g e = (dispatchIntent (g_ID g) e)\<lparr>i_Kind := ''fail''\<rparr>"

text \<open>The successor \<open>n\<close> of a chain receives the output of its predecessor.\<close>

definition chain_successor :: "client_config \<Rightarrow> graph \<Rightarrow> raw_json \<Rightarrow> advance_result" where
  "chain_successor cfg g out =
     (let n = g_Next g; C = cc_codec cfg; child = g_Children g ! n in
      if length (g_Signatures g) \<le> n then Inl (ErrBackend ''index out of range'')
      else case signature_bind C (g_Signatures g ! n) out of
             Inl _ \<Rightarrow> failed_with g ''CHAIN_INPUT''
                        ''A chain successor could not accept the previous result''
           | Inr s \<Rightarrow>
               (case lookup (cc_registry cfg) (s_Task s) (s_Version s) of
                  Inl e \<Rightarrow> Inl e
                | Inr d \<Rightarrow>
                    if d_validate d (s_Args s) \<noteq> None then Inr (g, [fail_intent g child])
                    else let next = child\<lparr>e_Args := s_Args s\<rparr> in
                         if envelope_Validate C next \<noteq> None then Inr (g, [fail_intent g child])
                         else Inr (g\<lparr>g_Children := (g_Children g)[n := next]\<rparr>,
                                   [dispatchIntent (g_ID g) next])))"

definition advance_chain :: "client_config \<Rightarrow> graph \<Rightarrow> advance_result" where
  "advance_chain cfg g =
     (case member g (e_ID (g_Children g ! g_Next g)) of
        None \<Rightarrow> Inr (g, [])
      | Some completed \<Rightarrow>
          if c_State completed \<noteq> Succeeded
          then failed_with g ''CHAIN_FAILED'' ''A chain task did not succeed''
          else let g' = g\<lparr>g_Next := Suc (g_Next g)\<rparr> in
               if g_Next g' = length (g_Children g') then finish g' Succeeded (c_Output completed)
               else chain_successor cfg g' (c_Output completed))"

definition chord_input :: string where
  "chord_input = ''The chord callback could not accept member results''"

definition chord_callback :: "client_config \<Rightarrow> graph \<Rightarrow> raw_json \<Rightarrow> advance_result" where
  "chord_callback cfg g combined =
     (case g_Callback g of
        None \<Rightarrow> Inl (ErrBackend ''nil pointer'')
      | Some callback \<Rightarrow>
          (case signature_bind (cc_codec cfg) callback combined of
             Inl _ \<Rightarrow> failed_with g ''CHORD_INPUT'' chord_input
           | Inr s \<Rightarrow>
               (case prepare cfg (WithID (g_CallbackID g) s) of
                  Inl _ \<Rightarrow> failed_with g ''CHORD_INPUT'' chord_input
                | Inr e0 \<Rightarrow>
                    let e = e0\<lparr>e_WorkflowID := g_ID g, e_RootID := g_ID g, e_ParentID := g_ID g\<rparr>
                    in Inr (g\<lparr>g_CallbackClaimed := True, g_CallbackEnvelope := Some e\<rparr>,
                            [dispatchIntent (g_ID g) e]))))"

definition advance_barrier :: "client_config \<Rightarrow> graph \<Rightarrow> advance_result" where
  "advance_barrier cfg g =
     (if g_CallbackClaimed g then
        (case member g (g_CallbackID g) of
           None \<Rightarrow> Inr (g, [])
         | Some body \<Rightarrow>
             finish (if c_State body \<noteq> Succeeded then g\<lparr>g_Failure := c_Failure body\<rparr> else g)
               (c_State body) (c_Output body))
      else (case those (map (\<lambda>child. member g (e_ID child)) (g_Children g)) of
             None \<Rightarrow> Inr (g, [])
           | Some members \<Rightarrow>
               if list_ex (\<lambda>c. c_State c \<noteq> Succeeded) members
               then failed_with g ''GROUP_FAILED'' ''One or more workflow members did not succeed''
               else (case marshal_Outputs (cc_codec cfg) (map c_Output members) of
                       None \<Rightarrow> Inl (ErrBackend ''json'')
                     | Some combined \<Rightarrow>
                         if g_Kind g = ''group'' then finish g Succeeded combined
                         else if g_Kind g = ''chord'' then chord_callback cfg g combined
                         else Inl ErrInvalid)))"

subsection \<open>Nested graphs\<close>

text \<open>
  The state of the turns: the graph, the total size of the children's arguments, the intents so
  far, and whether the current turn made progress.
\<close>

record nested_state =
  ns_graph :: graph
  ns_bytes :: int
  ns_intents :: "intent list"
  ns_progress :: bool

definition child_index :: "envelope list \<Rightarrow> string \<Rightarrow> nat option" where
  "child_index cs i = find (\<lambda>k. e_ID (cs ! k) = i) (rev [0..<length cs])"

definition argument_bytes :: "envelope list \<Rightarrow> int" where
  "argument_bytes cs = sum_list (map (\<lambda>child. int (length (e_Args child))) cs)"

definition group_failed :: failure where
  "group_failed = \<lparr>f_Code = ''GROUP_FAILED'',
                   f_Message = ''One or more workflow members did not succeed''\<rparr>"

text \<open>
  The dependencies of a node: \<open>None\<close> while one is missing, otherwise whether one did not succeed
  and, in order, the outputs of the value dependencies.
\<close>

definition node_inputs :: "graph \<Rightarrow> canvas_node \<Rightarrow> (bool \<times> raw_json list) option" where
  "node_inputs g node =
     (case (those (map (member g) (n_Dependencies node)), those (map (member g) (n_WaitFor node))) of
        (Some deps, Some waits) \<Rightarrow>
          Some (list_ex (\<lambda>c. c_State c \<noteq> Succeeded) (deps @ waits), map c_Output deps)
      | _ \<Rightarrow> None)"

definition node_settled :: "graph \<Rightarrow> canvas_node \<Rightarrow> bool" where
  "node_settled g node = (member g (n_ID node) \<noteq> None \<or> n_Dispatched node)"

definition collect_member :: "codec \<Rightarrow> canvas_node \<Rightarrow> bool \<Rightarrow> raw_json list \<Rightarrow> completion" where
  "collect_member C node bad outs =
     (if bad then \<lparr>c_ID = n_ID node, c_State = Failed, c_Output = [], c_Failure = Some group_failed\<rparr>
      else \<lparr>c_ID = n_ID node, c_State = Succeeded,
            c_Output = (case marshal_Outputs C outs of None \<Rightarrow> [] | Some b \<Rightarrow> b), c_Failure = None\<rparr>)"

text \<open>
  The envelope a ready task node runs with, or the failure that is recorded for it instead;
  \<open>Inl\<close> reports that the arguments outgrew the working budget.
\<close>

definition bind_node ::
  "client_config \<Rightarrow> int \<Rightarrow> signature \<Rightarrow> envelope \<Rightarrow> bool \<Rightarrow> raw_json list
   \<Rightarrow> async_error + (envelope \<times> failure option)" where
  "bind_node cfg bytes s e bad outs =
     (let C = cc_codec cfg;
          rejected = Inr (e, Some \<lparr>f_Code = ''WORKFLOW_INPUT'',
            f_Message = ''A workflow task could not accept the upstream result''\<rparr>)
      in if bad then
           Inr (e, Some \<lparr>f_Code = ''PARENT_FAILED'',
             f_Message = ''A required upstream task did not succeed''\<rparr>)
         else if length outs = 1 \<and> \<not> s_Immutable s then
           (case signature_bind C s (hd outs) of
              Inl _ \<Rightarrow> rejected
            | Inr b \<Rightarrow>
                (case lookup (cc_registry cfg) (s_Task b) (s_Version b) of
                   Inl _ \<Rightarrow> rejected
                 | Inr d \<Rightarrow>
                     if d_validate d (s_Args b) \<noteq> None then rejected
                     else if bytes - int (length (e_Args e)) + int (length (s_Args b))
                             > int MaxWorkflowWorkingBytes
                       then Inl ErrWorkflowSize
                     else if envelope_Validate C (e\<lparr>e_Args := s_Args b\<rparr>) \<noteq> None then rejected
                     else Inr (e\<lparr>e_Args := s_Args b\<rparr>, None)))
         else Inr (e, None))"

definition node_intent :: "graph \<Rightarrow> envelope \<Rightarrow> failure option \<Rightarrow> intent" where
  "node_intent g e fl =
     (case fl of
        None \<Rightarrow> dispatchIntent (g_ID g) e
      | Some f \<Rightarrow> (dispatchIntent (g_ID g) e)\<lparr>i_Kind := ''fail'', i_Failure := Some f\<rparr>)"

definition nested_node :: "client_config \<Rightarrow> nat \<Rightarrow> nested_state \<Rightarrow> async_error + nested_state" where
  "nested_node cfg i s =
     (let g = ns_graph s; node = g_Plan g ! i in
      if node_settled g node then Inr s
      else case node_inputs g node of
             None \<Rightarrow> Inr s
           | Some (bad, outs) \<Rightarrow>
               if n_Kind node = ''collect'' then
                 Inr (s\<lparr>ns_graph := g\<lparr>g_Members := set_member (n_ID node)
                                        (collect_member (cc_codec cfg) node bad outs) (g_Members g)\<rparr>,
                       ns_progress := True\<rparr>)
               else (case (n_Signature node, child_index (g_Children g) (n_ID node)) of
                       (Some sig, Some k) \<Rightarrow>
                         if n_Kind node \<noteq> ''task'' \<or> length outs > 1 then Inl ErrInvalid
                         else (case bind_node cfg (ns_bytes s) sig (g_Children g ! k) bad outs of
                                 Inl err \<Rightarrow> Inl err
                               | Inr (e, fl) \<Rightarrow>
                                   Inr (s\<lparr>ns_graph :=
                                            g\<lparr>g_Children := (g_Children g)[k := e],
                                              g_Plan := (g_Plan g)[i := node\<lparr>n_Dispatched := True\<rparr>]\<rparr>,
                                         ns_bytes := ns_bytes s + int (length (e_Args e))
                                                     - int (length (e_Args (g_Children g ! k))),
                                         ns_intents := ns_intents s @ [node_intent g e fl],
                                         ns_progress := True\<rparr>))
                     | _ \<Rightarrow> Inl ErrInvalid))"

fun nested_pass :: "client_config \<Rightarrow> nat list \<Rightarrow> nested_state \<Rightarrow> async_error + nested_state" where
  "nested_pass cfg [] s = Inr s"
| "nested_pass cfg (i # is) s =
     (case nested_node cfg i s of Inl e \<Rightarrow> Inl e | Inr s' \<Rightarrow> nested_pass cfg is s')"

fun nested_turns :: "client_config \<Rightarrow> nat \<Rightarrow> nested_state \<Rightarrow> async_error + nested_state" where
  "nested_turns cfg 0 s = Inr s"
| "nested_turns cfg (Suc left) s =
     (case nested_pass cfg [0..<length (g_Plan (ns_graph s))] (s\<lparr>ns_progress := False\<rparr>) of
        Inl e \<Rightarrow> Inl e
      | Inr s' \<Rightarrow> if ns_progress s' then nested_turns cfg left s' else Inr s')"

fun cancel_plan :: "graph \<Rightarrow> canvas_node list \<Rightarrow> async_error + (canvas_node list \<times> intent list)" where
  "cancel_plan g [] = Inr ([], [])"
| "cancel_plan g (node # ns) =
     (if n_Kind node \<noteq> ''task'' \<or> member g (n_ID node) \<noteq> None then
        (case cancel_plan g ns of Inl e \<Rightarrow> Inl e | Inr (ns', is) \<Rightarrow> Inr (node # ns', is))
      else (case last_child (g_Children g) (n_ID node) of
              None \<Rightarrow> Inl ErrInvalid
            | Some child \<Rightarrow>
                (case cancel_plan g ns of
                   Inl e \<Rightarrow> Inl e
                 | Inr (ns', is) \<Rightarrow>
                     Inr (node\<lparr>n_Dispatched := True\<rparr> # ns',
                          cancellationIntent (g_ID g) child (n_Dispatched node) # is))))"

definition nested_finish :: "graph \<Rightarrow> intent list \<Rightarrow> graph \<times> intent list" where
  "nested_finish g is =
     (case member g (g_RootNode g) of
        None \<Rightarrow> (g, is)
      | Some root \<Rightarrow>
          let g' = (if g_CancelRequested g
                    then g\<lparr>g_State := Revoked, g_Output := [],
                           g_Failure := Some (revoked_failure ''Workflow cancellation was recorded'')\<rparr>
                    else g\<lparr>g_State := c_State root, g_Output := c_Output root,
                           g_Failure := c_Failure root\<rparr>)
          in (g', is @ map (\<lambda>child. unpin_intent g' (e_ID child))
                         (filter (\<lambda>child. member g' (e_ID child) \<noteq> None) (g_Children g'))))"

definition nested_start :: "graph \<Rightarrow> intent list \<Rightarrow> nested_state" where
  "nested_start g is =
     \<lparr>ns_graph = g, ns_bytes = argument_bytes (g_Children g), ns_intents = is,
      ns_progress = False\<rparr>"

definition advanceNested :: "client_config \<Rightarrow> graph \<Rightarrow> advance_result" where
  "advanceNested cfg g =
     (if Terminal (g_State g) then Inr (g, graphUnpins g)
      else if length (g_Plan g) > 2000 \<or> length (g_Children g) > 1000 \<or> g_RootNode g = []
        then Inl ErrInvalid
      else case (if g_CancelRequested g then cancel_plan g (g_Plan g) else Inr (g_Plan g, [])) of
             Inl e \<Rightarrow> Inl e
           | Inr (plan, is) \<Rightarrow>
               (case nested_turns cfg (Suc (length plan)) (nested_start (g\<lparr>g_Plan := plan\<rparr>) is) of
                  Inl e \<Rightarrow> Inl e
                | Inr s \<Rightarrow> Inr (nested_finish (ns_graph s) (ns_intents s))))"

subsection \<open>Advancing\<close>

definition advanceGraph :: "client_config \<Rightarrow> graph \<Rightarrow> advance_result" where
  "advanceGraph cfg g =
     (if Terminal (g_State g) then Inr (g, graphUnpins g)
      else if g_Kind g = ''dag'' then advanceNested cfg g
      else if g_CancelRequested g then advanceCanceled g
      else if g_Kind g = ''chain'' \<and> g_Children g = [] then finish g Succeeded ''[]''
      else if g_Kind g = ''chain'' \<and> g_Next g < length (g_Children g) then advance_chain cfg g
      else advance_barrier cfg g)"

definition size_failure :: failure where
  "size_failure = \<lparr>f_Code = ''WORKFLOW_SIZE'',
                   f_Message = ''Workflow coordination exceeded its bounded payload budget''\<rparr>"

definition advance_body :: "client_config \<Rightarrow> graph \<Rightarrow> advance_result" where
  "advance_body cfg g =
     (if g_AbortFailure g \<noteq> None \<and> \<not> g_CancelRequested g then advanceAbortedGraph g
      else let limit = (if g_CancelRequested g then MaxWorkflowDurableBytes
                        else MaxWorkflowWorkingBytes);
               aborted = advanceAbortedGraph (g\<lparr>g_AbortFailure := Some size_failure\<rparr>)
           in case advanceGraph cfg g of
                Inl e \<Rightarrow> if e = ErrWorkflowSize then aborted else Inl e
              | Inr (g', is) \<Rightarrow>
                  if withinGraphBudget (cc_codec cfg) g' is limit then Inr (g', is) else aborted)"

definition advance :: "client_config \<Rightarrow> graph \<Rightarrow> advance_result" where
  "advance cfg g =
     (case advance_body cfg g of
        Inl e \<Rightarrow> Inl e
      | Inr (g', is) \<Rightarrow> Inr (g', is @ replacementCompletionIntents g'))"

end
