(* ===== verification/Async_Nested.thy ===== *)
theory Async_Nested
  imports Async_Canvas
begin

text \<open>
  Correctness of nested workflow graphs (\<open>advanceNested\<close> of \<open>src/async/nested.go\<close>): the bounded
  number of turns reaches a fixed point, every node is dispatched at most once, and only when its
  dependencies allow it.
\<close>

subsection \<open>One node\<close>

definition ready :: "graph \<Rightarrow> canvas_node \<Rightarrow> bool" where
  "ready g node = (\<not> node_settled g node \<and> node_inputs g node \<noteq> None)"

definition open_nodes :: "graph \<Rightarrow> nat set" where
  "open_nodes g = {j. j < length (g_Plan g) \<and> \<not> node_settled g (g_Plan g ! j)}"

text \<open>
  What a turn keeps: members are never replaced, plan nodes only become dispatched, the identity
  of the graph and of its children stays.
\<close>

definition grows :: "graph \<Rightarrow> graph \<Rightarrow> bool" where
  "grows g g' =
     (g_ID g' = g_ID g \<and> g_Scope g' = g_Scope g \<and> g_Kind g' = g_Kind g
      \<and> g_CancelRequested g' = g_CancelRequested g \<and> g_CallbackClaimed g' = g_CallbackClaimed g
      \<and> length (g_Plan g') = length (g_Plan g)
      \<and> (\<forall>i c. member g i = Some c \<longrightarrow> member g' i = Some c)
      \<and> (\<forall>j < length (g_Plan g).
           g_Plan g' ! j = g_Plan g ! j \<or> g_Plan g' ! j = (g_Plan g ! j)\<lparr>n_Dispatched := True\<rparr>)
      \<and> map e_ID (g_Children g') = map e_ID (g_Children g))"

lemma grows_refl [simp]: "grows g g"
  by (simp add: grows_def)

lemma grows_plan:
  assumes "grows g g'" "j < length (g_Plan g)"
  shows "n_ID (g_Plan g' ! j) = n_ID (g_Plan g ! j)"
    "n_Dependencies (g_Plan g' ! j) = n_Dependencies (g_Plan g ! j)"
    "n_WaitFor (g_Plan g' ! j) = n_WaitFor (g_Plan g ! j)"
    "n_Dispatched (g_Plan g ! j) \<Longrightarrow> n_Dispatched (g_Plan g' ! j)"
  using assms unfolding grows_def by (metis canvas_node.select_convs canvas_node.update_convs(6)
      canvas_node.surjective)+

lemma grows_trans:
  assumes "grows g g1" "grows g1 g2"
  shows "grows g g2"
proof -
  have "g_Plan g2 ! j = g_Plan g ! j \<or> g_Plan g2 ! j = (g_Plan g ! j)\<lparr>n_Dispatched := True\<rparr>"
    if "j < length (g_Plan g)" for j
  proof -
    have "g_Plan g1 ! j = g_Plan g ! j \<or> g_Plan g1 ! j = (g_Plan g ! j)\<lparr>n_Dispatched := True\<rparr>"
      "g_Plan g2 ! j = g_Plan g1 ! j \<or> g_Plan g2 ! j = (g_Plan g1 ! j)\<lparr>n_Dispatched := True\<rparr>"
      using assms that by (simp_all add: grows_def)
    then show ?thesis by (elim disjE) simp_all
  qed
  with assms show ?thesis by (simp add: grows_def)
qed

lemma grows_settled:
  assumes "grows g g'" "j < length (g_Plan g)" "node_settled g (g_Plan g ! j)"
  shows "node_settled g' (g_Plan g' ! j)"
  using assms(3) grows_plan [OF assms(1,2)] assms(1) unfolding node_settled_def grows_def
  by (metis option.distinct(1) option.exhaust)

lemma grows_open: "grows g g' \<Longrightarrow> open_nodes g' \<subseteq> open_nodes g"
  using grows_settled unfolding open_nodes_def grows_def by fastforce

lemma finite_open [simp]: "finite (open_nodes g)"
  by (simp add: open_nodes_def)

lemma nested_node_idle: "\<not> ready (ns_graph s) (g_Plan (ns_graph s) ! i) \<Longrightarrow> nested_node cfg i s = Inr s"
  by (cases "node_settled (ns_graph s) (g_Plan (ns_graph s) ! i)")
     (simp_all add: nested_node_def ready_def Let_def del: not_None_eq)

lemma child_index_Some:
  "child_index cs i = Some k \<Longrightarrow> k < length cs \<and> e_ID (cs ! k) = i"
  by (auto simp: child_index_def find_Some_iff rev_nth)

lemma bind_node_id:
  "bind_node cfg bytes s e bad outs = Inr (e', fl) \<Longrightarrow> e_ID e' = e_ID e \<and> (bad \<longrightarrow> fl \<noteq> None)"
  by (auto simp: bind_node_def Let_def split: if_splits sum.splits)

text \<open>A ready node is either collected or dispatched.\<close>

lemma nested_node_cases:
  assumes "nested_node cfg i s = Inr s'" "ready (ns_graph s) (g_Plan (ns_graph s) ! i)"
  obtains (collect) bad outs where
      "ns_graph s' = (ns_graph s)\<lparr>g_Members := set_member (n_ID (g_Plan (ns_graph s) ! i))
         (collect_member (cc_codec cfg) (g_Plan (ns_graph s) ! i) bad outs) (g_Members (ns_graph s))\<rparr>"
      "ns_intents s' = ns_intents s" "ns_progress s'"
  | (dispatch) bad outs k e fl where
      "node_inputs (ns_graph s) (g_Plan (ns_graph s) ! i) = Some (bad, outs)"
      "child_index (g_Children (ns_graph s)) (n_ID (g_Plan (ns_graph s) ! i)) = Some k"
      "e_ID e = n_ID (g_Plan (ns_graph s) ! i)" "bad \<longrightarrow> fl \<noteq> None"
      "ns_graph s' = (ns_graph s)\<lparr>g_Children := (g_Children (ns_graph s))[k := e],
         g_Plan := (g_Plan (ns_graph s))[i := (g_Plan (ns_graph s) ! i)\<lparr>n_Dispatched := True\<rparr>]\<rparr>"
      "ns_intents s' = ns_intents s @ [node_intent (ns_graph s) e fl]" "ns_progress s'"
proof -
  let ?g = "ns_graph s"
  let ?node = "g_Plan ?g ! i"
  obtain bad outs where inputs: "node_inputs ?g ?node = Some (bad, outs)"
    using assms(2) by (auto simp: ready_def)
  have open_node: "\<not> node_settled ?g ?node" using assms(2) by (simp add: ready_def)
  show thesis
  proof (cases "n_Kind ?node = ''collect''")
    case True
    then show thesis
      using assms(1) inputs open_node collect by (auto simp: nested_node_def Let_def)
  next
    case False
    from assms(1) inputs open_node False obtain sig k where
      k: "n_Signature ?node = Some sig" "child_index (g_Children ?g) (n_ID ?node) = Some k"
        "\<not> (n_Kind ?node \<noteq> ''task'' \<or> length outs > 1)"
      by (auto simp: nested_node_def Let_def split: option.splits if_splits)
    with assms(1) inputs open_node False obtain e fl where
      e: "bind_node cfg (ns_bytes s) sig (g_Children ?g ! k) bad outs = Inr (e, fl)"
      by (auto simp: nested_node_def Let_def split: sum.splits)
    have ids: "e_ID e = n_ID ?node" "bad \<longrightarrow> fl \<noteq> None"
      using bind_node_id [OF e] child_index_Some [OF k(2)] by simp_all
    have "ns_graph s' = ?g\<lparr>g_Children := (g_Children ?g)[k := e],
        g_Plan := (g_Plan ?g)[i := ?node\<lparr>n_Dispatched := True\<rparr>]\<rparr>"
      "ns_intents s' = ns_intents s @ [node_intent ?g e fl]" "ns_progress s'"
      using assms(1) inputs open_node False k e by (auto simp: nested_node_def Let_def)
    with inputs k(2) ids show thesis by (rule dispatch)
  qed
qed

lemma ready_not_member:
  "ready g node \<Longrightarrow> member g (n_ID node) = None \<and> \<not> n_Dispatched node"
  by (simp add: ready_def node_settled_def)

lemma nested_node_grows:
  assumes "nested_node cfg i s = Inr s'" "i < length (g_Plan (ns_graph s))"
  shows "grows (ns_graph s) (ns_graph s')"
proof (cases "ready (ns_graph s) (g_Plan (ns_graph s) ! i)")
  case True
  note new = ready_not_member [OF True]
  from assms(1) True show ?thesis
  proof (cases rule: nested_node_cases)
    case (collect bad outs)
    then show ?thesis using new by (auto simp: grows_def member_def)
  next
    case (dispatch bad outs k e fl)
    then have "map e_ID ((g_Children (ns_graph s))[k := e]) = map e_ID (g_Children (ns_graph s))"
      using child_index_Some [OF dispatch(2)] by (simp add: map_update list_update_same_conv)
    then show ?thesis using dispatch(5) assms(2) by (auto simp: grows_def member_def nth_list_update)
  qed
next
  case False
  then show ?thesis using nested_node_idle assms(1) by simp
qed

lemma nested_node_settles:
  assumes "nested_node cfg i s = Inr s'" "i < length (g_Plan (ns_graph s))"
    and "ready (ns_graph s) (g_Plan (ns_graph s) ! i)"
  shows "node_settled (ns_graph s') (g_Plan (ns_graph s') ! i) \<and> ns_progress s'"
  using assms(1,3)
proof (cases rule: nested_node_cases)
  case (collect bad outs)
  then show ?thesis by (simp add: node_settled_def member_def)
next
  case (dispatch bad outs k e fl)
  then show ?thesis using assms(2) by (simp add: node_settled_def)
qed

lemma nested_node_progress:
  assumes "nested_node cfg i s = Inr s'" "i < length (g_Plan (ns_graph s))"
    and "ready (ns_graph s) (g_Plan (ns_graph s) ! i)"
  shows "open_nodes (ns_graph s') \<subset> open_nodes (ns_graph s)"
proof
  show "open_nodes (ns_graph s') \<subseteq> open_nodes (ns_graph s)"
    using grows_open nested_node_grows [OF assms(1,2)] .
  have "i \<in> open_nodes (ns_graph s)" using assms(2,3) by (simp add: open_nodes_def ready_def)
  moreover have "i \<notin> open_nodes (ns_graph s')"
    using nested_node_settles [OF assms] by (simp add: open_nodes_def)
  ultimately show "open_nodes (ns_graph s') \<noteq> open_nodes (ns_graph s)" by blast
qed

subsection \<open>Passes and turns\<close>

lemma grows_length: "grows g g' \<Longrightarrow> length (g_Plan g') = length (g_Plan g)"
  by (simp add: grows_def)

lemma nested_pass_grows:
  "nested_pass cfg is s = Inr s' \<Longrightarrow> \<forall>i \<in> set is. i < length (g_Plan (ns_graph s)) \<Longrightarrow>
   grows (ns_graph s) (ns_graph s') \<and> (ns_progress s \<longrightarrow> ns_progress s')"
proof (induction cfg "is" s rule: nested_pass.induct)
  case (2 cfg i "is" s)
  from "2.prems"(1) obtain s1 where s1: "nested_node cfg i s = Inr s1" "nested_pass cfg is s1 = Inr s'"
    by (auto split: sum.splits)
  have i: "i < length (g_Plan (ns_graph s))" using "2.prems"(2) by simp
  note g1 = nested_node_grows [OF s1(1) i]
  have p1: "ns_progress s \<longrightarrow> ns_progress s1"
    using nested_node_idle [of s i cfg] nested_node_settles [OF s1(1) i] s1(1)
    by (cases "ready (ns_graph s) (g_Plan (ns_graph s) ! i)") auto
  have "\<forall>j \<in> set is. j < length (g_Plan (ns_graph s1))"
    using "2.prems"(2) grows_length [OF g1] by simp
  with "2.IH" [OF s1] g1 p1 show ?case using grows_trans by blast
qed simp

text \<open>A pass without progress changed nothing, and none of its nodes is ready.\<close>

lemma nested_pass_idle:
  assumes "nested_pass cfg is s = Inr s'" "\<forall>i \<in> set is. i < length (g_Plan (ns_graph s))"
    and "\<not> ns_progress s'"
  shows "s' = s \<and> (\<forall>i \<in> set is. \<not> ready (ns_graph s) (g_Plan (ns_graph s) ! i))"
  using assms
proof (induction cfg "is" s rule: nested_pass.induct)
  case (2 cfg i "is" s)
  from "2.prems"(1) obtain s1 where s1: "nested_node cfg i s = Inr s1" "nested_pass cfg is s1 = Inr s'"
    by (auto split: sum.splits)
  have i: "i < length (g_Plan (ns_graph s))" using "2.prems"(2) by simp
  have len: "\<forall>j \<in> set is. j < length (g_Plan (ns_graph s1))"
    using "2.prems"(2) grows_length [OF nested_node_grows [OF s1(1) i]] by simp
  have "\<not> ready (ns_graph s) (g_Plan (ns_graph s) ! i)"
    using nested_node_settles [OF s1(1) i] nested_pass_grows [OF s1(2) len] "2.prems"(3) by blast
  then have "s1 = s" using nested_node_idle s1(1) by simp
  with "2.IH" [OF s1 len "2.prems"(3)] \<open>\<not> ready _ _\<close> show ?case by simp
qed simp

lemma nested_pass_progress:
  assumes "nested_pass cfg is s = Inr s'" "\<forall>i \<in> set is. i < length (g_Plan (ns_graph s))"
    and "ns_progress s'" "\<not> ns_progress s"
  shows "open_nodes (ns_graph s') \<subset> open_nodes (ns_graph s)"
  using assms
proof (induction cfg "is" s rule: nested_pass.induct)
  case (2 cfg i "is" s)
  from "2.prems"(1) obtain s1 where s1: "nested_node cfg i s = Inr s1" "nested_pass cfg is s1 = Inr s'"
    by (auto split: sum.splits)
  have i: "i < length (g_Plan (ns_graph s))" using "2.prems"(2) by simp
  have len: "\<forall>j \<in> set is. j < length (g_Plan (ns_graph s1))"
    using "2.prems"(2) grows_length [OF nested_node_grows [OF s1(1) i]] by simp
  show ?case
  proof (cases "ready (ns_graph s) (g_Plan (ns_graph s) ! i)")
    case True
    have "open_nodes (ns_graph s') \<subseteq> open_nodes (ns_graph s1)"
      using grows_open nested_pass_grows [OF s1(2) len] by blast
    with nested_node_progress [OF s1(1) i True] show ?thesis by blast
  next
    case False
    then have "s1 = s" using nested_node_idle s1(1) by simp
    with "2.IH" [OF s1 len "2.prems"(3)] "2.prems"(4) show ?thesis by simp
  qed
qed simp

lemma nested_turns_fixed:
  assumes "nested_turns cfg n s = Inr s'" "card (open_nodes (ns_graph s)) < n"
  shows "grows (ns_graph s) (ns_graph s')
         \<and> (\<forall>j < length (g_Plan (ns_graph s')). \<not> ready (ns_graph s') (g_Plan (ns_graph s') ! j))"
  using assms
proof (induction cfg n s rule: nested_turns.induct)
  case (2 cfg n s)
  let ?s = "s\<lparr>ns_progress := False\<rparr>"
  let ?is = "[0..<length (g_Plan (ns_graph s))]"
  from "2.prems"(1) obtain s1 where s1: "nested_pass cfg ?is ?s = Inr s1"
      and rest: "(if ns_progress s1 then nested_turns cfg n s1 else Inr s1) = Inr s'"
    by (auto split: sum.splits)
  have range: "\<forall>i \<in> set ?is. i < length (g_Plan (ns_graph ?s))" by simp
  have grow: "grows (ns_graph s) (ns_graph s1)" using nested_pass_grows [OF s1 range] by simp
  show ?case
  proof (cases "ns_progress s1")
    case True
    have "card (open_nodes (ns_graph s1)) < card (open_nodes (ns_graph s))"
      using nested_pass_progress [OF s1 range True] by (intro psubset_card_mono) simp_all
    then have "card (open_nodes (ns_graph s1)) < n" using "2.prems"(2) by simp
    then have "grows (ns_graph s1) (ns_graph s')
         \<and> (\<forall>j < length (g_Plan (ns_graph s')). \<not> ready (ns_graph s') (g_Plan (ns_graph s') ! j))"
      using "2.IH" [OF s1 True] rest True by simp
    with grow show ?thesis using grows_trans by blast
  next
    case False
    with nested_pass_idle [OF s1 range False] rest show ?thesis by auto
  qed
qed simp

lemma open_nodes_bound: "card (open_nodes g) \<le> length (g_Plan g)"
  using card_mono [of "{..<length (g_Plan g)}" "open_nodes g"] by (auto simp: open_nodes_def)

subsection \<open>Which nodes are dispatched\<close>

lemma those_Some: "those xs = Some ys \<longleftrightarrow> xs = map Some ys"
proof (induction xs arbitrary: ys)
  case (Cons x xs)
  show ?case by (cases x; cases ys) (auto simp: Cons.IH)
qed auto

lemma those_None: "those xs = None \<longleftrightarrow> None \<in> set xs"
  by (induction xs) (auto split: option.splits)

definition succeeded :: "graph \<Rightarrow> string \<Rightarrow> bool" where
  "succeeded g i = (\<exists>c. member g i = Some c \<and> c_State c = Succeeded)"

lemma node_inputs_good:
  assumes "node_inputs g node = Some (False, outs)" "i \<in> set (n_Dependencies node @ n_WaitFor node)"
  shows "succeeded g i"
proof -
  from assms(1) obtain ds ws where
    d: "map (member g) (n_Dependencies node) = map Some ds"
       "map (member g) (n_WaitFor node) = map Some ws" "\<forall>c \<in> set (ds @ ws). c_State c = Succeeded"
    by (auto simp: node_inputs_def those_Some list_ex_iff split: option.splits)
  have "member g i \<in> set (map Some (ds @ ws))"
    using assms(2) d(1,2) by (metis (no_types, lifting) image_eqI list.set_map map_append)
  with d(3) show ?thesis by (auto simp: succeeded_def)
qed

lemma node_inputs_missing:
  "node_inputs g node = None \<longleftrightarrow> (\<exists>i \<in> set (n_Dependencies node @ n_WaitFor node). member g i = None)"
proof -
  have some: "(\<exists>ys. those (map f xs) = Some ys) \<longleftrightarrow> (\<forall>i \<in> set xs. f i \<noteq> None)" for f and xs :: "string list"
    using those_None [of "map f xs"] by (cases "those (map f xs)") force+
  have "node_inputs g node \<noteq> None \<longleftrightarrow> (\<exists>ds. those (map (member g) (n_Dependencies node)) = Some ds)
      \<and> (\<exists>ws. those (map (member g) (n_WaitFor node)) = Some ws)"
    by (auto simp: node_inputs_def split: option.splits)
  then show ?thesis unfolding some by auto
qed

definition dispatched_as :: "graph \<Rightarrow> graph \<Rightarrow> nat \<Rightarrow> intent \<Rightarrow> bool" where
  "dispatched_as g g' k it =
     (k < length (g_Plan g) \<and> \<not> n_Dispatched (g_Plan g ! k) \<and> member g (n_ID (g_Plan g ! k)) = None
      \<and> n_Dispatched (g_Plan g' ! k)
      \<and> (\<exists>e fl. it = node_intent g e fl \<and> e_ID e = n_ID (g_Plan g ! k)
            \<and> (fl = None \<longrightarrow>
                (\<forall>i \<in> set (n_Dependencies (g_Plan g ! k) @ n_WaitFor (g_Plan g ! k)). succeeded g' i))))"

lemma succeeded_mono: "grows g g' \<Longrightarrow> succeeded g i \<Longrightarrow> succeeded g' i"
  unfolding succeeded_def grows_def by blast

lemma dispatched_mono:
  assumes "dispatched_as g g1 k it" "grows g g1" "grows g1 g2"
  shows "dispatched_as g g2 k it"
proof -
  have k: "k < length (g_Plan g1)" using assms(1) grows_length [OF assms(2)]
    by (simp add: dispatched_as_def)
  have "n_Dispatched (g_Plan g2 ! k)"
    using grows_plan(4) [OF assms(3) k] assms(1) by (simp add: dispatched_as_def)
  with assms(1) succeeded_mono [OF assms(3)] show ?thesis unfolding dispatched_as_def by blast
qed

definition traced :: "graph \<Rightarrow> intent list \<Rightarrow> nested_state \<Rightarrow> bool" where
  "traced g base s =
     (grows g (ns_graph s)
      \<and> (\<exists>ks news. distinct ks \<and> ns_intents s = base @ news
            \<and> list_all2 (dispatched_as g (ns_graph s)) ks news))"

lemma nested_node_traced:
  assumes "traced g base s" "nested_node cfg i s = Inr s'" "i < length (g_Plan (ns_graph s))"
  shows "traced g base s'"
proof (cases "ready (ns_graph s) (g_Plan (ns_graph s) ! i)")
  case False
  then show ?thesis using nested_node_idle assms(1,2) by simp
next
  case True
  from assms(1) obtain ks news where grow: "grows g (ns_graph s)"
      and tr: "distinct ks" "ns_intents s = base @ news"
        "list_all2 (dispatched_as g (ns_graph s)) ks news"
    unfolding traced_def by blast
  note step = nested_node_grows [OF assms(2,3)]
  have grow': "grows g (ns_graph s')" using grows_trans [OF grow step] .
  have keep: "list_all2 (dispatched_as g (ns_graph s')) ks news"
    using tr(3) dispatched_mono [OF _ grow step] by (rule list_all2_mono)
  from assms(2) True show ?thesis
  proof (cases rule: nested_node_cases)
    case (collect bad outs)
    then show ?thesis using grow' tr(1,2) keep unfolding traced_def by auto
  next
    case (dispatch bad outs k e fl)
    have i: "i < length (g_Plan g)" using assms(3) grows_length [OF grow] by simp
    note plan = grows_plan [OF grow i]
    have "\<not> n_Dispatched (g_Plan (ns_graph s) ! i)" "member (ns_graph s) (n_ID (g_Plan (ns_graph s) ! i)) = None"
      using ready_not_member [OF True] by simp_all
    then have new: "\<not> n_Dispatched (g_Plan g ! i)" "member g (n_ID (g_Plan g ! i)) = None"
      using plan grow unfolding grows_def by (metis, metis option.exhaust option.distinct(1))
    have "i \<notin> set ks"
    proof
      assume "i \<in> set ks"
      then obtain it where "dispatched_as g (ns_graph s) i it"
        using tr(3) by (auto simp: list_all2_conv_all_nth in_set_conv_nth)
      then show False using \<open>\<not> n_Dispatched (g_Plan (ns_graph s) ! i)\<close> by (simp add: dispatched_as_def)
    qed
    moreover have "dispatched_as g (ns_graph s') i (node_intent (ns_graph s) e fl)"
    proof -
      have "n_Dispatched (g_Plan (ns_graph s') ! i)" using dispatch(5) assms(3) by simp
      moreover have "node_intent (ns_graph s) e fl = node_intent g e fl"
        using grow by (simp add: node_intent_def grows_def split: option.split)
      moreover have "succeeded (ns_graph s') j"
        if "fl = None" "j \<in> set (n_Dependencies (g_Plan g ! i) @ n_WaitFor (g_Plan g ! i))" for j
        using node_inputs_good [of "ns_graph s" "g_Plan (ns_graph s) ! i" outs j] dispatch(1,4) that
          plan(2,3) succeeded_mono [OF step] by simp
      ultimately show ?thesis using i new dispatch(3) plan(1) by (auto simp: dispatched_as_def)
    qed
    ultimately have "distinct (ks @ [i])" "ns_intents s' = base @ (news @ [node_intent (ns_graph s) e fl])"
        "list_all2 (dispatched_as g (ns_graph s')) (ks @ [i]) (news @ [node_intent (ns_graph s) e fl])"
      using tr(1,2) keep dispatch(6) by (simp_all add: list_all2_appendI)
    with grow' show ?thesis unfolding traced_def by blast
  qed
qed

lemma nested_pass_traced:
  "nested_pass cfg is s = Inr s' \<Longrightarrow> \<forall>i \<in> set is. i < length (g_Plan (ns_graph s)) \<Longrightarrow>
   traced g base s \<Longrightarrow> traced g base s'"
proof (induction cfg "is" s rule: nested_pass.induct)
  case (2 cfg i "is" s)
  from "2.prems"(1) obtain s1 where s1: "nested_node cfg i s = Inr s1" "nested_pass cfg is s1 = Inr s'"
    by (auto split: sum.splits)
  have i: "i < length (g_Plan (ns_graph s))" using "2.prems"(2) by simp
  have "\<forall>j \<in> set is. j < length (g_Plan (ns_graph s1))"
    using "2.prems"(2) grows_length [OF nested_node_grows [OF s1(1) i]] by simp
  with "2.IH" [OF s1] nested_node_traced [OF "2.prems"(3) s1(1) i] show ?case by blast
qed simp

lemma traced_progress [simp]: "traced g base (s\<lparr>ns_progress := b\<rparr>) = traced g base s"
  by (simp add: traced_def)

lemma nested_turns_traced:
  "nested_turns cfg n s = Inr s' \<Longrightarrow> traced g base s \<Longrightarrow> traced g base s'"
proof (induction cfg n s rule: nested_turns.induct)
  case (2 cfg n s)
  let ?is = "[0..<length (g_Plan (ns_graph s))]"
  from "2.prems"(1) obtain s1 where s1: "nested_pass cfg ?is (s\<lparr>ns_progress := False\<rparr>) = Inr s1"
      and rest: "(if ns_progress s1 then nested_turns cfg n s1 else Inr s1) = Inr s'"
    by (auto split: sum.splits)
  have "traced g base s1" using nested_pass_traced [OF s1, of g base] "2.prems"(2) by simp
  then show ?case using "2.IH" [OF s1] rest by (cases "ns_progress s1") simp_all
qed simp

lemma nested_finish_sel:
  "nested_finish g is = (g', is') \<Longrightarrow>
   g_Plan g' = g_Plan g \<and> g_Members g' = g_Members g
   \<and> (\<exists>us. is' = is @ us \<and> (\<forall>u \<in> set us. i_Kind u = ''unpin''))"
  by (auto simp: nested_finish_def Let_def unpin_intent_def split: option.splits if_splits)

lemma advanceNested_turns:
  assumes "advanceNested cfg g = Inr (g', is)" "\<not> Terminal (g_State g)"
  obtains plan is0 s where
    "nested_turns cfg (Suc (length plan)) (nested_start (g\<lparr>g_Plan := plan\<rparr>) is0) = Inr s"
    "nested_finish (ns_graph s) (ns_intents s) = (g', is)"
    "\<not> g_CancelRequested g \<Longrightarrow> plan = g_Plan g \<and> is0 = []"
  using assms
  by (auto simp: advanceNested_def simp del: nested_turns.simps split: if_splits sum.splits)

text \<open>A graph of one task whose result a root node collects.\<close>

definition zero_graph :: graph where
  "zero_graph =
     \<lparr>g_ID = [], g_Kind = [], g_Scope = [], g_Children = [], g_Signatures = [], g_Callback = None,
      g_CallbackID = [], g_Members = [], g_MembersNil = False, g_State = NoState, g_Output = [],
      g_Failure = None, g_Next = 0, g_Revision = 0, g_CallbackClaimed = False,
      g_CallbackEnvelope = None, g_CancelRequested = False, g_Plan = [], g_RootNode = [],
      g_OriginTaskID = [], g_OriginDigest = [], g_AbortFailure = None, g_PayloadForgotten = False\<rparr>"

definition pair_graph :: graph where
  "pair_graph =
     zero_graph\<lparr>g_ID := ''g'', g_Kind := ''dag'', g_State := Running, g_RootNode := ''all'',
       g_Children := [zero_envelope\<lparr>e_ID := ''t1''\<rparr>],
       g_Plan := [\<lparr>n_ID = ''t1'', n_Kind = ''task'', n_Dependencies = [], n_WaitFor = [],
                   n_Signature = Some mail_link, n_Dispatched = False\<rparr>,
                  \<lparr>n_ID = ''all'', n_Kind = ''collect'', n_Dependencies = [''t1''], n_WaitFor = [],
                   n_Signature = None, n_Dispatched = False\<rparr>]\<rparr>"

lemma pair_advances:
  "\<exists>g' is. advanceNested mail_client pair_graph = Inr (g', is) \<and> is \<noteq> []"
  by (simp add: advanceNested_def pair_graph_def zero_graph_def nested_start_def nested_node_def
      node_settled_def node_inputs_def member_def child_index_def bind_node_def nested_finish_def
      node_intent_def numeral_eq_Suc Let_def)

subsection \<open>The properties\<close>

lemma advanceNested_idle:
  assumes "advanceNested cfg g = Inr (g', is)" "\<not> Terminal (g_State g)" "node \<in> set (g_Plan g')"
  shows "\<not> ready g' node"
proof -
  from assms(1,2) obtain plan is0 s where
    s: "nested_turns cfg (Suc (length plan)) (nested_start (g\<lparr>g_Plan := plan\<rparr>) is0) = Inr s"
      "nested_finish (ns_graph s) (ns_intents s) = (g', is)"
    by (rule advanceNested_turns)
  have "card (open_nodes (ns_graph (nested_start (g\<lparr>g_Plan := plan\<rparr>) is0))) < Suc (length plan)"
    using open_nodes_bound [of "g\<lparr>g_Plan := plan\<rparr>"] by (simp add: nested_start_def)
  from nested_turns_fixed [OF s(1) this]
  have idle: "\<not> ready (ns_graph s) n" if "n \<in> set (g_Plan (ns_graph s))" for n
    using that by (auto simp: in_set_conv_nth)
  have "g_Plan g' = g_Plan (ns_graph s)" "member g' = member (ns_graph s)"
    using nested_finish_sel [OF s(2)] by (auto simp: member_def fun_eq_iff)
  then have "ready g' node = ready (ns_graph s) node" "node \<in> set (g_Plan (ns_graph s))"
    using assms(3) by (simp_all add: ready_def node_settled_def node_inputs_def)
  then show ?thesis using idle by simp
qed

text \<open>
  C21. The bounded turns of a nested graph are enough. When \<open>advanceNested\<close> has advanced a running
  graph, nothing that could move was left behind: every node of the plan has completed or been
  dispatched, or still waits for a dependency that has not completed.
\<close>

theorem advanceNested_complete:
  assumes "advanceNested cfg g = Inr (g', is)" "\<not> Terminal (g_State g)"
  shows "\<forall>node \<in> set (g_Plan g'). member g' (n_ID node) \<noteq> None \<or> n_Dispatched node
           \<or> (\<exists>i \<in> set (n_Dependencies node @ n_WaitFor node). member g' i = None)"
  using advanceNested_idle [OF assms] unfolding ready_def node_settled_def node_inputs_missing by metis

theorem advanceNested_complete_witness:
  "\<exists>g' is. advanceNested mail_client pair_graph = Inr (g', is)
        \<and> (\<forall>node \<in> set (g_Plan g'). member g' (n_ID node) \<noteq> None \<or> n_Dispatched node
              \<or> (\<exists>i \<in> set (n_Dependencies node @ n_WaitFor node). member g' i = None))"
proof -
  obtain g' "is" where g': "advanceNested mail_client pair_graph = Inr (g', is)"
    using pair_advances by blast
  have "\<not> Terminal (g_State pair_graph)" by (simp add: pair_graph_def)
  with advanceNested_complete [OF g'] g' show ?thesis by blast
qed

text \<open>
  C22. A nested graph dispatches each node at most once, and only when it may run. The new intents
  of an uncancelled step are, in order, one for each of some distinct nodes that were neither
  dispatched nor completed before and are marked dispatched after, followed by unpins of completed
  tasks; an intent that publishes a task belongs to a node all of whose dependencies have
  succeeded.
\<close>

theorem advanceNested_dispatch:
  assumes "advanceNested cfg g = Inr (g', is)" "\<not> Terminal (g_State g)" "\<not> g_CancelRequested g"
  shows "\<exists>ks news unpins. is = news @ unpins \<and> distinct ks
           \<and> list_all2 (dispatched_as g g') ks news \<and> (\<forall>u \<in> set unpins. i_Kind u = ''unpin'')"
proof -
  obtain s where
    s: "nested_turns cfg (Suc (length (g_Plan g))) (nested_start g []) = Inr s"
      "nested_finish (ns_graph s) (ns_intents s) = (g', is)"
    using advanceNested_turns [OF assms(1,2)] assms(3) by (metis graph.surjective graph.update_convs(18))
  have "traced g [] (nested_start g [])"
    unfolding traced_def nested_start_def by (auto intro: exI [of _ "[]"])
  then have "traced g [] s" using nested_turns_traced [OF s(1)] by blast
  then obtain ks news where
    tr: "distinct ks" "ns_intents s = news" "list_all2 (dispatched_as g (ns_graph s)) ks news"
    unfolding traced_def by auto
  have same: "g_Plan g' = g_Plan (ns_graph s)" "g_Members g' = g_Members (ns_graph s)"
    using nested_finish_sel [OF s(2)] by auto
  then have "dispatched_as g g' = dispatched_as g (ns_graph s)"
    by (simp add: dispatched_as_def succeeded_def member_def fun_eq_iff)
  with tr nested_finish_sel [OF s(2)] show ?thesis by metis
qed

theorem advanceNested_dispatch_witness:
  "\<exists>g' is ks news unpins. advanceNested mail_client pair_graph = Inr (g', is) \<and> is = news @ unpins
     \<and> is \<noteq> [] \<and> distinct ks \<and> list_all2 (dispatched_as pair_graph g') ks news"
proof -
  obtain g' "is" where g': "advanceNested mail_client pair_graph = Inr (g', is)" "is \<noteq> []"
    using pair_advances by blast
  have "\<not> Terminal (g_State pair_graph)" "\<not> g_CancelRequested pair_graph"
    by (simp_all add: pair_graph_def zero_graph_def)
  with advanceNested_dispatch [OF g'(1)] g' show ?thesis by blast
qed

end
