(* ===== verification/Async_Workflows.thy ===== *)
theory Async_Workflows
  imports Async_Nested Async_Outbox Optimistic_Loop
begin

text \<open>
  The durable workflow store on Redis (\<open>src/async/redis/workflows.go\<close>) and what its graphs keep.
  A graph is one row beside its revision; \<open>CreateGraph\<close>, \<open>RecordMember\<close> and \<open>CancelGraph\<close> are
  optimistic loops around the script \<open>graphCAS\<close>, which also stages the intents of the step. The
  step function is \<open>Client.advance\<close> with the clock reading of the attempt.
\<close>

subsection \<open>The store\<close>

record graph_row =
  gr_graph :: graph
  gr_revision :: "64 word"

record workflow_store = outbox +
  ws_graphs :: "string \<Rightarrow> graph_row option"
  ws_records :: "string set"

record graph_request =
  gq_Expected :: "64 word"
  gq_Graph :: graph
  gq_Intents :: "intent list"

definition ReadGraph :: "bool \<Rightarrow> graph_row option \<Rightarrow> async_error + graph" where
  "ReadGraph usable row =
     (if \<not> usable then Inl ErrInvalid
      else case row of None \<Rightarrow> Inl ErrNotFound | Some w \<Rightarrow> Inr (gr_graph w))"

definition graphCAS :: "int \<Rightarrow> workflow_store \<Rightarrow> graph_request \<Rightarrow> bool \<times> workflow_store" where
  "graphCAS now st q =
     (let g = gq_Graph q;
          old = (case ws_graphs st (g_ID g) of None \<Rightarrow> 0 | Some w \<Rightarrow> gr_revision w)
      in if old \<noteq> gq_Expected q then (False, st)
         else (True,
               stage_intents now (gq_Intents q)
                 (st\<lparr>ws_graphs := (ws_graphs st)(g_ID g \<mapsto> \<lparr>gr_graph = g, gr_revision = g_Revision g\<rparr>),
                    ws_records := insert (g_ID g) (ws_records st)\<rparr>)))"

definition write_check :: "bool \<Rightarrow> codec \<Rightarrow> graph_request \<Rightarrow> bool" where
  "write_check usable C q =
     (let g = gq_Graph q in
      usable \<and> gq_Expected q \<noteq> max_uint64 \<and> g_Revision g \<noteq> 0 \<and> idPattern (g_ID g)
      \<and> list_all (\<lambda>i. i_SourceID i = g_ID g \<and> idPattern (i_ID i)) (gq_Intents q)
      \<and> distinct (map i_ID (gq_Intents q))
      \<and> withinGraphBudget C g (gq_Intents q) MaxWorkflowDurableBytes)"

definition workflow_write ::
  "bool \<Rightarrow> codec \<Rightarrow> go_time \<Rightarrow> workflow_store \<Rightarrow> graph_request \<Rightarrow> async_error option \<times> workflow_store" where
  "workflow_write usable C now st q =
     (if \<not> write_check usable C q then (Some ErrInvalid, st)
      else case graphCAS (UnixMilli now) st q of
             (True, st') \<Rightarrow> (None, st')
           | (False, st') \<Rightarrow> (Some ErrConflict, st'))"

subsection \<open>The operations\<close>

type_synonym graph_turn = "(graph_request, unit, async_error) turn"

definition graph_request_of :: "64 word \<Rightarrow> graph \<Rightarrow> intent list \<Rightarrow> graph_request" where
  "graph_request_of expected g is = \<lparr>gq_Expected = expected, gq_Graph = g, gq_Intents = is\<rparr>"

lemma graph_request_sel [simp]:
  "gq_Expected (graph_request_of x g is) = x" "gq_Graph (graph_request_of x g is) = g"
  "gq_Intents (graph_request_of x g is) = is"
  by (simp_all add: graph_request_of_def)

definition CreateGraph :: "graph \<Rightarrow> intent list \<Rightarrow> graph_turn" where
  "CreateGraph g is =
     (if g_ID g = [] \<or> g_Revision g \<noteq> 1 \<or> g_MembersNil g \<or> length (g_Children g) > 1000
      then Return (Inl ErrInvalid)
      else Commit (graph_request_of 0 g is) ())"

definition expected_member :: "graph \<Rightarrow> string \<Rightarrow> bool" where
  "expected_member g i =
     (i = g_CallbackID g \<and> g_CallbackClaimed g \<or> list_ex (\<lambda>child. e_ID child = i) (g_Children g))"

definition RecordMember :: "client_config \<Rightarrow> completion \<Rightarrow> async_error + graph \<Rightarrow> graph_turn" where
  "RecordMember cfg c old =
     (if \<not> Terminal (c_State c) then Return (Inl ErrInvalid)
      else case old of
             Inl e \<Rightarrow> Return (Inl e)
           | Inr g \<Rightarrow>
               if member g (c_ID c) \<noteq> None then Return (Inr ())
               else if \<not> expected_member g (c_ID c) then Return (Inl ErrInvalid)
               else case advance cfg (g\<lparr>g_Members := set_member (c_ID c) c (g_Members g)\<rparr>) of
                      Inl e \<Rightarrow> Return (Inl e)
                    | Inr (g', is) \<Rightarrow>
                        Commit (graph_request_of (g_Revision g)
                                  (g'\<lparr>g_Revision := g_Revision g + 1\<rparr>) is) ())"

definition CancelGraph :: "client_config \<Rightarrow> string \<Rightarrow> async_error + graph \<Rightarrow> graph_turn" where
  "CancelGraph cfg scope old =
     (case old of
        Inl e \<Rightarrow> Return (Inl e)
      | Inr g \<Rightarrow>
          if g_Scope g \<noteq> scope then Return (Inl ErrDenied)
          else if Terminal (g_State g) then Return (Inr ())
          else case advance cfg (g\<lparr>g_CancelRequested := True\<rparr>) of
                 Inl e \<Rightarrow> Return (Inl e)
               | Inr (g', is) \<Rightarrow>
                   Commit (graph_request_of (g_Revision g)
                             (g'\<lparr>g_Revision := g_Revision g + 1\<rparr>) is) ())"

datatype graph_call =
  GraphCreate graph "intent list" | GraphMember string completion | GraphCancel string string

fun graph_key :: "graph_call \<Rightarrow> string" where
  "graph_key (GraphCreate g is) = g_ID g"
| "graph_key (GraphMember i c) = i"
| "graph_key (GraphCancel i scope) = i"

fun graph_call_turn :: "client_config \<Rightarrow> graph_call \<Rightarrow> async_error + graph \<Rightarrow> graph_turn" where
  "graph_call_turn cfg (GraphCreate g is) old = CreateGraph g is"
| "graph_call_turn cfg (GraphMember i c) old = RecordMember cfg c old"
| "graph_call_turn cfg (GraphCancel i scope) old = CancelGraph cfg scope old"

definition graph_attempt ::
  "bool \<Rightarrow> client_config \<Rightarrow> go_time \<Rightarrow> nat \<Rightarrow> graph_call \<Rightarrow> workflow_store \<Rightarrow> graph_turn" where
  "graph_attempt usable cfg t n c st =
     graph_call_turn (cfg\<lparr>cc_now := t\<rparr>) c (ReadGraph usable (ws_graphs st (graph_key c)))"

definition graph_again :: "graph_call \<Rightarrow> async_error \<Rightarrow> bool" where
  "graph_again c e = (e = ErrConflict \<and> (case c of GraphCreate _ _ \<Rightarrow> False | _ \<Rightarrow> True))"

definition graph_limit :: "graph_call \<Rightarrow> nat" where
  "graph_limit c = (case c of GraphCreate _ _ \<Rightarrow> 1 | _ \<Rightarrow> 64)"

definition graph_delivery :: "workflow_store \<Rightarrow> workflow_store \<Rightarrow> bool" where
  "graph_delivery st st' =
     (\<exists>now source i owner.
        (\<exists>lease. snd (intent_claim now st source i owner lease) = st')
        \<or> (\<exists>fence. snd (intent_mark now st source i fence owner) = st'))"

subsection \<open>What a step keeps of a graph\<close>

definition same_outcome :: "completion \<Rightarrow> completion \<Rightarrow> bool" where
  "same_outcome c d =
     (c_ID d = c_ID c \<and> c_State d = c_State c \<and> c_Failure d = c_Failure c
      \<and> (c_Output d = c_Output c \<or> c_Output d = []))"

definition keeps :: "graph \<Rightarrow> graph \<Rightarrow> bool" where
  "keeps g g' =
     (g_ID g' = g_ID g \<and> g_Scope g' = g_Scope g \<and> g_Kind g' = g_Kind g
      \<and> map e_ID (g_Children g') = map e_ID (g_Children g)
      \<and> (g_CancelRequested g \<longrightarrow> g_CancelRequested g')
      \<and> (g_CallbackClaimed g \<longrightarrow> g_CallbackClaimed g')
      \<and> (\<forall>i c. member g i = Some c \<longrightarrow> (\<exists>d. member g' i = Some d \<and> same_outcome c d)))"

lemma same_outcome_refl [simp]: "same_outcome c c"
  by (simp add: same_outcome_def)

lemma same_outcome_trans: "same_outcome a b \<Longrightarrow> same_outcome b c \<Longrightarrow> same_outcome a c"
  by (auto simp: same_outcome_def)

lemma keeps_same_members:
  "g_ID g' = g_ID g \<Longrightarrow> g_Scope g' = g_Scope g \<Longrightarrow> g_Kind g' = g_Kind g \<Longrightarrow>
   map e_ID (g_Children g') = map e_ID (g_Children g) \<Longrightarrow>
   (g_CancelRequested g \<longrightarrow> g_CancelRequested g') \<Longrightarrow>
   (g_CallbackClaimed g \<longrightarrow> g_CallbackClaimed g') \<Longrightarrow> g_Members g' = g_Members g \<Longrightarrow> keeps g g'"
  by (auto simp: keeps_def member_def)

lemma keeps_refl [simp]: "keeps g g"
  by (rule keeps_same_members) simp_all

lemma keeps_trans:
  assumes "keeps g g1" "keeps g1 g2"
  shows "keeps g g2"
proof -
  have "\<exists>d. member g2 i = Some d \<and> same_outcome c d" if "member g i = Some c" for i c
    using assms that same_outcome_trans unfolding keeps_def by meson
  with assms show ?thesis by (simp add: keeps_def)
qed

subsection \<open>Every step keeps its graph\<close>

lemma finish_keeps: "finish g st out = Inr (g', is) \<Longrightarrow> keeps g g'"
  by (auto simp: finish_def Let_def intro: keeps_same_members)

lemma failed_with_keeps: "failed_with g code msg = Inr (g', is) \<Longrightarrow> keeps g g'"
  by (auto simp: failed_with_def finish_def Let_def intro: keeps_same_members)

lemma update_ids: "e_ID e = e_ID (cs ! n) \<Longrightarrow> map e_ID (cs[n := e]) = map e_ID cs"
  by (cases "n < length cs") (simp_all add: map_update list_update_same_conv list_update_beyond)

lemma chain_successor_keeps: "chain_successor cfg g out = Inr (g', is) \<Longrightarrow> keeps g g'"
  by (auto simp: chain_successor_def Let_def update_ids dest: failed_with_keeps
           intro: keeps_same_members split: if_splits sum.splits)

lemma next_keeps: "keeps (g\<lparr>g_Next := n\<rparr>) g' \<Longrightarrow> keeps g g'"
  by (simp add: keeps_def member_def)

lemma advance_chain_keeps:
  assumes "advance_chain cfg g = Inr (g', is)"
  shows "keeps g g'"
  using assms
  by (auto simp: advance_chain_def Let_def split: option.splits if_splits
           dest!: failed_with_keeps finish_keeps chain_successor_keeps intro: next_keeps)

lemma chord_callback_keeps: "chord_callback cfg g out = Inr (g', is) \<Longrightarrow> keeps g g'"
  by (auto simp: chord_callback_def Let_def dest: failed_with_keeps
           intro: keeps_same_members split: option.splits sum.splits)

lemma failure_keeps: "keeps (g\<lparr>g_Failure := f\<rparr>) g' \<Longrightarrow> keeps g g'"
  by (simp add: keeps_def member_def)

lemma advance_barrier_keeps: "advance_barrier cfg g = Inr (g', is) \<Longrightarrow> keeps g g'"
  by (auto simp: advance_barrier_def split: if_splits option.splits
           dest!: failed_with_keeps finish_keeps chord_callback_keeps intro: failure_keeps)

lemma advanceCanceled_keeps: "advanceCanceled g = Inr (g', is) \<Longrightarrow> keeps g g'"
  by (auto simp: advanceCanceled_def Let_def split: if_splits option.splits intro: keeps_same_members)

lemma grows_keeps: "grows g g' \<Longrightarrow> keeps g g'"
  unfolding grows_def keeps_def using same_outcome_refl by blast

lemma nested_finish_keeps: "nested_finish g is = (g', is') \<Longrightarrow> keeps g g'"
  by (auto simp: nested_finish_def Let_def split: option.splits if_splits intro: keeps_same_members)

lemma advanceNested_keeps:
  assumes "advanceNested cfg g = Inr (g', is)"
  shows "keeps g g'"
proof (cases "Terminal (g_State g)")
  case True
  with assms show ?thesis by (simp add: advanceNested_def)
next
  case False
  from advanceNested_turns [OF assms False] obtain plan is0 s where
    s: "nested_turns cfg (Suc (length plan)) (nested_start (g\<lparr>g_Plan := plan\<rparr>) is0) = Inr s"
      "nested_finish (ns_graph s) (ns_intents s) = (g', is)" by blast
  have "card (open_nodes (ns_graph (nested_start (g\<lparr>g_Plan := plan\<rparr>) is0))) < Suc (length plan)"
    using open_nodes_bound [of "g\<lparr>g_Plan := plan\<rparr>"] by (simp add: nested_start_def)
  from nested_turns_fixed [OF s(1) this] have "keeps (g\<lparr>g_Plan := plan\<rparr>) (ns_graph s)"
    using grows_keeps by (auto simp: nested_start_def)
  then have "keeps g (ns_graph s)" by (simp add: keeps_def member_def)
  with nested_finish_keeps [OF s(2)] show ?thesis by (rule keeps_trans [rotated])
qed

lemma advanceGraph_keeps: "advanceGraph cfg g = Inr (g', is) \<Longrightarrow> keeps g g'"
  by (auto simp: advanceGraph_def split: if_splits
           dest: advanceNested_keeps advanceCanceled_keeps finish_keeps advance_chain_keeps
             advance_barrier_keeps)

lemma map_of_outputs:
  "map_of (map (\<lambda>(i, c). (i, f c)) ms) i = map_option f (map_of ms i)"
  by (induction ms) auto

lemma drop_outputs_keeps: "keeps g (drop_outputs g)"
  by (auto simp: keeps_def drop_outputs_def member_def map_of_outputs same_outcome_def)

lemma abort_finish_keeps:
  "abort_finish g is fin = Inr (g', is') \<Longrightarrow> keeps g g'"
  by (auto simp: abort_finish_def Let_def split: if_splits intro: keeps_same_members)

lemma plan_keeps: "keeps (g\<lparr>g_Plan := p\<rparr>) g' \<Longrightarrow> keeps g g'"
  by (simp add: keeps_def member_def)

lemma abort_failure_keeps: "keeps (g\<lparr>g_AbortFailure := f\<rparr>) g' \<Longrightarrow> keeps g g'"
  by (simp add: keeps_def member_def)

lemma advanceAborted_keeps:
  assumes "advanceAbortedGraph g = Inr (g', is)"
  shows "keeps g g'"
proof -
  have "keeps (drop_outputs g) g'"
    using assms
    by (auto simp: advanceAbortedGraph_def Let_def split: if_splits sum.splits
             dest!: abort_finish_keeps intro: plan_keeps)
  with drop_outputs_keeps show ?thesis by (rule keeps_trans)
qed

lemma advance_keeps:
  assumes "advance cfg g = Inr (g', is)"
  shows "keeps g g'"
proof -
  from assms obtain is0 where "advance_body cfg g = Inr (g', is0)"
    by (auto simp: advance_def split: sum.splits)
  then show ?thesis
    by (auto simp: advance_body_def Let_def split: if_splits sum.splits
             dest!: advanceAborted_keeps advanceGraph_keeps intro: abort_failure_keeps)
qed

subsection \<open>The laws of an optimistic store\<close>

definition graph_rev :: "graph_row option \<Rightarrow> 64 word" where
  "graph_rev row = (case row of None \<Rightarrow> 0 | Some w \<Rightarrow> gr_revision w)"

definition graph_ok :: "string \<Rightarrow> graph_row option \<Rightarrow> bool" where
  "graph_ok i row =
     (case row of
        None \<Rightarrow> True
      | Some w \<Rightarrow> g_ID (gr_graph w) = i \<and> gr_revision w = g_Revision (gr_graph w) \<and> gr_revision w \<noteq> 0)"

definition graph_follows :: "graph_row \<Rightarrow> graph_row \<Rightarrow> bool" where
  "graph_follows v w = keeps (gr_graph v) (gr_graph w)"

lemma member_keeps:
  assumes "member g i = None" "keeps (g\<lparr>g_Members := set_member i c (g_Members g)\<rparr>) g'"
  shows "keeps g g'"
proof -
  let ?g = "g\<lparr>g_Members := set_member i c (g_Members g)\<rparr>"
  have "member ?g j = Some d" if "member g j = Some d" for j d
    using that assms(1) by (auto simp: member_def)
  with assms(2) have "\<exists>e. member g' j = Some e \<and> same_outcome d e" if "member g j = Some d" for j d
    using that unfolding keeps_def by blast
  with assms(2) show ?thesis by (simp add: keeps_def)
qed

lemma cancel_keeps: "keeps (g\<lparr>g_CancelRequested := True\<rparr>) g' \<Longrightarrow> keeps g g'"
  by (auto simp: keeps_def member_def)

lemma RecordMember_commit:
  assumes "RecordMember cfg c (Inr g) = Commit q a"
  shows "gq_Expected q = g_Revision g \<and> g_Revision (gq_Graph q) = g_Revision g + 1 \<and> keeps g (gq_Graph q)
         \<and> Terminal (c_State c) \<and> member g (c_ID c) = None \<and> expected_member g (c_ID c)
         \<and> (\<exists>d. member (gq_Graph q) (c_ID c) = Some d \<and> same_outcome c d)"
proof -
  let ?g = "g\<lparr>g_Members := set_member (c_ID c) c (g_Members g)\<rparr>"
  from assms obtain g' "is" where adv: "advance cfg ?g = Inr (g', is)"
      "q = graph_request_of (g_Revision g) (g'\<lparr>g_Revision := g_Revision g + 1\<rparr>) is"
      and new: "Terminal (c_State c)" "member g (c_ID c) = None" "expected_member g (c_ID c)"
    by (auto simp: RecordMember_def split: if_splits sum.splits)
  note k = advance_keeps [OF adv(1)]
  have "member ?g (c_ID c) = Some c" by (simp add: member_def)
  with k obtain d where "member g' (c_ID c) = Some d" "same_outcome c d"
    unfolding keeps_def by blast
  moreover have "keeps g (gq_Graph q)"
    using member_keeps [OF new(2) k] adv(2) by (simp add: keeps_def member_def)
  ultimately show ?thesis using adv(2) new by (auto simp: member_def)
qed

lemma CancelGraph_commit:
  assumes "CancelGraph cfg scope (Inr g) = Commit q a"
  shows "gq_Expected q = g_Revision g \<and> g_Revision (gq_Graph q) = g_Revision g + 1 \<and> keeps g (gq_Graph q)
         \<and> g_CancelRequested (gq_Graph q)"
proof -
  from assms obtain g' "is" where adv: "advance cfg (g\<lparr>g_CancelRequested := True\<rparr>) = Inr (g', is)"
      "q = graph_request_of (g_Revision g) (g'\<lparr>g_Revision := g_Revision g + 1\<rparr>) is"
    by (auto simp: CancelGraph_def split: if_splits sum.splits)
  note k = advance_keeps [OF adv(1)]
  have "keeps g (gq_Graph q)" using cancel_keeps [OF k] adv(2) by (simp add: keeps_def member_def)
  with k adv(2) show ?thesis by (simp add: keeps_def)
qed

text \<open>What a committing attempt has read: nothing (a creation), or the graph it advances.\<close>

lemma graph_attempt_commit:
  assumes "graph_attempt usable cfg t n c st = Commit q a"
    and "graph_ok (graph_key c) (ws_graphs st (graph_key c))"
  shows "g_ID (gq_Graph q) = graph_key c"
    and "gq_Expected q = 0 \<or> (\<exists>w. ws_graphs st (graph_key c) = Some w
            \<and> gq_Expected q = gr_revision w \<and> keeps (gr_graph w) (gq_Graph q)
            \<and> g_Revision (gq_Graph q) = gr_revision w + 1)"
proof -
  have "g_ID (gq_Graph q) = graph_key c \<and>
    (gq_Expected q = 0 \<or> (\<exists>w. ws_graphs st (graph_key c) = Some w
            \<and> gq_Expected q = gr_revision w \<and> keeps (gr_graph w) (gq_Graph q)
            \<and> g_Revision (gq_Graph q) = gr_revision w + 1))"
  proof (cases c)
    case (GraphCreate g "is")
    with assms(1) show ?thesis by (auto simp: graph_attempt_def CreateGraph_def split: if_splits)
  next
    case (GraphMember i m)
    with assms(1) obtain g where g: "ReadGraph usable (ws_graphs st i) = Inr g"
        "RecordMember (cfg\<lparr>cc_now := t\<rparr>) m (Inr g) = Commit q a"
      by (cases "ReadGraph usable (ws_graphs st i)")
         (auto simp: graph_attempt_def RecordMember_def split: if_splits)
    with assms(2) GraphMember RecordMember_commit [OF g(2)] show ?thesis
      by (auto simp: ReadGraph_def graph_ok_def keeps_def split: if_splits option.splits)
  next
    case (GraphCancel i scope)
    with assms(1) obtain g where g: "ReadGraph usable (ws_graphs st i) = Inr g"
        "CancelGraph (cfg\<lparr>cc_now := t\<rparr>) scope (Inr g) = Commit q a"
      by (cases "ReadGraph usable (ws_graphs st i)")
         (auto simp: graph_attempt_def CancelGraph_def split: if_splits)
    with assms(2) GraphCancel CancelGraph_commit [OF g(2)] show ?thesis
      by (auto simp: ReadGraph_def graph_ok_def keeps_def split: if_splits option.splits)
  qed
  then show "g_ID (gq_Graph q) = graph_key c"
    and "gq_Expected q = 0 \<or> (\<exists>w. ws_graphs st (graph_key c) = Some w
            \<and> gq_Expected q = gr_revision w \<and> keeps (gr_graph w) (gq_Graph q)
            \<and> g_Revision (gq_Graph q) = gr_revision w + 1)" by blast+
qed

lemma stage_one_graphs [simp]: "ws_graphs (stage_intent now i st) = ws_graphs st"
  by (simp add: stage_intent_def Let_def)

lemma stage_graphs [simp]: "ws_graphs (stage_intents now is st) = ws_graphs st"
  by (induction "is" arbitrary: st) simp_all

lemma workflow_write_ok:
  assumes "workflow_write usable C now st q = (None, st')"
  shows "write_check usable C q" "graph_rev (ws_graphs st (g_ID (gq_Graph q))) = gq_Expected q"
    "st' = stage_intents (UnixMilli now) (gq_Intents q)
       (st\<lparr>ws_graphs := (ws_graphs st)(g_ID (gq_Graph q) \<mapsto>
              \<lparr>gr_graph = gq_Graph q, gr_revision = g_Revision (gq_Graph q)\<rparr>),
          ws_records := insert (g_ID (gq_Graph q)) (ws_records st)\<rparr>)"
  using assms
  by (auto simp: workflow_write_def graphCAS_def graph_rev_def Let_def split: if_splits option.splits)

lemma workflow_write_refused: "workflow_write usable C now st q = (Some e, st') \<Longrightarrow> st' = st"
  by (auto simp: workflow_write_def graphCAS_def Let_def split: if_splits)

lemma graph_fresh:
  assumes "graph_ok (graph_key c) (ws_graphs base (graph_key c))"
    and "graph_attempt usable cfg t n c base = Commit q a"
    and "workflow_write usable C now st q = (None, st')"
  shows "graph_rev (ws_graphs st (graph_key c)) \<le> graph_rev (ws_graphs base (graph_key c))"
  using graph_attempt_commit [OF assms(2,1)] workflow_write_ok(2) [OF assms(3)]
  by (auto simp: graph_rev_def)

lemma graph_changes:
  assumes "graph_ok (graph_key c) (ws_graphs st (graph_key c))"
    and "graph_attempt usable cfg t n c st = Commit q a"
    and "workflow_write usable C now st q = (None, st')"
  shows "(\<exists>w. ws_graphs st' (graph_key c) = Some w \<and> graph_ok (graph_key c) (Some w)
            \<and> graph_rev (ws_graphs st (graph_key c)) < graph_rev (Some w)
            \<and> (\<forall>v. ws_graphs st (graph_key c) = Some v \<longrightarrow> graph_follows v w))
       \<and> (\<forall>k. k \<noteq> graph_key c \<longrightarrow> ws_graphs st' k = ws_graphs st k)"
proof -
  note req = graph_attempt_commit [OF assms(2,1)]
  note wr = workflow_write_ok [OF assms(3)]
  let ?w = "\<lparr>gr_graph = gq_Graph q, gr_revision = g_Revision (gq_Graph q)\<rparr>"
  have check: "gq_Expected q \<noteq> max_uint64" "g_Revision (gq_Graph q) \<noteq> 0"
    using wr(1) by (simp_all add: write_check_def Let_def)
  have rows: "ws_graphs st' = (ws_graphs st)(graph_key c \<mapsto> ?w)" using wr(3) req(1) by simp
  have rev: "graph_rev (ws_graphs st (graph_key c)) = gq_Expected q" using wr(2) req(1) by simp
  have "graph_rev (ws_graphs st (graph_key c)) < graph_rev (Some ?w)
      \<and> (\<forall>v. ws_graphs st (graph_key c) = Some v \<longrightarrow> graph_follows v ?w)"
  proof (cases "gq_Expected q = 0")
    case True
    then have "ws_graphs st (graph_key c) = None"
      using rev assms(1) by (auto simp: graph_rev_def graph_ok_def split: option.splits)
    with rev True check(2) show ?thesis by (simp add: graph_rev_def word_gt_0)
  next
    case False
    with req(2) obtain w where w: "ws_graphs st (graph_key c) = Some w" "gq_Expected q = gr_revision w"
        "keeps (gr_graph w) (gq_Graph q)" "g_Revision (gq_Graph q) = gr_revision w + 1" by blast
    with check(1) show ?thesis by (simp add: graph_rev_def graph_follows_def)
  qed
  with rows req(1) check(2) show ?thesis by (simp add: graph_ok_def)
qed

lemma intent_claim_graphs [simp]:
  "ws_graphs (snd (intent_claim now st source i owner lease)) = ws_graphs st"
  by (simp add: intent_claim_def Let_def split: option.split)

lemma intent_mark_graphs [simp]:
  "ws_graphs (snd (intent_mark now st source i fence owner)) = ws_graphs st"
  by (simp add: intent_mark_def split: option.split)

lemma graph_delivery_rows: "graph_delivery st st' \<Longrightarrow> ws_graphs st' = ws_graphs st"
  unfolding graph_delivery_def by (elim exE disjE) (drule sym, simp)+

interpretation ws: optimistic_store ws_graphs graph_rev graph_ok graph_follows graph_key
  "\<lambda>_. True" "graph_attempt usable cfg" "workflow_write usable (cc_codec cfg)" graph_again
  graph_limit ErrBusy graph_delivery
  for usable cfg
proof (unfold_locales, goal_cases)
  case 1
  then show ?case by (simp add: graph_attempt_def)
next
  case 2
  then show ?case by (rule workflow_write_refused)
next
  case 3
  then show ?case by (intro graph_fresh)
next
  case 4
  then show ?case by (intro graph_changes)
next
  case 5
  then show ?case by (rule graph_delivery_rows)
next
  case 6
  then show ?case unfolding graph_follows_def by (rule keeps_trans)
qed

end
