(* ===== verification/Async_Workflow_Guarantees.thy ===== *)
theory Async_Workflow_Guarantees
  imports Async_Workflows
begin

text \<open>
  What the workflow store and the coordinator guarantee: completions are recorded once and kept,
  in every interleaving; an aborted workflow never rewrites a real outcome; flat workflows publish
  a task only when the barrier allows it.
\<close>

type_synonym workflow_system =
  "(graph_call, graph_request, unit, async_error, workflow_store) loop_system"

abbreviation workflow_step :: "bool \<Rightarrow> client_config \<Rightarrow> workflow_system \<Rightarrow> workflow_system \<Rightarrow> bool" where
  "workflow_step usable cfg \<equiv>
     loop_step (\<lambda>_. True) (graph_attempt usable cfg) (workflow_write usable (cc_codec cfg))
       graph_again graph_limit ErrBusy graph_delivery"

definition no_workflows :: workflow_store where
  "no_workflows =
     \<lparr>st_intents = \<lambda>_ _. None, st_pending = \<lambda>_ _. None, ws_graphs = \<lambda>_. None, ws_records = {}\<rparr>"

definition workflow_initial :: "workflow_system \<Rightarrow> bool" where
  "workflow_initial s = (lp_store s = no_workflows \<and> (\<forall>k. lp_clients s k = Idle))"

lemma workflow_reach_inv:
  assumes "workflow_initial s0" "(workflow_step usable cfg)\<^sup>*\<^sup>* s0 s"
  shows "ws.inv usable cfg s"
proof -
  have "ws.inv usable cfg s0"
    using assms(1) by (simp add: ws.inv_def workflow_initial_def no_workflows_def graph_ok_def)
  then show ?thesis using ws.run_inv [OF assms(2)] by simp
qed

subsection \<open>A small run\<close>

definition group_id :: string where
  "group_id = ''00000000-0000-5000-8000-000000000009''"

definition group_graph :: graph where
  "group_graph =
     zero_graph\<lparr>g_ID := group_id, g_Kind := ''group'', g_State := Running, g_Revision := 1,
       g_Children := [zero_envelope\<lparr>e_ID := ''t1''\<rparr>]\<rparr>"

definition t1_done :: completion where
  "t1_done = \<lparr>c_ID = ''t1'', c_State = Succeeded, c_Output = ''7'', c_Failure = None\<rparr>"

definition group_done :: graph where
  "group_done = group_graph\<lparr>g_Members := [(''t1'', t1_done)], g_State := Succeeded,
                            g_Output := ''7'', g_Revision := 2\<rparr>"

definition group_store :: "graph \<Rightarrow> workflow_store" where
  "group_store g =
     no_workflows\<lparr>ws_graphs := (\<lambda>_. None)(group_id \<mapsto> \<lparr>gr_graph = g, gr_revision = g_Revision g\<rparr>),
                  ws_records := {group_id}\<rparr>"

definition group_system :: "workflow_store \<Rightarrow> (graph_call, graph_request, unit, async_error) phase
    \<Rightarrow> workflow_system" where
  "group_system st p = \<lparr>lp_store = st, lp_now = 0, lp_clients = (\<lambda>_. Idle)(0 := p)\<rparr>"

lemma group_ask:
  assumes "may_call p" "graph_attempt True mail_client 7 0 c st = Commit q a"
  shows "(workflow_step True mail_client)\<^sup>*\<^sup>* (group_system st p) (group_system st (Committing c 0 q a))"
proof -
  let ?s1 = "group_system st (Trying c 0)"
  have "workflow_step True mail_client (group_system st p) ?s1"
    using loop_step.call [of "group_system st p" 0 "\<lambda>_. True" c] assms(1)
    by (simp add: group_system_def)
  moreover have "workflow_step True mail_client ?s1 (group_system st (Committing c 0 q a))"
    using loop_step.ask [of ?s1 0 c 0 graph_limit 7 "graph_attempt True mail_client" q a] assms(2)
    by (simp add: group_system_def graph_limit_def split: graph_call.split)
  ultimately show ?thesis by simp
qed

lemma group_call:
  assumes "may_call p" "graph_attempt True mail_client 7 0 c st = Commit q a"
    and "workflow_write True plain_codec 0 st q = (None, st')"
  shows "(workflow_step True mail_client)\<^sup>*\<^sup>* (group_system st p) (group_system st' (Finished c (Inr a)))"
proof -
  have "workflow_step True mail_client (group_system st (Committing c 0 q a))
      (group_system st' (Finished c (Inr a)))"
    using loop_step.accept [of "group_system st (Committing c 0 q a)" 0 c 0 q a
        "workflow_write True (cc_codec mail_client)" st'] assms(3)
    by (simp add: group_system_def mail_client_sel)
  with group_ask [OF assms(1,2)] show ?thesis by (simp add: rtranclp.rtrancl_into_rtrancl)
qed

lemma group_start: "workflow_initial (group_system no_workflows Idle)"
  by (simp add: workflow_initial_def group_system_def)

lemma group_id_ok: "idPattern group_id"
  by (simp add: idPattern_def group_id_def is_hex_def is_digit_def less_eq_char_def)

lemma group_create_turn:
  "graph_attempt True mail_client 7 0 (GraphCreate group_graph []) no_workflows
     = Commit (graph_request_of 0 group_graph []) ()"
  by (simp add: graph_attempt_def CreateGraph_def group_graph_def zero_graph_def group_id_def)

lemma group_create_write:
  "workflow_write True plain_codec 0 no_workflows (graph_request_of 0 group_graph [])
     = (None, group_store group_graph)"
  by (simp add: workflow_write_def write_check_def group_graph_def zero_graph_def group_id_ok
      max_uint64_def withinGraphBudget_def plain_codec_def MaxWorkflowDurableBytes_def graphCAS_def
      no_workflows_def group_store_def)
     (simp add: group_id_def)

lemma group_created:
  "(workflow_step True mail_client)\<^sup>*\<^sup>* (group_system no_workflows Idle)
     (group_system (group_store group_graph) (Finished (GraphCreate group_graph []) (Inr ())))"
  by (rule group_call [OF _ group_create_turn group_create_write]) (simp add: may_call_def)

definition group_unpin :: intent where
  "group_unpin = unpin_intent group_graph ''t1''"

lemma group_advances:
  "advance mail_client (group_graph\<lparr>g_Members := [(''t1'', t1_done)]\<rparr>)
     = Inr (group_done\<lparr>g_Revision := 1\<rparr>, [group_unpin])"
proof -
  let ?g = "group_graph\<lparr>g_Members := [(''t1'', t1_done)]\<rparr>"
  have "advanceGraph mail_client ?g = Inr (group_done\<lparr>g_Revision := 1\<rparr>, [group_unpin])"
    by (simp add: advanceGraph_def group_graph_def zero_graph_def advance_barrier_def member_def
        t1_done_def mail_client_sel plain_codec_def finish_def group_done_def group_unpin_def
        unpin_intent_def Let_def)
  moreover have "withinGraphBudget plain_codec (group_done\<lparr>g_Revision := 1\<rparr>) [group_unpin]
      MaxWorkflowWorkingBytes"
    by (simp add: withinGraphBudget_def plain_codec_def MaxWorkflowWorkingBytes_def group_done_def
        group_graph_def group_unpin_def unpin_intent_def group_id_def StableID_def formatID_def)
  ultimately have "advance_body mail_client ?g = Inr (group_done\<lparr>g_Revision := 1\<rparr>, [group_unpin])"
    by (simp add: advance_body_def group_graph_def zero_graph_def mail_client_sel Let_def)
  then show ?thesis
    by (simp add: advance_def replacementCompletionIntents_def group_done_def group_graph_def
        zero_graph_def)
qed

lemma group_member_turn:
  "graph_attempt True mail_client 7 0 (GraphMember group_id t1_done) (group_store group_graph)
     = Commit (graph_request_of 1 group_done [group_unpin]) ()"
proof -
  have "mail_client\<lparr>cc_now := 7\<rparr> = mail_client" by (simp add: mail_client_def)
  moreover have "ReadGraph True (ws_graphs (group_store group_graph) group_id) = Inr group_graph"
    by (simp add: ReadGraph_def group_store_def)
  moreover have "RecordMember mail_client t1_done (Inr group_graph)
      = Commit (graph_request_of 1 group_done [group_unpin]) ()"
    using group_advances
    by (simp add: RecordMember_def t1_done_def expected_member_def member_def group_graph_def
        zero_graph_def)
       (simp add: group_done_def group_graph_def zero_graph_def t1_done_def)
  ultimately show ?thesis by (simp add: graph_attempt_def)
qed

lemma group_member_write:
  "\<exists>st. workflow_write True plain_codec 0 (group_store group_graph)
      (graph_request_of 1 group_done [group_unpin]) = (None, st)"
proof -
  have "idPattern (StableID p l)" for p l by (simp add: StableID_def formatID_idPattern)
  then have "write_check True plain_codec (graph_request_of 1 group_done [group_unpin])"
    by (simp add: write_check_def group_done_def group_graph_def zero_graph_def group_id_ok
        max_uint64_def withinGraphBudget_def plain_codec_def MaxWorkflowDurableBytes_def
        group_unpin_def unpin_intent_def Let_def)
       (simp add: group_id_def StableID_def formatID_def)
  then show ?thesis
    by (simp add: workflow_write_def graphCAS_def group_store_def group_done_def group_graph_def
        zero_graph_def)
qed

lemma group_recording:
  "(workflow_step True mail_client)\<^sup>*\<^sup>* (group_system no_workflows Idle)
     (group_system (group_store group_graph)
        (Committing (GraphMember group_id t1_done) 0 (graph_request_of 1 group_done [group_unpin]) ()))"
  by (rule rtranclp_trans [OF group_created group_ask [OF _ group_member_turn]])
     (simp add: may_call_def)

subsection \<open>Completions\<close>

text \<open>
  C23. Completions are permanent. From an empty store, whatever coordinators and relays do, a
  stored workflow never disappears, keeps its identity, scope, kind and members-to-be, never
  takes back a cancellation or the claim of its callback, and every completion it has recorded
  stays with its state and failure; only the copied output may be dropped. Its revision never goes
  back and never wraps around.
\<close>

theorem workflow_history:
  assumes "workflow_initial s0" "(workflow_step usable cfg)\<^sup>*\<^sup>* s0 s"
    and "(workflow_step usable cfg)\<^sup>*\<^sup>* s s'" "ws_graphs (lp_store s) i = Some w"
  shows "\<exists>w'. ws_graphs (lp_store s') i = Some w' \<and> keeps (gr_graph w) (gr_graph w')
           \<and> gr_revision w \<le> gr_revision w' \<and> (gr_revision w' = gr_revision w \<longrightarrow> w' = w)"
proof -
  have inv: "ws.inv usable cfg s" using workflow_reach_inv assms(1,2) .
  have "ws.moved (ws_graphs (lp_store s) i) (ws_graphs (lp_store s') i)"
    using ws.run_inv [OF assms(3) inv] by (simp add: ws.rows_follow_def)
  with assms(4) show ?thesis by (auto simp: ws.moved_def graph_follows_def graph_rev_def)
qed

theorem workflow_history_witness:
  "\<exists>w'. ws_graphs (lp_store (group_system (group_store group_graph)
           (Committing (GraphMember group_id t1_done) 0
              (graph_request_of 1 group_done [group_unpin]) ()))) group_id = Some w'
        \<and> keeps group_graph (gr_graph w')"
  using workflow_history [OF group_start group_recording rtranclp.rtrancl_refl, of group_id
      "\<lparr>gr_graph = group_graph, gr_revision = g_Revision group_graph\<rparr>"]
  by (simp add: group_system_def group_store_def)

text \<open>
  C24. A member is counted once. When the script accepts a completion, the graph as it is at that
  moment expects this member and has no completion for it yet; the new graph has it, with the
  reported outcome, at the next revision. So two deliveries of one completion, however they
  interleave, advance the barrier once; and the step applied is the one computed from the current
  graph.
\<close>

theorem member_recorded_once:
  assumes "workflow_initial s0" "(workflow_step usable cfg)\<^sup>*\<^sup>* s0 s"
    and "lp_clients s k = Committing (GraphMember i c) n q a"
    and "workflow_write usable (cc_codec cfg) (lp_now s) (lp_store s) q = (None, st')"
  shows "\<exists>w w' d. ws_graphs (lp_store s) i = Some w \<and> ws_graphs st' i = Some w'
           \<and> member (gr_graph w) (c_ID c) = None \<and> expected_member (gr_graph w) (c_ID c)
           \<and> member (gr_graph w') (c_ID c) = Some d \<and> same_outcome c d
           \<and> gr_revision w' = gr_revision w + 1 \<and> gr_revision w < gr_revision w'
           \<and> (\<exists>t. RecordMember (cfg\<lparr>cc_now := t\<rparr>) c (Inr (gr_graph w)) = Commit q a)"
proof -
  have inv: "ws.inv usable cfg s" using workflow_reach_inv assms(1,2) .
  from ws.commit_atomic [OF inv assms(3,4)] obtain t where
    ok: "graph_ok i (ws_graphs (lp_store s) i)"
      "graph_attempt usable cfg t n (GraphMember i c) (lp_store s) = Commit q a" by auto
  then obtain g where g: "ReadGraph usable (ws_graphs (lp_store s) i) = Inr g"
      "RecordMember (cfg\<lparr>cc_now := t\<rparr>) c (Inr g) = Commit q a"
    by (cases "ReadGraph usable (ws_graphs (lp_store s) i)")
       (auto simp: graph_attempt_def RecordMember_def split: if_splits)
  then obtain w where w: "ws_graphs (lp_store s) i = Some w" "g = gr_graph w"
    by (auto simp: ReadGraph_def split: if_splits option.splits)
  note rec = RecordMember_commit [OF g(2)]
  have gid: "g_ID (gq_Graph q) = i" "g_Revision g = gr_revision w"
    using rec ok(1) w by (simp_all add: keeps_def graph_ok_def)
  note wr = workflow_write_ok [OF assms(4)]
  have "gq_Expected q \<noteq> max_uint64" using wr(1) by (simp add: write_check_def Let_def)
  then have "gr_revision w < gr_revision w + 1" using rec gid by simp
  with w g(2) rec gid wr(3) show ?thesis by auto
qed

theorem member_recorded_once_witness:
  "\<exists>w. ws_graphs (group_store group_graph) group_id = Some w \<and> member (gr_graph w) ''t1'' = None
       \<and> expected_member (gr_graph w) ''t1''"
proof -
  obtain st where st: "workflow_write True plain_codec 0 (group_store group_graph)
      (graph_request_of 1 group_done [group_unpin]) = (None, st)"
    using group_member_write by blast
  show ?thesis
    using member_recorded_once [OF group_start group_recording, of 0 group_id t1_done 0
        "graph_request_of 1 group_done [group_unpin]" "()" st] st
    by (auto simp: group_system_def mail_client_sel t1_done_def)
qed

subsection \<open>Aborted workflows\<close>

definition undispatched :: "graph \<Rightarrow> envelope \<Rightarrow> bool" where
  "undispatched g child =
     (if g_Kind g = ''dag''
      then \<exists>node \<in> set (g_Plan g). n_ID node = e_ID child \<and> n_Kind node = ''task'' \<and> \<not> n_Dispatched node
      else g_Kind g = ''chain''
           \<and> (\<exists>k > g_Next g. k < length (g_Children g) \<and> g_Children g ! k = child))"

lemma drop_outputs_sel [simp]:
  "g_ID (drop_outputs g) = g_ID g" "g_AbortFailure (drop_outputs g) = g_AbortFailure g"
  "g_Children (drop_outputs g) = g_Children g" "g_Plan (drop_outputs g) = g_Plan g"
  "g_Kind (drop_outputs g) = g_Kind g" "g_Next (drop_outputs g) = g_Next g"
  "abort_intent (drop_outputs g) = abort_intent g"
  "map_option c_State (member (drop_outputs g) i) = map_option c_State (member g i)"
  by (simp_all add: drop_outputs_def abort_intent_def dispatchIntent_def member_def map_of_outputs
      option.map_comp comp_def fun_eq_iff)

lemma drop_outputs_None [simp]: "member (drop_outputs g) i = None \<longleftrightarrow> member g i = None"
  by (simp add: drop_outputs_def member_def map_of_outputs)

lemma last_child_Some: "last_child cs i = Some e \<Longrightarrow> e \<in> set cs \<and> e_ID e = i"
  by (auto simp: last_child_def find_Some_iff) (metis length_rev nth_mem set_rev)

lemma abort_plan_intents:
  "abort_plan g ns = Inr (ns', is, fin) \<Longrightarrow> it \<in> set is \<Longrightarrow>
   \<exists>node \<in> set ns. \<exists>child \<in> set (g_Children g). it = abort_intent g child \<and> e_ID child = n_ID node
     \<and> n_Kind node = ''task'' \<and> \<not> n_Dispatched node \<and> member g (n_ID node) = None"
proof (induction ns arbitrary: ns' "is" fin)
  case (Cons node ns)
  from Cons.prems(1) obtain ns1 is1 fin1 where rest: "abort_plan g ns = Inr (ns1, is1, fin1)"
    by (auto split: if_splits sum.splits option.splits)
  show ?case
  proof (cases "it \<in> set is1")
    case True
    then show ?thesis using Cons.IH [OF rest] by auto
  next
    case False
    with Cons.prems rest obtain child where "last_child (g_Children g) (n_ID node) = Some child"
        "it = abort_intent g child" "n_Kind node = ''task''" "\<not> n_Dispatched node"
        "member g (n_ID node) = None"
      by (auto split: if_splits option.splits)
    then show ?thesis using last_child_Some by fastforce
  qed
qed simp

lemma pending_children_mem:
  "(k, child) \<in> set (pending_children g) \<Longrightarrow>
   k < length (g_Children g) \<and> g_Children g ! k = child \<and> member g (e_ID child) = None"
  by (auto simp: pending_children_def in_set_enumerate_eq)

lemma graphUnpins_kind: "it \<in> set (graphUnpins g) \<Longrightarrow> i_Kind it = ''unpin''"
  by (auto simp: graphUnpins_def unpin_intent_def split: if_splits)

lemma abort_finish_spec:
  assumes "abort_finish g is fin = Inr (g', is')"
  shows "g_Members g' = g_Members g" "it \<in> set is' \<Longrightarrow> it \<in> set is \<or> i_Kind it = ''unpin''"
  using assms graphUnpins_kind by (auto simp: abort_finish_def Let_def split: if_splits)

text \<open>A chain of two tasks.\<close>

definition mail_envelope :: envelope where
  "mail_envelope =
     zero_envelope\<lparr>e_ProtocolVersion := 1, e_ID := group_id, e_Task := ''mail'', e_Version := 1,
       e_Args := ''{}'', e_CreatedAt := 1, e_Queue := ''default''\<rparr>"

definition chain_graph :: graph where
  "chain_graph =
     zero_graph\<lparr>g_ID := ''g'', g_Kind := ''chain'', g_State := Running,
       g_Children := [zero_envelope\<lparr>e_ID := ''t1''\<rparr>, mail_envelope],
       g_Signatures := [mail_link, mail_link]\<rparr>"

lemma chain_graph_sel:
  "g_Kind chain_graph = ''chain''" "g_Next chain_graph = 0" "g_State chain_graph = Running"
  "g_Children chain_graph = [zero_envelope\<lparr>e_ID := ''t1''\<rparr>, mail_envelope]"
  "g_Signatures chain_graph = [mail_link, mail_link]" "g_Members chain_graph = []"
  "g_CancelRequested chain_graph = False" "g_ID chain_graph = ''g''"
  "g_CallbackClaimed chain_graph = False"
  by (simp_all add: chain_graph_def zero_graph_def)

lemma mail_envelope_valid: "envelope_Validate plain_codec (mail_envelope\<lparr>e_Args := ''7''\<rparr>) = None"
  by (simp add: envelope_Validate_def mail_envelope_def zero_envelope_def plain_codec_def group_id_ok
      MaxReplacementDepth_def ProtocolVersion_def MaxPayloadBytes_def optional_id_def headers_ok_def
      name_char_def is_alpha_def is_lower_def is_digit_def is_upper_def less_eq_char_def)

lemma chain_aborts:
  "\<exists>g' is. advanceAbortedGraph (chain_graph\<lparr>g_AbortFailure := Some size_failure\<rparr>) = Inr (g', is)
         \<and> is \<noteq> []"
  by (simp add: advanceAbortedGraph_def drop_outputs_def chain_graph_sel abort_finish_def
      pending_children_def member_def callback_pending_def Let_def)

lemma chain_moves:
  "\<exists>g' is it. advanceGraph mail_client (chain_graph\<lparr>g_Members := [(''t1'', t1_done)]\<rparr>) = Inr (g', is)
         \<and> it \<in> set is \<and> i_Kind it = ''publish''"
proof -
  have "signature_bind plain_codec mail_link ''7'' = Inr (set_args ''7'' mail_link)"
    by (simp add: signature_bind_def mail_link_def)
  moreover have "lookup (cc_registry mail_client) ''mail'' 1 = Inr mail_task"
    by (simp add: lookup_def mail_client_def mail_task_def)
  moreover have "s_Task (set_args ''7'' mail_link) = ''mail''" "s_Version (set_args ''7'' mail_link) = 1"
      "s_Args (set_args ''7'' mail_link) = ''7''"
    by (simp_all add: mail_link_def)
  moreover have "d_validate mail_task x = None" for x by (simp add: mail_task_def)
  ultimately show ?thesis using mail_envelope_valid
    by (simp add: advanceGraph_def chain_graph_sel advance_chain_def member_def t1_done_def
        chain_successor_def mail_client_sel Let_def dispatchIntent_def)
qed

text \<open>
  Aborting invents no outcome. When a workflow that outgrew its budget is advanced, every
  member keeps the state it has and no member is added; the only tasks that are failed are tasks
  of this graph that had neither completed nor been dispatched, and everything else it emits is an
  unpin.
\<close>

lemma aborted_preserves_outcomes:
  assumes "advanceAbortedGraph g = Inr (g', is)"
  shows "(\<forall>i. map_option c_State (member g' i) = map_option c_State (member g i))
         \<and> (\<forall>it \<in> set is. i_Kind it = ''unpin''
              \<or> (\<exists>child \<in> set (g_Children g). it = abort_intent g child
                   \<and> member g (e_ID child) = None \<and> undispatched g child))"
proof (cases "g_Kind g = ''dag''")
  case True
  let ?g = "drop_outputs g"
  from assms True obtain plan is0 fin where
    p: "abort_plan ?g (g_Plan g) = Inr (plan, is0, fin)"
      "abort_finish (?g\<lparr>g_Plan := plan\<rparr>) is0 fin = Inr (g', is)"
    by (auto simp: advanceAbortedGraph_def Let_def split: if_splits sum.splits)
  note fin = abort_finish_spec [OF p(2)]
  have "member g' i = member ?g i" for i using fin(1) by (simp add: member_def)
  moreover have "\<exists>child \<in> set (g_Children g). it = abort_intent g child
      \<and> member g (e_ID child) = None \<and> undispatched g child" if "it \<in> set is0" for it
  proof -
    from abort_plan_intents [OF p(1) that] obtain node child where "node \<in> set (g_Plan g)"
        "child \<in> set (g_Children g)" "it = abort_intent g child" "e_ID child = n_ID node"
        "n_Kind node = ''task''" "\<not> n_Dispatched node" "member g (n_ID node) = None" by auto
    with True show ?thesis by (intro bexI [of _ child]) (auto simp: undispatched_def)
  qed
  ultimately show ?thesis using fin(2) by fastforce
next
  case False
  let ?g = "drop_outputs g"
  let ?fails = "map (\<lambda>(i, child). abort_intent ?g child)
      (filter (\<lambda>(i, child). g_Kind ?g = ''chain'' \<and> i > g_Next ?g) (pending_children ?g))"
  from assms False obtain fin where p: "abort_finish ?g ?fails fin = Inr (g', is)"
    by (auto simp: advanceAbortedGraph_def Let_def split: if_splits)
  note fin = abort_finish_spec [OF p]
  have "member g' i = member ?g i" for i using fin(1) by (simp add: member_def)
  moreover have "\<exists>child \<in> set (g_Children g). it = abort_intent g child
      \<and> member g (e_ID child) = None \<and> undispatched g child" if "it \<in> set ?fails" for it
  proof -
    from that obtain k child where "(k, child) \<in> set (pending_children ?g)" "g_Kind g = ''chain''"
        "k > g_Next g" "it = abort_intent g child" by auto
    with pending_children_mem [of k child ?g] show ?thesis
      by (auto simp: undispatched_def intro!: bexI [of _ child])
  qed
  ultimately show ?thesis using fin(2) by fastforce
qed

lemma aborted_preserves_outcomes_example:
  "\<exists>g' is. advanceAbortedGraph (chain_graph\<lparr>g_AbortFailure := Some size_failure\<rparr>) = Inr (g', is)
     \<and> is \<noteq> []
     \<and> (\<forall>it \<in> set is. i_Kind it = ''unpin''
          \<or> (\<exists>child \<in> set (g_Children chain_graph).
               it = abort_intent (chain_graph\<lparr>g_AbortFailure := Some size_failure\<rparr>) child))"
proof -
  obtain g' "is" where g': "advanceAbortedGraph (chain_graph\<lparr>g_AbortFailure := Some size_failure\<rparr>)
      = Inr (g', is)" "is \<noteq> []"
    using chain_aborts by blast
  then show ?thesis using aborted_preserves_outcomes [OF g'(1)] by auto
qed

subsection \<open>Flat workflows\<close>

lemma finish_intents:
  "finish g st out = Inr (g', is) \<Longrightarrow> it \<in> set is \<Longrightarrow> i_Kind it \<noteq> ''publish''"
  by (auto simp: finish_def Let_def unpin_intent_def)

lemma failed_intents:
  "failed_with g code msg = Inr (g', is) \<Longrightarrow> it \<in> set is \<Longrightarrow> i_Kind it \<noteq> ''publish''"
  by (auto simp: failed_with_def dest: finish_intents)

lemma chain_successor_publish:
  assumes "chain_successor cfg g out = Inr (g', is)" "it \<in> set is" "i_Kind it = ''publish''"
    and "g_Next g < length (g_Children g)"
  shows "g_Next g' = g_Next g \<and> i_Envelope it = Some (g_Children g' ! g_Next g)"
  using assms
  by (auto simp: chain_successor_def Let_def fail_intent_def dispatchIntent_def
           dest: failed_intents split: if_splits sum.splits)

lemma chord_callback_publish:
  assumes "chord_callback cfg g out = Inr (g', is)" "it \<in> set is" "i_Kind it = ''publish''"
  shows "g_CallbackClaimed g' \<and> i_Envelope it = g_CallbackEnvelope g'"
  using assms
  by (auto simp: chord_callback_def Let_def dispatchIntent_def dest: failed_intents
           split: option.splits sum.splits)

lemma advance_barrier_publish:
  assumes "advance_barrier cfg g = Inr (g', is)" "it \<in> set is" "i_Kind it = ''publish''"
  shows "g_Kind g = ''chord'' \<and> \<not> g_CallbackClaimed g \<and> g_CallbackClaimed g'
         \<and> i_Envelope it = g_CallbackEnvelope g'
         \<and> (\<forall>child \<in> set (g_Children g). succeeded g (e_ID child))"
proof -
  from assms obtain ms combined where
    m: "\<not> g_CallbackClaimed g" "map (\<lambda>child. member g (e_ID child)) (g_Children g) = map Some ms"
      "\<forall>c \<in> set ms. c_State c = Succeeded" "g_Kind g = ''chord''"
      "chord_callback cfg g combined = Inr (g', is)"
    by (auto simp: advance_barrier_def those_Some list_ex_iff dest: finish_intents failed_intents
             split: if_splits option.splits)
  have "succeeded g (e_ID child)" if "child \<in> set (g_Children g)" for child
  proof -
    have "member g (e_ID child) \<in> set (map Some ms)" unfolding m(2) [symmetric] using that by simp
    with m(3) show ?thesis by (auto simp: succeeded_def)
  qed
  with m chord_callback_publish [OF m(5) assms(2,3)] show ?thesis by blast
qed

text \<open>
  Flat workflows publish only at the barrier. A step of a running, uncancelled chain, group
  or chord publishes a task only if it is the next task of a chain whose predecessor succeeded
  (and the chain moves on by exactly one), or the callback of a chord all of whose members
  succeeded; the callback is then claimed, and it had not been claimed before, so it is published
  at most once.
\<close>

lemma flat_publish:
  assumes "advanceGraph cfg g = Inr (g', is)" "\<not> Terminal (g_State g)" "g_Kind g \<noteq> ''dag''"
    and "\<not> g_CancelRequested g" "it \<in> set is" "i_Kind it = ''publish''"
  shows "g_Kind g = ''chain'' \<and> g_Next g' = Suc (g_Next g)
           \<and> succeeded g (e_ID (g_Children g ! g_Next g))
           \<and> i_Envelope it = Some (g_Children g' ! Suc (g_Next g))
       \<or> g_Kind g = ''chord'' \<and> \<not> g_CallbackClaimed g \<and> g_CallbackClaimed g'
           \<and> i_Envelope it = g_CallbackEnvelope g'
           \<and> (\<forall>child \<in> set (g_Children g). succeeded g (e_ID child))"
proof (cases "g_Kind g = ''chain'' \<and> g_Next g < length (g_Children g)")
  case True
  then have "advance_chain cfg g = Inr (g', is)"
    using assms by (auto simp: advanceGraph_def split: if_splits)
  then obtain c where c: "member g (e_ID (g_Children g ! g_Next g)) = Some c" "c_State c = Succeeded"
      "Suc (g_Next g) \<noteq> length (g_Children g)"
      "chain_successor cfg (g\<lparr>g_Next := Suc (g_Next g)\<rparr>) (c_Output c) = Inr (g', is)"
    using assms(5,6)
    by (auto simp: advance_chain_def Let_def dest: failed_intents finish_intents
             split: option.splits if_splits)
  with chain_successor_publish [OF c(4) assms(5,6)] True show ?thesis by (auto simp: succeeded_def)
next
  case False
  then have "advance_barrier cfg g = Inr (g', is) \<or> finish g Succeeded ''[]'' = Inr (g', is)"
    using assms(1-4) by (auto simp: advanceGraph_def split: if_splits)
  then show ?thesis using advance_barrier_publish assms(5,6) finish_intents by blast
qed

lemma flat_publish_example:
  "\<exists>g' is it. advanceGraph mail_client (chain_graph\<lparr>g_Members := [(''t1'', t1_done)]\<rparr>) = Inr (g', is)
     \<and> it \<in> set is \<and> g_Next g' = 1 \<and> i_Envelope it = Some (g_Children g' ! 1)"
proof -
  let ?g = "chain_graph\<lparr>g_Members := [(''t1'', t1_done)]\<rparr>"
  obtain g' "is" it where g': "advanceGraph mail_client ?g = Inr (g', is)" "it \<in> set is"
      "i_Kind it = ''publish''"
    using chain_moves by blast
  have "\<not> Terminal (g_State ?g)" "g_Kind ?g \<noteq> ''dag''" "\<not> g_CancelRequested ?g"
    by (simp_all add: chain_graph_sel)
  from flat_publish [OF g'(1) this g'(2,3)] g' show ?thesis by (auto simp: chain_graph_sel)
qed

text \<open>
  The result of a group. Advancing a running, uncancelled group leaves it untouched until
  every member has completed; then it ends: it has succeeded exactly if every member has, and its
  output encodes the members' outputs in the order the group declares them, whatever the order in
  which they completed.
\<close>

lemma group_outcome:
  assumes "advanceGraph cfg g = Inr (g', is)" "g_Kind g = ''group''" "\<not> Terminal (g_State g)"
    and "\<not> g_CancelRequested g" "\<not> g_CallbackClaimed g"
  shows "if \<forall>child \<in> set (g_Children g). member g (e_ID child) \<noteq> None
         then Terminal (g_State g')
              \<and> (g_State g' = Succeeded \<longleftrightarrow> (\<forall>child \<in> set (g_Children g). succeeded g (e_ID child)))
              \<and> (g_State g' = Succeeded \<longrightarrow>
                   marshal_Outputs (cc_codec cfg)
                     (map (\<lambda>child. c_Output (the (member g (e_ID child)))) (g_Children g))
                   = Some (g_Output g'))
         else g' = g \<and> is = []"
proof -
  have adv: "advance_barrier cfg g = Inr (g', is)"
    using assms by (simp add: advanceGraph_def)
  let ?ms = "map (\<lambda>child. member g (e_ID child)) (g_Children g)"
  show ?thesis
  proof (cases "those ?ms")
    case None
    then have "None \<in> set ?ms" by (simp add: those_None)
    then obtain child where "child \<in> set (g_Children g)" "member g (e_ID child) = None" by auto
    moreover have "g' = g \<and> is = []" using adv None assms(5) by (simp add: advance_barrier_def)
    ultimately show ?thesis by auto
  next
    case (Some ms)
    then have ms: "?ms = map Some ms" by (simp add: those_Some)
    have mem: "member g (e_ID child) \<in> Some ` set ms" if "child \<in> set (g_Children g)" for child
    proof -
      have "member g (e_ID child) \<in> set ?ms" using that by simp
      then show ?thesis unfolding ms by simp
    qed
    have all: "\<forall>child \<in> set (g_Children g). member g (e_ID child) \<noteq> None" using mem by fastforce
    have "(\<forall>child \<in> set (g_Children g). succeeded g (e_ID child))
        \<longleftrightarrow> (\<forall>m \<in> set ?ms. \<exists>c. m = Some c \<and> c_State c = Succeeded)"
      by (simp add: succeeded_def)
    also have "\<dots> \<longleftrightarrow> \<not> list_ex (\<lambda>c. c_State c \<noteq> Succeeded) ms"
      unfolding ms by (auto simp: list_ex_iff)
    finally have ok: "(\<forall>child \<in> set (g_Children g). succeeded g (e_ID child))
        \<longleftrightarrow> \<not> list_ex (\<lambda>c. c_State c \<noteq> Succeeded) ms" .
    have outs: "map c_Output ms = map (\<lambda>child. c_Output (the (member g (e_ID child)))) (g_Children g)"
      using arg_cong [OF ms, of "map (\<lambda>m. c_Output (the m))"] by (simp add: comp_def)
    show ?thesis
      using adv Some assms(2,5) all ok outs
      by (auto simp: advance_barrier_def failed_with_def finish_def Let_def split: if_splits option.splits)
  qed
qed

lemma group_outcome_example:
  "\<exists>g' is. advanceGraph mail_client (group_graph\<lparr>g_Members := [(''t1'', t1_done)]\<rparr>) = Inr (g', is)
     \<and> Terminal (g_State g')"
proof -
  let ?g = "group_graph\<lparr>g_Members := [(''t1'', t1_done)]\<rparr>"
  obtain g' "is" where g': "advanceGraph mail_client ?g = Inr (g', is)"
    by (simp add: advanceGraph_def group_graph_def zero_graph_def advance_barrier_def member_def
        t1_done_def mail_client_sel plain_codec_def finish_def Let_def)
  have "g_Kind ?g = ''group''" "\<not> Terminal (g_State ?g)" "\<not> g_CancelRequested ?g"
      "\<not> g_CallbackClaimed ?g" "\<forall>child \<in> set (g_Children ?g). member ?g (e_ID child) \<noteq> None"
    by (simp_all add: group_graph_def zero_graph_def member_def)
  with group_outcome [OF g'] g' show ?thesis by auto
qed

end
