(* ===== verification/Async_Compile.thy ===== *)
theory Async_Compile
  imports Async_Workflows
begin

text \<open>
  Starting a workflow (\<open>src/async/canvas.go\<close>, \<open>src/async/nested.go\<close>): composing canvases, checking a flat
  canvas, compiling a nested one into a plan of task and collect nodes, and the graph with its first
  intents that \<open>ApplyCanvas\<close> hands to \<open>CreateGraph\<close>.

  The callback \<open>Authorize\<close> of the configuration is a parameter. Cloning a value through JSON is the
  identity on values. Errors that wrap \<open>ErrInvalid\<close> are \<open>ErrInvalid\<close>.
\<close>

subsection \<open>Canvases\<close>

datatype canvas =
  Canvas (cv_Kind: string) (cv_Signatures: "signature list") (cv_Callback: "signature option")
    (cv_Steps: "canvas list")

definition Chain :: "signature list \<Rightarrow> canvas" where
  "Chain ss = Canvas ''chain'' ss None []"

definition Group :: "signature list \<Rightarrow> canvas" where
  "Group ss = Canvas ''group'' ss None []"

definition signature_Canvas :: "signature \<Rightarrow> canvas" where
  "signature_Canvas s = Canvas ''task'' [s] None []"

definition Then :: "canvas \<Rightarrow> canvas \<Rightarrow> canvas" where
  "Then c nx = Canvas ''sequence'' [] None [c, nx]"

definition Parallel :: "canvas list \<Rightarrow> canvas" where
  "Parallel cs = Canvas ''parallel'' [] None cs"

definition Chord :: "canvas \<Rightarrow> signature \<Rightarrow> async_error + canvas" where
  "Chord header body =
     (if cv_Kind header = ''parallel'' then Inr (Then header (signature_Canvas body))
      else if cv_Kind header \<noteq> ''group'' then Inl ErrInvalid
      else Inr (Canvas ''chord'' (cv_Signatures header) (Some body) []))"

subsection \<open>Compiling a nested canvas\<close>

record valueReference =
  v_id :: string
  v_typ :: go_type
  v_empty :: bool

record canvasCompiler =
  b_graph :: graph
  b_hasScope :: bool

type_synonym 'a compiling = "canvasCompiler \<Rightarrow> async_error + 'a \<times> canvasCompiler"

fun slice_elem :: "go_type \<Rightarrow> go_type option" where
  "slice_elem (TSlice t) = Some t"
| "slice_elem (TNamedSlice name t) = Some t"
| "slice_elem t = None"

definition raw_message :: go_type where
  "raw_message = TNamedSlice ''json.RawMessage'' (TNamed ''uint8'')"

definition input_mismatch :: "task_def \<Rightarrow> signature \<Rightarrow> valueReference option \<Rightarrow> bool" where
  "input_mismatch d s input =
     (case input of
        None \<Rightarrow> False
      | Some v \<Rightarrow> \<not> s_Immutable s \<and>
          (case inputBindingType d s of
             Inl _ \<Rightarrow> True
           | Inr target \<Rightarrow> v_typ v \<noteq> target \<and> \<not> (v_empty v \<and> slice_elem target \<noteq> None)))"

definition add_task :: "string \<Rightarrow> signature \<Rightarrow> valueReference option \<Rightarrow> envelope \<Rightarrow> canvasCompiler \<Rightarrow> canvasCompiler" where
  "add_task i s input e b =
     (let g = b_graph b in
      b\<lparr>b_hasScope := True,
        b_graph := g\<lparr>g_Scope := e_Scope e,
          g_Children := g_Children g @ [e\<lparr>e_WorkflowID := g_ID g, e_RootID := g_ID g,
            e_ParentID := (case input of None \<Rightarrow> g_ID g | Some v \<Rightarrow> v_id v)\<rparr>],
          g_Plan := g_Plan g @ [\<lparr>n_ID = i, n_Kind = ''task'',
            n_Dependencies = (case input of None \<Rightarrow> [] | Some v \<Rightarrow> [v_id v]), n_WaitFor = [],
            n_Signature = Some s, n_Dispatched = False\<rparr>]\<rparr>\<rparr>)"

definition compile_task :: "client_config \<Rightarrow> signature \<Rightarrow> valueReference option \<Rightarrow> valueReference compiling" where
  "compile_task cfg s input b =
     (let g = b_graph b in
      if length (g_Children g) \<ge> 1000 \<or> length (g_Plan g) \<ge> 2000 then Inl ErrInvalid
      else case lookup (cc_registry cfg) (s_Task s) (s_Version s) of
             Inl e \<Rightarrow> Inl e
           | Inr d \<Rightarrow>
               if input_mismatch d s input then Inl ErrInvalid
               else let i = StableID (g_ID g) (''task-'' @ itoa_nat (length (g_Children g)));
                        s' = WithID i s in
                    (case prepare cfg s' of
                       Inl e \<Rightarrow> Inl e
                     | Inr e \<Rightarrow>
                         if b_hasScope b \<and> e_Scope e \<noteq> g_Scope g then Inl ErrDenied
                         else Inr (\<lparr>v_id = i, v_typ = d_output d, v_empty = False\<rparr>, add_task i s' input e b)))"

definition collect_type :: "valueReference list \<Rightarrow> go_type" where
  "collect_type vs =
     (case vs of
        [] \<Rightarrow> TSlice raw_message
      | v # ws \<Rightarrow> if list_all (\<lambda>w. v_typ w = v_typ v) ws then TSlice (v_typ v)
                  else TSlice raw_message)"

definition compile_collect ::
  "valueReference list \<Rightarrow> valueReference option \<Rightarrow> canvasCompiler \<Rightarrow> valueReference \<times> canvasCompiler" where
  "compile_collect vs input b =
     (let g = b_graph b; i = StableID (g_ID g) (''collect-'' @ itoa_nat (length (g_Plan g))) in
      (\<lparr>v_id = i, v_typ = collect_type vs, v_empty = (vs = [])\<rparr>,
       b\<lparr>b_graph := g\<lparr>g_Plan := g_Plan g @ [\<lparr>n_ID = i, n_Kind = ''collect'', n_Dependencies = map v_id vs,
            n_WaitFor = (case input of None \<Rightarrow> [] | Some v \<Rightarrow> if vs = [] then [v_id v] else []),
            n_Signature = None, n_Dispatched = False\<rparr>]\<rparr>\<rparr>))"

fun compile_chain :: "client_config \<Rightarrow> signature list \<Rightarrow> valueReference option \<Rightarrow> valueReference option compiling" where
  "compile_chain cfg [] previous b = Inr (previous, b)"
| "compile_chain cfg (s # ss) previous b =
     (case compile_task cfg s previous b of
        Inl e \<Rightarrow> Inl e | Inr (v, b') \<Rightarrow> compile_chain cfg ss (Some v) b')"

fun compile_group :: "client_config \<Rightarrow> signature list \<Rightarrow> valueReference option \<Rightarrow> valueReference list compiling" where
  "compile_group cfg [] input b = Inr ([], b)"
| "compile_group cfg (s # ss) input b =
     (case compile_task cfg s input b of
        Inl e \<Rightarrow> Inl e
      | Inr (v, b') \<Rightarrow>
          (case compile_group cfg ss input b' of Inl e \<Rightarrow> Inl e | Inr (vs, b'') \<Rightarrow> Inr (v # vs, b'')))"

definition last_value :: "valueReference option \<Rightarrow> canvasCompiler \<Rightarrow> async_error + valueReference \<times> canvasCompiler" where
  "last_value previous b = (case previous of None \<Rightarrow> Inr (compile_collect [] None b) | Some v \<Rightarrow> Inr (v, b))"

definition compile_leaf :: "client_config \<Rightarrow> canvas \<Rightarrow> valueReference option \<Rightarrow> valueReference compiling" where
  "compile_leaf cfg c input b =
     (if cv_Kind c = ''task'' then
        (if length (cv_Signatures c) \<noteq> 1 \<or> cv_Steps c \<noteq> [] \<or> cv_Callback c \<noteq> None then Inl ErrInvalid
         else compile_task cfg (hd (cv_Signatures c)) input b)
      else if cv_Kind c = ''chain'' then
        (if cv_Steps c \<noteq> [] \<or> cv_Callback c \<noteq> None \<or> length (cv_Signatures c) > 1000 then Inl ErrInvalid
         else case compile_chain cfg (cv_Signatures c) input b of
                Inl e \<Rightarrow> Inl e | Inr (previous, b') \<Rightarrow> last_value previous b')
      else
        (if cv_Steps c \<noteq> [] \<or> length (cv_Signatures c) > 1000 then Inl ErrInvalid
         else case compile_group cfg (cv_Signatures c) input b of
                Inl e \<Rightarrow> Inl e
              | Inr (vs, b') \<Rightarrow>
                  (case compile_collect vs input b' of
                     (grp, b'') \<Rightarrow>
                       if cv_Kind c = ''group'' then
                         (if cv_Callback c \<noteq> None then Inl ErrInvalid else Inr (grp, b''))
                       else (case cv_Callback c of
                               None \<Rightarrow> Inl ErrInvalid
                             | Some body \<Rightarrow> compile_task cfg body (Some grp) b''))))"

fun compile :: "client_config \<Rightarrow> canvas \<Rightarrow> valueReference option \<Rightarrow> nat \<Rightarrow> valueReference compiling"
  and compile_sequence :: "client_config \<Rightarrow> canvas list \<Rightarrow> valueReference option \<Rightarrow> nat \<Rightarrow> valueReference option compiling"
  and compile_parallel :: "client_config \<Rightarrow> canvas list \<Rightarrow> valueReference option \<Rightarrow> nat \<Rightarrow> valueReference list compiling"
where
  "compile cfg (Canvas kind sigs callback steps) input depth b =
     (if depth > 32 \<or> length (g_Plan (b_graph b)) > 2000 \<or> length (g_Children (b_graph b)) > 1000 then Inl ErrInvalid
      else if kind \<in> {''task'', ''chain'', ''group'', ''chord''}
        then compile_leaf cfg (Canvas kind sigs callback steps) input b
      else if kind = ''sequence'' \<or> kind = ''parallel'' then
        (if sigs \<noteq> [] \<or> callback \<noteq> None \<or> length steps > 1000 then Inl ErrInvalid
         else if kind = ''sequence'' then
           (case compile_sequence cfg steps input (Suc depth) b of
              Inl e \<Rightarrow> Inl e | Inr (previous, b') \<Rightarrow> last_value previous b')
         else
           (case compile_parallel cfg steps input (Suc depth) b of
              Inl e \<Rightarrow> Inl e | Inr (vs, b') \<Rightarrow> Inr (compile_collect vs input b')))
      else Inl ErrInvalid)"
| "compile_sequence cfg [] previous depth b = Inr (previous, b)"
| "compile_sequence cfg (c # cs) previous depth b =
     (case compile cfg c previous depth b of
        Inl e \<Rightarrow> Inl e | Inr (v, b') \<Rightarrow> compile_sequence cfg cs (Some v) depth b')"
| "compile_parallel cfg [] input depth b = Inr ([], b)"
| "compile_parallel cfg (c # cs) input depth b =
     (case compile cfg c input depth b of
        Inl e \<Rightarrow> Inl e
      | Inr (v, b') \<Rightarrow>
          (case compile_parallel cfg cs input depth b' of Inl e \<Rightarrow> Inl e | Inr (vs, b'') \<Rightarrow> Inr (v # vs, b'')))"

subsection \<open>Starting a workflow\<close>

definition new_graph :: "string \<Rightarrow> string \<Rightarrow> graph" where
  "new_graph i kind =
     \<lparr>g_ID = i, g_Kind = kind, g_Scope = [], g_Children = [], g_Signatures = [], g_Callback = None,
      g_CallbackID = [], g_Members = [], g_MembersNil = False, g_State = Running, g_Output = [],
      g_Failure = None, g_Next = 0, g_Revision = 1, g_CallbackClaimed = False, g_CallbackEnvelope = None,
      g_CancelRequested = False, g_Plan = [], g_RootNode = [], g_OriginTaskID = [], g_OriginDigest = [],
      g_AbortFailure = None, g_PayloadForgotten = False\<rparr>"

definition authorize ::
  "(string \<Rightarrow> string \<Rightarrow> string \<Rightarrow> bool) option \<Rightarrow> string \<Rightarrow> string \<Rightarrow> string \<Rightarrow> async_error option" where
  "authorize callback operation scope i =
     (case callback of
        Some f \<Rightarrow> if f operation scope i then None else Some ErrDenied
      | None \<Rightarrow> if scope \<noteq> [] then Some ErrDenied else None)"

definition accepted :: "client_config \<Rightarrow> graph \<times> intent list \<Rightarrow> async_error + graph \<times> intent list" where
  "accepted cfg p =
     (case validateGraphAcceptance (cc_codec cfg) (fst p) (snd p) of Some e \<Rightarrow> Inl e | None \<Rightarrow> Inr p)"

definition applyNested ::
  "(string \<Rightarrow> string \<Rightarrow> string \<Rightarrow> bool) option \<Rightarrow> client_config \<Rightarrow> canvas \<Rightarrow> async_error + graph \<times> intent list" where
  "applyNested callback cfg c =
     (case cc_NewID cfg of
        Inl e \<Rightarrow> Inl e
      | Inr i \<Rightarrow>
          (case compile cfg c None 0 \<lparr>b_graph = new_graph i ''dag'', b_hasScope = False\<rparr> of
             Inl e \<Rightarrow> Inl e
           | Inr (root, b) \<Rightarrow>
               let g = (b_graph b)\<lparr>g_RootNode := v_id root\<rparr> in
               (case authorize callback ''enqueue'' (g_Scope g) i of
                  Some e \<Rightarrow> Inl e
                | None \<Rightarrow> (case advance cfg g of Inl e \<Rightarrow> Inl e | Inr p \<Rightarrow> accepted cfg p))))"

definition chain_input_error :: "client_config \<Rightarrow> signature \<Rightarrow> signature \<Rightarrow> task_def \<Rightarrow> async_error option" where
  "chain_input_error cfg prior s d =
     (if s_Immutable s then None
      else case (lookup (cc_registry cfg) (s_Task prior) (s_Version prior), inputBindingType d s) of
             (Inr p, Inr target) \<Rightarrow> if target \<noteq> d_output p then Some ErrInvalid else None
           | _ \<Rightarrow> Some ErrInvalid)"

fun validate_signatures :: "client_config \<Rightarrow> string \<Rightarrow> signature option \<Rightarrow> signature list \<Rightarrow> async_error option" where
  "validate_signatures cfg kind prior [] = None"
| "validate_signatures cfg kind prior (s # ss) =
     (case lookup (cc_registry cfg) (s_Task s) (s_Version s) of
        Inl e \<Rightarrow> Some e
      | Inr d \<Rightarrow>
          (case d_validate d (s_Args s) of
             Some e \<Rightarrow> Some e
           | None \<Rightarrow>
               (case (case prior of None \<Rightarrow> None
                      | Some p \<Rightarrow> if kind = ''chain'' then chain_input_error cfg p s d else None) of
                  Some e \<Rightarrow> Some e
                | None \<Rightarrow> validate_signatures cfg kind (Some s) ss)))"

definition chord_error :: "client_config \<Rightarrow> signature list \<Rightarrow> signature option \<Rightarrow> async_error option" where
  "chord_error cfg ss callback =
     (case callback of
        None \<Rightarrow> Some ErrInvalid
      | Some body \<Rightarrow>
          (case lookup (cc_registry cfg) (s_Task body) (s_Version body) of
             Inl e \<Rightarrow> Some e
           | Inr d \<Rightarrow>
               if s_Immutable body then None
               else (case inputBindingType d body of
                       Inl _ \<Rightarrow> Some ErrInvalid
                     | Inr target \<Rightarrow>
                         (case slice_elem target of
                            None \<Rightarrow> Some ErrInvalid
                          | Some elem \<Rightarrow>
                              if list_all (\<lambda>s. case lookup (cc_registry cfg) (s_Task s) (s_Version s) of
                                   Inl _ \<Rightarrow> False | Inr source \<Rightarrow> d_output source = elem) ss
                              then None else Some ErrInvalid))))"

definition validateCanvas :: "client_config \<Rightarrow> canvas \<Rightarrow> async_error option" where
  "validateCanvas cfg c =
     (if length (cv_Signatures c) > 1000 then Some ErrInvalid
      else if cv_Kind c \<notin> {''chain'', ''group'', ''chord''} then Some ErrInvalid
      else case validate_signatures cfg (cv_Kind c) None (cv_Signatures c) of
             Some e \<Rightarrow> Some e
           | None \<Rightarrow> if cv_Kind c = ''chord'' then chord_error cfg (cv_Signatures c) (cv_Callback c) else None)"

text \<open>The children of a flat canvas; the scope is that of the first one.\<close>

fun flat_children ::
  "client_config \<Rightarrow> string \<Rightarrow> signature list \<Rightarrow> graph \<Rightarrow> async_error + graph" where
  "flat_children cfg kind [] g = Inr g"
| "flat_children cfg kind (s # ss) g =
     (let n = length (g_Children g) in
      case prepare cfg (WithID (StableID (g_ID g) (''child-'' @ itoa_nat n)) s) of
        Inl e \<Rightarrow> Inl e
      | Inr e \<Rightarrow>
          if n \<noteq> 0 \<and> g_Scope g \<noteq> e_Scope e then Inl ErrDenied
          else flat_children cfg kind ss
            (g\<lparr>g_Scope := e_Scope e,
               g_Children := g_Children g @ [e\<lparr>e_WorkflowID := g_ID g, e_RootID := g_ID g,
                 e_ParentID := (if kind = ''chain'' \<and> n > 0 then e_ID (List.last (g_Children g)) else g_ID g)\<rparr>]\<rparr>))"

definition callback_graph :: "signature option \<Rightarrow> graph \<Rightarrow> async_error + graph" where
  "callback_graph callback g =
     (case callback of
        None \<Rightarrow> Inr g
      | Some body \<Rightarrow>
          let scope = (if g_Children g = [] then o_Scope (s_Options body) else g_Scope g) in
          if o_Scope (s_Options body) \<noteq> scope then Inl ErrDenied
          else Inr (g\<lparr>g_CallbackID := StableID (g_ID g) ''body'', g_Scope := scope\<rparr>))"

definition first_intents :: "string \<Rightarrow> graph \<Rightarrow> intent list" where
  "first_intents kind g =
     map (dispatchIntent (g_ID g)) (if kind = ''chain'' then take 1 (g_Children g) else g_Children g)"

definition ApplyCanvas ::
  "bool \<Rightarrow> (string \<Rightarrow> string \<Rightarrow> string \<Rightarrow> bool) option \<Rightarrow> client_config \<Rightarrow> canvas \<Rightarrow> async_error + graph \<times> intent list" where
  "ApplyCanvas workflows callback cfg c =
     (if \<not> workflows then Inl ErrUnavailable
      else if cv_Kind c \<in> {''sequence'', ''parallel'', ''task''} then applyNested callback cfg c
      else case validateCanvas cfg c of
             Some e \<Rightarrow> Inl e
           | None \<Rightarrow>
               (case cc_NewID cfg of
                  Inl e \<Rightarrow> Inl e
                | Inr i \<Rightarrow>
                    (case flat_children cfg (cv_Kind c) (cv_Signatures c)
                            ((new_graph i (cv_Kind c))\<lparr>g_Signatures := cv_Signatures c, g_Callback := cv_Callback c\<rparr>) of
                       Inl e \<Rightarrow> Inl e
                     | Inr g0 \<Rightarrow>
                         (case callback_graph (cv_Callback c) g0 of
                            Inl e \<Rightarrow> Inl e
                          | Inr g \<Rightarrow>
                              (case authorize callback ''enqueue'' (g_Scope g) i of
                                 Some e \<Rightarrow> Inl e
                               | None \<Rightarrow>
                                   (case (if g_Children g = [] then advance cfg g
                                          else Inr (g, first_intents (cv_Kind c) g)) of
                                      Inl e \<Rightarrow> Inl e | Inr p \<Rightarrow> accepted cfg p))))))"

subsection \<open>What compiling builds\<close>

text \<open>A node in a plan refers only to earlier nodes, and nothing is dispatched yet.\<close>

definition node_ok :: "canvas_node list \<Rightarrow> canvas_node \<Rightarrow> bool" where
  "node_ok ns n \<longleftrightarrow>
     set (n_Dependencies n @ n_WaitFor n) \<subseteq> n_ID ` set ns \<and> \<not> n_Dispatched n \<and>
     (n_Kind n = ''collect'' \<or> n_Kind n = ''task'' \<and> n_Signature n \<noteq> None \<and> length (n_Dependencies n) \<le> 1)"

definition plan_ok :: "canvas_node list \<Rightarrow> bool" where
  "plan_ok ns \<longleftrightarrow> (\<forall>j < length ns. node_ok (take j ns) (ns ! j))"

lemma plan_ok_Nil [simp]: "plan_ok []"
  by (simp add: plan_ok_def)

lemma plan_ok_snoc [simp]: "plan_ok (ns @ [n]) \<longleftrightarrow> plan_ok ns \<and> node_ok ns n"
  by (auto simp: plan_ok_def less_Suc_eq nth_append)

definition tasks_of :: "canvas_node list \<Rightarrow> string list" where
  "tasks_of ns = map n_ID (filter (\<lambda>n. n_Kind n = ''task'') ns)"

definition child_ok :: "client_config \<Rightarrow> graph \<Rightarrow> envelope \<Rightarrow> bool" where
  "child_ok cfg g e \<longleftrightarrow> e_Scope e = g_Scope g \<and> e_WorkflowID e = g_ID g \<and> e_RootID e = g_ID g \<and> e_Queue e \<in> set (cc_queues cfg)"

definition compiled :: "client_config \<Rightarrow> canvasCompiler \<Rightarrow> bool" where
  "compiled cfg b \<longleftrightarrow>
     plan_ok (g_Plan (b_graph b)) \<and> map e_ID (g_Children (b_graph b)) = tasks_of (g_Plan (b_graph b)) \<and>
     list_all (child_ok cfg (b_graph b)) (g_Children (b_graph b)) \<and>
     (b_hasScope b \<longleftrightarrow> g_Children (b_graph b) \<noteq> []) \<and> length (g_Children (b_graph b)) \<le> 1000"

definition node_ids :: "canvasCompiler \<Rightarrow> string set" where
  "node_ids b = n_ID ` set (g_Plan (b_graph b))"

text \<open>Only the scope, the children and the plan change, and they only grow.\<close>

definition extends :: "canvasCompiler \<Rightarrow> canvasCompiler \<Rightarrow> bool" where
  "extends b b' \<longleftrightarrow>
     (\<exists>scope ch ns. b_graph b' = (b_graph b)\<lparr>g_Scope := scope, g_Children := g_Children (b_graph b) @ ch,
        g_Plan := g_Plan (b_graph b) @ ns\<rparr>)"

lemma extends_self: "extends b b"
  unfolding extends_def by (intro exI[of _ "g_Scope (b_graph b)"] exI[of _ "[]"]) simp

lemma extends_trans:
  assumes "extends a b" "extends b c"
  shows "extends a c"
proof -
  obtain s1 c1 n1 where 1: "b_graph b = (b_graph a)\<lparr>g_Scope := s1, g_Children := g_Children (b_graph a) @ c1,
      g_Plan := g_Plan (b_graph a) @ n1\<rparr>" using assms(1) by (auto simp: extends_def)
  obtain s2 c2 n2 where 2: "b_graph c = (b_graph b)\<lparr>g_Scope := s2, g_Children := g_Children (b_graph b) @ c2,
      g_Plan := g_Plan (b_graph b) @ n2\<rparr>" using assms(2) by (auto simp: extends_def)
  show ?thesis unfolding extends_def
    by (rule exI[of _ s2], rule exI[of _ "c1 @ c2"], rule exI[of _ "n1 @ n2"]) (simp add: 2 1)
qed

lemma extends_ids: "extends b b' \<Longrightarrow> node_ids b \<subseteq> node_ids b'"
  by (auto simp: extends_def node_ids_def)

definition reaches :: "client_config \<Rightarrow> canvasCompiler \<Rightarrow> string set \<Rightarrow> canvasCompiler \<Rightarrow> bool" where
  "reaches cfg b vs b' \<longleftrightarrow> compiled cfg b' \<and> extends b b' \<and> vs \<subseteq> node_ids b'"

definition refs :: "valueReference option \<Rightarrow> string set" where
  "refs input = v_id ` set_option input"

lemma reaches_trans:
  assumes "reaches cfg a vs b" "reaches cfg b ws c"
  shows "reaches cfg a (vs \<union> ws) c"
  using assms extends_trans extends_ids unfolding reaches_def by blast

lemma reaches_mono: "reaches cfg a vs b \<Longrightarrow> ws \<subseteq> vs \<Longrightarrow> reaches cfg a ws b"
  unfolding reaches_def by blast

lemma reaches_refl: "compiled cfg b \<Longrightarrow> vs \<subseteq> node_ids b \<Longrightarrow> reaches cfg b vs b"
  by (simp add: reaches_def extends_self)

lemma add_task_reaches:
  assumes "compiled cfg b" "refs input \<subseteq> node_ids b" "e_ID e = i" "e_Queue e \<in> set (cc_queues cfg)"
    "b_hasScope b \<longrightarrow> e_Scope e = g_Scope (b_graph b)" "length (g_Children (b_graph b)) < 1000"
  shows "reaches cfg b {i} (add_task i s input e b)"
proof -
  have "extends b (add_task i s input e b)"
    unfolding extends_def add_task_def Let_def
    by (rule exI[of _ "e_Scope e"], rule exI, rule exI) simp
  moreover have "node_ok (g_Plan (b_graph b)) (List.last (g_Plan (b_graph (add_task i s input e b))))"
    using assms(2) by (auto simp: add_task_def Let_def node_ok_def refs_def node_ids_def split: option.splits)
  then have "compiled cfg (add_task i s input e b)"
    using assms(1,3-6) unfolding compiled_def
    by (auto simp: add_task_def Let_def tasks_of_def child_ok_def list_all_iff)
  ultimately show ?thesis by (auto simp: reaches_def node_ids_def add_task_def Let_def)
qed

lemma collect_reaches:
  assumes "compiled cfg b" "refs input \<subseteq> node_ids b" "v_id ` set vs \<subseteq> node_ids b"
    "compile_collect vs input b = (v, b')"
  shows "reaches cfg b {v_id v} b'"
proof -
  have b': "b' = snd (compile_collect vs input b)" and v: "v = fst (compile_collect vs input b)"
    using assms(4) by auto
  have "extends b b'"
    unfolding extends_def b' compile_collect_def Let_def
    by (rule exI[of _ "g_Scope (b_graph b)"], rule exI[of _ "[]"], rule exI) simp
  moreover have "node_ok (g_Plan (b_graph b)) (List.last (g_Plan (b_graph b')))"
    using assms(2,3) unfolding b'
    by (auto simp: compile_collect_def Let_def node_ok_def refs_def node_ids_def split: option.splits)
  then have "compiled cfg b'"
    using assms(1) unfolding compiled_def b'
    by (auto simp: compile_collect_def Let_def tasks_of_def child_ok_def list_all_iff)
  ultimately show ?thesis by (auto simp: reaches_def node_ids_def compile_collect_def Let_def b' v)
qed

lemma WithID_option [simp]: "o_ID (s_Options (WithID i s)) = i"
  by (cases s) (simp add: WithID_def)

lemma prepare_id:
  assumes "prepare cfg s = Inr e" "o_ID (s_Options s) = i" "i \<noteq> []"
  shows "e_ID e = i \<and> e_Queue e \<in> set (cc_queues cfg)"
  using assms(1)
proof (cases rule: prepare_spec)
  case (1 d s')
  show ?thesis using 1(4,6) assms(2,3)
    by (auto simp: prepare_checked_def Let_def prepared_envelope_def split: if_splits option.splits)
qed

lemma task_reaches:
  assumes "compile_task cfg s input b = Inr (v, b')" "compiled cfg b" "refs input \<subseteq> node_ids b"
  shows "reaches cfg b {v_id v} b'"
proof -
  let ?i = "StableID (g_ID (b_graph b)) (''task-'' @ itoa_nat (length (g_Children (b_graph b))))"
  obtain d e where e: "prepare cfg (WithID ?i s) = Inr e" "b_hasScope b \<longrightarrow> e_Scope e = g_Scope (b_graph b)"
      "b' = add_task ?i (WithID ?i s) input e b" "v_id v = ?i" "length (g_Children (b_graph b)) < 1000"
    using assms(1) by (auto simp: compile_task_def Let_def split: if_splits sum.splits)
  have "e_ID e = ?i \<and> e_Queue e \<in> set (cc_queues cfg)"
    using prepare_id[OF e(1)] StableID_nonempty by simp
  then show ?thesis using add_task_reaches[OF assms(2,3)] e by auto
qed

lemma chain_reaches:
  "compile_chain cfg ss previous b = Inr (v, b') \<Longrightarrow> compiled cfg b \<Longrightarrow> refs previous \<subseteq> node_ids b
   \<Longrightarrow> reaches cfg b (refs v) b'"
proof (induction cfg ss previous b arbitrary: v b' rule: compile_chain.induct)
  case (2 cfg s ss previous b)
  obtain w b1 where w: "compile_task cfg s previous b = Inr (w, b1)" "compile_chain cfg ss (Some w) b1 = Inr (v, b')"
    using 2(2) by (auto split: sum.splits)
  have r: "reaches cfg b {v_id w} b1" using task_reaches[OF w(1)] 2(3,4) by simp
  then have "reaches cfg b1 (refs v) b'" using 2(1)[OF w(1) refl w(2)] by (simp add: reaches_def refs_def)
  then show ?case using reaches_trans[OF r] reaches_mono by blast
qed (simp add: reaches_refl)

lemma group_reaches:
  "compile_group cfg ss input b = Inr (vs, b') \<Longrightarrow> compiled cfg b \<Longrightarrow> refs input \<subseteq> node_ids b
   \<Longrightarrow> reaches cfg b (v_id ` set vs) b'"
proof (induction cfg ss input b arbitrary: vs b' rule: compile_group.induct)
  case (2 cfg s ss input b)
  obtain w b1 ws where w: "compile_task cfg s input b = Inr (w, b1)" "compile_group cfg ss input b1 = Inr (ws, b')"
      "vs = w # ws"
    using 2(2) by (auto split: sum.splits)
  have r: "reaches cfg b {v_id w} b1" using task_reaches[OF w(1)] 2(3,4) by simp
  then have "refs input \<subseteq> node_ids b1" using 2(4) extends_ids by (auto simp: reaches_def)
  then have "reaches cfg b1 (v_id ` set ws) b'" using 2(1)[OF w(1) refl w(2)] r by (simp add: reaches_def)
  then show ?case using reaches_trans[OF r] by (simp add: w(3))
qed (simp add: reaches_refl)

lemma reaches_input: "reaches cfg b vs b' \<Longrightarrow> refs input \<subseteq> node_ids b \<Longrightarrow> compiled cfg b' \<and> refs input \<subseteq> node_ids b'"
  using extends_ids unfolding reaches_def by blast

lemma collect_step:
  assumes "reaches cfg b (v_id ` set vs) b1" "refs input \<subseteq> node_ids b" "compile_collect vs input b1 = (v, b')"
  shows "reaches cfg b1 {v_id v} b'"
  by (rule collect_reaches[OF _ _ _ assms(3)])
     (use assms(1) reaches_input[OF assms(1,2)] in \<open>auto simp: reaches_def\<close>)

lemma collect_then:
  assumes "reaches cfg b (v_id ` set vs) b1" "refs input \<subseteq> node_ids b" "compile_collect vs input b1 = (v, b')"
  shows "reaches cfg b {v_id v} b'"
  using reaches_trans[OF assms(1) collect_step[OF assms]] reaches_mono by blast

lemma last_value_reaches:
  assumes "reaches cfg b (refs previous) b1" "last_value previous b1 = Inr (v, b')"
  shows "reaches cfg b {v_id v} b'"
proof (cases previous)
  case None
  then have c: "compile_collect [] None b1 = (v, b')" using assms(2) by (simp add: last_value_def)
  have "reaches cfg b (v_id ` set []) b1" using assms(1) None by (simp add: refs_def)
  then show ?thesis using collect_then[OF _ _ c] by (simp add: refs_def)
next
  case (Some w)
  then show ?thesis using assms by (simp add: last_value_def refs_def)
qed

lemma leaf_reaches:
  assumes "compile_leaf cfg c input b = Inr (v, b')" "compiled cfg b" "refs input \<subseteq> node_ids b"
  shows "reaches cfg b {v_id v} b'"
proof -
  consider (one) s where "compile_task cfg s input b = Inr (v, b')"
    | (many) previous b1 where "compile_chain cfg (cv_Signatures c) input b = Inr (previous, b1)"
        "last_value previous b1 = Inr (v, b')"
    | (grp) vs b1 where "compile_group cfg (cv_Signatures c) input b = Inr (vs, b1)"
        "compile_collect vs input b1 = (v, b')"
    | (body) vs b1 g b2 s where "compile_group cfg (cv_Signatures c) input b = Inr (vs, b1)"
        "compile_collect vs input b1 = (g, b2)" "compile_task cfg s (Some g) b2 = Inr (v, b')"
    using assms(1) by (auto simp: compile_leaf_def split: if_splits sum.splits prod.splits option.splits)
  then show ?thesis
  proof cases
    case (one s)
    then show ?thesis using task_reaches assms(2,3) by blast
  next
    case (many previous b1)
    then show ?thesis using last_value_reaches[OF chain_reaches] assms(2,3) by blast
  next
    case (grp vs b1)
    have r: "reaches cfg b (v_id ` set vs) b1" using group_reaches[OF grp(1)] assms(2,3) by blast
    then show ?thesis using collect_then[OF r assms(3) grp(2)] by blast
  next
    case (body vs b1 g b2 s)
    have r: "reaches cfg b (v_id ` set vs) b1" using group_reaches[OF body(1)] assms(2,3) by blast
    have r2: "reaches cfg b1 {v_id g} b2" using collect_step[OF r assms(3) body(2)] .
    then have "reaches cfg b2 {v_id v} b'" using task_reaches[OF body(3)] by (simp add: reaches_def refs_def)
    then show ?thesis using reaches_trans[OF reaches_trans[OF r r2]] reaches_mono by blast
  qed
qed

lemma compile_reaches:
  "compile cfg c input depth b = Inr (v, b') \<Longrightarrow> compiled cfg b \<Longrightarrow> refs input \<subseteq> node_ids b
   \<Longrightarrow> reaches cfg b {v_id v} b'"
  "compile_sequence cfg cs input depth b = Inr (p, b') \<Longrightarrow> compiled cfg b \<Longrightarrow> refs input \<subseteq> node_ids b
   \<Longrightarrow> reaches cfg b (refs p) b'"
  "compile_parallel cfg cs input depth b = Inr (vs, b') \<Longrightarrow> compiled cfg b \<Longrightarrow> refs input \<subseteq> node_ids b
   \<Longrightarrow> reaches cfg b (v_id ` set vs) b'"
proof (induction cfg c input depth b and cfg cs input depth b and cfg cs input depth b
    arbitrary: v b' and p b' and vs b' rule: compile_compile_sequence_compile_parallel.induct)
  case (1 cfg kind sigs callback steps input depth b)
  consider (leaf) "compile_leaf cfg (Canvas kind sigs callback steps) input b = Inr (v, b')"
    | (seq) p b1 where "kind = ''sequence''" "compile_sequence cfg steps input (Suc depth) b = Inr (p, b1)" "last_value p b1 = Inr (v, b')"
    | (par) vs b1 where "kind = ''parallel''" "compile_parallel cfg steps input (Suc depth) b = Inr (vs, b1)" "compile_collect vs input b1 = (v, b')"
    using 1(3) by (auto split: if_splits sum.splits prod.splits)
  then show ?case
  proof cases
    case leaf
    then show ?thesis using leaf_reaches 1(4,5) by blast
  next
    case (seq p b1)
    have "reaches cfg b (refs p) b1" using 1(1,3-5) seq by (auto split: if_splits)
    then show ?thesis using last_value_reaches seq(3) by blast
  next
    case (par vs b1)
    have r: "reaches cfg b (v_id ` set vs) b1" using 1(2-5) par by (auto split: if_splits)
    then show ?thesis using collect_then[OF r 1(5) par(3)] by blast
  qed
next
  case (3 cfg c cs previous depth b)
  obtain w b1 where w: "compile cfg c previous depth b = Inr (w, b1)" "compile_sequence cfg cs (Some w) depth b1 = Inr (p, b')"
    using 3(3) by (auto split: sum.splits)
  have r: "reaches cfg b {v_id w} b1" using 3(1)[OF w(1)] 3(4,5) by simp
  then have "reaches cfg b1 (refs p) b'" using 3(2)[OF w(1) refl w(2)] by (simp add: reaches_def refs_def)
  then show ?case using reaches_trans[OF r] reaches_mono by blast
next
  case (5 cfg c cs input depth b)
  obtain w b1 ws where w: "compile cfg c input depth b = Inr (w, b1)" "compile_parallel cfg cs input depth b1 = Inr (ws, b')"
      "vs = w # ws"
    using 5(3) by (auto split: sum.splits)
  have r: "reaches cfg b {v_id w} b1" using 5(1)[OF w(1)] 5(4,5) by simp
  then have "reaches cfg b1 (v_id ` set ws) b'"
    using 5(2)[OF w(1) refl w(2)] reaches_input[OF r 5(5)] by simp
  then show ?case using reaches_trans[OF r] by (simp add: w(3))
qed (simp_all add: reaches_refl)

end
