(* ===== verification/Async_Progress.thy ===== *)
theory Async_Progress
  imports Async_Compile
begin

text \<open>
  What a started workflow keeps while it advances, and that it cannot get stuck. \<open>static\<close> is the part of a
  graph that no step changes: identity, scope, root, the identity and placement of the children and the
  plan without its dispatch marks. A plan in which every node refers to earlier nodes then always has a
  next move: its first node without a completion is a task that is with the workers.
\<close>

subsection \<open>The static part of a graph\<close>

definition static_child :: "envelope \<Rightarrow> string \<times> string \<times> string \<times> string \<times> string" where
  "static_child e = (e_ID e, e_Scope e, e_WorkflowID e, e_RootID e, e_Queue e)"

definition static_node :: "canvas_node \<Rightarrow> canvas_node" where
  "static_node n = n\<lparr>n_Dispatched := False\<rparr>"

record static_graph =
  sg_ID :: string
  sg_Kind :: string
  sg_Scope :: string
  sg_RootNode :: string
  sg_Revision :: "64 word"
  sg_MembersNil :: bool
  sg_Children :: "(string \<times> string \<times> string \<times> string \<times> string) list"
  sg_Plan :: "canvas_node list"
  sg_Callback :: "signature option"

definition static :: "graph \<Rightarrow> static_graph" where
  "static g =
     \<lparr>sg_ID = g_ID g, sg_Kind = g_Kind g, sg_Scope = g_Scope g, sg_RootNode = g_RootNode g,
      sg_Revision = g_Revision g, sg_MembersNil = g_MembersNil g,
      sg_Children = map static_child (g_Children g), sg_Plan = map static_node (g_Plan g),
      sg_Callback = g_Callback g\<rparr>"

definition tidy :: "canvas_node list \<Rightarrow> bool" where
  "tidy ns \<longleftrightarrow> (\<forall>n \<in> set ns. n_Kind n = ''collect'' \<longrightarrow> \<not> n_Dispatched n)"

text \<open>An envelope of the workflow, and that the callback of a chord stays in the workflow.\<close>

definition own :: "graph \<Rightarrow> envelope \<Rightarrow> bool" where
  "own g e \<longleftrightarrow> e_Scope e = g_Scope g \<and> e_WorkflowID e = g_ID g \<and> e_RootID e = g_ID g"

definition own_callback :: "graph \<Rightarrow> bool" where
  "own_callback g \<longleftrightarrow>
     (\<forall>body. g_Callback g = Some body \<longrightarrow> o_Scope (s_Options body) = g_Scope g)
     \<and> (\<forall>e. g_CallbackEnvelope g = Some e \<longrightarrow> own g e)"

definition lasting :: "graph \<Rightarrow> graph \<Rightarrow> bool" where
  "lasting g g' \<longleftrightarrow>
     static g' = static g \<and> (tidy (g_Plan g) \<longrightarrow> tidy (g_Plan g')) \<and> (own_callback g \<longrightarrow> own_callback g')"

lemma lasting_refl [simp]: "lasting g g"
  by (simp add: lasting_def)

lemma lasting_trans: "lasting a b \<Longrightarrow> lasting b c \<Longrightarrow> lasting a c"
  by (simp add: lasting_def)

lemma lasting_updates [simp]:
  "lasting (g\<lparr>g_State := st\<rparr>) h = lasting g h" "lasting (g\<lparr>g_Output := out\<rparr>) h = lasting g h"
  "lasting (g\<lparr>g_Failure := f\<rparr>) h = lasting g h" "lasting (g\<lparr>g_Next := n\<rparr>) h = lasting g h"
  "lasting (g\<lparr>g_Members := ms\<rparr>) h = lasting g h" "lasting (g\<lparr>g_AbortFailure := a\<rparr>) h = lasting g h"
  "lasting g (h\<lparr>g_State := st\<rparr>) = lasting g h" "lasting g (h\<lparr>g_Output := out\<rparr>) = lasting g h"
  "lasting g (h\<lparr>g_Failure := f\<rparr>) = lasting g h" "lasting g (h\<lparr>g_Members := ms\<rparr>) = lasting g h"
  "lasting g (h\<lparr>g_CallbackClaimed := c\<rparr>) = lasting g h" "lasting g (h\<lparr>g_Next := n\<rparr>) = lasting g h"
  by (simp_all add: lasting_def static_def own_callback_def own_def)

lemma lasting_child:
  "static_child e = static_child (g_Children g ! k) \<Longrightarrow> lasting g (g\<lparr>g_Children := (g_Children g)[k := e]\<rparr>)"
  by (cases "k < length (g_Children g)")
     (simp_all add: lasting_def static_def own_callback_def own_def map_update list_update_same_conv list_update_beyond)

lemma lasting_plan:
  "map static_node ns = map static_node (g_Plan g) \<Longrightarrow> (tidy (g_Plan g) \<longrightarrow> tidy ns) \<Longrightarrow> lasting g (g\<lparr>g_Plan := ns\<rparr>)"
  by (simp add: lasting_def static_def own_callback_def own_def)

lemma args_static [simp]: "static_child (e\<lparr>e_Args := a\<rparr>) = static_child e"
  by (simp add: static_child_def)

lemma finish_lasting: "finish g st out = Inr (g', is) \<Longrightarrow> lasting g g'"
  by (auto simp: finish_def Let_def)

lemma failed_with_lasting: "failed_with g code msg = Inr (g', is) \<Longrightarrow> lasting g g'"
  by (auto simp: failed_with_def finish_def Let_def)

lemma chain_successor_lasting: "chain_successor cfg g out = Inr (g', is) \<Longrightarrow> lasting g g'"
  by (auto simp: chain_successor_def Let_def dest: failed_with_lasting
           intro: lasting_child split: if_splits sum.splits)

lemma advance_chain_lasting: "advance_chain cfg g = Inr (g', is) \<Longrightarrow> lasting g g'"
  by (auto simp: advance_chain_def Let_def split: option.splits if_splits
           dest!: failed_with_lasting finish_lasting chain_successor_lasting)

lemma bind_options: "signature_bind C s out = Inr s' \<Longrightarrow> s_Options s' = s_Options s"
  by (cases s) (auto simp: signature_bind_def split: if_splits option.splits)

lemma prepare_scope:
  assumes "prepare cfg (WithID i s) = Inr e"
  shows "e_Scope e = o_Scope (s_Options s)"
  using assms
proof (cases rule: prepare_spec)
  case (1 d s')
  have "s_Options s' = s_Options (WithID i s)" using 1(6) .
  moreover have "e_Scope e = o_Scope (s_Options s')" using prepare_checked_spec(5)[OF 1(4)] by auto
  ultimately show ?thesis by (cases s) (simp add: WithID_def)
qed

lemma callback_own:
  assumes "g_Callback g = Some body" "signature_bind C body out = Inr s" "prepare cfg (WithID i s) = Inr e"
    "own_callback g"
  shows "own g (e\<lparr>e_WorkflowID := g_ID g, e_RootID := g_ID g, e_ParentID := p\<rparr>)"
  using assms prepare_scope[OF assms(3)] bind_options[OF assms(2)] by (simp add: own_def own_callback_def)

lemma chord_callback_lasting:
  assumes "chord_callback cfg g out = Inr (g', is)"
  shows "lasting g g'"
proof -
  consider code msg where "failed_with g code msg = Inr (g', is)"
    | body s e where "g_Callback g = Some body" "signature_bind (cc_codec cfg) body out = Inr s"
        "prepare cfg (WithID (g_CallbackID g) s) = Inr e"
        "g' = g\<lparr>g_CallbackClaimed := True,
          g_CallbackEnvelope := Some (e\<lparr>e_WorkflowID := g_ID g, e_RootID := g_ID g, e_ParentID := g_ID g\<rparr>)\<rparr>"
    using assms by (auto simp: chord_callback_def Let_def split: option.splits sum.splits)
  then show ?thesis
  proof cases
    case 1
    then show ?thesis by (rule failed_with_lasting)
  next
    case (2 body s e)
    then show ?thesis using callback_own[OF 2(1-3)]
      by (simp add: lasting_def static_def own_callback_def own_def)
  qed
qed

lemma advance_barrier_lasting: "advance_barrier cfg g = Inr (g', is) \<Longrightarrow> lasting g g'"
  by (auto simp: advance_barrier_def split: if_splits option.splits
           dest!: failed_with_lasting finish_lasting chord_callback_lasting)

lemma advanceCanceled_lasting: "advanceCanceled g = Inr (g', is) \<Longrightarrow> lasting g g'"
  by (auto simp: advanceCanceled_def Let_def split: if_splits option.splits)

lemma bind_node_static: "bind_node cfg bytes s e bad outs = Inr (e', fl) \<Longrightarrow> static_child e' = static_child e"
  by (auto simp: bind_node_def Let_def split: if_splits sum.splits)

lemma mark_static [simp]: "static_node (n\<lparr>n_Dispatched := d\<rparr>) = static_node n"
  by (simp add: static_node_def)

lemma tidy_mark: "tidy ns \<Longrightarrow> n_Kind n \<noteq> ''collect'' \<Longrightarrow> tidy (ns[i := n])"
  unfolding tidy_def by (auto dest!: subsetD[OF set_update_subset_insert])

lemma nested_node_lasting:
  assumes "nested_node cfg i s = Inr s'"
  shows "lasting (ns_graph s) (ns_graph s')"
proof -
  let ?g = "ns_graph s"
  let ?n = "g_Plan ?g ! i"
  show ?thesis
  proof (cases "ready ?g ?n")
    case False
    then show ?thesis using nested_node_idle[OF False] assms by simp
  next
    case True
    then obtain bad outs where r: "\<not> node_settled ?g ?n" "node_inputs ?g ?n = Some (bad, outs)"
      by (auto simp: ready_def)
    show ?thesis
    proof (cases "n_Kind ?n = ''collect''")
      case True
      then show ?thesis using assms r by (auto simp: nested_node_def Let_def)
    next
      case False
      then obtain sig k where k: "n_Signature ?n = Some sig" "child_index (g_Children ?g) (n_ID ?n) = Some k"
          "\<not> (n_Kind ?n \<noteq> ''task'' \<or> length outs > 1)"
        using assms r by (auto simp: nested_node_def Let_def split: option.splits if_splits)
      then obtain e fl where e: "bind_node cfg (ns_bytes s) sig (g_Children ?g ! k) bad outs = Inr (e, fl)"
        using assms r False by (auto simp: nested_node_def Let_def split: sum.splits)
      let ?ns = "(g_Plan ?g)[i := ?n\<lparr>n_Dispatched := True\<rparr>]"
      let ?h = "?g\<lparr>g_Children := (g_Children ?g)[k := e]\<rparr>"
      have s': "ns_graph s' = ?h\<lparr>g_Plan := ?ns\<rparr>"
        using assms r False k e by (auto simp: nested_node_def Let_def)
      have "lasting ?g ?h" using bind_node_static[OF e] by (rule lasting_child)
      moreover have "map static_node ?ns = map static_node (g_Plan ?g)"
        by (cases "i < length (g_Plan ?g)") (simp_all add: map_update list_update_same_conv list_update_beyond)
      then have "lasting ?h (ns_graph s')" unfolding s'
        using tidy_mark[of "g_Plan ?g" "?n\<lparr>n_Dispatched := True\<rparr>" i] False by (intro lasting_plan) simp_all
      ultimately show ?thesis by (rule lasting_trans)
    qed
  qed
qed

lemma nested_pass_lasting: "nested_pass cfg is s = Inr s' \<Longrightarrow> lasting (ns_graph s) (ns_graph s')"
  by (induction cfg "is" s rule: nested_pass.induct)
     (auto split: sum.splits dest: nested_node_lasting intro: lasting_trans)

lemma nested_turns_lasting: "nested_turns cfg n s = Inr s' \<Longrightarrow> lasting (ns_graph s) (ns_graph s')"
  by (induction cfg n s rule: nested_turns.induct)
     (auto split: sum.splits if_splits dest!: nested_pass_lasting intro: lasting_trans)

lemma nested_finish_lasting: "nested_finish g is = (g', is') \<Longrightarrow> lasting g g'"
  by (auto simp: nested_finish_def Let_def split: option.splits if_splits)

lemma tidy_Cons [simp]: "tidy (n # ns) \<longleftrightarrow> (n_Kind n = ''collect'' \<longrightarrow> \<not> n_Dispatched n) \<and> tidy ns"
  by (simp add: tidy_def)

lemma cancel_plan_static:
  "cancel_plan g ns = Inr (ns', is) \<Longrightarrow> map static_node ns' = map static_node ns \<and> (tidy ns \<longrightarrow> tidy ns')"
proof (induction ns arbitrary: ns' "is")
  case (Cons n ns)
  obtain ms js where m: "cancel_plan g ns = Inr (ms, js)"
    using Cons.prems by (auto split: if_splits sum.splits option.splits)
  have "ns' = n # ms \<or> n_Kind n = ''task'' \<and> ns' = n\<lparr>n_Dispatched := True\<rparr> # ms"
    using Cons.prems m by (auto split: if_splits option.splits)
  then show ?case using Cons.IH[OF m] by auto
qed simp

lemma abort_plan_static:
  "abort_plan g ns = Inr (ns', is, fin) \<Longrightarrow> map static_node ns' = map static_node ns \<and> (tidy ns \<longrightarrow> tidy ns')"
proof (induction ns arbitrary: ns' "is" fin)
  case (Cons n ns)
  obtain ms js f where m: "abort_plan g ns = Inr (ms, js, f)"
    using Cons.prems by (auto split: if_splits sum.splits option.splits)
  have "ns' = n # ms \<or> n_Kind n = ''task'' \<and> ns' = n\<lparr>n_Dispatched := True\<rparr> # ms"
    using Cons.prems m by (auto split: if_splits option.splits)
  then show ?case using Cons.IH[OF m] by auto
qed simp

lemma advanceNested_lasting:
  assumes "advanceNested cfg g = Inr (g', is)"
  shows "lasting g g'"
proof (cases "Terminal (g_State g)")
  case False
  obtain plan is0 s where
    s: "(if g_CancelRequested g then cancel_plan g (g_Plan g) else Inr (g_Plan g, [])) = Inr (plan, is0)"
      "nested_turns cfg (Suc (length plan)) (nested_start (g\<lparr>g_Plan := plan\<rparr>) is0) = Inr s"
      "nested_finish (ns_graph s) (ns_intents s) = (g', is)"
    using assms False by (auto simp: advanceNested_def split: if_splits sum.splits)
  have p: "lasting g (g\<lparr>g_Plan := plan\<rparr>)"
    using s(1) cancel_plan_static[of g "g_Plan g"] by (intro lasting_plan) (auto split: if_splits)
  have t: "lasting (g\<lparr>g_Plan := plan\<rparr>) (ns_graph s)" using nested_turns_lasting[OF s(2)] by (simp add: nested_start_def)
  show ?thesis using lasting_trans[OF p lasting_trans[OF t nested_finish_lasting[OF s(3)]]] .
qed (use assms in \<open>simp add: advanceNested_def\<close>)

lemma advanceGraph_lasting: "advanceGraph cfg g = Inr (g', is) \<Longrightarrow> lasting g g'"
  by (auto simp: advanceGraph_def split: if_splits
           dest: advanceNested_lasting advanceCanceled_lasting finish_lasting advance_chain_lasting advance_barrier_lasting)

lemma abort_finish_lasting: "abort_finish g is fin = Inr (g', is') \<Longrightarrow> lasting g g'"
  by (auto simp: abort_finish_def Let_def split: if_splits)

lemma advanceAborted_lasting:
  assumes "advanceAbortedGraph g = Inr (g', is)"
  shows "lasting g g'"
proof -
  let ?d = "drop_outputs g"
  have d: "lasting g ?d" by (simp add: drop_outputs_def)
  obtain h js fin where h: "abort_finish h js fin = Inr (g', is)" "lasting ?d h"
    using assms by (auto simp: advanceAbortedGraph_def Let_def split: if_splits sum.splits
        dest!: abort_plan_static intro: lasting_plan)
  then show ?thesis using lasting_trans[OF d lasting_trans[OF h(2) abort_finish_lasting[OF h(1)]]] by simp
qed

lemma advance_lasting: "advance cfg g = Inr (g', is) \<Longrightarrow> lasting g g'"
  by (auto simp: advance_def advance_body_def Let_def split: sum.splits if_splits
           dest!: advanceAborted_lasting advanceGraph_lasting)

subsection \<open>Well planned graphs never fail to advance\<close>

definition sound_plan :: "static_graph \<Rightarrow> bool" where
  "sound_plan sg \<longleftrightarrow>
     sg_Kind sg = ''dag'' \<and> plan_ok (sg_Plan sg) \<and> map fst (sg_Children sg) = tasks_of (sg_Plan sg)
     \<and> length (sg_Plan sg) \<le> 2000 \<and> length (sg_Children sg) \<le> 1000
     \<and> sg_RootNode sg \<noteq> [] \<and> sg_RootNode sg \<in> n_ID ` set (sg_Plan sg)"

definition planned :: "graph \<Rightarrow> bool" where
  "planned g \<longleftrightarrow> sound_plan (static g) \<and> tidy (g_Plan g)"


lemma static_sel [simp]:
  "n_ID (static_node n) = n_ID n" "n_Kind (static_node n) = n_Kind n"
  "n_Dependencies (static_node n) = n_Dependencies n" "n_WaitFor (static_node n) = n_WaitFor n"
  "n_Signature (static_node n) = n_Signature n" "\<not> n_Dispatched (static_node n)"
  by (simp_all add: static_node_def)

lemma tasks_of_static [simp]: "tasks_of (map static_node ns) = tasks_of ns"
  by (simp add: tasks_of_def filter_map comp_def)
















lemma planned_updates [simp]:
  "planned (g\<lparr>g_Members := ms\<rparr>) = planned g" "planned (g\<lparr>g_AbortFailure := a\<rparr>) = planned g"
  "planned (g\<lparr>g_CancelRequested := b\<rparr>) = planned g" "planned (drop_outputs g) = planned g"
  by (simp_all add: planned_def static_def sound_plan_def drop_outputs_def)

lemma planned_revision [simp]: "planned (g\<lparr>g_Revision := r\<rparr>) = planned g"
  by (simp add: planned_def static_def sound_plan_def)




subsection \<open>A workflow that is not over waits for a task\<close>

definition waits_for :: "graph \<Rightarrow> canvas_node \<Rightarrow> bool" where
  "waits_for g n \<longleftrightarrow> n \<in> set (g_Plan g) \<and> n_Kind n = ''task'' \<and> n_Dispatched n \<and> member g (n_ID n) = None"

definition moving :: "graph \<Rightarrow> bool" where
  "moving g \<longleftrightarrow> Terminal (g_State g) \<or> (\<exists>n. waits_for g n)"

definition outcomes :: "graph \<Rightarrow> bool" where
  "outcomes g \<longleftrightarrow> (\<forall>i c. member g i = Some c \<longrightarrow> Terminal (c_State c))"










lemma outcomes_updates [simp]:
  "outcomes (g\<lparr>g_AbortFailure := a\<rparr>) = outcomes g" "outcomes (g\<lparr>g_CancelRequested := b\<rparr>) = outcomes g"
  "outcomes (g\<lparr>g_Revision := r\<rparr>) = outcomes g"
  by (simp_all add: outcomes_def member_def)

text \<open>The invariant of a nested workflow.\<close>

definition healthy :: "graph \<Rightarrow> bool" where
  "healthy g \<longleftrightarrow> planned g \<and> outcomes g \<and> moving g"


lemma healthy_revision [simp]: "healthy (g\<lparr>g_Revision := r\<rparr>) = healthy g"
  by (simp add: healthy_def moving_def waits_for_def member_def)

subsection \<open>The states of a nested workflow\<close>

text \<open>
  What the store can hold of a workflow, with the intents staged by the last change: the graph it was
  created with, and what recording a member or a cancellation commits, by any client.
\<close>

inductive workflow_run :: "graph \<Rightarrow> intent list \<Rightarrow> graph \<Rightarrow> intent list \<Rightarrow> bool" for g0 :: graph and is0 :: "intent list" where
  created: "workflow_run g0 is0 g0 is0"
| recorded: "workflow_run g0 is0 g is \<Longrightarrow> RecordMember cfg m (Inr g) = Commit q a
             \<Longrightarrow> workflow_run g0 is0 (gq_Graph q) (gq_Intents q)"
| canceled: "workflow_run g0 is0 g is \<Longrightarrow> CancelGraph cfg scope (Inr g) = Commit q a
             \<Longrightarrow> workflow_run g0 is0 (gq_Graph q) (gq_Intents q)"






subsection \<open>Accepted canvases\<close>

lemma compiled_new: "compiled cfg \<lparr>b_graph = new_graph i kind, b_hasScope = False\<rparr>"
  by (simp add: compiled_def new_graph_def tasks_of_def)



lemma applyNested_cases:
  assumes "applyNested callback cfg c = Inr (g, is)"
  obtains i b and root :: valueReference where
    "cc_NewID cfg = Inr i"
    "reaches cfg \<lparr>b_graph = new_graph i ''dag'', b_hasScope = False\<rparr> {v_id root} b"
    "authorize callback ''enqueue'' (g_Scope (b_graph b)) i = None"
    "advance cfg ((b_graph b)\<lparr>g_RootNode := v_id root\<rparr>) = Inr (g, is)"
    "validateGraphAcceptance (cc_codec cfg) g is = None"
proof -
  obtain i root b where 1: "cc_NewID cfg = Inr i"
      "compile cfg c None 0 \<lparr>b_graph = new_graph i ''dag'', b_hasScope = False\<rparr> = Inr (root, b)"
      "authorize callback ''enqueue'' (g_Scope (b_graph b)) i = None"
      "advance cfg ((b_graph b)\<lparr>g_RootNode := v_id root\<rparr>) = Inr (g, is)"
      "validateGraphAcceptance (cc_codec cfg) g is = None"
    using assms by (auto simp: applyNested_def Let_def accepted_def split: sum.splits option.splits)
  have "reaches cfg \<lparr>b_graph = new_graph i ''dag'', b_hasScope = False\<rparr> {v_id root} b"
    using compile_reaches(1)[OF 1(2) compiled_new] by (simp add: refs_def)
  then show thesis by (rule that[OF 1(1) _ 1(3-5)])
qed


subsection \<open>What a workflow dispatches\<close>

definition own_intent :: "graph \<Rightarrow> intent \<Rightarrow> bool" where
  "own_intent g i \<longleftrightarrow> i_SourceID i = g_ID g \<and> idPattern (i_ID i) \<and> (\<forall>e. i_Envelope i = Some e \<longrightarrow> own g e)"

lemma StableID_pattern [simp]: "idPattern (StableID p l)"
  by (simp add: StableID_def formatID_idPattern)

definition scoped :: "graph \<Rightarrow> bool" where
  "scoped g \<longleftrightarrow> (\<forall>e \<in> set (g_Children g). own g e) \<and> own_callback g"

lemma own_static: "static g' = static g \<Longrightarrow> own g' = own g \<and> own_intent g' = own_intent g"
  by (simp add: static_def own_def own_intent_def fun_eq_iff)

lemma lasting_own: "lasting g g' \<Longrightarrow> own_intent g' = own_intent g"
  by (rule own_static[THEN conjunct2]) (simp add: lasting_def)

lemma own_children_static:
  assumes "static g' = static g" "\<forall>e \<in> set (g_Children g). own g e"
  shows "\<forall>e \<in> set (g_Children g'). own g e"
proof -
  have "static_child ` set (g_Children g') = static_child ` set (g_Children g)"
    using assms(1) by (metis list.set_map static_def static_graph.select_convs(7))
  then have "\<exists>d \<in> set (g_Children g). static_child e = static_child d" if "e \<in> set (g_Children g')" for e
    using that by (metis (no_types, lifting) image_iff)
  then show ?thesis using assms(2) by (fastforce simp: static_child_def own_def)
qed

lemma scoped_lasting: "lasting g g' \<Longrightarrow> scoped g \<Longrightarrow> scoped g'"
  using own_children_static own_static unfolding lasting_def scoped_def by metis

lemma own_intents [simp]:
  "own_intent g (unpin_intent g i)" "own_intent g (dispatchIntent (g_ID g) e) = own g e"
  "own_intent g (cancellationIntent (g_ID g) e d) = own g e" "own_intent g (node_intent g e fl) = own g e"
  "own_intent g (abort_intent g e) = own g e" "own_intent g (fail_intent g e) = own g e"
  by (simp_all add: own_intent_def unpin_intent_def dispatchIntent_def cancellationIntent_def node_intent_def
      abort_intent_def fail_intent_def zero_intent_def Let_def split: option.split)

lemma own_update [simp]:
  "own (g\<lparr>g_State := st\<rparr>) = own g" "own (g\<lparr>g_Output := out\<rparr>) = own g" "own (g\<lparr>g_Failure := f\<rparr>) = own g"
  "own (g\<lparr>g_Members := ms\<rparr>) = own g" "own (g\<lparr>g_Plan := ns\<rparr>) = own g" "own (g\<lparr>g_Next := n\<rparr>) = own g"
  "own (g\<lparr>g_AbortFailure := a\<rparr>) = own g" "own (g\<lparr>g_CancelRequested := c\<rparr>) = own g" "own (g\<lparr>g_Revision := r\<rparr>) = own g"
  by (simp_all add: own_def fun_eq_iff)

lemma own_unpins [simp]: "list_all (own_intent g) (graphUnpins g)"
  by (auto simp: graphUnpins_def list_all_iff)

lemma own_unpin: "g_ID g' = g_ID g \<Longrightarrow> own_intent g (unpin_intent g' i)"
  by (simp add: own_intent_def unpin_intent_def zero_intent_def)

lemma own_replacement: "g_ID g' = g_ID g \<Longrightarrow> list_all (own_intent g) (replacementCompletionIntents g')"
  by (simp add: replacementCompletionIntents_def own_intent_def zero_intent_def)

lemma own_unpins': "g_ID g' = g_ID g \<Longrightarrow> list_all (own_intent g) (graphUnpins g')"
  by (auto simp: graphUnpins_def list_all_iff own_unpin)

lemma finish_own: "finish g st out = Inr (g', is) \<Longrightarrow> list_all (own_intent g) is"
  by (auto simp: finish_def Let_def list_all_iff own_unpin)

lemma failed_with_own: "failed_with g code msg = Inr (g', is) \<Longrightarrow> list_all (own_intent g) is"
  by (auto simp: failed_with_def finish_def Let_def list_all_iff own_unpin)

lemma own_intent_same: "g_ID g' = g_ID g \<Longrightarrow> g_Scope g' = g_Scope g \<Longrightarrow> own_intent g' = own_intent g"
  by (simp add: own_intent_def own_def fun_eq_iff)

lemma chain_successor_own:
  assumes "chain_successor cfg g out = Inr (g', is)" "scoped g" "g_Next g < length (g_Children g)"
  shows "list_all (own_intent g) is"
proof -
  have o: "own g (g_Children g ! g_Next g)" using assms(2,3) by (simp add: scoped_def)
  then have "own g ((g_Children g ! g_Next g)\<lparr>e_Args := a\<rparr>)" for a by (simp add: own_def)
  then show ?thesis using assms(1) o
    by (auto simp: chain_successor_def Let_def dest: failed_with_own split: if_splits sum.splits)
qed

lemma scoped_next [simp]: "scoped (g\<lparr>g_Next := n\<rparr>) = scoped g"
  by (simp add: scoped_def own_callback_def)

lemma advance_chain_own:
  assumes "advance_chain cfg g = Inr (g', is)" "scoped g" "g_Next g < length (g_Children g)"
  shows "list_all (own_intent g) is"
proof -
  let ?g = "g\<lparr>g_Next := Suc (g_Next g)\<rparr>"
  have same: "own_intent ?g = own_intent g" by (rule own_intent_same) simp_all
  consider "is = []" | code msg where "failed_with g code msg = Inr (g', is)"
    | st out where "finish ?g st out = Inr (g', is)"
    | out where "chain_successor cfg ?g out = Inr (g', is)" "g_Next ?g < length (g_Children ?g)"
    using assms(1,3) by (auto simp: advance_chain_def Let_def split: option.splits if_splits)
  then show ?thesis
    using failed_with_own finish_own[of ?g] chain_successor_own[of cfg ?g] assms(2)
    by cases (auto simp: same)
qed

lemma chord_callback_own:
  assumes "chord_callback cfg g out = Inr (g', is)" "scoped g"
  shows "list_all (own_intent g) is"
proof -
  have "own_callback g" using assms(2) by (simp add: scoped_def)
  then show ?thesis using assms(1) callback_own failed_with_own
    by (auto simp: chord_callback_def Let_def split: option.splits sum.splits)
qed

lemma advance_barrier_own:
  assumes "advance_barrier cfg g = Inr (g', is)" "scoped g"
  shows "list_all (own_intent g) is"
proof -
  have same: "own_intent (g\<lparr>g_Failure := f\<rparr>) = own_intent g" for f by (rule own_intent_same) simp_all
  have "list_all (own_intent g) js" if "finish (g\<lparr>g_Failure := f\<rparr>) st out = Inr (h, js)" for f st out h js
    using finish_own[OF that] by (simp add: same)
  then show ?thesis using assms finish_own failed_with_own chord_callback_own
    by (auto simp: advance_barrier_def split: if_splits option.splits)
qed

lemma advanceCanceled_own:
  assumes "advanceCanceled g = Inr (g', is)" "scoped g"
  shows "list_all (own_intent g) is"
proof -
  let ?cs = "map (\<lambda>(i, child). cancellationIntent (g_ID g) child (g_Kind g \<noteq> ''chain'' \<or> i \<le> g_Next g)) (pending_children g)"
  have "own g e" if "(i, e) \<in> set (pending_children g)" for i e
    using that assms(2) by (auto simp: pending_children_def scoped_def in_set_enumerate_eq)
  then have cs: "list_all (own_intent g) ?cs" by (auto simp: list_all_iff)
  have "own g e" if "g_CallbackEnvelope g = Some e" for e
    using that assms(2) by (simp add: scoped_def own_callback_def)
  then show ?thesis using assms(1) cs own_unpins'
    by (auto simp: advanceCanceled_def Let_def split: if_splits option.splits)
qed

lemma last_child_in: "last_child cs i = Some e \<Longrightarrow> e \<in> set cs"
  by (auto simp: last_child_def find_Some_iff rev_nth)

lemma cancel_plan_own:
  "cancel_plan g ns = Inr (ns', is) \<Longrightarrow> scoped g \<Longrightarrow> list_all (own_intent g) is"
proof (induction ns arbitrary: ns' "is")
  case (Cons n ns)
  obtain ms js where m: "cancel_plan g ns = Inr (ms, js)"
    using Cons.prems by (auto split: if_splits sum.splits option.splits)
  have "is = js \<or> (\<exists>e d. e \<in> set (g_Children g) \<and> is = cancellationIntent (g_ID g) e d # js)"
    using Cons.prems(1) m by (auto split: if_splits option.splits dest: last_child_in)
  then show ?case using Cons.IH[OF m] Cons.prems(2) by (auto simp: scoped_def)
qed simp

lemma abort_plan_own:
  "abort_plan g ns = Inr (ns', is, fin) \<Longrightarrow> scoped g \<Longrightarrow> list_all (own_intent g) is"
proof (induction ns arbitrary: ns' "is" fin)
  case (Cons n ns)
  obtain ms js f where m: "abort_plan g ns = Inr (ms, js, f)"
    using Cons.prems by (auto split: if_splits sum.splits option.splits)
  have "is = js \<or> (\<exists>e. e \<in> set (g_Children g) \<and> is = abort_intent g e # js)"
    using Cons.prems(1) m by (auto split: if_splits option.splits dest: last_child_in)
  then show ?case using Cons.IH[OF m] Cons.prems(2) by (auto simp: scoped_def)
qed simp

definition tame :: "nested_state \<Rightarrow> bool" where
  "tame s \<longleftrightarrow> scoped (ns_graph s) \<and> list_all (own_intent (ns_graph s)) (ns_intents s)"

lemma tame_step:
  assumes "lasting (ns_graph s) (ns_graph s')" "tame s"
    "\<And>i. i \<in> set (ns_intents s') \<Longrightarrow> i \<in> set (ns_intents s) \<or> own_intent (ns_graph s') i"
  shows "tame s'"
proof -
  have o: "own_intent (ns_graph s') = own_intent (ns_graph s)" using assms(1) by (rule lasting_own)
  have "own_intent (ns_graph s') i" if "i \<in> set (ns_intents s')" for i
    using assms(3)[OF that] assms(2) unfolding o tame_def list_all_iff by blast
  then show ?thesis using scoped_lasting[OF assms(1)] assms(2) by (simp add: tame_def list_all_iff)
qed

lemma nested_node_tame:
  assumes "nested_node cfg i s = Inr s'" "tame s"
  shows "tame s'"
proof (cases "ready (ns_graph s) (g_Plan (ns_graph s) ! i)")
  case True
  note l = nested_node_lasting[OF assms(1)]
  from assms(1) True show ?thesis
  proof (cases rule: nested_node_cases)
    case (collect bad outs)
    then show ?thesis using tame_step[OF l assms(2)] by simp
  next
    case (dispatch bad outs k e fl)
    have "e \<in> set (g_Children (ns_graph s'))"
      using child_index_Some[OF dispatch(2)] dispatch(5) by (simp add: set_update_memI)
    then have "own (ns_graph s') e" using scoped_lasting[OF l] assms(2) by (simp add: scoped_def tame_def)
    moreover have "node_intent (ns_graph s') e fl = node_intent (ns_graph s) e fl"
      using dispatch(5) by (simp add: node_intent_def split: option.split)
    ultimately have "own_intent (ns_graph s') (node_intent (ns_graph s) e fl)" by (metis own_intents(4))
    then show ?thesis using tame_step[OF l assms(2)] dispatch(6) by auto
  qed
next
  case False
  then show ?thesis using nested_node_idle assms by simp
qed

lemma nested_pass_tame: "nested_pass cfg is s = Inr s' \<Longrightarrow> tame s \<Longrightarrow> tame s'"
  by (induction cfg "is" s rule: nested_pass.induct) (auto split: sum.splits dest: nested_node_tame)

lemma nested_turns_tame: "nested_turns cfg n s = Inr s' \<Longrightarrow> tame s \<Longrightarrow> tame s'"
proof (induction cfg n s rule: nested_turns.induct)
  case (2 cfg n s)
  let ?is = "[0..<length (g_Plan (ns_graph s))]"
  obtain s1 where s1: "nested_pass cfg ?is (s\<lparr>ns_progress := False\<rparr>) = Inr s1"
      "(if ns_progress s1 then nested_turns cfg n s1 else Inr s1) = Inr s'"
    using 2(2) by (auto split: sum.splits)
  have "tame s1" using nested_pass_tame[OF s1(1)] 2(3) by (simp add: tame_def)
  then show ?case using 2(1)[OF s1(1)] s1(2) by (cases "ns_progress s1") simp_all
qed simp

lemma nested_finish_own:
  assumes "nested_finish g is = (g', is')" "list_all (own_intent g) is"
  shows "list_all (own_intent g) is'"
proof (cases "member g (g_RootNode g)")
  case None
  then show ?thesis using assms by (simp add: nested_finish_def)
next
  case (Some root)
  have "g_ID g' = g_ID g" using nested_finish_lasting[OF assms(1)] by (simp add: lasting_def static_def)
  then have u: "list_all (own_intent g) (map (\<lambda>e. unpin_intent g' (e_ID e)) es)" for es
    by (simp add: list_all_iff own_unpin)
  have eq: "is' = is @ map (\<lambda>e. unpin_intent g' (e_ID e)) (filter (\<lambda>e. member g' (e_ID e) \<noteq> None) (g_Children g'))"
    using assms(1) unfolding nested_finish_def Some option.case Let_def prod.inject by blast
  show ?thesis unfolding eq list_all_append using assms(2) u by blast
qed

lemma advanceNested_own:
  assumes "advanceNested cfg g = Inr (g', is)" "scoped g" "\<not> Terminal (g_State g)"
  shows "list_all (own_intent g) is"
proof -
  obtain plan is0 s where
    s: "(if g_CancelRequested g then cancel_plan g (g_Plan g) else Inr (g_Plan g, [])) = Inr (plan, is0)"
      "nested_turns cfg (Suc (length plan)) (nested_start (g\<lparr>g_Plan := plan\<rparr>) is0) = Inr s"
      "nested_finish (ns_graph s) (ns_intents s) = (g', is)"
    using assms(1,3) by (auto simp: advanceNested_def split: if_splits sum.splits)
  let ?g = "g\<lparr>g_Plan := plan\<rparr>"
  have same: "own_intent ?g = own_intent g" by (rule own_intent_same) simp_all
  have "list_all (own_intent g) is0" using s(1) cancel_plan_own assms(2) by (auto split: if_splits)
  then have "tame (nested_start ?g is0)"
    using assms(2) by (simp add: tame_def nested_start_def same scoped_def own_callback_def)
  then have "tame s" using nested_turns_tame[OF s(2)] by blast
  moreover have "lasting ?g (ns_graph s)" using nested_turns_lasting[OF s(2)] by (simp add: nested_start_def)
  then have "own_intent (ns_graph s) = own_intent g" using lasting_own same by metis
  ultimately show ?thesis using nested_finish_own[OF s(3)] by (simp add: tame_def)
qed

lemma advanceGraph_own:
  assumes "advanceGraph cfg g = Inr (g', is)" "scoped g"
  shows "list_all (own_intent g) is"
proof -
  consider "is = graphUnpins g" | "advanceNested cfg g = Inr (g', is)" "\<not> Terminal (g_State g)"
    | "advanceCanceled g = Inr (g', is)" | "finish g Succeeded ''[]'' = Inr (g', is)"
    | "advance_chain cfg g = Inr (g', is)" "g_Next g < length (g_Children g)" | "advance_barrier cfg g = Inr (g', is)"
    using assms(1) by (auto simp: advanceGraph_def split: if_splits)
  then show ?thesis
    using advanceNested_own advanceCanceled_own finish_own advance_chain_own advance_barrier_own assms(2)
    by cases (simp, blast+)
qed

lemma abort_finish_own:
  assumes "abort_finish g is fin = Inr (g', is')" "list_all (own_intent g) is"
  shows "list_all (own_intent g) is'"
  using assms by (auto simp: abort_finish_def Let_def own_unpins' split: if_splits)

lemma advanceAborted_own:
  assumes "advanceAbortedGraph g = Inr (g', is)" "scoped g"
  shows "list_all (own_intent g) is"
proof -
  let ?d = "drop_outputs g"
  have same: "own_intent ?d = own_intent g" by (rule own_intent_same) (simp_all add: drop_outputs_def)
  have d: "scoped ?d" using assms(2) by (simp add: scoped_def own_callback_def drop_outputs_def)
  have "own ?d e" if "(i, e) \<in> set (pending_children ?d)" for i e
    using that d by (auto simp: pending_children_def scoped_def in_set_enumerate_eq)
  then have flat: "list_all (own_intent ?d)
      (map (\<lambda>(i, child). abort_intent ?d child) (filter P (pending_children ?d)))" for P
    by (auto simp: list_all_iff)
  obtain h js fin where h: "abort_finish h js fin = Inr (g', is)" "list_all (own_intent ?d) js"
      "g_ID h = g_ID ?d" "g_Scope h = g_Scope ?d"
  proof (cases "g_Kind ?d = ''dag''")
    case True
    then obtain plan js fin where "abort_plan ?d (g_Plan ?d) = Inr (plan, js, fin)"
        "abort_finish (?d\<lparr>g_Plan := plan\<rparr>) js fin = Inr (g', is)"
      using assms(1) by (auto simp: advanceAbortedGraph_def Let_def split: if_splits sum.splits)
    then show thesis using that[of "?d\<lparr>g_Plan := plan\<rparr>"] abort_plan_own d by auto
  next
    case False
    then show thesis using that[of ?d] assms(1) flat
      by (auto simp: advanceAbortedGraph_def Let_def split: if_splits)
  qed
  then show ?thesis using abort_finish_own[OF h(1)] own_intent_same[OF h(3,4)] same by simp
qed

lemma scoped_updates [simp]:
  "scoped (g\<lparr>g_AbortFailure := a\<rparr>) = scoped g" "scoped (g\<lparr>g_CancelRequested := b\<rparr>) = scoped g"
  "scoped (g\<lparr>g_Revision := r\<rparr>) = scoped g" "scoped (g\<lparr>g_Members := ms\<rparr>) = scoped g"
  "scoped (g\<lparr>g_RootNode := rt\<rparr>) = scoped g"
  by (simp_all add: scoped_def own_callback_def own_def)

lemma advance_own:
  assumes "advance cfg g = Inr (g', is)" "scoped g"
  shows "scoped g' \<and> g_ID g' = g_ID g \<and> g_Scope g' = g_Scope g \<and> list_all (own_intent g') is"
proof -
  have l: "lasting g g'" using advance_lasting[OF assms(1)] .
  then have id: "g_ID g' = g_ID g" "g_Scope g' = g_Scope g" by (simp_all add: lasting_def static_def)
  obtain js where js: "advance_body cfg g = Inr (g', js)" "is = js @ replacementCompletionIntents g'"
    using assms(1) by (auto simp: advance_def split: sum.splits)
  let ?a = "g\<lparr>g_AbortFailure := Some size_failure\<rparr>"
  have same: "own_intent ?a = own_intent g" by (rule own_intent_same) simp_all
  consider "advanceAbortedGraph g = Inr (g', js)" | "advanceAbortedGraph ?a = Inr (g', js)"
    | "advanceGraph cfg g = Inr (g', js)"
    using js(1) by (auto simp: advance_body_def Let_def split: if_splits sum.splits)
  then have "list_all (own_intent g) js"
    using advanceAborted_own[of g] advanceAborted_own[of ?a] advanceGraph_own assms(2) same by cases auto
  then show ?thesis using js(2) own_replacement[OF id(1)] own_intent_same[OF id] scoped_lasting[OF l assms(2)] id by simp
qed

lemma record_own:
  assumes "RecordMember cfg m (Inr g) = Commit q a" "scoped g"
  shows "scoped (gq_Graph q) \<and> g_ID (gq_Graph q) = g_ID g \<and> g_Scope (gq_Graph q) = g_Scope g
         \<and> list_all (own_intent (gq_Graph q)) (gq_Intents q)"
proof -
  let ?g = "g\<lparr>g_Members := set_member (c_ID m) m (g_Members g)\<rparr>"
  obtain g' "is" where a: "advance cfg ?g = Inr (g', is)"
      "q = graph_request_of (g_Revision g) (g'\<lparr>g_Revision := g_Revision g + 1\<rparr>) is"
    using assms(1) by (auto simp: RecordMember_def split: if_splits sum.splits)
  have "own_intent (g'\<lparr>g_Revision := g_Revision g + 1\<rparr>) = own_intent g'" by (rule own_intent_same) simp_all
  then show ?thesis using advance_own[OF a(1)] assms(2) a(2) by simp
qed

lemma cancel_own:
  assumes "CancelGraph cfg scope (Inr g) = Commit q a" "scoped g"
  shows "scoped (gq_Graph q) \<and> g_ID (gq_Graph q) = g_ID g \<and> g_Scope (gq_Graph q) = g_Scope g
         \<and> list_all (own_intent (gq_Graph q)) (gq_Intents q)"
proof -
  obtain g' "is" where a: "advance cfg (g\<lparr>g_CancelRequested := True\<rparr>) = Inr (g', is)"
      "q = graph_request_of (g_Revision g) (g'\<lparr>g_Revision := g_Revision g + 1\<rparr>) is"
    using assms(1) by (auto simp: CancelGraph_def split: if_splits sum.splits)
  have "own_intent (g'\<lparr>g_Revision := g_Revision g + 1\<rparr>) = own_intent g'" by (rule own_intent_same) simp_all
  then show ?thesis using advance_own[OF a(1)] assms(2) a(2) by simp
qed

lemma workflow_run_own:
  assumes "workflow_run g0 is0 g is" "scoped g0" "list_all (own_intent g0) is0"
  shows "scoped g \<and> g_ID g = g_ID g0 \<and> g_Scope g = g_Scope g0 \<and> list_all (own_intent g) is"
  using assms
proof (induction rule: workflow_run.induct)
  case (recorded g "is" cfg m q a)
  then show ?case using record_own by metis
next
  case (canceled g "is" cfg scope q a)
  then show ?case using cancel_own by metis
qed simp

lemma flat_children_own:
  "flat_children cfg kind ss g = Inr g' \<Longrightarrow> \<forall>e \<in> set (g_Children g). own g e \<Longrightarrow>
   (\<forall>e \<in> set (g_Children g'). own g' e) \<and> g_ID g' = g_ID g \<and> g_CallbackEnvelope g' = g_CallbackEnvelope g
   \<and> g_Callback g' = g_Callback g"
proof (induction cfg kind ss g arbitrary: g' rule: flat_children.induct)
  case (2 cfg kind s ss g)
  let ?i = "StableID (g_ID g) (''child-'' @ itoa_nat (length (g_Children g)))"
  obtain e where e: "prepare cfg (WithID ?i s) = Inr e" "\<not> (length (g_Children g) \<noteq> 0 \<and> g_Scope g \<noteq> e_Scope e)"
    using "2.prems"(1) by (auto simp: Let_def split: sum.splits if_splits)
  let ?h = "g\<lparr>g_Scope := e_Scope e,
      g_Children := g_Children g @ [e\<lparr>e_WorkflowID := g_ID g, e_RootID := g_ID g,
        e_ParentID := (if kind = ''chain'' \<and> length (g_Children g) > 0 then e_ID (List.last (g_Children g)) else g_ID g)\<rparr>]\<rparr>"
  have rest: "flat_children cfg kind ss ?h = Inr g'"
    using "2.prems"(1) unfolding flat_children.simps Let_def e(1) sum.case if_not_P[OF e(2)] .
  have "\<forall>c \<in> set (g_Children ?h). own ?h c" using "2.prems"(2) e(2) by (auto simp: own_def)
  then show ?case using "2.IH"[OF refl e(1,2) rest] by simp
qed simp

lemma first_intents_own:
  assumes "\<forall>e \<in> set (g_Children g). own g e"
  shows "list_all (own_intent g) (first_intents kind g)"
  using assms by (auto simp: first_intents_def list_all_iff dest: in_set_takeD)

text \<open>An accepted canvas is authorized, and everything it starts with is its own.\<close>

lemma applyNested_own:
  assumes "applyNested callback cfg c = Inr (g, is)"
  shows "authorize callback ''enqueue'' (g_Scope g) (g_ID g) = None \<and> scoped g \<and> list_all (own_intent g) is"
proof -
  obtain i b and root :: valueReference where b:
    "reaches cfg \<lparr>b_graph = new_graph i ''dag'', b_hasScope = False\<rparr> {v_id root} b"
    "authorize callback ''enqueue'' (g_Scope (b_graph b)) i = None"
    "advance cfg ((b_graph b)\<lparr>g_RootNode := v_id root\<rparr>) = Inr (g, is)"
    using applyNested_cases[OF assms] by blast
  have e: "g_ID (b_graph b) = i" "g_Callback (b_graph b) = None" "g_CallbackEnvelope (b_graph b) = None"
    using b(1) by (auto simp: reaches_def extends_def new_graph_def)
  moreover have "\<forall>e \<in> set (g_Children (b_graph b)). own (b_graph b) e"
    using b(1) by (auto simp: reaches_def compiled_def child_ok_def own_def list_all_iff)
  ultimately have "scoped (b_graph b)" by (simp add: scoped_def own_callback_def)
  then show ?thesis using advance_own[OF b(3)] b(2) e(1) by simp
qed

lemma ApplyCanvas_own:
  assumes "ApplyCanvas workflows callback cfg c = Inr (g, is)"
  shows "authorize callback ''enqueue'' (g_Scope g) (g_ID g) = None \<and> scoped g \<and> list_all (own_intent g) is"
proof (cases "cv_Kind c \<in> {''sequence'', ''parallel'', ''task''}")
  case True
  then show ?thesis using assms applyNested_own by (auto simp: ApplyCanvas_def split: if_splits)
next
  case False
  let ?new = "\<lambda>i. (new_graph i (cv_Kind c))\<lparr>g_Signatures := cv_Signatures c, g_Callback := cv_Callback c\<rparr>"
  obtain i g0 h where h: "flat_children cfg (cv_Kind c) (cv_Signatures c) (?new i) = Inr g0"
      "callback_graph (cv_Callback c) g0 = Inr h" "authorize callback ''enqueue'' (g_Scope h) i = None"
      "(if g_Children h = [] then advance cfg h else Inr (h, first_intents (cv_Kind c) h)) = Inr (g, is)"
    using assms False
    by (auto simp: ApplyCanvas_def accepted_def simp del: flat_children.simps split: if_splits sum.splits option.splits)
  have "(\<forall>e \<in> set (g_Children g0). own g0 e) \<and> g_ID g0 = i \<and> g_CallbackEnvelope g0 = None \<and> g_Callback g0 = cv_Callback c"
    using flat_children_own[OF h(1)] by (simp add: new_graph_def)
  then have s: "scoped h" "g_ID h = i"
    using h(2) by (auto simp: callback_graph_def Let_def scoped_def own_callback_def own_def split: option.splits if_splits)
  show ?thesis
  proof (cases "g_Children h = []")
    case True
    then show ?thesis using advance_own[of cfg h] h(3,4) s by simp
  next
    case False
    then show ?thesis using first_intents_own h(3,4) s by (auto simp: scoped_def)
  qed
qed

subsection \<open>A canvas of one task\<close>

definition flow_id :: string where "flow_id = ''00000000-0000-4000-8000-000000000000''"

lemma flow_id_ok: "idPattern flow_id" "length flow_id = 36"
  by (simp_all add: idPattern_def flow_id_def is_hex_def is_digit_def less_eq_char_def)

definition flow_client :: client_config where
  "flow_client = mail_client\<lparr>cc_NewID := Inr flow_id\<rparr>"

definition flow_envelope :: "string \<Rightarrow> envelope" where
  "flow_envelope i = prepared_envelope flow_client mail_task (WithID i mail_link) i ''default'' 0"

lemma flow_prepare:
  assumes "idPattern i" "i \<noteq> []"
  shows "prepare flow_client (WithID i mail_link) = Inr (flow_envelope i)"
proof -
  let ?s = "Signature ''mail'' 1 ''{}'' (plain_options\<lparr>o_ID := i, o_Queue := ''default'', o_Scope := ''t1''\<rparr>) False [] [] []"
  have s: "WithID i mail_link = ?s" by (simp add: WithID_def mail_link_def)
  have look: "lookup (cc_registry flow_client) ''mail'' 1 = Inr mail_task"
    by (simp add: lookup_def flow_client_def mail_client_def mail_task_def)
  have norm: "normalizeLinkOptions flow_client ''t1'' (Suc 16) ?s = Inr ?s"
    using mail_plain by (intro normalizeLinkOptions_leaf) (simp add: plain_args_def flow_client_def)
  have links: "validateLinks (cc_registry flow_client) (Suc 16) ?s = None" by (rule validateLinks_leaf[OF look])
  have "envelope_Validate plain_codec (flow_envelope i) = None"
    using assms unfolding flow_envelope_def s
    by (simp add: envelope_Validate_def prepared_envelope_def Let_def plain_options_def flow_client_def
        mail_client_def mail_task_def plain_codec_def MaxReplacementDepth_def ProtocolVersion_def
        MaxPayloadBytes_def optional_id_def headers_ok_def name_char_def is_alpha_def is_lower_def
        is_digit_def is_upper_def less_eq_char_def)
  then have "prepare_checked flow_client mail_task ?s = Inr (flow_envelope i)"
    using assms(2) unfolding flow_envelope_def s
    by (simp add: prepare_checked_def Let_def plain_options_sel mail_client_sel flow_client_def)
  then show ?thesis
    using norm links look unfolding s prepare_def
    by (simp add: numeral_eq_Suc mail_task_def flow_client_def)
qed

definition anyone :: "(string \<Rightarrow> string \<Rightarrow> string \<Rightarrow> bool) option" where
  "anyone = Some (\<lambda>operation scope i. True)"

lemma flow_child:
  "e_ID (flow_envelope i) = i \<or> i = []" "e_Scope (flow_envelope i) = ''t1''"
  by (simp_all add: flow_envelope_def prepared_envelope_def Let_def mail_link_def WithID_def)

lemma flow_compiled:
  "\<exists>i e b. i \<noteq> [] \<and> e_ID e = i \<and>
     compile flow_client (signature_Canvas mail_link) None 0 \<lparr>b_graph = new_graph flow_id ''dag'', b_hasScope = False\<rparr>
       = Inr (\<lparr>v_id = i, v_typ = TNamed ''string'', v_empty = False\<rparr>, b)
     \<and> b_graph b = (new_graph flow_id ''dag'')\<lparr>g_Scope := ''t1'', g_Children := [e],
         g_Plan := [\<lparr>n_ID = i, n_Kind = ''task'', n_Dependencies = [], n_WaitFor = [],
                     n_Signature = Some (WithID i mail_link), n_Dispatched = False\<rparr>]\<rparr>"
proof -
  let ?i = "StableID flow_id (''task-'' @ itoa_nat 0)"
  have i: "idPattern ?i" "?i \<noteq> []" by (simp add: StableID_def formatID_idPattern) (rule StableID_nonempty)
  have look: "lookup (cc_registry flow_client) (s_Task mail_link) (s_Version mail_link) = Inr mail_task"
    by (simp add: lookup_def flow_client_def mail_client_def mail_task_def mail_link_def)
  have leaf: "compile flow_client (signature_Canvas mail_link) None 0 b = compile_task flow_client mail_link None b"
    if "g_Plan (b_graph b) = []" "g_Children (b_graph b) = []" for b
    using that by (simp add: signature_Canvas_def compile_leaf_def)
  let ?start = "\<lparr>b_graph = new_graph flow_id ''dag'', b_hasScope = False\<rparr>"
  let ?b = "add_task ?i (WithID ?i mail_link) None (flow_envelope ?i) ?start"
  have empty: "g_Plan (b_graph ?start) = []" "g_Children (b_graph ?start) = []" "g_ID (b_graph ?start) = flow_id" "\<not> b_hasScope ?start"
    by (simp_all add: new_graph_def)
  have "compile flow_client (signature_Canvas mail_link) None 0 ?start
      = Inr (\<lparr>v_id = ?i, v_typ = d_output mail_task, v_empty = False\<rparr>, ?b)"
    unfolding leaf[OF empty(1,2)] compile_task_def Let_def empty look
    using flow_prepare[OF i] by (simp add: input_mismatch_def)
  moreover have "b_graph ?b = (new_graph flow_id ''dag'')\<lparr>g_Scope := ''t1'',
      g_Children := [(flow_envelope ?i)\<lparr>e_WorkflowID := flow_id, e_RootID := flow_id, e_ParentID := flow_id\<rparr>],
      g_Plan := [\<lparr>n_ID = ?i, n_Kind = ''task'', n_Dependencies = [], n_WaitFor = [],
                  n_Signature = Some (WithID ?i mail_link), n_Dispatched = False\<rparr>]\<rparr>"
    using flow_child(2) by (simp add: add_task_def Let_def new_graph_def)
  moreover have "d_output mail_task = TNamed ''string''" by (simp add: mail_task_def)
  moreover have "e_ID ((flow_envelope ?i)\<lparr>e_WorkflowID := flow_id, e_RootID := flow_id, e_ParentID := flow_id\<rparr>) = ?i"
    using flow_child(1)[of ?i] i(2) by simp
  ultimately show ?thesis using i(2) by metis
qed

lemma StableID_length: "length (StableID p l) = 36"
  by (simp add: StableID_def formatID_def)

lemma flow_accepted:
  "\<exists>g is. ApplyCanvas True anyone flow_client (signature_Canvas mail_link) = Inr (g, is)
          \<and> \<not> Terminal (g_State g) \<and> is \<noteq> []"
proof -
  obtain i e b where b: "i \<noteq> []" "e_ID e = i"
    "compile flow_client (signature_Canvas mail_link) None 0 \<lparr>b_graph = new_graph flow_id ''dag'', b_hasScope = False\<rparr>
       = Inr (\<lparr>v_id = i, v_typ = TNamed ''string'', v_empty = False\<rparr>, b)"
    "b_graph b = (new_graph flow_id ''dag'')\<lparr>g_Scope := ''t1'', g_Children := [e],
         g_Plan := [\<lparr>n_ID = i, n_Kind = ''task'', n_Dependencies = [], n_WaitFor = [],
                     n_Signature = Some (WithID i mail_link), n_Dispatched = False\<rparr>]\<rparr>"
    using flow_compiled by blast
  define g where "g = (b_graph b)\<lparr>g_RootNode := i\<rparr>"
  have "\<exists>h is. advance flow_client g = Inr (h, is) \<and> \<not> Terminal (g_State h) \<and> is \<noteq> []
      \<and> validateGraphAcceptance plain_codec h is = None"
    using b(1,2) unfolding g_def b(4) new_graph_def
    by (simp add: advance_def advance_body_def advanceGraph_def advanceNested_def nested_start_def nested_node_def
        node_settled_def node_inputs_def member_def child_index_def bind_node_def nested_finish_def
        node_intent_def Let_def withinGraphBudget_def flow_client_def mail_client_sel plain_codec_def
        validateGraphAcceptance_def replacementCompletionIntents_def dispatchIntent_def StableID_length
        MaxWorkflowWorkingBytes_def MaxWorkflowInitialBytes_def flow_id_ok)
  then obtain h "is" where h: "advance flow_client g = Inr (h, is)" "\<not> Terminal (g_State h)" "is \<noteq> []"
      "validateGraphAcceptance plain_codec h is = None" by blast
  have "cc_NewID flow_client = Inr flow_id" "cc_codec flow_client = plain_codec"
    by (simp_all add: flow_client_def mail_client_sel)
  then have "applyNested anyone flow_client (signature_Canvas mail_link) = Inr (h, is)"
    using b(3) h by (simp add: applyNested_def g_def authorize_def anyone_def accepted_def Let_def)
  then show ?thesis using h by (auto simp: ApplyCanvas_def signature_Canvas_def)
qed


subsection \<open>The properties\<close>

text \<open>
  C3. A workflow stays inside the scope it was authorized for. Whatever canvas \<open>ApplyCanvas\<close> accepts, and
  whatever completions and cancellations are recorded later by any client, the workflow keeps the scope
  and identity that were authorized to enqueue, and every intent it stages names it as the source and
  carries only envelopes of that scope and of this workflow.
\<close>

theorem workflow_confined:
  assumes "ApplyCanvas workflows callback cfg c = Inr (g0, is0)" "workflow_run g0 is0 g is"
  shows "authorize callback ''enqueue'' (g_Scope g) (g_ID g) = None \<and>
    (\<forall>i \<in> set is. i_SourceID i = g_ID g \<and>
       (\<forall>e. i_Envelope i = Some e \<longrightarrow>
          e_Scope e = g_Scope g \<and> e_WorkflowID e = g_ID g \<and> e_RootID e = g_ID g))"
  using ApplyCanvas_own[OF assms(1)] workflow_run_own[OF assms(2)]
  by (auto simp: list_all_iff own_intent_def own_def)

theorem workflow_confined_witness:
  "\<exists>g is. ApplyCanvas True anyone flow_client (signature_Canvas mail_link) = Inr (g, is) \<and> is \<noteq> []
     \<and> authorize anyone ''enqueue'' (g_Scope g) (g_ID g) = None
     \<and> (\<forall>i \<in> set is. i_SourceID i = g_ID g \<and> (\<forall>e. i_Envelope i = Some e \<longrightarrow> e_Scope e = g_Scope g))"
proof -
  obtain g "is" where g: "ApplyCanvas True anyone flow_client (signature_Canvas mail_link) = Inr (g, is)" "is \<noteq> []"
    using flow_accepted by blast
  then show ?thesis using workflow_confined[OF g(1) created] by blast
qed



end
