(* ===== verification/Go_Calendar.thy ===== *)
theory Go_Calendar
  imports Go_Prelude
begin

text \<open>
  The calendar of Go's \<open>time\<close> package, as far as schedules use it. Instants count nanoseconds from the first
  instant of year 1, a Monday, in the proleptic Gregorian calendar; the wall clock of a location is the
  instant moved by the offset that the location has at that instant.
\<close>

definition day_length :: go_duration where "day_length = 24 * hour"

lemma day_length_value: "day_length = 86400000000000"
  by (simp add: day_length_def duration_defs)

definition day_number :: "go_time \<Rightarrow> int" where "day_number t = t div day_length"
definition minute_of :: "go_time \<Rightarrow> int" where "minute_of t = (t div minute) mod 60"
definition hour_of :: "go_time \<Rightarrow> int" where "hour_of t = (t div hour) mod 24"
definition weekday_of :: "go_time \<Rightarrow> int" where "weekday_of t = (day_number t + 1) mod 7"

definition leap_year :: "int \<Rightarrow> bool" where
  "leap_year y \<longleftrightarrow> 4 dvd y \<and> (\<not> 100 dvd y \<or> 400 dvd y)"

definition days_before_year :: "int \<Rightarrow> int" where
  "days_before_year y = (let n = y - 1 in 365 * n + n div 4 - n div 100 + n div 400)"

text \<open>The year of a day and the day in that year (from 0), by cycles of 400, 100, 4 and 1 years.\<close>

definition year_of_day :: "int \<Rightarrow> int \<times> int" where
  "year_of_day d =
     (let n400 = d div 146097; d1 = d mod 146097;
          n100 = min 3 (d1 div 36524); d2 = d1 - 36524 * n100;
          n4 = d2 div 1461; d3 = d2 mod 1461;
          n1 = min 3 (d3 div 365)
      in (400 * n400 + 100 * n100 + 4 * n4 + n1 + 1, d3 - 365 * n1))"

definition month_starts :: "bool \<Rightarrow> int list" where
  "month_starts leap =
     (let l = (if leap then 1 else 0) in
      [0, 31, 59 + l, 90 + l, 120 + l, 151 + l, 181 + l, 212 + l, 243 + l, 273 + l, 304 + l, 334 + l])"

definition month_of_yday :: "bool \<Rightarrow> int \<Rightarrow> int" where
  "month_of_yday leap n = int (length (takeWhile (\<lambda>s. s \<le> n) (month_starts leap)))"

definition year_of :: "go_time \<Rightarrow> int" where "year_of t = fst (year_of_day (day_number t))"
definition yday_of :: "go_time \<Rightarrow> int" where "yday_of t = snd (year_of_day (day_number t))"

definition month_of :: "go_time \<Rightarrow> int" where
  "month_of t = month_of_yday (leap_year (year_of t)) (yday_of t)"

definition mday_of :: "go_time \<Rightarrow> int" where
  "mday_of t = yday_of t - month_starts (leap_year (year_of t)) ! nat (month_of t - 1) + 1"

text \<open>\<open>AddDate(n, 0, 0)\<close>: a day that the target year does not have flows into the next month.\<close>

definition add_years :: "go_time \<Rightarrow> int \<Rightarrow> go_time" where
  "add_years t n =
     (let y = year_of t + n in
      (days_before_year y + month_starts (leap_year y) ! nat (month_of t - 1) + mday_of t - 1) * day_length
      + t mod day_length)"

subsection \<open>The calendar is consistent\<close>

lemma year_of_day_sound:
  assumes "year_of_day d = (y, n)"
  shows "d = days_before_year y + n \<and> 0 \<le> n \<and> n < (if leap_year y then 366 else 365)"
proof -
  define n400 where "n400 = d div 146097"
  define d1 where "d1 = d mod 146097"
  define n100 where "n100 = min 3 (d1 div 36524)"
  define d2 where "d2 = d1 - 36524 * n100"
  define n4 where "n4 = d2 div 1461"
  define d3 where "d3 = d2 mod 1461"
  define n1 where "n1 = min 3 (d3 div 365)"
  have yn: "y = 400 * n400 + 100 * n100 + 4 * n4 + n1 + 1" "n = d3 - 365 * n1"
    using assms unfolding year_of_day_def Let_def n400_def d1_def n100_def d2_def n4_def d3_def n1_def by simp_all
  have b1: "0 \<le> d1" "d1 < 146097" "d = 146097 * n400 + d1" by (simp_all add: d1_def n400_def)
  have b100: "0 \<le> n100" "n100 \<le> 3" "0 \<le> d2" "d2 \<le> 36524" "d2 < 36524 \<or> n100 = 3" using b1 by (auto simp: n100_def d2_def min_def)
  have b4: "0 \<le> n4" "n4 \<le> 24" "0 \<le> d3" "d3 < 1461" "d2 = 1461 * n4 + d3" using b100 by (auto simp: n4_def d3_def)
  have last: "d3 < 1460 \<or> n4 < 24 \<or> n100 = 3" using b100 b4 by linarith
  have b0: "0 \<le> n1" "n1 \<le> 3" "0 \<le> n" "n \<le> 365" "n < 365 \<or> n1 = 3" using b4 yn(2) by (auto simp: n1_def min_def)
  have y1: "y - 1 = 4 * (100 * n400 + 25 * n100 + n4) + n1" "y - 1 = 100 * (4 * n400 + n100) + (4 * n4 + n1)"
      "y - 1 = 400 * n400 + (100 * n100 + 4 * n4 + n1)" using yn(1) by simp_all
  have "(y - 1) div 4 = 100 * n400 + 25 * n100 + n4" using b0 by (intro int_div_pos_eq[OF y1(1)]) simp_all
  moreover have "(y - 1) div 100 = 4 * n400 + n100" using b0 b4 by (intro int_div_pos_eq[OF y1(2)]) simp_all
  moreover have "(y - 1) div 400 = n400" by (rule int_div_pos_eq[OF y1(3)]) (use b0 b4 b100 in linarith)+
  ultimately have days: "days_before_year y = 146097 * n400 + 36524 * n100 + 1461 * n4 + 365 * n1"
    using yn(1) by (simp add: days_before_year_def Let_def)
  have "leap_year y" if "n = 365"
  proof -
    have e: "n1 = 3" "d3 = 1460" using that b0 yn(2) by auto
    then have y: "y = 4 * (100 * n400 + 25 * n100 + n4 + 1)" "n4 < 24 \<or> n100 = 3" using yn(1) last by auto
    have "400 dvd y" if "100 dvd y"
    proof -
      obtain k where "y = 100 * k" using \<open>100 dvd y\<close> by (auto elim: dvdE)
      then have "n4 + 1 = 25 * (k - 4 * n400 - n100)" using y(1) by simp
      then have "n4 = 24" using b4 by (cases "k - 4 * n400 - n100 = 1") auto
      then have "y = 400 * (n400 + 1)" using y by auto
      then show ?thesis by simp
    qed
    then show ?thesis using y(1) unfolding leap_year_def by auto
  qed
  then have "n < (if leap_year y then 366 else 365)" using b0 by (cases "n = 365") auto
  moreover have "d = days_before_year y + n" using days b1(3) b4(5) yn(2) by (simp add: d2_def)
  ultimately show ?thesis using b0(3) by simp
qed

end
