(* ===== verification/Async_Cron.thy ===== *)
theory Async_Cron
  imports Async_Protocol Go_Calendar
begin

text \<open>
  Schedule rules (\<open>src/async/beat.go\<close>): intervals and five-field crontabs, their validation and the
  computation of the next occurrence. The time zone database is the parameter \<open>zones\<close>: the offset from UTC,
  in nanoseconds, that a location has at an instant. Instants are in UTC, so the limit of five years is counted
  in the calendar of UTC.
\<close>

type_synonym zone_db = "string \<Rightarrow> (go_time \<Rightarrow> int) option"

record schedule_rule =
  sr_Kind :: string
  sr_Interval :: go_duration
  sr_Expression :: string
  sr_Timezone :: string
  sr_FixedDelay :: bool
  sr_FoldPolicy :: string
  sr_GapPolicy :: string

definition Every :: "go_duration \<Rightarrow> schedule_rule" where
  "Every interval =
     \<lparr>sr_Kind = ''interval'', sr_Interval = interval, sr_Expression = [], sr_Timezone = ''UTC'', sr_FixedDelay = False,
      sr_FoldPolicy = ''both'', sr_GapPolicy = ''skip''\<rparr>"

subsection \<open>Crontab expressions\<close>

definition cron_mins :: "int list" where "cron_mins = [0, 0, 1, 1, 0]"
definition cron_maxs :: "int list" where "cron_maxs = [59, 23, 31, 12, 7]"

text \<open>
  The loop over a range, in the arithmetic of a 64-bit \<open>int\<close>: the rest of the range is compared with the
  step before the step is added. A step is at least 1 when the loop is entered.
\<close>

lemma loop_descends:
  assumes "1 \<le> sint (step :: 64 word)" "sint n \<le> sint (e :: 64 word)" "sint step \<le> sint (e - n)"
  shows "sint (n + step) = sint n + sint step" "sint n + sint step \<le> sint e"
proof -
  have r: "- (2 ^ 63) \<le> sint x" "sint x < 2 ^ 63" for x :: "64 word"
    using sint_ge[of x] sint_lt[of x] by simp_all
  have d: "sint (e - n) = (sint e - sint n + 2 ^ 63) mod 2 ^ 64 - 2 ^ 63"
    by (simp add: sint_word_ariths signed_take_bit_eq_take_bit_shift take_bit_eq_mod)
  have "sint e - sint n < 2 ^ 63"
  proof (rule ccontr)
    assume "\<not> sint e - sint n < 2 ^ 63"
    then have "(sint e - sint n + 2 ^ 63) mod 2 ^ 64 = sint e - sint n + 2 ^ 63 - 2 ^ 64"
      using r[of e] r[of n] by (intro int_mod_pos_eq[of _ _ 1]) simp_all
    then show False using d assms r[of e] r[of n] by simp
  qed
  then have "sint (e - n) = sint e - sint n" using d assms(2) by simp
  then show le: "sint n + sint step \<le> sint e" using assms(3) by simp
  then show "sint (n + step) = sint n + sint step"
    using r[of e] r[of n] assms(1) by (simp add: sint_word_ariths signed_take_bit_eq_take_bit_shift take_bit_eq_mod)
qed

function cron_loop :: "64 word \<Rightarrow> 64 word \<Rightarrow> 64 word \<Rightarrow> 64 word list" where
  "cron_loop n e step =
     (if sint e < sint n \<or> sint step < 1 then []
      else n # (if sint step > sint (e - n) then [] else cron_loop (n + step) e step))"
  by pat_completeness auto
termination
  by (relation "measure (\<lambda>(n, e, step). nat (sint e - sint n + 1))") (auto simp: not_less loop_descends)

declare cron_loop.simps [simp del]

definition cron_range :: "int \<Rightarrow> int \<Rightarrow> int \<Rightarrow> int list" where
  "cron_range n e step = map sint (cron_loop (word_of_int n) (word_of_int e) (word_of_int step))"

definition cron_value :: "nat \<Rightarrow> int \<Rightarrow> int" where
  "cron_value i n = (if i = 4 \<and> n = 7 then 0 else n)"

definition cron_step :: "string \<Rightarrow> bool \<Rightarrow> async_error + int" where
  "cron_step stepText hasStep =
     (if hasStep
      then case parse_int64 stepText of
             None \<Rightarrow> Inl ErrInvalid
           | Some step \<Rightarrow> if step < 1 then Inl ErrInvalid else Inr step
      else Inr 1)"

definition cron_bounds :: "nat \<Rightarrow> string \<Rightarrow> bool \<Rightarrow> async_error + int \<times> int" where
  "cron_bounds i base hasStep =
     (if base = ''*'' then Inr (cron_mins ! i, cron_maxs ! i)
      else case cut (CHR ''-'') base of (a, b, rangeFound) \<Rightarrow>
        (case parse_int64 a of
           None \<Rightarrow> Inl ErrInvalid
         | Some start \<Rightarrow>
             if rangeFound
             then case parse_int64 b of None \<Rightarrow> Inl ErrInvalid | Some e \<Rightarrow> Inr (start, e)
             else Inr (start, if hasStep then cron_maxs ! i else start)))"

definition cron_piece :: "nat \<Rightarrow> string \<Rightarrow> async_error + int list" where
  "cron_piece i piece =
     (case cut (CHR ''/'') piece of (base, stepText, hasStep) \<Rightarrow>
        try_then (cron_step stepText hasStep) (\<lambda>step.
        try_then (cron_bounds i base hasStep) (\<lambda>(start, e).
          if start < cron_mins ! i \<or> e > cron_maxs ! i \<or> start > e then Inl ErrInvalid
          else Inr (map (cron_value i) (cron_range start e step)))))"

definition cron_field :: "nat \<times> string \<Rightarrow> async_error + int list" where
  "cron_field p =
     (case p of (i, part) \<Rightarrow> try_then (traverse (cron_piece i) (split_on (CHR '','') part)) (\<lambda>vs. Inr (concat vs)))"

definition parseCron :: "string \<Rightarrow> async_error + int list list" where
  "parseCron expression =
     (if length expression > 1024 then Inl ErrInvalid
      else let parts = strings_Fields expression in
           if length parts \<noteq> 5 then Inl ErrInvalid else traverse cron_field (enumerate 0 parts))"

definition rule_Validate :: "zone_db \<Rightarrow> schedule_rule \<Rightarrow> async_error option" where
  "rule_Validate zones r =
     (if sr_Timezone r = [] \<or> zones (sr_Timezone r) = None then Some ErrInvalid
      else if sr_FoldPolicy r \<notin> {''both'', ''first'', ''second''} then Some ErrInvalid
      else if sr_GapPolicy r \<noteq> ''skip'' then Some ErrInvalid
      else if sr_Kind r = ''interval'' then (if sr_Interval r < millisecond then Some ErrInvalid else None)
      else if sr_Kind r = ''cron''
        then (case parseCron (sr_Expression r) of Inl e \<Rightarrow> Some e | Inr _ \<Rightarrow> None)
      else if \<not> namePattern (sr_Kind r) then Some ErrInvalid else None)"

definition Crontab :: "zone_db \<Rightarrow> string \<Rightarrow> string \<Rightarrow> schedule_rule \<times> async_error option" where
  "Crontab zones expression timezone =
     (let rule = \<lparr>sr_Kind = ''cron'', sr_Interval = 0, sr_Expression = expression, sr_Timezone = timezone,
                  sr_FixedDelay = False, sr_FoldPolicy = ''both'', sr_GapPolicy = ''skip''\<rparr>
      in (rule, rule_Validate zones rule))"

subsection \<open>The next occurrence\<close>

definition validScheduleInstant :: "go_time \<Rightarrow> bool" where
  "validScheduleInstant t = (t \<noteq> 0 \<and> year_of t \<ge> 0 \<and> year_of t \<le> 9999)"

definition checkedOccurrence :: "go_time \<Rightarrow> go_time \<Rightarrow> async_error + go_time" where
  "checkedOccurrence after t =
     (if \<not> validScheduleInstant after \<or> \<not> validScheduleInstant t \<or> \<not> t > after then Inl ErrInvalid else Inr t)"

definition sameWallMinute :: "go_time \<Rightarrow> go_time \<Rightarrow> bool" where
  "sameWallMinute a b =
     (year_of a = year_of b \<and> yday_of a = yday_of b \<and> hour_of a = hour_of b \<and> minute_of a = minute_of b)"

definition wall :: "(go_time \<Rightarrow> int) \<Rightarrow> go_time \<Rightarrow> go_time" where
  "wall zone t = t + zone t"

text \<open>The fold policy: whether an equal wall-clock minute within three hours hides this one.\<close>

definition fold_hides :: "string \<Rightarrow> (go_time \<Rightarrow> int) \<Rightarrow> go_time \<Rightarrow> bool" where
  "fold_hides policy zone t =
     (policy \<noteq> ''both'' \<and>
      (policy = ''first'' \<and> list_ex (\<lambda>k. sameWallMinute (wall zone t) (wall zone (t - int k * minute))) [1..<181]
       \<or> policy = ''second'' \<and> list_ex (\<lambda>k. sameWallMinute (wall zone t) (wall zone (t + int k * minute))) [1..<181]))"

definition cron_matches :: "schedule_rule \<Rightarrow> (go_time \<Rightarrow> int) \<Rightarrow> int list list \<Rightarrow> go_time \<Rightarrow> bool" where
  "cron_matches r zone fs t =
     (let parts = strings_Fields (sr_Expression r); l = wall zone t;
          dom = mday_of l \<in> set (fs ! 2); dow = weekday_of l \<in> set (fs ! 4);
          day = (if parts ! 2 \<noteq> ''*'' \<and> parts ! 4 \<noteq> ''*'' then dom \<or> dow else dom \<and> dow)
      in minute_of l \<in> set (fs ! 0) \<and> hour_of l \<in> set (fs ! 1) \<and> day \<and> month_of l \<in> set (fs ! 3)
         \<and> \<not> fold_hides (sr_FoldPolicy r) zone t)"

function cron_search :: "(go_time \<Rightarrow> bool) \<Rightarrow> go_time \<Rightarrow> go_time \<Rightarrow> async_error + go_time" where
  "cron_search matches t limit =
     (if \<not> t < limit then Inl ErrInvalid
      else if \<not> validScheduleInstant t then Inl ErrInvalid
      else if matches t then Inr t
      else cron_search matches (t + minute) limit)"
  by pat_completeness auto
termination by (relation "measure (\<lambda>(matches, t, limit). nat (limit - t))") (auto simp: duration_defs)

declare cron_search.simps [simp del]

definition cron_start :: "go_time \<Rightarrow> go_time" where
  "cron_start after = after - after mod minute + minute"

definition rule_Next :: "zone_db \<Rightarrow> schedule_rule \<Rightarrow> go_time \<Rightarrow> async_error + go_time" where
  "rule_Next zones r after =
     (if \<not> validScheduleInstant after then Inl ErrInvalid
      else case rule_Validate zones r of
        Some e \<Rightarrow> Inl e
      | None \<Rightarrow>
          if sr_Kind r = ''interval'' then checkedOccurrence after (after + sr_Interval r)
          else if sr_Kind r \<noteq> ''cron'' then Inl ErrUnavailable
          else try_then (parseCron (sr_Expression r)) (\<lambda>fs.
            cron_search (cron_matches r (the (zones (sr_Timezone r))) fs) (cron_start after) (add_years after 5)))"

subsection \<open>Ranges\<close>

lemma multiples_from:
  assumes "(1 :: int) \<le> step" "n \<le> m" "step dvd m - n"
  shows "m = n \<or> n + step \<le> m"
  using assms zdvd_imp_le[of step "m - n"] by (cases "m = n") auto

text \<open>The steps of the range over unbounded integers. The guard of the loop keeps the 64-bit sum in the range.\<close>

function cron_steps :: "int \<Rightarrow> int \<Rightarrow> int \<Rightarrow> int list" where
  "cron_steps n e step =
     (if e < n \<or> step < 1 then [] else n # (if step > e - n then [] else cron_steps (n + step) e step))"
  by pat_completeness auto
termination by (relation "measure (\<lambda>(n, e, step). nat (e - n + 1))") auto

declare cron_steps.simps [simp del]

lemma sint_in_range: "min_int64 \<le> k \<Longrightarrow> k \<le> max_int64 \<Longrightarrow> sint (word_of_int k :: 64 word) = k"
  by (simp add: sint_uint min_int64_def max_int64_def uint_word_of_int signed_take_bit_eq_take_bit_shift take_bit_eq_mod mod_simps)

lemma cron_loop_steps:
  assumes "0 \<le> sint n"
  shows "map sint (cron_loop n e step) = cron_steps (sint n) (sint e) (sint step)"
  using assms
proof (induction n e step rule: cron_loop.induct)
  case (1 n e step)
  have r: "sint x < 2 ^ 63" for x :: "64 word" using sint_lt[of x] by simp
  show ?case
  proof (cases "sint e < sint n \<or> sint step < 1")
    case True
    then show ?thesis by (simp add: cron_loop.simps cron_steps.simps)
  next
    case False
    then have diff: "sint (e - n) = sint e - sint n"
      using "1.prems" r[of e] by (simp add: sint_word_ariths signed_take_bit_eq_take_bit_shift take_bit_eq_mod)
    show ?thesis
    proof (cases "sint step > sint e - sint n")
      case True
      with False show ?thesis by (subst cron_loop.simps, subst cron_steps.simps) (simp add: diff)
    next
      case more: False
      have sum: "sint (n + step) = sint n + sint step" using loop_descends(1)[of step n e] False more diff by simp
      have "map sint (cron_loop (n + step) e step) = cron_steps (sint n + sint step) (sint e) (sint step)"
        using "1.IH" False more "1.prems" by (simp add: diff sum)
      then show ?thesis using False more by (subst cron_loop.simps, subst cron_steps.simps) (simp add: diff)
    qed
  qed
qed

lemma cron_range_steps:
  assumes "0 \<le> n" "n \<le> max_int64" "0 \<le> e" "e \<le> max_int64" "1 \<le> step" "step \<le> max_int64"
  shows "cron_range n e step = cron_steps n e step"
proof -
  have "min_int64 \<le> 0" by (simp add: min_int64_def)
  then show ?thesis using cron_loop_steps[of "word_of_int n"] assms by (simp add: cron_range_def sint_in_range)
qed

lemma cron_steps_set: "1 \<le> step \<Longrightarrow> m \<in> set (cron_steps n e step) \<longleftrightarrow> n \<le> m \<and> m \<le> e \<and> step dvd m - n"
proof (induction n e step rule: cron_steps.induct)
  case (1 n e step)
  show ?case
  proof (cases "e < n \<or> step > e - n")
    case True
    then have "cron_steps n e step = (if e < n then [] else [n])" using "1.prems" by (subst cron_steps.simps) auto
    moreover have "\<not> (n < m \<and> m \<le> e \<and> step dvd m - n)"
      using True multiples_from[OF "1.prems", of n m] by linarith
    ultimately show ?thesis by (cases "m = n"; cases "e < n") simp_all
  next
    case False
    then have "cron_steps n e step = n # cron_steps (n + step) e step" using "1.prems" by (subst cron_steps.simps) auto
    moreover have "m \<in> set (cron_steps (n + step) e step) \<longleftrightarrow> n + step \<le> m \<and> m \<le> e \<and> step dvd m - (n + step)"
      using False "1.prems" by (intro "1.IH") auto
    moreover have "step dvd m - (n + step) \<longleftrightarrow> step dvd m - n"
      using dvd_add[of step "m - (n + step)" step] dvd_diff[of step "m - n" step] by (auto simp: diff_diff_eq)
    moreover have "n \<le> m \<Longrightarrow> step dvd m - n \<Longrightarrow> m \<noteq> n \<Longrightarrow> n + step \<le> m"
      using multiples_from[OF "1.prems", of n m] by blast
    moreover have "n + step \<le> m \<Longrightarrow> n \<le> m" "n \<le> e" using "1.prems" False by linarith+
    ultimately show ?thesis by (cases "m = n") (simp, simp, blast)
  qed
qed

text \<open>
  What a piece of a field may say: a star or a number or a range of two numbers, with or without a step. A single
  number with a step runs to the end of the field. \<open>field_range\<close> is the range of each of the five fields; the
  numbers are those of \<open>strconv.Atoi\<close>.
\<close>

definition field_range :: "nat \<Rightarrow> int \<times> int" where
  "field_range i = [(0, 59), (0, 23), (1, 31), (1, 12), (0, 7)] ! i"

inductive cron_term :: "nat \<Rightarrow> string \<Rightarrow> int \<Rightarrow> int \<Rightarrow> int \<Rightarrow> bool" where
  star: "field_range i = (lo, hi) \<Longrightarrow> cron_term i ''*'' lo hi 1"
| star_step: "field_range i = (lo, hi) \<Longrightarrow> parse_int64 s = Some k \<Longrightarrow> 1 \<le> k \<Longrightarrow> cron_term i (''*/'' @ s) lo hi k"
| number: "parse_int64 a = Some n \<Longrightarrow> CHR ''-'' \<notin> set a \<Longrightarrow> field_range i = (lo, hi) \<Longrightarrow> lo \<le> n \<Longrightarrow> n \<le> hi
    \<Longrightarrow> cron_term i a n n 1"
| number_step: "parse_int64 a = Some n \<Longrightarrow> CHR ''-'' \<notin> set a \<Longrightarrow> field_range i = (lo, hi) \<Longrightarrow> lo \<le> n \<Longrightarrow> n \<le> hi
    \<Longrightarrow> parse_int64 s = Some k \<Longrightarrow> 1 \<le> k \<Longrightarrow> cron_term i (a @ ''/'' @ s) n hi k"
| span: "parse_int64 a = Some n \<Longrightarrow> CHR ''-'' \<notin> set a \<Longrightarrow> parse_int64 b = Some m \<Longrightarrow> field_range i = (lo, hi)
    \<Longrightarrow> lo \<le> n \<Longrightarrow> n \<le> m \<Longrightarrow> m \<le> hi \<Longrightarrow> cron_term i (a @ ''-'' @ b) n m 1"
| span_step: "parse_int64 a = Some n \<Longrightarrow> CHR ''-'' \<notin> set a \<Longrightarrow> parse_int64 b = Some m \<Longrightarrow> field_range i = (lo, hi)
    \<Longrightarrow> lo \<le> n \<Longrightarrow> n \<le> m \<Longrightarrow> m \<le> hi \<Longrightarrow> parse_int64 s = Some k \<Longrightarrow> 1 \<le> k
    \<Longrightarrow> cron_term i (a @ ''-'' @ b @ ''/'' @ s) n m k"

text \<open>The values of a piece; Sunday is both 0 and 7 in the field of weekdays.\<close>

definition cron_denotes :: "nat \<Rightarrow> string \<Rightarrow> int set" where
  "cron_denotes i piece =
     {if i = 4 \<and> n = 7 then 0 else n |n. \<exists>lo hi step. cron_term i piece lo hi step \<and> lo \<le> n \<and> n \<le> hi \<and> step dvd n - lo}"

lemma number_chars:
  assumes "parse_int64 s = Some n"
  shows "CHR ''/'' \<notin> set s" "CHR ''*'' \<notin> set s" "n \<le> max_int64" "s \<noteq> []"
proof -
  have d: "\<not> is_digit (CHR ''/'')" "\<not> is_digit (CHR ''*'')" by (simp_all add: is_digit_def less_eq_char_def)
  show "CHR ''/'' \<notin> set s" "CHR ''*'' \<notin> set s" "n \<le> max_int64" "s \<noteq> []"
    using assms d by (cases s; auto simp: parse_int64_def Let_def list_all_iff split: if_splits)+
qed

lemma field_ranges: "i < 5 \<Longrightarrow> field_range i = (cron_mins ! i, cron_maxs ! i)"
  by (auto simp: less_Suc_eq numeral_eq_Suc field_range_def cron_mins_def cron_maxs_def)

lemma field_order: "i < 5 \<Longrightarrow> 0 \<le> cron_mins ! i \<and> cron_mins ! i \<le> cron_maxs ! i \<and> cron_maxs ! i \<le> 59"
  by (auto simp: less_Suc_eq numeral_eq_Suc cron_mins_def cron_maxs_def)

text \<open>The bounds and the step the parser finds in a piece.\<close>

definition cron_reads :: "nat \<Rightarrow> string \<Rightarrow> int \<Rightarrow> int \<Rightarrow> int \<Rightarrow> bool" where
  "cron_reads i piece start e step =
     (case cut (CHR ''/'') piece of (base, stepText, hasStep) \<Rightarrow>
        cron_step stepText hasStep = Inr step \<and> cron_bounds i base hasStep = Inr (start, e)
        \<and> cron_mins ! i \<le> start \<and> start \<le> e \<and> e \<le> cron_maxs ! i)"

lemma cron_reads_term:
  assumes "i < 5" "cron_reads i piece start e step"
  shows "cron_term i piece start e step"
proof -
  obtain base stepText hasStep where c: "cut (CHR ''/'') piece = (base, stepText, hasStep)" by (cases "cut (CHR ''/'') piece")
  obtain a b found where d: "cut (CHR ''-'') base = (a, b, found)" by (cases "cut (CHR ''-'') base")
  have piece: "piece = (if hasStep then base @ ''/'' @ stepText else base)"
    using c cut_found[of "CHR ''/''" piece base stepText] cut_not_found[of "CHR ''/''" piece base stepText] by (cases hasStep) auto
  have base: "base = (if found then a @ ''-'' @ b else a)" "CHR ''-'' \<notin> set a"
    using d cut_found[of "CHR ''-''" base a b] cut_not_found[of "CHR ''-''" base a b] by (cases found; auto)+
  note f = field_ranges[OF assms(1)]
  have s: "cron_step stepText hasStep = Inr step" "cron_bounds i base hasStep = Inr (start, e)"
      "cron_mins ! i \<le> start" "start \<le> e" "e \<le> cron_maxs ! i"
    using assms(2) by (simp_all add: cron_reads_def c)
  have step: "if hasStep then parse_int64 stepText = Some step \<and> 1 \<le> step else step = 1"
    using s(1) by (auto simp: cron_step_def split: if_splits option.splits)
  show ?thesis
  proof (cases "base = ''*''")
    case True
    then show ?thesis using s step f by (auto simp: piece cron_bounds_def intro: star star_step[simplified])
  next
    case False
    then have b: "parse_int64 a = Some start" "if found then parse_int64 b = Some e else e = (if hasStep then cron_maxs ! i else start)"
      using s(2) d by (auto simp: cron_bounds_def split: option.splits if_splits)
    show ?thesis
      using number[OF b(1) base(2) f] number_step[OF b(1) base(2) f, of stepText step]
        span[OF b(1) base(2) _ f, of b e] span_step[OF b(1) base(2) _ f, of b e stepText step] b(2) step s(3-5) base(1)
      by (auto simp: piece split: if_splits)
  qed
qed

lemma cron_term_reads:
  assumes "cron_term i piece start e step" "i < 5"
  shows "cron_reads i piece start e step"
proof -
  have slash: "cut (CHR ''/'') (x @ CHR ''/'' # y) = (x, y, True)" if "CHR ''/'' \<notin> set x" for x y using that by (simp add: cut_found)
  have dash: "cut (CHR ''-'') (x @ CHR ''-'' # y) = (x, y, True)" if "CHR ''-'' \<notin> set x" for x y using that by (simp add: cut_found)
  have none: "cut c x = (x, [], False)" if "c \<notin> set x" for c x using that by (simp add: cut_not_found)
  note f = field_ranges[OF assms(2)] field_order[OF assms(2)]
  have ne: "x \<noteq> ''*''" if "parse_int64 x = Some k" for x k using number_chars(2)[OF that] by auto
  have ne': "x @ CHR ''-'' # y \<noteq> ''*''" for x y by (cases x) auto
  show ?thesis using assms(1)
  proof cases
    case (star_step s)
    then show ?thesis using f slash[of "''*''" s] by (simp add: cron_reads_def cron_step_def cron_bounds_def)
  next
    case (number_step a lo s)
    then show ?thesis using f slash[of a s] number_chars(1)[OF number_step(2)] none[of "CHR ''-''" a] ne
      by (simp add: cron_reads_def cron_step_def cron_bounds_def)
  next
    case (span a b lo hi)
    then show ?thesis using f none[of "CHR ''/''" "a @ CHR ''-'' # b"] number_chars(1)[OF span(3)] number_chars(1)[OF span(5)] dash[of a b] ne'
      by (simp add: cron_reads_def cron_step_def cron_bounds_def)
  next
    case (span_step a b lo hi s)
    then show ?thesis using f slash[of "a @ CHR ''-'' # b" s] number_chars(1)[OF span_step(2)] number_chars(1)[OF span_step(4)] dash[of a b] ne'
      by (simp add: cron_reads_def cron_step_def cron_bounds_def)
  qed (use f in \<open>simp_all add: cron_reads_def cron_step_def cron_bounds_def none ne number_chars(1)\<close>)
qed

lemma cron_reads_iff: "i < 5 \<Longrightarrow> cron_reads i piece start e step \<longleftrightarrow> cron_term i piece start e step"
  using cron_reads_term cron_term_reads by blast

lemma cron_reads_unique: "cron_reads i piece a b c \<Longrightarrow> cron_reads i piece x y z \<Longrightarrow> a = x \<and> b = y \<and> c = z"
  by (auto simp: cron_reads_def split: prod.splits)

lemma cron_piece_reads:
  assumes "i < 5"
  shows "cron_piece i piece = Inr vs \<longleftrightarrow>
    (\<exists>start e step. cron_reads i piece start e step \<and> vs = map (cron_value i) (cron_steps start e step))"
proof -
  obtain base stepText hasStep where c: "cut (CHR ''/'') piece = (base, stepText, hasStep)" by (cases "cut (CHR ''/'') piece")
  have "cron_range start e step = cron_steps start e step"
    if "cron_step stepText hasStep = Inr step" "cron_mins ! i \<le> start" "start \<le> e" "e \<le> cron_maxs ! i" for start e step
    using that field_order[OF assms] number_chars(3)[of stepText step]
    by (intro cron_range_steps) (auto simp: cron_step_def max_int64_def split: if_splits option.splits)
  then show ?thesis
    by (cases "cron_step stepText hasStep"; cases "cron_bounds i base hasStep")
      (auto simp: cron_piece_def cron_reads_def c not_less not_le split: if_splits)
qed

lemma cron_reads_step: "cron_reads i piece start e step \<Longrightarrow> 1 \<le> step"
  by (auto simp: cron_reads_def cron_step_def split: if_splits option.splits prod.splits)

lemma cron_piece_accepts: "i < 5 \<Longrightarrow> (\<exists>vs. cron_piece i piece = Inr vs) \<longleftrightarrow> (\<exists>lo hi step. cron_term i piece lo hi step)"
  by (simp add: cron_piece_reads cron_reads_iff)

lemma cron_piece_exact:
  assumes "cron_piece i piece = Inr vs" "i < 5"
  shows "set vs = cron_denotes i piece" "vs \<noteq> []" "set vs \<subseteq> {cron_mins ! i..cron_maxs ! i}"
proof -
  obtain start e step where s: "cron_reads i piece start e step" "vs = map (cron_value i) (cron_steps start e step)"
    using assms cron_piece_reads by blast
  have step: "1 \<le> step" using cron_reads_step[OF s(1)] .
  have range: "cron_mins ! i \<le> start" "start \<le> e" "e \<le> cron_maxs ! i" using s(1) by (auto simp: cron_reads_def split: prod.splits)
  note set = cron_steps_set[OF step, of _ start e]
  have one: "cron_term i piece lo hi k \<longleftrightarrow> lo = start \<and> hi = e \<and> k = step" for lo hi k
    using cron_reads_unique[OF s(1)] s(1) cron_reads_iff[OF assms(2)] by metis
  show "set vs = cron_denotes i piece" by (auto simp: s(2) set one cron_denotes_def cron_value_def image_iff)
  have "start \<in> set (cron_steps start e step)" using set range by simp
  then show "vs \<noteq> []" using s(2) by auto
  have "0 = cron_mins ! 4" by (simp add: cron_mins_def)
  then have "cron_mins ! i \<le> cron_value i n \<and> cron_value i n \<le> cron_maxs ! i" if "cron_mins ! i \<le> n" "n \<le> cron_maxs ! i" for n
    using that by (auto simp: cron_value_def)
  then show "set vs \<subseteq> {cron_mins ! i..cron_maxs ! i}" using range s(2) set by (fastforce simp: image_subset_iff)
qed

lemma cron_field_exact:
  assumes "cron_field (i, part) = Inr vs" "i < 5"
  shows "set vs = (\<Union>piece \<in> set (split_on (CHR '','') part). cron_denotes i piece)"
    "vs \<noteq> []" "set vs \<subseteq> {cron_mins ! i..cron_maxs ! i}"
proof -
  let ?ps = "split_on (CHR '','') part"
  obtain vss where v: "traverse (cron_piece i) ?ps = Inr vss" "vs = concat vss"
    using assms(1) by (auto simp: cron_field_def)
  have n: "length vss = length ?ps" "\<And>j. j < length ?ps \<Longrightarrow> cron_piece i (?ps ! j) = Inr (vss ! j)"
    using traverse_nth[OF v(1)] by blast+
  note piece = cron_piece_exact[OF n(2) assms(2)]
  have "set vss = (!) vss ` {..<length ?ps}" "set ?ps = (!) ?ps ` {..<length ?ps}"
    using n(1) by (auto simp: set_conv_nth)
  note sets = this
  have all: "set vs = (\<Union>j \<in> {..<length ?ps}. set (vss ! j))" unfolding v(2) set_concat sets(1) by simp
  also have "\<dots> = (\<Union>j \<in> {..<length ?ps}. cron_denotes i (?ps ! j))"
    using piece(1) by (intro SUP_cong) simp_all
  also have "\<dots> = (\<Union>piece \<in> set ?ps. cron_denotes i piece)" unfolding sets(2) by simp
  finally show "set vs = (\<Union>piece \<in> set ?ps. cron_denotes i piece)" .
  have "0 < length ?ps" using split_on_nonempty[of "CHR '',''" part] by simp
  then have "vss ! 0 \<in> set vss" "vss ! 0 \<noteq> []" using piece(2)[of 0] n(1) by (auto intro: nth_mem)
  then show "vs \<noteq> []" using v(2) by auto
  show "set vs \<subseteq> {cron_mins ! i..cron_maxs ! i}"
    unfolding all using piece(3) by (intro UN_least) simp
qed

lemma traverse_succeeds: "(\<exists>ys. traverse f xs = Inr ys) \<longleftrightarrow> (\<forall>x \<in> set xs. \<exists>y. f x = Inr y)"
  by (induction xs) (auto split: sum.splits)

lemma cron_field_accepts:
  assumes "i < 5"
  shows "(\<exists>vs. cron_field (i, part) = Inr vs)
    \<longleftrightarrow> (\<forall>piece \<in> set (split_on (CHR '','') part). \<exists>lo hi step. cron_term i piece lo hi step)"
  using traverse_succeeds[of "cron_piece i" "split_on (CHR '','') part"] cron_piece_accepts[OF assms]
  by (auto simp: cron_field_def split: sum.splits)

subsection \<open>The search finds the first match\<close>

definition first_match :: "(go_time \<Rightarrow> bool) \<Rightarrow> go_time \<Rightarrow> go_time \<Rightarrow> go_time \<Rightarrow> bool" where
  "first_match matches t limit u \<longleftrightarrow>
     (\<exists>k. u = t + int k * minute \<and> u < limit \<and> matches u
        \<and> (\<forall>j \<le> k. validScheduleInstant (t + int j * minute)) \<and> (\<forall>j < k. \<not> matches (t + int j * minute)))"

lemma cron_search_iff: "cron_search matches t limit = Inr u \<longleftrightarrow> first_match matches t limit u"
proof (induction matches t limit rule: cron_search.induct)
  case (1 matches t limit)
  have min: "0 < minute" by (simp add: duration_defs)
  show ?case
  proof (cases "t < limit \<and> validScheduleInstant t \<and> \<not> matches t")
    case True
    then have "cron_search matches t limit = cron_search matches (t + minute) limit" by (subst cron_search.simps) simp
    moreover have "first_match matches t limit u \<longleftrightarrow> first_match matches (t + minute) limit u"
    proof
      assume "first_match matches t limit u"
      then obtain k where k: "u = t + int k * minute" "u < limit" "matches u"
          "\<forall>j \<le> k. validScheduleInstant (t + int j * minute)" "\<forall>j < k. \<not> matches (t + int j * minute)"
        unfolding first_match_def by blast
      have "k \<noteq> 0"
      proof
        assume "k = 0"
        then show False using k(1,3) True by simp
      qed
      then obtain k' where k': "k = Suc k'" by (cases k) auto
      show "first_match matches (t + minute) limit u" unfolding first_match_def
      proof (intro exI[of _ k'] conjI allI impI)
        show "u = t + minute + int k' * minute" using k(1) k' by (simp add: algebra_simps)
        show "validScheduleInstant (t + minute + int j * minute)" if "j \<le> k'" for j
          using k(4) k' that by (auto dest: spec[of _ "Suc j"] simp: algebra_simps)
        show "\<not> matches (t + minute + int j * minute)" if "j < k'" for j
          using k(5) k' that by (auto dest: spec[of _ "Suc j"] simp: algebra_simps)
      qed (use k in auto)
    next
      assume "first_match matches (t + minute) limit u"
      then obtain k where k: "u = t + minute + int k * minute" "u < limit" "matches u"
          "\<forall>j \<le> k. validScheduleInstant (t + minute + int j * minute)" "\<forall>j < k. \<not> matches (t + minute + int j * minute)"
        unfolding first_match_def by blast
      show "first_match matches t limit u" unfolding first_match_def
      proof (intro exI[of _ "Suc k"] conjI allI impI)
        show "u = t + int (Suc k) * minute" using k(1) by (simp add: algebra_simps)
        show "validScheduleInstant (t + int j * minute)" if "j \<le> Suc k" for j
          using k(4) True that by (cases j) (auto simp: algebra_simps)
        show "\<not> matches (t + int j * minute)" if "j < Suc k" for j
          using k(5) True that by (cases j) (auto simp: algebra_simps)
      qed (use k in auto)
    qed
    ultimately show ?thesis using "1.IH" True by simp
  next
    case False
    have stop: "cron_search matches t limit = (if t < limit \<and> validScheduleInstant t then Inr t else Inl ErrInvalid)"
      using False by (subst cron_search.simps) auto
    have "first_match matches t limit u \<longleftrightarrow> t < limit \<and> validScheduleInstant t \<and> u = t"
    proof
      assume "first_match matches t limit u"
      then obtain k where k: "u = t + int k * minute" "u < limit" "matches u"
          "\<forall>j \<le> k. validScheduleInstant (t + int j * minute)" "\<forall>j < k. \<not> matches (t + int j * minute)"
        unfolding first_match_def by blast
      have v: "validScheduleInstant t" using k(4) by (auto dest: spec[of _ 0])
      have "0 \<le> int k * minute" using min by simp
      then have lim: "t < limit" using k(1,2) by linarith
      then have "k = 0" using False v k(5) by (cases k) auto
      then show "t < limit \<and> validScheduleInstant t \<and> u = t" using lim v k(1) by simp
    next
      assume "t < limit \<and> validScheduleInstant t \<and> u = t"
      then show "first_match matches t limit u" using False unfolding first_match_def by (intro exI[of _ 0]) auto
    qed
    then show ?thesis using stop by auto
  qed
qed

lemma minute_points: "after < u \<and> minute dvd u \<longleftrightarrow> (\<exists>k. u = cron_start after + int k * minute)"
proof
  have min: "0 < minute" by (simp add: duration_defs)
  have r: "0 \<le> after mod minute" "after mod minute < minute" using min by simp_all
  have d: "minute dvd cron_start after" unfolding cron_start_def by (simp add: minus_mod_eq_mult_div)
  {
    assume u: "after < u \<and> minute dvd u"
    then obtain q where q: "u - cron_start after = minute * q" using d by (meson dvdE dvd_diff)
    have "- minute < minute * q" using u r(1) q by (simp add: cron_start_def)
    then have "- 60000000000 < 60000000000 * q" by (simp add: duration_defs)
    then have "0 \<le> q" by linarith
    then have "u = cron_start after + int (nat q) * minute" using q by (simp add: algebra_simps)
    then show "\<exists>k. u = cron_start after + int k * minute" ..
  next
    assume "\<exists>k. u = cron_start after + int k * minute"
    then obtain k where k: "u = cron_start after + int k * minute" ..
    have "0 \<le> int k * minute" using min by simp
    then have "after < u" using k r unfolding cron_start_def by linarith
    then show "after < u \<and> minute dvd u" using k d by simp
  }
qed

lemma first_match_points:
  "first_match matches (cron_start after) limit t \<longleftrightarrow>
     after < t \<and> t < limit \<and> minute dvd t \<and> matches t
     \<and> (\<forall>u. after < u \<and> u \<le> t \<and> minute dvd u \<longrightarrow> validScheduleInstant u)
     \<and> (\<forall>u. after < u \<and> u < t \<and> minute dvd u \<longrightarrow> \<not> matches u)"
proof -
  let ?at = "\<lambda>k. cron_start after + int k * minute"
  have min: "0 < minute" by (simp add: duration_defs)
  have le: "?at j \<le> ?at k \<longleftrightarrow> j \<le> k" "?at j < ?at k \<longleftrightarrow> j < k" for j k using min by simp_all
  have "first_match matches (cron_start after) limit (?at k) \<longleftrightarrow>
      ?at k < limit \<and> matches (?at k) \<and> (\<forall>j \<le> k. validScheduleInstant (?at j)) \<and> (\<forall>j < k. \<not> matches (?at j))" for k
  proof -
    have "?at k = ?at j \<longleftrightarrow> j = k" for j using min by auto
    then show ?thesis unfolding first_match_def by (metis (no_types, lifting))
  qed
  note at = this
  have all: "(\<forall>u. after < u \<and> u \<le> ?at k \<and> minute dvd u \<longrightarrow> Q u) \<longleftrightarrow> (\<forall>j \<le> k. Q (?at j))"
      "(\<forall>u. after < u \<and> u < ?at k \<and> minute dvd u \<longrightarrow> Q u) \<longleftrightarrow> (\<forall>j < k. Q (?at j))" for Q k
    using minute_points[of after] le by metis+
  show ?thesis
  proof (cases "\<exists>k. t = ?at k")
    case True
    then obtain k where t: "t = ?at k" ..
    have "after < ?at k" "minute dvd ?at k" using minute_points[of after "?at k"] by blast+
    then show ?thesis unfolding t at all by simp
  next
    case False
    then have "\<not> first_match matches (cron_start after) limit t" unfolding first_match_def by blast
    then show ?thesis using False minute_points[of after t] by blast
  qed
qed

subsection \<open>Half past nine\<close>

definition utc_only :: zone_db where "utc_only name = (if name = ''UTC'' then Some (\<lambda>_. 0) else None)"

definition morning_rule :: schedule_rule where
  "morning_rule = fst (Crontab utc_only ''30 9 * * *'' ''UTC'')"

lemmas cron_eval = parseCron_def strings_Fields_def white_space_def has_prefix_def Let_def cron_field_def cron_piece_def
  cron_step_def cron_bounds_def cron_mins_def cron_maxs_def parse_int64_def is_digit_def less_eq_char_def digit_value_def
  min_int64_def max_int64_def cron_range_steps cron_steps.simps cron_value_def

lemma morning_fields:
  "strings_Fields ''30 9 * * *'' = [''30'', ''9'', ''*'', ''*'', ''*'']"
  "cron_field (0, ''30'') = Inr [30]" "cron_field (1, ''9'') = Inr [9]"
  by (simp_all add: cron_eval)

lemma stepped_fields:
  "strings_Fields ''5/10 9 * * *'' = [''5/10'', ''9'', ''*'', ''*'', ''*'']"
  "cron_field (0, ''5/10'') = Inr [5, 15, 25, 35, 45, 55]"
  by (simp_all add: cron_eval)

lemma wide_fields:
  "strings_Fields ''30/9223372036854775807 9 * * *'' = [''30/9223372036854775807'', ''9'', ''*'', ''*'', ''*'']"
  "cron_field (0, ''30/9223372036854775807'') = Inr [30]"
  by (simp_all add: cron_eval)

lemma star_field: "cron_range 1 31 1 = [1,2,3,4,5,6,7,8,9,10,11,12,13,14,15,16,17,18,19,20,21,22,23,24,25,26,27,28,29,30,31]"
  "cron_range 1 12 1 = [1,2,3,4,5,6,7,8,9,10,11,12]" "cron_range 0 7 1 = [0,1,2,3,4,5,6,7]"
  by (simp_all add: cron_range_steps cron_steps.simps max_int64_def)

lemma star_fields:
  "cron_field (2, ''*'') = Inr [1..31]" "cron_field (3, ''*'') = Inr [1..12]" "cron_field (4, ''*'') = Inr [0,1,2,3,4,5,6,0]"
  by (simp_all add: cron_field_def cron_piece_def cron_step_def cron_bounds_def cron_mins_def cron_maxs_def star_field cron_value_def upto.simps)

lemma morning_parsed: "parseCron ''30 9 * * *'' = Inr [[30], [9], [1..31], [1..12], [0,1,2,3,4,5,6,0]]"
  by (simp add: parseCron_def Let_def morning_fields star_fields[unfolded numeral_nat] morning_fields(3)[unfolded One_nat_def] del: One_nat_def)

lemma stepped_parsed: "parseCron ''5/10 9 * * *'' = Inr [[5, 15, 25, 35, 45, 55], [9], [1..31], [1..12], [0,1,2,3,4,5,6,0]]"
  by (simp add: parseCron_def Let_def stepped_fields star_fields[unfolded numeral_nat] morning_fields(3)[unfolded One_nat_def] del: One_nat_def)

lemma wide_parsed: "parseCron ''30/9223372036854775807 9 * * *'' = Inr [[30], [9], [1..31], [1..12], [0,1,2,3,4,5,6,0]]"
  by (simp add: parseCron_def Let_def wide_fields star_fields[unfolded numeral_nat] morning_fields(3)[unfolded One_nat_def] del: One_nat_def)

lemma morning_sel:
  "sr_Kind morning_rule = ''cron''" "sr_Expression morning_rule = ''30 9 * * *''" "sr_Timezone morning_rule = ''UTC''"
  "sr_FoldPolicy morning_rule = ''both''" "sr_GapPolicy morning_rule = ''skip''"
  by (simp_all add: morning_rule_def Crontab_def Let_def)

lemma morning_valid: "rule_Validate utc_only morning_rule = None"
  by (simp add: rule_Validate_def morning_sel morning_parsed utc_only_def)

text \<open>The instants 09:29:10 and 09:30 of the first of January 2024.\<close>

definition before_morning :: go_time where "before_morning = 738885 * day_length + 34150 * second"
definition morning :: go_time where "morning = 738885 * day_length + 34200 * second"

lemma morning_calendar:
  "year_of before_morning = 2024" "validScheduleInstant before_morning" "validScheduleInstant morning"
  "minute_of morning = 30" "hour_of morning = 9" "mday_of morning = 1" "month_of morning = 1" "weekday_of morning = 1"
  "cron_start before_morning = morning" "morning < add_years before_morning 5"
  by (simp_all add: validScheduleInstant_def before_morning_def morning_def day_length_value duration_defs minute_of_def
      hour_of_def mday_of_def month_of_def yday_of_def year_of_def weekday_of_def day_number_def year_of_day_def Let_def
      month_of_yday_def month_starts_def leap_year_def cron_start_def add_years_def days_before_year_def)

lemma morning_next: "rule_Next utc_only morning_rule before_morning = Inr morning"
  by (simp add: rule_Next_def morning_calendar morning_valid morning_sel morning_parsed cron_search.simps cron_matches_def
      wall_def utc_only_def fold_hides_def Let_def morning_fields)

subsection \<open>The properties\<close>

text \<open>
  C27. A crontab expression is accepted exactly when it has at most 1024 bytes and five fields, and every
  comma-separated piece of each field is a star, a number or a range of numbers within the range of that field,
  with or without a step of at least 1. An accepted field holds exactly the values its pieces denote: from the
  lower bound to the upper bound in steps, where a single number with a step runs to the end of the field and
  Sunday is 0 or 7. The loop runs in 64-bit arithmetic, so a step near the largest \<open>int\<close> does not wrap around
  into other values.
\<close>

theorem parseCron_exact:
  "((\<exists>fs. parseCron expression = Inr fs) \<longleftrightarrow>
      length expression \<le> 1024 \<and> length (strings_Fields expression) = 5
      \<and> (\<forall>i < 5. \<forall>piece \<in> set (split_on (CHR '','') (strings_Fields expression ! i)). \<exists>lo hi step. cron_term i piece lo hi step))
   \<and> (\<forall>fs. parseCron expression = Inr fs \<longrightarrow>
       length fs = 5 \<and> (\<forall>i < 5. fs ! i \<noteq> [] \<and> set (fs ! i) \<subseteq> {fst (field_range i)..snd (field_range i)}
         \<and> set (fs ! i) = (\<Union>piece \<in> set (split_on (CHR '','') (strings_Fields expression ! i)). cron_denotes i piece)))"
proof -
  let ?parts = "strings_Fields expression"
  have "(\<exists>fs. traverse cron_field (enumerate 0 ?parts) = Inr fs) \<longleftrightarrow> (\<forall>i < length ?parts. \<exists>vs. cron_field (i, ?parts ! i) = Inr vs)"
    by (simp add: traverse_succeeds all_set_conv_all_nth nth_enumerate_eq)
  then have accepts: "(\<exists>fs. parseCron expression = Inr fs) \<longleftrightarrow>
      length expression \<le> 1024 \<and> length ?parts = 5 \<and> (\<forall>i < 5. \<exists>vs. cron_field (i, ?parts ! i) = Inr vs)"
    by (auto simp: parseCron_def Let_def)
  have "length fs = 5 \<and> (\<forall>i < 5. fs ! i \<noteq> [] \<and> set (fs ! i) \<subseteq> {fst (field_range i)..snd (field_range i)}
         \<and> set (fs ! i) = (\<Union>piece \<in> set (split_on (CHR '','') (?parts ! i)). cron_denotes i piece))"
    if "parseCron expression = Inr fs" for fs
  proof -
    have fs: "length fs = 5" "\<And>i. i < 5 \<Longrightarrow> cron_field (i, ?parts ! i) = Inr (fs ! i)"
      using that traverse_nth[of cron_field "enumerate 0 ?parts" fs]
      by (auto simp: parseCron_def Let_def nth_enumerate_eq split: if_splits)
    show ?thesis using fs(1) cron_field_exact[OF fs(2)] field_ranges by fastforce
  qed
  moreover have "(\<forall>i < 5. \<exists>vs. cron_field (i, ?parts ! i) = Inr vs)
      \<longleftrightarrow> (\<forall>i < 5. \<forall>piece \<in> set (split_on (CHR '','') (?parts ! i)). \<exists>lo hi step. cron_term i piece lo hi step)"
    using cron_field_accepts by meson
  ultimately show ?thesis using accepts by (intro conjI allI impI) metis+
qed

theorem parseCron_exact_witness:
  "set ([[30], [9], [1..31], [1..12], [0,1,2,3,4,5,6,0]] ! 4) = cron_denotes 4 ''*''
   \<and> set ([[5, 15, 25, 35, 45, 55], [9], [1..31], [1..12], [0,1,2,3,4,5,6,0]] ! 0) = cron_denotes 0 ''5/10''
   \<and> set ([[30], [9], [1..31], [1..12], [0,1,2,3,4,5,6,0]] ! 0) = cron_denotes 0 ''30/9223372036854775807''"
proof -
  note fields = parseCron_exact[THEN conjunct2, THEN spec, THEN mp, THEN conjunct2, THEN spec, THEN mp]
  show ?thesis
    using fields[OF morning_parsed, of 4] fields[OF stepped_parsed, of 0] fields[OF wide_parsed, of 0]
    by (simp add: morning_fields stepped_fields wide_fields)
qed

text \<open>
  C28. The next occurrence of a crontab rule is the first whole minute after the given instant, within five
  years, whose wall clock matches the expression and that the fold policy does not hide; and there is a result
  exactly when such a minute exists.
\<close>

theorem cron_next_first:
  assumes "rule_Validate zones r = None" "sr_Kind r = ''cron''" "validScheduleInstant after"
    "zones (sr_Timezone r) = Some zone" "parseCron (sr_Expression r) = Inr fs"
  shows "rule_Next zones r after = Inr t \<longleftrightarrow>
     after < t \<and> t < add_years after 5 \<and> minute dvd t \<and> cron_matches r zone fs t
     \<and> (\<forall>u. after < u \<and> u \<le> t \<and> minute dvd u \<longrightarrow> validScheduleInstant u)
     \<and> (\<forall>u. after < u \<and> u < t \<and> minute dvd u \<longrightarrow> \<not> cron_matches r zone fs u)"
  using assms by (simp add: rule_Next_def cron_search_iff first_match_points)

theorem cron_next_first_witness:
  "before_morning < morning \<and> minute dvd morning
   \<and> cron_matches morning_rule (\<lambda>_. 0) [[30], [9], [1..31], [1..12], [0,1,2,3,4,5,6,0]] morning"
  using cron_next_first[OF morning_valid morning_sel(1) morning_calendar(2), of "\<lambda>_. 0", of _ morning]
    morning_next morning_parsed by (simp add: morning_sel utc_only_def)

end
