(* ===== verification/Async_Beat.thy ===== *)
theory Async_Beat
  imports Async_Cron Async_Compile
begin

text \<open>
  Periodic schedules and what a beat does with one it has leased (\<open>src/async/beat.go\<close>): which occurrences are
  due, which task each of them enqueues, and when the schedule is due again. The results store the beat
  consults, the calendars of the application, its authorization callback and the client are the environment. A
  calendar that panics is one that answers \<open>ErrUnavailable\<close>, which is what the recovery makes of it, and the context
  of the tick is not cancelled.
\<close>

record periodic_schedule =
  ps_ID :: string
  ps_Signature :: signature
  ps_Rule :: schedule_rule
  ps_Enabled :: bool
  ps_NextDue :: go_time
  ps_EndAt :: go_time
  ps_Misfire :: string
  ps_CatchUpLimit :: int
  ps_Overlap :: string
  ps_LastTaskID :: string
  ps_Revision :: "64 word"
  ps_Fence :: "64 word"
  ps_Owner :: string
  ps_LeaseUntil :: go_time
  ps_ObservedAt :: go_time

definition periodic_Validate :: "zone_db \<Rightarrow> periodic_schedule \<Rightarrow> async_error option" where
  "periodic_Validate zones p =
     (if \<not> idPattern (ps_ID p) \<or> ps_NextDue p = 0 \<or> ps_CatchUpLimit p < 1 \<or> ps_CatchUpLimit p > 1000
         \<or> ps_Misfire p \<notin> {''skip'', ''coalesce'', ''catchup''} \<or> ps_Overlap p \<notin> {''allow'', ''skip''}
      then Some ErrInvalid else rule_Validate zones (ps_Rule p))"

subsection \<open>Formatting an instant\<close>

text \<open>\<open>time.RFC3339Nano\<close> in UTC, for the years 0 to 9999; the fraction has no trailing zeros.\<close>

definition pad :: "nat \<Rightarrow> int \<Rightarrow> string" where
  "pad n v = (let s = itoa_nat (nat v) in replicate (n - length s) (CHR ''0'') @ s)"

definition nano_fraction :: "int \<Rightarrow> string" where
  "nano_fraction n = (if n = 0 then [] else ''.'' @ rev (dropWhile (\<lambda>c. c = CHR ''0'') (rev (pad 9 n))))"

definition RFC3339Nano :: "go_time \<Rightarrow> string" where
  "RFC3339Nano t =
     pad 4 (year_of t) @ ''-'' @ pad 2 (month_of t) @ ''-'' @ pad 2 (mday_of t) @ ''T'' @ pad 2 (hour_of t) @ '':''
     @ pad 2 (minute_of t) @ '':'' @ pad 2 ((t div second) mod 60) @ nano_fraction (t mod second) @ ''Z''"

subsection \<open>One leased schedule\<close>

record beat_env =
  be_zones :: zone_db
  be_Calendars :: "string \<Rightarrow> (schedule_rule \<Rightarrow> go_time \<Rightarrow> async_error + go_time) option"
  be_client :: client_config
  be_Authorize :: "(string \<Rightarrow> string \<Rightarrow> string \<Rightarrow> bool) option"
  be_Lookup :: "string \<Rightarrow> async_error + task_record"

definition beat_next :: "beat_env \<Rightarrow> schedule_rule \<Rightarrow> go_time \<Rightarrow> async_error + go_time" where
  "beat_next env rule after =
     (if \<not> validScheduleInstant after then Inl ErrInvalid
      else try_then
        (if sr_Kind rule = ''cron'' \<or> sr_Kind rule = ''interval'' then rule_Next (be_zones env) rule after
         else case be_Calendars env (sr_Kind rule) of
                None \<Rightarrow> Inl ErrUnavailable
              | Some calendar \<Rightarrow> calendar rule after)
        (checkedOccurrence after))"

definition occurrence_id :: "periodic_schedule \<Rightarrow> go_time \<Rightarrow> string" where
  "occurrence_id p due = StableID (ps_ID p) (RFC3339Nano due)"

definition beat_occurrence :: "beat_env \<Rightarrow> periodic_schedule \<Rightarrow> go_time \<Rightarrow> async_error + intent" where
  "beat_occurrence env p due =
     (let i = occurrence_id p due in
      try_then (prepare (be_client env) (WithID i (ps_Signature p))) (\<lambda>e0.
        let e = e0\<lparr>e_CreatedAt := ps_ObservedAt p, e_RootID := i\<rparr> in
        case authorize (be_Authorize env) ''enqueue'' (e_Scope e) i of
          Some err \<Rightarrow> Inl err
        | None \<Rightarrow> Inr (dispatchIntent (ps_ID p) e)))"

text \<open>What a beat commits: the next due instant, the last task, the intents, and the occurrences they are for.\<close>

record beat_plan =
  bp_next :: go_time
  bp_lastID :: string
  bp_intents :: "intent list"
  bp_dues :: "go_time list"

text \<open>The catch-up loop; the number counts the occurrences that the limit still allows.\<close>

primrec beat_loop ::
  "nat \<Rightarrow> beat_env \<Rightarrow> periodic_schedule \<Rightarrow> go_time \<Rightarrow> go_time \<Rightarrow> string \<Rightarrow> async_error + beat_plan" where
  "beat_loop 0 = (\<lambda>env p due t lastID. Inr \<lparr>bp_next = t, bp_lastID = lastID, bp_intents = [], bp_dues = []\<rparr>)"
| "beat_loop (Suc n) = (\<lambda>env p due t lastID.
     if ps_EndAt p \<noteq> 0 \<and> \<not> due < ps_EndAt p
     then Inr \<lparr>bp_next = t, bp_lastID = lastID, bp_intents = [], bp_dues = []\<rparr>
     else try_then (beat_occurrence env p due) (\<lambda>intent.
       if ps_Misfire p \<noteq> ''catchup'' \<or> t > ps_ObservedAt p \<or> n = 0
       then Inr \<lparr>bp_next = t, bp_lastID = occurrence_id p due, bp_intents = [intent], bp_dues = [due]\<rparr>
       else try_then (beat_next env (ps_Rule p) t) (\<lambda>t'.
         try_then (beat_loop n env p t t' (occurrence_id p due)) (\<lambda>bp.
           Inr (bp\<lparr>bp_intents := intent # bp_intents bp, bp_dues := due # bp_dues bp\<rparr>)))))"

definition beat_overlap :: "beat_env \<Rightarrow> periodic_schedule \<Rightarrow> async_error + bool" where
  "beat_overlap env p =
     (if ps_Overlap p = ''skip'' \<and> ps_LastTaskID p \<noteq> []
      then try_then (be_Lookup env (ps_LastTaskID p)) (\<lambda>record. Inr (\<not> Terminal (r_State record)))
      else Inr False)"

definition beat_schedule :: "beat_env \<Rightarrow> periodic_schedule \<Rightarrow> async_error + beat_plan" where
  "beat_schedule env p =
     (case periodic_Validate (be_zones env) p of
        Some e \<Rightarrow> Inl e
      | None \<Rightarrow>
          if \<not> validScheduleInstant (ps_ObservedAt p) \<or> \<not> validScheduleInstant (ps_NextDue p) then Inl ErrInvalid
          else
            let after_now = beat_next env (ps_Rule p) (ps_ObservedAt p) in
            try_then (beat_next env (ps_Rule p) (ps_NextDue p)) (\<lambda>t0.
            try_then (if sr_FixedDelay (ps_Rule p) then after_now else Inr t0) (\<lambda>t1.
            try_then (beat_overlap env p) (\<lambda>overlapping.
              let misfired = ps_Misfire p = ''skip'' \<and> \<not> t1 > ps_ObservedAt p in
              try_then (if misfired then after_now else Inr t1) (\<lambda>t2.
              try_then (if ps_Misfire p = ''coalesce'' \<and> \<not> t2 > ps_ObservedAt p then after_now else Inr t2) (\<lambda>t3.
                if overlapping \<or> misfired
                then Inr \<lparr>bp_next = t3, bp_lastID = ps_LastTaskID p, bp_intents = [], bp_dues = []\<rparr>
                else beat_loop (nat (ps_CatchUpLimit p)) env p (ps_NextDue p) t3 (ps_LastTaskID p)))))))"

subsection \<open>The occurrences of a plan\<close>

lemma beat_next_after: "beat_next env rule after = Inr t \<Longrightarrow> after < t \<and> validScheduleInstant t"
  by (auto simp: beat_next_def checkedOccurrence_def split: if_splits)

lemma prepare_given_id:
  assumes "prepare cfg (WithID i s) = Inr e" "i \<noteq> []"
  shows "e_ID e = i"
  using assms(1)
proof (cases rule: prepare_spec)
  case (1 d s')
  have "o_ID (s_Options s') = i" using 1(6) by (simp add: WithID_def)
  then show ?thesis using 1(4) assms(2)
    by (auto simp: prepare_checked_def Let_def split: if_splits option.splits)
qed

lemma beat_occurrence_intent:
  assumes "beat_occurrence env p due = Inr i"
  shows "i_SourceID i = ps_ID p" "i_ID i = StableID (ps_ID p) (''dispatch-'' @ occurrence_id p due)"
    "\<exists>e. i_Kind i = ''publish'' \<and> i_Envelope i = Some e \<and> e_ID e = occurrence_id p due \<and> e_RootID e = occurrence_id p due
       \<and> e_CreatedAt e = ps_ObservedAt p"
proof -
  obtain e where "prepare (be_client env) (WithID (occurrence_id p due) (ps_Signature p)) = Inr e"
      "i = dispatchIntent (ps_ID p) (e\<lparr>e_CreatedAt := ps_ObservedAt p, e_RootID := occurrence_id p due\<rparr>)"
    using assms by (auto simp: beat_occurrence_def Let_def split: option.splits)
  moreover then have "e_ID e = occurrence_id p due" by (auto simp: occurrence_id_def StableID_nonempty intro: prepare_given_id)
  ultimately show "i_SourceID i = ps_ID p" "i_ID i = StableID (ps_ID p) (''dispatch-'' @ occurrence_id p due)"
    "\<exists>e. i_Kind i = ''publish'' \<and> i_Envelope i = Some e \<and> e_ID e = occurrence_id p due \<and> e_RootID e = occurrence_id p due
       \<and> e_CreatedAt e = ps_ObservedAt p"
    by (simp_all add: dispatchIntent_def)
qed

text \<open>The intents are those of the occurrences, in order.\<close>

definition planned :: "periodic_schedule \<Rightarrow> beat_plan \<Rightarrow> bool" where
  "planned p bp \<longleftrightarrow>
     map i_ID (bp_intents bp) = map (\<lambda>due. StableID (ps_ID p) (''dispatch-'' @ occurrence_id p due)) (bp_dues bp)
     \<and> (\<forall>i \<in> set (bp_intents bp). i_SourceID i = ps_ID p)"

text \<open>From \<open>due\<close> on, at most \<open>n\<close> occurrences, increasing, before the end and before the next one.\<close>

definition occurrences :: "periodic_schedule \<Rightarrow> nat \<Rightarrow> go_time \<Rightarrow> string \<Rightarrow> beat_plan \<Rightarrow> bool" where
  "occurrences p n due lastID bp \<longleftrightarrow>
     planned p bp \<and> length (bp_dues bp) \<le> n \<and> sorted_wrt (<) (bp_dues bp)
     \<and> (\<forall>d \<in> set (bp_dues bp). due \<le> d \<and> d < bp_next bp \<and> (ps_EndAt p \<noteq> 0 \<longrightarrow> d < ps_EndAt p))
     \<and> (bp_dues bp = [] \<or> hd (bp_dues bp) = due)
     \<and> bp_lastID bp = (if bp_dues bp = [] then lastID else occurrence_id p (last (bp_dues bp)))
     \<and> (length (bp_dues bp) > 1 \<longrightarrow> ps_Misfire p = ''catchup'' \<and> last (bp_dues bp) \<le> ps_ObservedAt p)"

lemma beat_loop_plan:
  assumes "beat_loop n env p due t lastID = Inr bp" "due < t"
  shows "occurrences p n due lastID bp \<and> due < bp_next bp"
  using assms
proof (induction n arbitrary: due t lastID bp)
  case 0
  then show ?case by (auto simp: planned_def occurrences_def)
next
  case (Suc n)
  show ?case
  proof (cases "ps_EndAt p \<noteq> 0 \<and> \<not> due < ps_EndAt p")
    case True
    then show ?thesis using Suc.prems by (auto simp: planned_def occurrences_def)
  next
    case False
    obtain i where i: "beat_occurrence env p due = Inr i" using Suc.prems(1) False by auto
    show ?thesis
    proof (cases "ps_Misfire p \<noteq> ''catchup'' \<or> t > ps_ObservedAt p \<or> n = 0")
      case True
      then show ?thesis using Suc.prems False i beat_occurrence_intent[OF i] by (auto simp: planned_def occurrences_def)
    next
      case go: False
      obtain t' bp' where t': "beat_next env (ps_Rule p) t = Inr t'" "beat_loop n env p t t' (occurrence_id p due) = Inr bp'"
          "bp = bp'\<lparr>bp_intents := i # bp_intents bp', bp_dues := due # bp_dues bp'\<rparr>"
        using Suc.prems(1) False go i by auto
      have "t < t'" using beat_next_after[OF t'(1)] by simp
      from Suc.IH[OF t'(2) this] show ?thesis
        using t'(3) Suc.prems(2) False go beat_occurrence_intent[OF i]
        by (cases "bp_dues bp'") (auto simp: planned_def occurrences_def)
    qed
  qed
qed

lemma beat_loop_single:
  "beat_loop n env p due t lastID = Inr bp \<Longrightarrow> ps_ObservedAt p < t \<Longrightarrow> bp_next bp = t"
  by (cases n) (auto split: if_splits)

lemma beat_schedule_cases:
  assumes "beat_schedule env p = Inr bp"
  obtains t where "ps_NextDue p < t \<or> ps_ObservedAt p < t" "periodic_Validate (be_zones env) p = None"
    "bp = \<lparr>bp_next = t, bp_lastID = ps_LastTaskID p, bp_intents = [], bp_dues = []\<rparr>
     \<or> beat_loop (nat (ps_CatchUpLimit p)) env p (ps_NextDue p) t (ps_LastTaskID p) = Inr bp"
proof -
  let ?after = "beat_next env (ps_Rule p) (ps_ObservedAt p)"
  let ?m = "\<lambda>t1. ps_Misfire p = ''skip'' \<and> \<not> t1 > ps_ObservedAt p"
  have v: "periodic_Validate (be_zones env) p = None" using assms by (auto simp: beat_schedule_def split: option.splits)
  have i: "\<not> (\<not> validScheduleInstant (ps_ObservedAt p) \<or> \<not> validScheduleInstant (ps_NextDue p))"
    using assms v by (auto simp: beat_schedule_def split: if_splits)
  obtain t0 t1 t2 t3 skipped where t: "beat_next env (ps_Rule p) (ps_NextDue p) = Inr t0"
      "(if sr_FixedDelay (ps_Rule p) then ?after else Inr t0) = Inr t1" "(if ?m t1 then ?after else Inr t1) = Inr t2"
      "(if ps_Misfire p = ''coalesce'' \<and> \<not> t2 > ps_ObservedAt p then ?after else Inr t2) = Inr t3"
      "(if skipped then Inr \<lparr>bp_next = t3, bp_lastID = ps_LastTaskID p, bp_intents = [], bp_dues = []\<rparr>
        else beat_loop (nat (ps_CatchUpLimit p)) env p (ps_NextDue p) t3 (ps_LastTaskID p)) = Inr bp"
    using assms unfolding beat_schedule_def v option.case Let_def if_not_P[OF i] try_then_Inr by blast
  have "?after = Inr u \<Longrightarrow> ps_ObservedAt p < u" for u using beat_next_after by blast
  then have "ps_NextDue p < t3 \<or> ps_ObservedAt p < t3"
    using t(2-4) beat_next_after[OF t(1)] by (auto split: if_splits)
  moreover have "bp = \<lparr>bp_next = t3, bp_lastID = ps_LastTaskID p, bp_intents = [], bp_dues = []\<rparr>
     \<or> beat_loop (nat (ps_CatchUpLimit p)) env p (ps_NextDue p) t3 (ps_LastTaskID p) = Inr bp"
    using t(5) by (cases skipped) simp_all
  ultimately show thesis using that v by blast
qed

lemma beat_schedule_occurrences:
  assumes "beat_schedule env p = Inr bp" "ps_NextDue p < bp_next bp"
  shows "occurrences p (nat (ps_CatchUpLimit p)) (ps_NextDue p) (ps_LastTaskID p) bp \<and> nat (ps_CatchUpLimit p) \<le> 1000"
proof -
  obtain t where t: "ps_NextDue p < t \<or> ps_ObservedAt p < t" "periodic_Validate (be_zones env) p = None"
    "bp = \<lparr>bp_next = t, bp_lastID = ps_LastTaskID p, bp_intents = [], bp_dues = []\<rparr>
     \<or> beat_loop (nat (ps_CatchUpLimit p)) env p (ps_NextDue p) t (ps_LastTaskID p) = Inr bp"
    using beat_schedule_cases[OF assms(1)] .
  have limit: "nat (ps_CatchUpLimit p) \<le> 1000" using t(2) by (auto simp: periodic_Validate_def split: if_splits)
  show ?thesis
  proof (cases "bp = \<lparr>bp_next = t, bp_lastID = ps_LastTaskID p, bp_intents = [], bp_dues = []\<rparr>")
    case True
    then show ?thesis using limit by (simp add: occurrences_def planned_def)
  next
    case False
    then have loop: "beat_loop (nat (ps_CatchUpLimit p)) env p (ps_NextDue p) t (ps_LastTaskID p) = Inr bp" using t(3) by blast
    have "ps_NextDue p < t" using t(1) beat_loop_single[OF loop] assms(2) by auto
    then show ?thesis using beat_loop_plan[OF loop] limit by blast
  qed
qed

subsection \<open>Exactly the occurrences that are due\<close>

definition ended :: "periodic_schedule \<Rightarrow> go_time \<Rightarrow> bool" where
  "ended p d \<longleftrightarrow> ps_EndAt p \<noteq> 0 \<and> ps_EndAt p \<le> d"

text \<open>The instant that follows the due one: by the rule after it, or after now for a fixed delay.\<close>

definition follow_up :: "beat_env \<Rightarrow> periodic_schedule \<Rightarrow> async_error + go_time" where
  "follow_up env p = beat_next env (ps_Rule p) (if sr_FixedDelay (ps_Rule p) then ps_ObservedAt p else ps_NextDue p)"

text \<open>The last task of a schedule without overlap has not ended.\<close>

definition busy :: "beat_env \<Rightarrow> periodic_schedule \<Rightarrow> bool" where
  "busy env p \<longleftrightarrow> ps_Overlap p = ''skip'' \<and> ps_LastTaskID p \<noteq> []
     \<and> (\<exists>record. be_Lookup env (ps_LastTaskID p) = Inr record \<and> \<not> Terminal (r_State record))"

text \<open>One publication for each occurrence, in order, named after the schedule and the instant.\<close>

definition one_each :: "periodic_schedule \<Rightarrow> go_time list \<Rightarrow> intent list \<Rightarrow> bool" where
  "one_each p dues is \<longleftrightarrow>
     list_all2 (\<lambda>d i. i_ID i = StableID (ps_ID p) (''dispatch-'' @ StableID (ps_ID p) (RFC3339Nano d)) \<and> i_SourceID i = ps_ID p
       \<and> i_Kind i = ''publish''
       \<and> (\<exists>e. i_Envelope i = Some e \<and> e_ID e = StableID (ps_ID p) (RFC3339Nano d) \<and> e_RootID e = e_ID e
             \<and> e_CreatedAt e = ps_ObservedAt p)) dues is"

text \<open>
  Catching up from \<open>due\<close>: each occurrence is the one the rule gives after the one before, and they stop only at
  the limit, when the next one lies in the future, or when it lies behind the end, which the schedule then
  passes.
\<close>

definition caught_up :: "beat_env \<Rightarrow> periodic_schedule \<Rightarrow> nat \<Rightarrow> go_time \<Rightarrow> go_time list \<Rightarrow> go_time \<Rightarrow> bool" where
  "caught_up env p n due dues t \<longleftrightarrow>
     dues \<noteq> [] \<and> hd dues = due \<and> length dues \<le> n \<and> (\<forall>d \<in> set dues. \<not> ended p d)
     \<and> (\<forall>k. Suc k < length dues \<longrightarrow> beat_next env (ps_Rule p) (dues ! k) = Inr (dues ! Suc k) \<and> dues ! Suc k \<le> ps_ObservedAt p)
     \<and> (\<exists>u. beat_next env (ps_Rule p) (last dues) = Inr u
          \<and> (if u \<le> ps_ObservedAt p \<and> length dues < n then ended p u \<and> beat_next env (ps_Rule p) u = Inr t else t = u))"

lemma one_each_Cons:
  assumes "beat_occurrence env p due = Inr i" "one_each p dues is"
  shows "one_each p (due # dues) (i # is)"
  using beat_occurrence_intent[OF assms(1)] assms(2) by (auto simp: one_each_def occurrence_id_def)

lemma beat_loop_skips:
  "beat_loop (Suc n) env p due t lastID = Inr bp \<Longrightarrow> ended p due
   \<Longrightarrow> bp = \<lparr>bp_next = t, bp_lastID = lastID, bp_intents = [], bp_dues = []\<rparr>"
  by (auto simp: ended_def not_less)

lemma beat_loop_once:
  assumes "beat_loop (Suc n) env p due t lastID = Inr bp" "\<not> ended p due" "ps_Misfire p \<noteq> ''catchup'' \<or> ps_ObservedAt p < t \<or> n = 0"
  shows "bp_next bp = t \<and> bp_dues bp = [due] \<and> bp_lastID bp = occurrence_id p due \<and> one_each p (bp_dues bp) (bp_intents bp)"
  using assms one_each_Cons[of env p due _ "[]" "[]"] by (auto simp: ended_def one_each_def split: if_splits)

lemma caught_up_Cons:
  assumes "caught_up env p n t dues u" "beat_next env (ps_Rule p) due = Inr t" "\<not> ended p due" "t \<le> ps_ObservedAt p"
  shows "caught_up env p (Suc n) due (due # dues) u"
proof -
  have "dues \<noteq> []" "dues ! 0 = t" using assms(1) by (auto simp: caught_up_def hd_conv_nth)
  then have "beat_next env (ps_Rule p) ((due # dues) ! k) = Inr ((due # dues) ! Suc k) \<and> (due # dues) ! Suc k \<le> ps_ObservedAt p"
    if "Suc k < length (due # dues)" for k
    using that assms by (cases k) (auto simp: caught_up_def)
  then show ?thesis using assms(1,3) by (auto simp: caught_up_def)
qed

lemma beat_loop_catches_up:
  assumes "beat_loop (Suc n) env p due t lastID = Inr bp" "\<not> ended p due" "ps_Misfire p = ''catchup''"
    "beat_next env (ps_Rule p) due = Inr t"
  shows "caught_up env p (Suc n) due (bp_dues bp) (bp_next bp) \<and> bp_lastID bp = occurrence_id p (last (bp_dues bp))
    \<and> one_each p (bp_dues bp) (bp_intents bp)"
  using assms
proof (induction n arbitrary: due t lastID bp)
  case 0
  then show ?case using beat_loop_once[OF 0(1,2)] by (auto simp: caught_up_def)
next
  case (Suc n)
  show ?case
  proof (cases "ps_ObservedAt p < t")
    case True
    then show ?thesis using beat_loop_once[OF Suc.prems(1,2)] Suc.prems(2,4) by (auto simp: caught_up_def)
  next
    case False
    obtain i t' bp' where t': "beat_occurrence env p due = Inr i" "beat_next env (ps_Rule p) t = Inr t'"
        "beat_loop (Suc n) env p t t' (occurrence_id p due) = Inr bp'"
        "bp = bp'\<lparr>bp_intents := i # bp_intents bp', bp_dues := due # bp_dues bp'\<rparr>"
      using Suc.prems(1-3) False by (subst (asm) beat_loop.simps(2)) (auto simp: ended_def simp del: beat_loop.simps(2) split: if_splits)
    show ?thesis
    proof (cases "ended p t")
      case True
      then have "bp' = \<lparr>bp_next = t', bp_lastID = occurrence_id p due, bp_intents = [], bp_dues = []\<rparr>"
        using beat_loop_skips[OF t'(3)] by blast
      then show ?thesis using t'(2,4) True False Suc.prems(2,4) one_each_Cons[OF t'(1), of "[]" "[]"]
        by (auto simp: caught_up_def one_each_def)
    next
      case more: False
      note rest = Suc.IH[OF t'(3) more Suc.prems(3) t'(2)]
      moreover have "bp_dues bp' \<noteq> []" using rest by (auto simp: caught_up_def)
      ultimately show ?thesis
        using t'(4) False caught_up_Cons[OF _ Suc.prems(4,2)] one_each_Cons[OF t'(1)] by simp
    qed
  qed
qed

text \<open>What a beat commits, by the misfire policy of the schedule and by whether the next occurrence is late.\<close>

lemma beat_schedule_exact:
  assumes "beat_schedule env p = Inr bp"
  shows "\<exists>t. follow_up env p = Inr t \<and> one_each p (bp_dues bp) (bp_intents bp)
    \<and> bp_lastID bp = (if bp_dues bp = [] then ps_LastTaskID p else occurrence_id p (last (bp_dues bp)))
    \<and> (if ps_Misfire p = ''catchup'' \<and> t \<le> ps_ObservedAt p \<and> \<not> busy env p \<and> \<not> ended p (ps_NextDue p)
       then caught_up env p (nat (ps_CatchUpLimit p)) (ps_NextDue p) (bp_dues bp) (bp_next bp)
       else bp_dues bp = (if busy env p \<or> ended p (ps_NextDue p) \<or> ps_Misfire p = ''skip'' \<and> t \<le> ps_ObservedAt p
                          then [] else [ps_NextDue p])
         \<and> (if t \<le> ps_ObservedAt p \<and> ps_Misfire p \<noteq> ''catchup''
            then beat_next env (ps_Rule p) (ps_ObservedAt p) = Inr (bp_next bp) else bp_next bp = t))"
proof -
  let ?after = "beat_next env (ps_Rule p) (ps_ObservedAt p)"
  let ?m = "\<lambda>t1. ps_Misfire p = ''skip'' \<and> \<not> t1 > ps_ObservedAt p"
  have v: "periodic_Validate (be_zones env) p = None" using assms by (auto simp: beat_schedule_def split: option.splits)
  then have policy: "ps_Misfire p \<in> {''skip'', ''coalesce'', ''catchup''}" "\<exists>n. nat (ps_CatchUpLimit p) = Suc n"
    by (auto simp: periodic_Validate_def gr0_conv_Suc[symmetric] split: if_splits)
  then obtain n where n: "nat (ps_CatchUpLimit p) = Suc n" by blast
  have i: "\<not> (\<not> validScheduleInstant (ps_ObservedAt p) \<or> \<not> validScheduleInstant (ps_NextDue p))"
    using assms v by (auto simp: beat_schedule_def split: if_splits)
  obtain t0 t1 t2 t3 over where t: "beat_next env (ps_Rule p) (ps_NextDue p) = Inr t0"
      "(if sr_FixedDelay (ps_Rule p) then ?after else Inr t0) = Inr t1" "beat_overlap env p = Inr over"
      "(if ?m t1 then ?after else Inr t1) = Inr t2"
      "(if ps_Misfire p = ''coalesce'' \<and> \<not> t2 > ps_ObservedAt p then ?after else Inr t2) = Inr t3"
      "(if over \<or> ?m t1 then Inr \<lparr>bp_next = t3, bp_lastID = ps_LastTaskID p, bp_intents = [], bp_dues = []\<rparr>
        else beat_loop (Suc n) env p (ps_NextDue p) t3 (ps_LastTaskID p)) = Inr bp"
    using assms unfolding beat_schedule_def v option.case Let_def if_not_P[OF i] try_then_Inr n by blast
  have over: "over = busy env p" using t(3) by (auto simp: beat_overlap_def busy_def split: if_splits)
  have follow: "follow_up env p = Inr t1" using t(1,2) by (simp add: follow_up_def split: if_splits)
  have t3: "if t1 \<le> ps_ObservedAt p \<and> ps_Misfire p \<noteq> ''catchup'' then ?after = Inr t3 else t3 = t1"
    using t(4,5) policy(1) by (auto split: if_splits dest: beat_next_after)
  show ?thesis
  proof (cases "over \<or> ?m t1 \<or> ended p (ps_NextDue p)")
    case True
    then have "bp = \<lparr>bp_next = t3, bp_lastID = ps_LastTaskID p, bp_intents = [], bp_dues = []\<rparr>"
      using t(6) beat_loop_skips[of n env p "ps_NextDue p" t3] by (auto simp del: beat_loop.simps split: if_splits)
    then show ?thesis using True follow t3 by (auto simp: over one_each_def not_less)
  next
    case False
    then have loop: "beat_loop (Suc n) env p (ps_NextDue p) t3 (ps_LastTaskID p) = Inr bp" "\<not> ended p (ps_NextDue p)"
      using t(6) by (auto simp del: beat_loop.simps)
    show ?thesis
    proof (cases "ps_Misfire p = ''catchup'' \<and> t1 \<le> ps_ObservedAt p")
      case True
      then have "t1 = t0" using t(1,2) beat_next_after[of env "ps_Rule p" "ps_ObservedAt p" t1] by (auto split: if_splits)
      then have "beat_next env (ps_Rule p) (ps_NextDue p) = Inr t3" using t(1) t3 True by simp
      from beat_loop_catches_up[OF loop _ this] show ?thesis
        using True False follow by (intro exI[of _ t1]) (simp add: over n caught_up_def)
    next
      case once: False
      then have "ps_Misfire p \<noteq> ''catchup'' \<or> ps_ObservedAt p < t3 \<or> n = 0" using t3 by (auto split: if_splits)
      then have bp: "bp_next bp = t3" "bp_dues bp = [ps_NextDue p]" "bp_lastID bp = occurrence_id p (ps_NextDue p)"
          "one_each p (bp_dues bp) (bp_intents bp)"
        using beat_loop_once[OF loop] by blast+
      have "\<not> (busy env p \<or> ended p (ps_NextDue p) \<or> ps_Misfire p = ''skip'' \<and> t1 \<le> ps_ObservedAt p)"
        using False by (auto simp: over)
      moreover have "\<not> (ps_Misfire p = ''catchup'' \<and> t1 \<le> ps_ObservedAt p \<and> \<not> busy env p \<and> \<not> ended p (ps_NextDue p))"
        using once by blast
      moreover have "if t1 \<le> ps_ObservedAt p \<and> ps_Misfire p \<noteq> ''catchup'' then ?after = Inr (bp_next bp) else bp_next bp = t1"
        using t3 unfolding bp(1) .
      ultimately show ?thesis
        using follow bp(2-4) by (intro exI[of _ t1]) (simp only: if_False list.distinct last.simps if_True simp_thms)
    qed
  qed
qed

subsection \<open>Mail every minute\<close>

definition minute_signature :: signature where
  "minute_signature = Signature ''mail'' 1 ''{}'' plain_options False [] [] []"

definition minute_env :: beat_env where
  "minute_env =
     \<lparr>be_zones = utc_only, be_Calendars = (\<lambda>_. None), be_client = mail_client, be_Authorize = None,
      be_Lookup = (\<lambda>_. Inl ErrNotFound)\<rparr>"

definition minute_schedule :: periodic_schedule where
  "minute_schedule =
     \<lparr>ps_ID = StableID ''beat'' ''mail'', ps_Signature = minute_signature, ps_Rule = Every minute, ps_Enabled = True,
      ps_NextDue = morning, ps_EndAt = 0, ps_Misfire = ''coalesce'', ps_CatchUpLimit = 1, ps_Overlap = ''allow'',
      ps_LastTaskID = [], ps_Revision = 1, ps_Fence = 0, ps_Owner = [], ps_LeaseUntil = 0, ps_ObservedAt = 0\<rparr>"

lemma stable_id_valid: "idPattern (StableID a b)"
  by (simp add: StableID_def formatID_idPattern)

lemma minute_prepared:
  assumes "idPattern i"
  shows "\<exists>e. prepare mail_client (WithID i minute_signature) = Inr e \<and> e_Scope e = []"
proof -
  let ?s = "WithID i minute_signature"
  have parts: "?s = Signature ''mail'' 1 ''{}'' (plain_options\<lparr>o_ID := i\<rparr>) False [] [] []"
    by (simp add: WithID_def minute_signature_def)
  have ne: "i \<noteq> []" using assms by (auto simp: idPattern_def)
  have look: "lookup (cc_registry mail_client) ''mail'' 1 = Inr mail_task"
    by (simp add: lookup_def mail_client_def mail_task_def)
  have norm: "normalizeLinkOptions mail_client scope (Suc n) ?s = Inr ?s" for scope n
    unfolding parts by (rule normalizeLinkOptions_leaf[OF mail_plain])
  have "validateLinks (cc_registry mail_client) (Suc n) ?s = None" for n
    unfolding parts by (rule validateLinks_leaf[OF look])
  note links = norm[of _ 16] this[of 16]
  define e where "e = prepared_envelope mail_client mail_task ?s i ''default'' 0"
  have "envelope_Validate plain_codec e = None"
    using assms ne
    by (simp add: e_def parts envelope_Validate_def prepared_envelope_def Let_def plain_options_def mail_client_def
        mail_task_def plain_codec_def MaxReplacementDepth_def ProtocolVersion_def MaxPayloadBytes_def optional_id_def
        headers_ok_def name_char_def is_alpha_def is_lower_def is_digit_def is_upper_def less_eq_char_def)
  then have "prepare_checked mail_client mail_task ?s = Inr e"
    using ne unfolding parts
    by (simp add: prepare_checked_def Let_def plain_options_sel mail_client_sel route_queue_def e_def parts)
  moreover have "d_validate mail_task ''{}'' = None" by (simp add: mail_task_def)
  ultimately have "prepare mail_client ?s = Inr e"
    using links look unfolding prepare_def by (simp add: parts numeral_eq_Suc)
  moreover have "e_Scope e = []" by (simp add: e_def prepared_envelope_def Let_def parts plain_options_def)
  ultimately show ?thesis by blast
qed

lemma minute_occurrence:
  assumes "ps_Signature p = minute_signature"
  shows "\<exists>i. beat_occurrence minute_env p due = Inr i"
proof -
  obtain e where "prepare mail_client (WithID (occurrence_id p due) minute_signature) = Inr e" "e_Scope e = []"
    using minute_prepared[of "occurrence_id p due"] by (auto simp: occurrence_id_def stable_id_valid)
  then show ?thesis using assms by (simp add: beat_occurrence_def minute_env_def Let_def authorize_def)
qed

lemma minute_instants:
  "validScheduleInstant (morning + second)" "validScheduleInstant (morning + minute)"
  by (simp_all add: validScheduleInstant_def morning_def day_length_value duration_defs year_of_def day_number_def
      year_of_day_def Let_def)

lemma minute_planned:
  assumes "p = minute_schedule\<lparr>ps_ObservedAt := morning + second, ps_Fence := f, ps_Revision := r, ps_Owner := ow,
    ps_LeaseUntil := l\<rparr>"
  shows "\<exists>i. beat_schedule minute_env p = Inr
     \<lparr>bp_next = morning + minute, bp_lastID = occurrence_id p morning, bp_intents = [i], bp_dues = [morning]\<rparr>"
proof -
  obtain i where i: "beat_occurrence minute_env p morning = Inr i"
    using minute_occurrence[of p morning] assms by (auto simp: minute_schedule_def)
  have rule: "rule_Validate utc_only (Every minute) = None"
    by (simp add: rule_Validate_def Every_def utc_only_def duration_defs)
  have late: "morning + second < morning + minute" by (simp add: duration_defs)
  have "beat_next minute_env (Every minute) morning = Inr (morning + minute)"
    using morning_calendar(3) minute_instants(2) rule
    by (simp add: beat_next_def rule_Next_def minute_env_def checkedOccurrence_def)
       (simp add: Every_def checkedOccurrence_def duration_defs)
  then show ?thesis
    using i assms rule late morning_calendar(3) minute_instants(1)
    by (simp add: beat_schedule_def periodic_Validate_def minute_schedule_def minute_env_def stable_id_valid beat_overlap_def
        Let_def validScheduleInstant_def Every_def)
qed

subsection \<open>The property\<close>

text \<open>
  C29. What a beat that succeeds commits for a leased schedule, exactly. Nothing is enqueued when the last task
  of a schedule without overlap is still running, when the due instant is past the end, or when the policy is to
  skip misfires and the instant that follows is already past; otherwise the due instant is enqueued. Only a
  schedule that catches up enqueues more: the instants the rule gives one after the other, until the limit, the
  present or the end is reached. Each occurrence is one publication named after the schedule and its instant; the
  last one is remembered; and the schedule is due again at the instant the rule gives after the last occurrence,
  or after now where the policy is to skip or coalesce what was missed.
\<close>

theorem beat_occurrences:
  assumes "beat_schedule env p = Inr bp"
  shows "\<exists>t. follow_up env p = Inr t \<and> one_each p (bp_dues bp) (bp_intents bp)
    \<and> bp_lastID bp = (if bp_dues bp = [] then ps_LastTaskID p else occurrence_id p (last (bp_dues bp)))
    \<and> (if ps_Misfire p = ''catchup'' \<and> t \<le> ps_ObservedAt p \<and> \<not> busy env p \<and> \<not> ended p (ps_NextDue p)
       then caught_up env p (nat (ps_CatchUpLimit p)) (ps_NextDue p) (bp_dues bp) (bp_next bp)
       else bp_dues bp = (if busy env p \<or> ended p (ps_NextDue p) \<or> ps_Misfire p = ''skip'' \<and> t \<le> ps_ObservedAt p
                          then [] else [ps_NextDue p])
         \<and> (if t \<le> ps_ObservedAt p \<and> ps_Misfire p \<noteq> ''catchup''
            then beat_next env (ps_Rule p) (ps_ObservedAt p) = Inr (bp_next bp) else bp_next bp = t))"
  using beat_schedule_exact[OF assms] .

theorem beat_occurrences_witness:
  "\<exists>bp. beat_schedule minute_env (minute_schedule\<lparr>ps_ObservedAt := morning + second\<rparr>) = Inr bp \<and> bp_dues bp = [morning]
     \<and> bp_next bp = morning + minute \<and> (\<exists>i. bp_intents bp = [i])
     \<and> one_each (minute_schedule\<lparr>ps_ObservedAt := morning + second\<rparr>) [morning] (bp_intents bp)"
proof -
  let ?p = "minute_schedule\<lparr>ps_ObservedAt := morning + second\<rparr>"
  obtain i where i: "beat_schedule minute_env ?p = Inr
      \<lparr>bp_next = morning + minute, bp_lastID = occurrence_id ?p morning, bp_intents = [i], bp_dues = [morning]\<rparr>"
    using minute_planned[where p = ?p and f = 0 and r = 1 and ow = "[]" and l = 0] by (auto simp: minute_schedule_def)
  then show ?thesis
    using beat_occurrences[OF i] by auto
qed

end
