(* ===== verification/Async_Schedules.thy ===== *)
theory Async_Schedules
  imports Async_Beat "HOL-Library.Product_Lexorder"
begin

text \<open>
  The schedule store (\<open>src/async/redis/periodic.go\<close>, \<open>schedules.go\<close>, \<open>schedule_metadata.go\<close> and the schedule
  part of \<open>codec.go\<close>): periodic schedules and delayed tasks, each a document in a hash with an entry in a sorted
  set of due times. A Lua script is one function on the store. A document is kept with its decoded payload, and
  its decimal counters are words. The sorted sets of the 64 partitions are one list, in the order of Redis, of
  which a script sees the entries of its partition.

  \<open>marshal\<close> is the JSON encoding of a schedule, which can fail.
\<close>

subsection \<open>Documents and sorted sets\<close>

record schedule_doc =
  sd_Payload :: periodic_schedule
  sd_Revision :: "64 word"
  sd_Fence :: "64 word"
  sd_Owner :: string
  sd_LeaseMillis :: int
  sd_ObservedMillis :: int
  sd_Enabled :: bool

record delayed_doc =
  dd_Payload :: envelope
  dd_Digest :: string
  dd_Fence :: "64 word"
  dd_Owner :: string
  dd_LeaseMillis :: int

type_synonym zset = "(int \<times> string) list"

record schedules = outbox +
  sc_items :: "string \<Rightarrow> schedule_doc option"
  sc_due :: zset
  sc_inventory :: "string \<Rightarrow> bool"
  sc_delayed :: "string \<Rightarrow> delayed_doc option"
  sc_delayed_due :: zset

definition zrem :: "string \<Rightarrow> zset \<Rightarrow> zset" where
  "zrem i z = filter (\<lambda>p. snd p \<noteq> i) z"

definition zadd :: "int \<Rightarrow> string \<Rightarrow> zset \<Rightarrow> zset" where
  "zadd score i z = insort (score, i) (zrem i z)"

definition Partition :: "string \<Rightarrow> nat" where
  "Partition i = of_char (hd (sha256 i)) mod 64"

text \<open>\<open>ZRANGEBYSCORE -inf now LIMIT 0 limit\<close> in one partition.\<close>

definition zdue :: "int \<Rightarrow> nat \<Rightarrow> nat \<Rightarrow> zset \<Rightarrow> string list" where
  "zdue now part limit z = take limit (map snd (filter (\<lambda>p. fst p \<le> now \<and> Partition (snd p) = part) z))"

definition scheduleMillis :: "int \<Rightarrow> async_error + int" where
  "scheduleMillis n = (if \<bar>n\<bar> > max_lua_integer then Inl (ErrBackend ''invalid schedule milliseconds'') else Inr n)"

definition increment :: "64 word \<Rightarrow> async_error + 64 word" where
  "increment w = (if w = max_uint64 then Inl (ErrBackend ''GOGO_COUNTER_EXHAUSTED'') else Inr (w + 1))"

definition marshalPeriodic :: "(periodic_schedule \<Rightarrow> string option) \<Rightarrow> periodic_schedule \<Rightarrow> async_error + schedule_doc" where
  "marshalPeriodic marshal p =
     (case marshal p of
        None \<Rightarrow> Inl (ErrBackend ''json'')
      | Some _ \<Rightarrow>
          Inr \<lparr>sd_Payload = p, sd_Revision = ps_Revision p, sd_Fence = ps_Fence p, sd_Owner = ps_Owner p,
               sd_LeaseMillis = 0, sd_ObservedMillis = 0, sd_Enabled = ps_Enabled p\<rparr>)"

definition millis_time :: "int \<Rightarrow> go_time" where
  "millis_time n = (if n > 0 then FromUnixMilli n else 0)"

definition unmarshalPeriodic :: "schedule_doc \<Rightarrow> periodic_schedule" where
  "unmarshalPeriodic d =
     (sd_Payload d)\<lparr>ps_Revision := sd_Revision d, ps_Fence := sd_Fence d, ps_Owner := sd_Owner d,
        ps_Enabled := sd_Enabled d, ps_LeaseUntil := millis_time (sd_LeaseMillis d),
        ps_ObservedAt := millis_time (sd_ObservedMillis d)\<rparr>"

subsection \<open>Periodic schedules\<close>

definition set_due :: "bool \<Rightarrow> int \<Rightarrow> string \<Rightarrow> schedules \<Rightarrow> schedules" where
  "set_due enabled due i st = st\<lparr>sc_due := (if enabled then zadd due i (sc_due st) else zrem i (sc_due st))\<rparr>"

definition periodicUpsert :: "schedules \<Rightarrow> string \<Rightarrow> 64 word \<Rightarrow> schedule_doc \<Rightarrow> int \<Rightarrow> bool \<Rightarrow> async_error + schedules" where
  "periodicUpsert st i expected doc due enabled =
     (let revision = (case sc_items st i of None \<Rightarrow> 0 | Some old \<Rightarrow> sd_Revision old) in
      if revision \<noteq> expected then Inl ErrConflict
      else try_then (scheduleMillis due) (\<lambda>due.
        Inr (set_due enabled due i (st\<lparr>sc_items := (sc_items st)(i \<mapsto> doc), sc_inventory := (sc_inventory st)(i := True)\<rparr>))))"

definition UpsertSchedule ::
  "zone_db \<Rightarrow> (periodic_schedule \<Rightarrow> string option) \<Rightarrow> periodic_schedule \<Rightarrow> 64 word \<Rightarrow> schedules \<Rightarrow> async_error + schedules" where
  "UpsertSchedule zones marshal p0 expected st =
     (case periodic_Validate zones p0 of
        Some e \<Rightarrow> Inl e
      | None \<Rightarrow>
          if expected = max_uint64 \<or> ps_Revision p0 \<noteq> expected + 1 then Inl ErrInvalid
          else let p = p0\<lparr>ps_Owner := [], ps_LeaseUntil := 0\<rparr> in
            (case marshal p of
               None \<Rightarrow> Inl ErrInvalid
             | Some payload \<Rightarrow>
                 if length payload > MaxPayloadBytes then Inl ErrInvalid
                 else try_then (marshalPeriodic marshal p) (\<lambda>doc.
                   periodicUpsert st (ps_ID p) expected doc (UnixMilli (ps_NextDue p)) (ps_Enabled p))))"

definition Disable ::
  "zone_db \<Rightarrow> (periodic_schedule \<Rightarrow> string option) \<Rightarrow> string \<Rightarrow> 64 word \<Rightarrow> schedules \<Rightarrow> async_error + schedules" where
  "Disable zones marshal i expected st =
     (if \<not> validIntentIDs i i then Inl ErrInvalid
      else case sc_items st i of
        None \<Rightarrow> Inl (ErrBackend ''redis: nil'')
      | Some d \<Rightarrow>
          let p = unmarshalPeriodic d in
          if ps_Revision p \<noteq> expected then Inl ErrConflict
          else UpsertSchedule zones marshal (p\<lparr>ps_Enabled := False, ps_Revision := ps_Revision p + 1\<rparr>) expected st)"

definition lease_item :: "int \<Rightarrow> string \<Rightarrow> int \<Rightarrow> schedules \<Rightarrow> string \<Rightarrow> async_error + (string \<times> schedule_doc) list" where
  "lease_item now owner until st i =
     (case sc_items st i of
        None \<Rightarrow> Inl (ErrBackend ''GOGO_MISSING_SCHEDULE'')
      | Some d \<Rightarrow>
          if sd_Enabled d \<and> sd_LeaseMillis d \<le> now
          then try_then (increment (sd_Fence d)) (\<lambda>fence. try_then (increment (sd_Revision d)) (\<lambda>revision.
                 Inr [(i, d\<lparr>sd_Owner := owner, sd_Fence := fence, sd_Revision := revision, sd_LeaseMillis := until,
                            sd_ObservedMillis := now\<rparr>)]))
          else Inr [])"

definition put_leased :: "int \<Rightarrow> string \<times> schedule_doc \<Rightarrow> schedules \<Rightarrow> schedules" where
  "put_leased until u st =
     st\<lparr>sc_items := (sc_items st)(fst u \<mapsto> snd u), sc_due := zadd until (fst u) (sc_due st)\<rparr>"

definition periodicLease ::
  "go_time \<Rightarrow> nat \<Rightarrow> string \<Rightarrow> nat \<Rightarrow> int \<Rightarrow> schedules \<Rightarrow> async_error + schedule_doc list \<times> schedules" where
  "periodicLease clock part owner limit lease st =
     (let now = UnixMilli clock in
      try_then (scheduleMillis lease) (\<lambda>lease. try_then (scheduleMillis (now + lease)) (\<lambda>until.
      try_then (traverse (lease_item now owner until st) (zdue now part limit (sc_due st))) (\<lambda>us.
        Inr (map snd (concat us), fold (put_leased until) (concat us) st)))))"

text \<open>
  The partitions are visited from a rotating start until the batch is full; \<open>script\<close> runs on a partition with
  the room that is left, and \<open>decode\<close> reads what it returns.
\<close>

primrec lease_partitions ::
  "nat \<Rightarrow> (nat \<Rightarrow> nat \<Rightarrow> nat \<Rightarrow> schedules \<Rightarrow> async_error + 'd list \<times> schedules) \<Rightarrow> ('d \<Rightarrow> async_error + 'a) \<Rightarrow> nat \<Rightarrow> nat
   \<Rightarrow> 'a list \<Rightarrow> schedules \<Rightarrow> (async_error + 'a list) \<times> schedules" where
  "lease_partitions 0 = (\<lambda>script decode start limit out st. (Inr out, st))"
| "lease_partitions (Suc n) = (\<lambda>script decode start limit out st.
     if \<not> length out < limit then (Inr out, st)
     else let offset = 63 - n in
       case script offset ((start + offset) mod 64) (limit - length out) st of
         Inl e \<Rightarrow> (Inl e, st)
       | Inr (docs, st') \<Rightarrow>
           (case traverse decode docs of
              Inl e \<Rightarrow> (Inl e, st')
            | Inr items \<Rightarrow> lease_partitions n script decode start limit (out @ items) st'))"

definition LeaseSchedules ::
  "(nat \<Rightarrow> go_time) \<Rightarrow> nat \<Rightarrow> string \<Rightarrow> int \<Rightarrow> go_duration \<Rightarrow> schedules
   \<Rightarrow> (async_error + periodic_schedule list) \<times> schedules" where
  "LeaseSchedules clock start owner limit lease st =
     (if owner = [] \<or> limit < 1 \<or> limit > 1000 \<or> lease < millisecond then (Inl ErrInvalid, st)
      else lease_partitions 64 (\<lambda>offset part room. periodicLease (clock offset) part owner room (Milliseconds lease))
             (\<lambda>d. Inr (unmarshalPeriodic d)) start (nat limit) [] st)"

definition periodicCommit ::
  "go_time \<Rightarrow> string \<Rightarrow> 64 word \<Rightarrow> 64 word \<Rightarrow> string \<Rightarrow> schedule_doc \<Rightarrow> int \<Rightarrow> intent list \<Rightarrow> bool \<Rightarrow> schedules
   \<Rightarrow> async_error + schedules" where
  "periodicCommit clock i revision fence owner doc due intents enabled st =
     (let now = UnixMilli clock in
      case sc_items st i of
        None \<Rightarrow> Inl ErrLeaseLost
      | Some old \<Rightarrow>
          if sd_Revision old \<noteq> revision \<or> sd_Fence old \<noteq> fence \<or> sd_Owner old \<noteq> owner \<or> sd_LeaseMillis old \<le> now
          then Inl ErrLeaseLost
          else try_then (scheduleMillis due) (\<lambda>due.
            if \<not> list_all (\<lambda>x. length (i_ID x) = 36 \<and> i_SourceID x = i) intents \<or> \<not> distinct (map i_ID intents)
            then Inl (ErrBackend ''invalid occurrence intent identity'')
            else Inr (stage_intents now intents
                   (set_due enabled due i (st\<lparr>sc_items := (sc_items st)(i \<mapsto> doc),
                                             sc_inventory := (sc_inventory st)(i := True)\<rparr>)))))"

definition CommitOccurrence ::
  "zone_db \<Rightarrow> codec \<Rightarrow> (periodic_schedule \<Rightarrow> string option) \<Rightarrow> go_time \<Rightarrow> periodic_schedule \<Rightarrow> go_time \<Rightarrow> string
   \<Rightarrow> intent list \<Rightarrow> schedules \<Rightarrow> async_error + schedules" where
  "CommitOccurrence zones cdc marshal clock p t lastID intents st =
     (if periodic_Validate zones p \<noteq> None \<or> ps_Owner p = [] \<or> ps_Fence p = 0 \<or> t = 0 \<or> \<not> t > ps_NextDue p
         \<or> ps_Revision p = max_uint64 then Inl ErrInvalid
      else if lastID \<noteq> [] \<and> \<not> validIntentIDs (ps_ID p) lastID then Inl ErrInvalid
      else if \<not> list_all (\<lambda>x. i_SourceID x = ps_ID p \<and> validIntentIDs (ps_ID p) (i_ID x)) intents
              \<or> \<not> distinct (map i_ID intents) then Inl ErrInvalid
      else
        let p' = p\<lparr>ps_NextDue := t, ps_LastTaskID := lastID, ps_Revision := ps_Revision p + 1, ps_Owner := [],
                   ps_LeaseUntil := 0, ps_Enabled := (if ps_EndAt p \<noteq> 0 \<and> \<not> t < ps_EndAt p then False else ps_Enabled p)\<rparr> in
        try_then (marshalPeriodic marshal p') (\<lambda>doc.
          case marshal_Intents cdc intents of
            None \<Rightarrow> Inl (ErrBackend ''json'')
          | Some _ \<Rightarrow>
              periodicCommit clock (ps_ID p) (ps_Revision p) (ps_Fence p) (ps_Owner p) doc (UnixMilli t) intents
                (ps_Enabled p') st))"

subsection \<open>Delayed tasks\<close>

definition delayedID :: "envelope \<Rightarrow> string" where
  "delayedID e = e_ID e @ '':'' @ (if e_Retries e < 0 then ''-'' @ itoa_nat (nat (- e_Retries e)) else itoa_nat (nat (e_Retries e)))"

definition schedulePut :: "string \<Rightarrow> delayed_doc \<Rightarrow> int \<Rightarrow> schedules \<Rightarrow> async_error + schedules" where
  "schedulePut i doc due st =
     (case sc_delayed st i of
        Some old \<Rightarrow> if dd_Digest old \<noteq> dd_Digest doc then Inl ErrConflict else Inr st
      | None \<Rightarrow> try_then (scheduleMillis due) (\<lambda>due.
          Inr (st\<lparr>sc_delayed := (sc_delayed st)(i \<mapsto> doc), sc_delayed_due := zadd due i (sc_delayed_due st)\<rparr>)))"

definition Schedule :: "codec \<Rightarrow> envelope \<Rightarrow> schedules \<Rightarrow> async_error + schedules" where
  "Schedule cdc e st =
     (case envelope_Validate cdc e of
        Some err \<Rightarrow> Inl err
      | None \<Rightarrow>
          if e_ETA e = 0 then Inl ErrInvalid
          else case marshal_Envelope cdc e of
            None \<Rightarrow> Inl (ErrBackend ''json'')
          | Some _ \<Rightarrow>
              schedulePut (delayedID e)
                \<lparr>dd_Payload = e, dd_Digest = DispatchDigest cdc e, dd_Fence = 0, dd_Owner = [], dd_LeaseMillis = 0\<rparr>
                (UnixMilli (e_ETA e)) st)"

definition lease_delayed :: "int \<Rightarrow> string \<Rightarrow> int \<Rightarrow> schedules \<Rightarrow> string \<Rightarrow> async_error + (string \<times> delayed_doc) list" where
  "lease_delayed now owner until st i =
     (case sc_delayed st i of
        None \<Rightarrow> Inl (ErrBackend ''GOGO_MISSING_SCHEDULE'')
      | Some d \<Rightarrow>
          if dd_LeaseMillis d \<le> now
          then try_then (increment (dd_Fence d)) (\<lambda>fence.
                 Inr [(i, d\<lparr>dd_Owner := owner, dd_Fence := fence, dd_LeaseMillis := until\<rparr>)])
          else Inr [])"

definition put_delayed :: "int \<Rightarrow> string \<times> delayed_doc \<Rightarrow> schedules \<Rightarrow> schedules" where
  "put_delayed until u st =
     st\<lparr>sc_delayed := (sc_delayed st)(fst u \<mapsto> snd u), sc_delayed_due := zadd until (fst u) (sc_delayed_due st)\<rparr>"

definition scheduleLease ::
  "go_time \<Rightarrow> nat \<Rightarrow> string \<Rightarrow> nat \<Rightarrow> int \<Rightarrow> schedules \<Rightarrow> async_error + delayed_doc list \<times> schedules" where
  "scheduleLease clock part owner limit lease st =
     (let now = UnixMilli clock in
      try_then (scheduleMillis lease) (\<lambda>lease. try_then (scheduleMillis (now + lease)) (\<lambda>until.
      try_then (traverse (lease_delayed now owner until st) (zdue now part limit (sc_delayed_due st))) (\<lambda>us.
        Inr (map snd (concat us), fold (put_delayed until) (concat us) st)))))"

definition unmarshalDelayed :: "codec \<Rightarrow> delayed_doc \<Rightarrow> async_error + delayed_doc" where
  "unmarshalDelayed cdc d =
     (if dd_Digest d \<noteq> DispatchDigest cdc (dd_Payload d) then Inl ErrUnavailable else Inr d)"

definition LeaseDue ::
  "codec \<Rightarrow> (nat \<Rightarrow> go_time) \<Rightarrow> nat \<Rightarrow> string \<Rightarrow> int \<Rightarrow> go_duration \<Rightarrow> schedules
   \<Rightarrow> (async_error + delayed_doc list) \<times> schedules" where
  "LeaseDue cdc clock start owner limit lease st =
     (if owner = [] \<or> limit < 1 \<or> limit > 1000 \<or> lease < millisecond then (Inl ErrInvalid, st)
      else lease_partitions 64 (\<lambda>offset part room. scheduleLease (clock offset) part owner room (Milliseconds lease))
             (unmarshalDelayed cdc) start (nat limit) [] st)"

definition scheduleCommit :: "go_time \<Rightarrow> string \<Rightarrow> string \<Rightarrow> 64 word \<Rightarrow> schedules \<Rightarrow> async_error + schedules" where
  "scheduleCommit clock i owner fence st =
     (case sc_delayed st i of
        None \<Rightarrow> Inr st
      | Some d \<Rightarrow>
          if dd_Owner d \<noteq> owner \<or> dd_Fence d \<noteq> fence \<or> dd_LeaseMillis d \<le> UnixMilli clock then Inl ErrLeaseLost
          else Inr (st\<lparr>sc_delayed := (sc_delayed st)(i := None), sc_delayed_due := zrem i (sc_delayed_due st)\<rparr>))"

definition CommitFire :: "codec \<Rightarrow> go_time \<Rightarrow> delayed_doc \<Rightarrow> schedules \<Rightarrow> async_error + schedules" where
  "CommitFire cdc clock item st =
     (if envelope_Validate cdc (dd_Payload item) \<noteq> None \<or> e_ETA (dd_Payload item) = 0 \<or> dd_Owner item = [] \<or> dd_Fence item = 0
      then Inl ErrInvalid
      else scheduleCommit clock (delayedID (dd_Payload item)) (dd_Owner item) (dd_Fence item) st)"

end
