(* ===== verification/Async_Schedule_Guarantees.thy ===== *)
theory Async_Schedule_Guarantees
  imports Async_Schedules
begin

text \<open>
  Any number of beats on one schedule store. A beat leases schedules by script, decides what to do with each on
  its own (\<open>beat_schedule\<close>), and commits that by script; it may also fail and drop what it holds. Between any two
  scripts others may run: administrators add, change and disable schedules, relays deliver intents, producers
  and pollers use the delayed tasks, and time passes. An administrator may also move a schedule back in time.
  \<open>bs_changes\<close> counts how often each schedule was written by an administrator, and \<open>bs_log\<close> records the occurrences
  that were committed, with that count.
\<close>

record beat_system =
  bs_store :: schedules
  bs_now :: go_time
  bs_held :: "nat \<Rightarrow> periodic_schedule list"
  bs_changes :: "string \<Rightarrow> nat"
  bs_log :: "(string \<times> nat \<times> go_time) list"

inductive beat_step :: "beat_system \<Rightarrow> beat_system \<Rightarrow> bool" where
  tick: "bs_now s \<le> t \<Longrightarrow> beat_step s (s\<lparr>bs_now := t\<rparr>)"
| lease: "owner \<noteq> [] \<Longrightarrow> periodicLease (bs_now s) part owner limit lease (bs_store s) = Inr (docs, st) \<Longrightarrow>
    beat_step s (s\<lparr>bs_store := st, bs_held := (bs_held s)(k := bs_held s k @ map unmarshalPeriodic docs)\<rparr>)"
| commit: "bs_held s k = p # ps \<Longrightarrow> beat_schedule env p = Inr bp \<Longrightarrow>
    CommitOccurrence (be_zones env) cdc marshal (bs_now s) p (bp_next bp) (bp_lastID bp) (bp_intents bp) (bs_store s) = Inr st \<Longrightarrow>
    beat_step s (s\<lparr>bs_store := st, bs_held := (bs_held s)(k := ps),
                   bs_log := bs_log s @ map (\<lambda>d. (ps_ID p, bs_changes s (ps_ID p), d)) (bp_dues bp)\<rparr>)"
| fail: "beat_step s (s\<lparr>bs_held := (bs_held s)(k := [])\<rparr>)"
| upsert: "UpsertSchedule zones marshal p expected (bs_store s) = Inr st \<Longrightarrow>
    beat_step s (s\<lparr>bs_store := st, bs_changes := (bs_changes s)(ps_ID p := Suc (bs_changes s (ps_ID p)))\<rparr>)"
| disable: "Disable zones marshal i expected (bs_store s) = Inr st \<Longrightarrow> beat_step s (s\<lparr>bs_store := st\<rparr>)"
| claim: "beat_step s (s\<lparr>bs_store := snd (intent_claim (bs_now s) (bs_store s) src i owner lease)\<rparr>)"
| mark: "beat_step s (s\<lparr>bs_store := snd (intent_mark (bs_now s) (bs_store s) src i fence owner)\<rparr>)"
| delay: "Schedule cdc e (bs_store s) = Inr st \<Longrightarrow> beat_step s (s\<lparr>bs_store := st\<rparr>)"
| lease_delayed: "owner \<noteq> [] \<Longrightarrow> scheduleLease (bs_now s) part owner limit lease (bs_store s) = Inr (docs, st) \<Longrightarrow>
    beat_step s (s\<lparr>bs_store := st\<rparr>)"
| fire: "CommitFire cdc (bs_now s) item (bs_store s) = Inr st \<Longrightarrow> beat_step s (s\<lparr>bs_store := st\<rparr>)"

subsection \<open>How the documents move\<close>

definition named :: "schedules \<Rightarrow> bool" where
  "named st \<longleftrightarrow> (\<forall>i d. sc_items st i = Some d \<longrightarrow> ps_ID (sd_Payload d) = i)"

definition doc_moves :: "schedule_doc \<Rightarrow> schedule_doc \<Rightarrow> bool" where
  "doc_moves d d' \<longleftrightarrow>
     sd_Revision d' = sd_Revision d \<and> ps_NextDue (sd_Payload d') = ps_NextDue (sd_Payload d)
     \<or> sd_Revision d < sd_Revision d'"

definition not_back :: "schedule_doc \<Rightarrow> schedule_doc \<Rightarrow> bool" where
  "not_back d d' \<longleftrightarrow> ps_NextDue (sd_Payload d) \<le> ps_NextDue (sd_Payload d')"

text \<open>A publication of the occurrence of a schedule at an instant.\<close>

definition intent_of :: "string \<Rightarrow> go_time \<Rightarrow> string" where
  "intent_of i due = StableID i (''dispatch-'' @ StableID i (RFC3339Nano due))"

definition publishes :: "string \<Rightarrow> go_time \<Rightarrow> intent \<Rightarrow> bool" where
  "publishes i due x \<longleftrightarrow>
     i_SourceID x = i \<and> i_ID x = intent_of i due \<and> i_Kind x = ''publish''
     \<and> (\<exists>e. i_Envelope x = Some e \<and> e_ID e = StableID i (RFC3339Nano due))"

definition publications :: "schedules \<Rightarrow> bool" where
  "publications st \<longleftrightarrow> (\<forall>i n d. st_intents st i n = Some d \<longrightarrow> (\<exists>due. n = intent_of i due \<and> publishes i due (d_Payload d)))"

text \<open>Schedules other than those of \<open>K\<close> do not move back.\<close>

definition moves :: "string set \<Rightarrow> schedules \<Rightarrow> schedules \<Rightarrow> bool" where
  "moves K st st' \<longleftrightarrow>
     outbox_follows st st'
     \<and> (\<forall>i d. sc_items st i = Some d \<longrightarrow> (\<exists>d'. sc_items st' i = Some d' \<and> doc_moves d d' \<and> (i \<notin> K \<longrightarrow> not_back d d')))
     \<and> (named st \<longrightarrow> named st')"

lemma moves_same:
  "sc_items st' = sc_items st \<Longrightarrow> outbox_follows st st' \<Longrightarrow> moves K st st'"
  by (auto simp: moves_def doc_moves_def not_back_def named_def)

lemma moves_put:
  assumes "sc_items st' = (sc_items st)(i \<mapsto> d')" "ps_ID (sd_Payload d') = i" "outbox_follows st st'"
    "\<And>d. sc_items st i = Some d \<Longrightarrow> doc_moves d d' \<and> (i \<notin> K \<longrightarrow> not_back d d')"
  shows "moves K st st'"
  unfolding moves_def
proof (intro conjI allI impI)
  show "\<exists>d'. sc_items st' j = Some d' \<and> doc_moves d d' \<and> (j \<notin> K \<longrightarrow> not_back d d')" if "sc_items st j = Some d" for j d
    using that assms(1,4) by (cases "j = i") (auto simp: doc_moves_def not_back_def)
  show "named st'" if "named st" using that assms(1,2) by (auto simp: named_def)
qed (rule assms(3))

lemma word_next: "w \<noteq> max_uint64 \<Longrightarrow> w < w + 1"
  by (simp add: max_uint64_def word_Suc_greater)

lemma increment_less: "increment w = Inr v \<Longrightarrow> w < v"
  by (auto simp: increment_def word_next split: if_splits)

lemma set_due_sel [simp]:
  "sc_items (set_due e t i st) = sc_items st" "st_intents (set_due e t i st) = st_intents st"
  "st_pending (set_due e t i st) = st_pending st" "sc_delayed (set_due e t i st) = sc_delayed st"
  "sc_delayed_due (set_due e t i st) = sc_delayed_due st"
  by (simp_all add: set_due_def)

lemma stage_items [simp]:
  "sc_items (stage_intents now is st) = sc_items st" "sc_due (stage_intents now is st) = sc_due st"
  "sc_delayed (stage_intents now is st) = sc_delayed st" "sc_delayed_due (stage_intents now is st) = sc_delayed_due st"
  by (induction "now" "is" st rule: stage_intents.induct) (simp_all add: stage_intent_def Let_def)

lemma claim_items [simp]:
  "sc_items (snd (intent_claim t st src i owner lease)) = sc_items st"
  "sc_due (snd (intent_claim t st src i owner lease)) = sc_due st"
  "sc_delayed (snd (intent_claim t st src i owner lease)) = sc_delayed st"
  "sc_delayed_due (snd (intent_claim t st src i owner lease)) = sc_delayed_due st"
  using intent_claim_cases[of t st src i owner lease] by auto

lemma mark_items [simp]:
  "sc_items (snd (intent_mark t st src i fence owner)) = sc_items st"
  "sc_due (snd (intent_mark t st src i fence owner)) = sc_due st"
  "sc_delayed (snd (intent_mark t st src i fence owner)) = sc_delayed st"
  "sc_delayed_due (snd (intent_mark t st src i fence owner)) = sc_delayed_due st"
  using intent_mark_cases[of t st src i fence owner] by auto

text \<open>Adding or changing a schedule.\<close>

lemma upsert_effect:
  assumes "UpsertSchedule zones marshal p expected st = Inr st'"
  obtains doc where "sc_items st' = (sc_items st)(ps_ID p \<mapsto> doc)" "ps_ID (sd_Payload doc) = ps_ID p"
    "ps_NextDue (sd_Payload doc) = ps_NextDue p" "sd_Revision doc = expected + 1" "expected \<noteq> max_uint64"
    "\<And>d. sc_items st (ps_ID p) = Some d \<Longrightarrow> sd_Revision d = expected"
    "st_intents st' = st_intents st" "sd_Enabled doc = ps_Enabled p" "sd_Owner doc = []"
    "sc_due st' = (if ps_Enabled p then zadd (UnixMilli (ps_NextDue p)) (ps_ID p) (sc_due st) else zrem (ps_ID p) (sc_due st))"
    "sc_delayed st' = sc_delayed st" "sc_delayed_due st' = sc_delayed_due st"
  using assms that
  by (auto simp: UpsertSchedule_def Let_def periodicUpsert_def marshalPeriodic_def scheduleMillis_def set_due_def
      split: option.splits if_splits)

lemma upsert_moves:
  assumes "UpsertSchedule zones marshal p expected st = Inr st'"
    "ps_ID p \<notin> K \<Longrightarrow> \<forall>d. sc_items st (ps_ID p) = Some d \<longrightarrow> ps_NextDue (sd_Payload d) \<le> ps_NextDue p"
  shows "moves K st st'" "st_intents st' = st_intents st"
proof -
  obtain doc where d: "sc_items st' = (sc_items st)(ps_ID p \<mapsto> doc)" "ps_ID (sd_Payload doc) = ps_ID p"
      "ps_NextDue (sd_Payload doc) = ps_NextDue p" "sd_Revision doc = expected + 1" "expected \<noteq> max_uint64"
      "\<And>d. sc_items st (ps_ID p) = Some d \<Longrightarrow> sd_Revision d = expected" "st_intents st' = st_intents st"
    using upsert_effect[OF assms(1)] by metis
  show "st_intents st' = st_intents st" by (rule d(7))
  show "moves K st st'"
  proof (rule moves_put[OF d(1,2)])
    show "outbox_follows st st'" using d(7) by simp
    show "doc_moves old doc \<and> (ps_ID p \<notin> K \<longrightarrow> not_back old doc)" if "sc_items st (ps_ID p) = Some old" for old
      using that d(3,4,6) assms(2) word_next[OF d(5)] by (simp add: doc_moves_def not_back_def)
  qed
qed

lemma disable_upsert:
  assumes "Disable zones marshal i expected st = Inr st'"
  obtains d where "sc_items st i = Some d" "UpsertSchedule zones marshal
    ((unmarshalPeriodic d)\<lparr>ps_Enabled := False, ps_Revision := sd_Revision d + 1\<rparr>) expected st = Inr st'"
  using assms that by (auto simp: Disable_def Let_def unmarshalPeriodic_def split: option.splits if_splits)

lemma unmarshal_sel [simp]:
  "ps_ID (unmarshalPeriodic d) = ps_ID (sd_Payload d)" "ps_NextDue (unmarshalPeriodic d) = ps_NextDue (sd_Payload d)"
  "ps_Revision (unmarshalPeriodic d) = sd_Revision d"
  by (simp_all add: unmarshalPeriodic_def)

lemma disable_moves:
  assumes "Disable zones marshal i expected st = Inr st'" "named st"
  shows "moves K st st'" "st_intents st' = st_intents st"
proof -
  obtain d where d: "sc_items st i = Some d" "UpsertSchedule zones marshal
      ((unmarshalPeriodic d)\<lparr>ps_Enabled := False, ps_Revision := sd_Revision d + 1\<rparr>) expected st = Inr st'"
    using disable_upsert[OF assms(1)] .
  have "ps_ID (sd_Payload d) = i" using assms(2) d(1) by (simp add: named_def)
  then show "moves K st st'" "st_intents st' = st_intents st" using d(1) by (auto intro!: upsert_moves[OF d(2)])
qed

text \<open>Leasing: every returned document replaces its schedule under the next revision.\<close>

lemma fold_put:
  "sc_items (fold (put_leased u) us st) i =
     (if i \<in> fst ` set us then map_of (rev us) i else sc_items st i)"
proof (induction us arbitrary: st)
  case (Cons x us)
  have none: "map_of (rev us) i = None \<longleftrightarrow> i \<notin> fst ` set us" by (simp add: map_of_eq_None_iff)
  show ?case
  proof (cases "i \<in> fst ` set us")
    case True
    then obtain d where "map_of (rev us) i = Some d" using none by blast
    then show ?thesis using Cons.IH[of "put_leased u x st"] True by (simp add: map_add_def)
  next
    case False
    then have "map_of (rev us) i = None" using none by blast
    moreover have "sc_items (fold (put_leased u) (x # us) st) i = sc_items (put_leased u x st) i"
      using Cons.IH[of "put_leased u x st"] False by simp
    moreover have "sc_items (put_leased u x st) = (sc_items st)(fst x \<mapsto> snd x)" by (simp add: put_leased_def)
    ultimately show ?thesis using False by (cases x; cases "i = fst x") (simp_all add: map_add_def)
  qed
qed simp

lemma fold_put_sel [simp]:
  "st_intents (fold (put_leased u) us st) = st_intents st" "st_pending (fold (put_leased u) us st) = st_pending st"
  "sc_delayed (fold (put_leased u) us st) = sc_delayed st" "sc_delayed_due (fold (put_leased u) us st) = sc_delayed_due st"
  by (induction us arbitrary: st) (simp_all add: put_leased_def)

lemma lease_item_cases:
  assumes "lease_item now owner until st i = Inr us" "(j, d') \<in> set us"
  obtains d where "j = i" "sc_items st i = Some d" "sd_Enabled d" "sd_Payload d' = sd_Payload d" "sd_Enabled d'"
    "sd_Revision d < sd_Revision d'" "sd_Revision d' = sd_Revision d + 1" "sd_Owner d' = owner" "sd_LeaseMillis d' = until"
  using assms that
  by (auto simp: lease_item_def increment_def word_next split: option.splits if_splits)

lemma lease_effect:
  assumes "periodicLease clock part owner limit lease st = Inr (docs, st')"
  obtains us until where "docs = map snd us" "st' = fold (put_leased until) us st"
    "\<And>i d'. (i, d') \<in> set us \<Longrightarrow> \<exists>d. sc_items st i = Some d \<and> sd_Enabled d \<and> sd_Payload d' = sd_Payload d
       \<and> sd_Enabled d' \<and> sd_Revision d < sd_Revision d' \<and> sd_Revision d' = sd_Revision d + 1
       \<and> sd_Owner d' = owner \<and> sd_LeaseMillis d' = until"
proof -
  let ?now = "UnixMilli clock"
  obtain until uss where u: "traverse (lease_item ?now owner until st) (zdue ?now part limit (sc_due st)) = Inr uss"
      "docs = map snd (concat uss)" "st' = fold (put_leased until) (concat uss) st"
    using assms by (auto simp: periodicLease_def Let_def)
  have "\<exists>d. sc_items st i = Some d \<and> sd_Enabled d \<and> sd_Payload d' = sd_Payload d
       \<and> sd_Enabled d' \<and> sd_Revision d < sd_Revision d' \<and> sd_Revision d' = sd_Revision d + 1
       \<and> sd_Owner d' = owner \<and> sd_LeaseMillis d' = until"
    if "(i, d') \<in> set (concat uss)" for i d'
  proof -
    obtain us where us: "us \<in> set uss" "(i, d') \<in> set us" using \<open>(i, d') \<in> set (concat uss)\<close> by auto
    have "\<exists>j. lease_item ?now owner until st j = Inr us"
      using us(1) traverse_nth[OF u(1)] by (metis in_set_conv_nth)
    then obtain j where "lease_item ?now owner until st j = Inr us" ..
    then show ?thesis using us(2) by (elim lease_item_cases) auto
  qed
  then show thesis using that u(2,3) by blast
qed

lemma lease_document:
  assumes "st' = fold (put_leased until) us st" "(i, d') \<in> set us"
  obtains d where "(i, d) \<in> set us" "sc_items st' i = Some d"
proof -
  have "i \<in> fst ` set us" using assms(2) by force
  then have "sc_items st' i = map_of (rev us) i" "map_of (rev us) i \<noteq> None"
    using assms(1) by (simp_all add: fold_put map_of_eq_None_iff)
  then obtain d where "sc_items st' i = Some d" "map_of (rev us) i = Some d" by auto
  then show thesis using that map_of_SomeD by fastforce
qed

lemma lease_moves:
  assumes "periodicLease clock part owner limit lease st = Inr (docs, st')"
  shows "moves K st st'" "st_intents st' = st_intents st"
proof -
  obtain us until where u: "docs = map snd us" "st' = fold (put_leased until) us st"
    "\<And>i d'. (i, d') \<in> set us \<Longrightarrow> \<exists>d. sc_items st i = Some d \<and> sd_Enabled d \<and> sd_Payload d' = sd_Payload d
       \<and> sd_Enabled d' \<and> sd_Revision d < sd_Revision d' \<and> sd_Revision d' = sd_Revision d + 1
       \<and> sd_Owner d' = owner \<and> sd_LeaseMillis d' = until"
    using lease_effect[OF assms] by metis
  have item: "sc_items st' i = sc_items st i \<or> (\<exists>d'. (i, d') \<in> set us \<and> sc_items st' i = Some d')" for i
  proof (cases "i \<in> fst ` set us")
    case True
    then obtain d' where "(i, d') \<in> set us" by force
    then show ?thesis using lease_document[OF u(2)] by metis
  next
    case False
    then show ?thesis using u(2) by (simp add: fold_put)
  qed
  show "st_intents st' = st_intents st" using u(2) by simp
  show "moves K st st'" unfolding moves_def
  proof (intro conjI allI impI)
    show "outbox_follows st st'" using u(2) by simp
    show "\<exists>d'. sc_items st' i = Some d' \<and> doc_moves d d' \<and> (i \<notin> K \<longrightarrow> not_back d d')" if "sc_items st i = Some d" for i d
      using item[of i] that u(3) by (fastforce simp: doc_moves_def not_back_def)
    show "named st'" if n: "named st"
      unfolding named_def
    proof (intro allI impI)
      fix i d' assume "sc_items st' i = Some d'"
      then show "ps_ID (sd_Payload d') = i" using item[of i] u(3) n unfolding named_def by (metis option.inject)
    qed
  qed
qed

text \<open>Committing: the document is replaced only if it is the leased one, and the intents are staged.\<close>

lemma commit_effect:
  assumes "CommitOccurrence zones cdc marshal clock p t lastID intents st = Inr st'"
  obtains old doc where "sc_items st (ps_ID p) = Some old" "sd_Revision old = ps_Revision p" "ps_Revision p \<noteq> max_uint64"
    "sc_items st' = (sc_items st)(ps_ID p \<mapsto> doc)" "ps_ID (sd_Payload doc) = ps_ID p" "ps_NextDue (sd_Payload doc) = t"
    "sd_Revision doc = ps_Revision p + 1" "ps_NextDue p < t" "sd_Owner doc = []"
    "outbox_follows st st'" "\<And>x. x \<in> set intents \<Longrightarrow> st_intents st' (i_SourceID x) (i_ID x) \<noteq> None"
    "\<And>src n d. st_intents st' src n = Some d \<Longrightarrow> st_intents st src n = None
       \<Longrightarrow> \<exists>x \<in> set intents. i_SourceID x = src \<and> i_ID x = n \<and> d = intent_document x"
    "sc_delayed st' = sc_delayed st" "sc_delayed_due st' = sc_delayed_due st"
    "sc_due st' = (if sd_Enabled doc then zadd (UnixMilli t) (ps_ID p) (sc_due st) else zrem (ps_ID p) (sc_due st))"
proof -
  let ?p = "p\<lparr>ps_NextDue := t, ps_LastTaskID := lastID, ps_Revision := ps_Revision p + 1, ps_Owner := [],
     ps_LeaseUntil := 0, ps_Enabled := (if ps_EndAt p \<noteq> 0 \<and> \<not> t < ps_EndAt p then False else ps_Enabled p)\<rparr>"
  obtain doc where g: "ps_NextDue p < t" "ps_Revision p \<noteq> max_uint64" "marshalPeriodic marshal ?p = Inr doc"
      "periodicCommit clock (ps_ID p) (ps_Revision p) (ps_Fence p) (ps_Owner p) doc (UnixMilli t) intents (ps_Enabled ?p) st = Inr st'"
    using assms unfolding CommitOccurrence_def Let_def by (auto simp del: not_less split: if_split_asm option.splits)
  have doc: "sd_Payload doc = ?p" "sd_Revision doc = ps_Revision p + 1" "sd_Enabled doc = ps_Enabled ?p" "sd_Owner doc = []"
    using g(3) by (auto simp: marshalPeriodic_def split: option.splits)
  let ?st = "set_due (ps_Enabled ?p) (UnixMilli t) (ps_ID p) (st\<lparr>sc_items := (sc_items st)(ps_ID p \<mapsto> doc),
      sc_inventory := (sc_inventory st)(ps_ID p := True)\<rparr>)"
  obtain old where old: "sc_items st (ps_ID p) = Some old" "sd_Revision old = ps_Revision p"
      "st' = stage_intents (UnixMilli clock) intents ?st"
    using g(4) unfolding periodicCommit_def Let_def scheduleMillis_def
    by (auto split: option.splits if_split_asm)
  have "outbox_follows st ?st" by simp
  then have "outbox_follows st st'" unfolding old(3) using stage_follows outbox_trans by blast
  moreover have "\<And>x. x \<in> set intents \<Longrightarrow> st_intents st' (i_SourceID x) (i_ID x) \<noteq> None"
    unfolding old(3) by (rule stage_stored)
  moreover have "\<exists>x \<in> set intents. i_SourceID x = src \<and> i_ID x = n \<and> d = intent_document x"
    if "st_intents st' src n = Some d" "st_intents st src n = None" for src n d
    using stage_new[of "UnixMilli clock" intents ?st src n d] that unfolding old(3) by simp
  moreover have "sc_due st' = (if sd_Enabled doc then zadd (UnixMilli t) (ps_ID p) (sc_due st) else zrem (ps_ID p) (sc_due st))"
    unfolding old(3) doc(3) by (simp add: set_due_def)
  moreover have "sc_items st' = (sc_items st)(ps_ID p \<mapsto> doc)" "sc_delayed st' = sc_delayed st"
      "sc_delayed_due st' = sc_delayed_due st"
    unfolding old(3) by simp_all
  moreover have "ps_ID (sd_Payload doc) = ps_ID p" "ps_NextDue (sd_Payload doc) = t" unfolding doc(1) by simp_all
  ultimately show thesis using that[OF old(1,2) g(2)] g(1) doc(2,4) by blast
qed

lemma commit_moves:
  assumes "CommitOccurrence zones cdc marshal clock p t lastID intents st = Inr st'"
    "\<And>d. sc_items st (ps_ID p) = Some d \<Longrightarrow> sd_Revision d = ps_Revision p \<Longrightarrow> ps_NextDue (sd_Payload d) = ps_NextDue p"
  shows "moves K st st'"
proof -
  obtain old doc where c: "sc_items st (ps_ID p) = Some old" "sd_Revision old = ps_Revision p" "ps_Revision p \<noteq> max_uint64"
    "sc_items st' = (sc_items st)(ps_ID p \<mapsto> doc)" "ps_ID (sd_Payload doc) = ps_ID p" "ps_NextDue (sd_Payload doc) = t"
    "sd_Revision doc = ps_Revision p + 1" "ps_NextDue p < t" "outbox_follows st st'"
    using commit_effect[OF assms(1)] by metis
  show ?thesis
    using c(1,2,6-8) assms(2) word_next[OF c(3)] by (intro moves_put[OF c(4,5,9)]) (auto simp: doc_moves_def not_back_def)
qed

subsection \<open>No occurrence twice\<close>

text \<open>What a beat holds is the stored schedule, or one that has been overtaken.\<close>

definition held_ok :: "schedules \<Rightarrow> periodic_schedule \<Rightarrow> bool" where
  "held_ok st p \<longleftrightarrow>
     (\<exists>d. sc_items st (ps_ID p) = Some d \<and>
        (ps_Revision p < sd_Revision d \<or> ps_Revision p = sd_Revision d \<and> ps_NextDue (sd_Payload d) = ps_NextDue p))"

text \<open>
  A committed occurrence lies before the next due instant for as long as no administrator has written the
  schedule since, and its intent is in the outbox.
\<close>

definition logged :: "beat_system \<Rightarrow> string \<times> nat \<times> go_time \<Rightarrow> bool" where
  "logged s e \<longleftrightarrow>
     (case e of (i, n, due) \<Rightarrow>
        n \<le> bs_changes s i
        \<and> (n = bs_changes s i \<longrightarrow> (\<exists>d. sc_items (bs_store s) i = Some d \<and> due < ps_NextDue (sd_Payload d)))
        \<and> st_intents (bs_store s) i (intent_of i due) \<noteq> None)"

definition dues_of :: "string \<Rightarrow> nat \<Rightarrow> (string \<times> nat \<times> go_time) list \<Rightarrow> go_time list" where
  "dues_of i n log = map (snd \<circ> snd) (filter (\<lambda>e. fst e = i \<and> fst (snd e) = n) log)"

definition log_sorted :: "(string \<times> nat \<times> go_time) list \<Rightarrow> bool" where
  "log_sorted log \<longleftrightarrow> (\<forall>i n. sorted_wrt (<) (dues_of i n log))"

definition beat_inv :: "beat_system \<Rightarrow> bool" where
  "beat_inv s \<longleftrightarrow>
     named (bs_store s) \<and> (\<forall>k. \<forall>p \<in> set (bs_held s k). held_ok (bs_store s) p)
     \<and> (\<forall>e \<in> set (bs_log s). logged s e) \<and> log_sorted (bs_log s) \<and> publications (bs_store s)"

lemma movesD:
  assumes "moves K st st'" "sc_items st i = Some d"
  obtains d' where "sc_items st' i = Some d'" "doc_moves d d'" "i \<notin> K \<Longrightarrow> not_back d d'"
  using assms by (auto simp: moves_def)

lemma held_ok_moves:
  assumes "held_ok st p" "moves K st st'"
  shows "held_ok st' p"
proof -
  obtain d where d: "sc_items st (ps_ID p) = Some d"
      "ps_Revision p < sd_Revision d \<or> ps_Revision p = sd_Revision d \<and> ps_NextDue (sd_Payload d) = ps_NextDue p"
    using assms(1) by (auto simp: held_ok_def)
  obtain d' where "sc_items st' (ps_ID p) = Some d'" "doc_moves d d'" using movesD[OF assms(2) d(1)] .
  then show ?thesis using d(2) unfolding held_ok_def doc_moves_def by (auto intro: order.strict_trans)
qed

lemma logged_moves:
  assumes "logged s e" "moves K (bs_store s) (bs_store s')"
    "\<And>i. if i \<in> K then bs_changes s i < bs_changes s' i else bs_changes s' i = bs_changes s i"
  shows "logged s' e"
proof -
  obtain i n due where e: "e = (i, n, due)" by (cases e)
  have n: "n \<le> bs_changes s i" "st_intents (bs_store s) i (intent_of i due) \<noteq> None"
    using assms(1) by (auto simp: e logged_def)
  have "\<exists>d. sc_items (bs_store s') i = Some d \<and> due < ps_NextDue (sd_Payload d)" if "n = bs_changes s' i"
  proof -
    have i: "i \<notin> K" "n = bs_changes s i" using that n(1) assms(3)[of i] by (auto split: if_splits)
    then obtain d where d: "sc_items (bs_store s) i = Some d" "due < ps_NextDue (sd_Payload d)"
      using assms(1) by (auto simp: e logged_def)
    obtain d' where "sc_items (bs_store s') i = Some d'" "not_back d d'" using movesD[OF assms(2) d(1)] i(1) by blast
    then show ?thesis using d(2) by (auto simp: not_back_def)
  qed
  moreover have "n \<le> bs_changes s' i" using n(1) assms(3)[of i] by (auto split: if_splits)
  moreover have "st_intents (bs_store s') i (intent_of i due) \<noteq> None"
    using outbox_stored[OF _ n(2)] assms(2) by (simp add: moves_def)
  ultimately show ?thesis by (simp add: e logged_def)
qed

text \<open>The payloads of the outbox never change.\<close>

lemma publications_follow:
  assumes "publications st" "outbox_follows st st'"
    "\<And>i n d. st_intents st' i n = Some d \<Longrightarrow> st_intents st i n = None \<Longrightarrow> \<exists>due. n = intent_of i due \<and> publishes i due (d_Payload d)"
  shows "publications st'"
  unfolding publications_def
proof (intro allI impI)
  fix i n d' assume d': "st_intents st' i n = Some d'"
  show "\<exists>due. n = intent_of i due \<and> publishes i due (d_Payload d')"
  proof (cases "st_intents st i n")
    case None
    then show ?thesis using assms(3) d' by blast
  next
    case (Some d)
    then have "d_Payload d' = d_Payload d" using outbox_followsD[OF assms(2) Some] d' by (auto simp: doc_follows_def)
    then show ?thesis using assms(1) Some unfolding publications_def by metis
  qed
qed

lemma inv_moves:
  assumes "beat_inv s" "moves K (bs_store s) (bs_store s')" "bs_log s' = bs_log s"
    "\<And>i. if i \<in> K then bs_changes s i < bs_changes s' i else bs_changes s' i = bs_changes s i"
    "\<And>k p. p \<in> set (bs_held s' k) \<Longrightarrow> p \<in> set (bs_held s k) \<or> held_ok (bs_store s') p"
    "\<And>i n. st_intents (bs_store s) i n = None \<Longrightarrow> st_intents (bs_store s') i n = None"
  shows "beat_inv s'"
  unfolding beat_inv_def
proof (intro conjI allI ballI)
  show "named (bs_store s')" using assms(1,2) by (simp add: beat_inv_def moves_def)
  show "held_ok (bs_store s') p" if "p \<in> set (bs_held s' k)" for k p
    using assms(5)[OF that] assms(1) held_ok_moves[OF _ assms(2)] unfolding beat_inv_def by blast
  show "logged s' e" if "e \<in> set (bs_log s')" for e
    using that assms(1,3) logged_moves[OF _ assms(2,4)] unfolding beat_inv_def by simp
  show "log_sorted (bs_log s')" using assms(1,3) by (simp add: beat_inv_def)
  have "publications (bs_store s)" "outbox_follows (bs_store s) (bs_store s')"
    using assms(1,2) by (simp_all add: beat_inv_def moves_def)
  then show "publications (bs_store s')" using assms(6) by (intro publications_follow[of "bs_store s" "bs_store s'"]) simp_all
qed

lemma lease_held:
  assumes "periodicLease clock part owner limit lease st = Inr (docs, st')" "named st" "p \<in> set (map unmarshalPeriodic docs)"
  shows "held_ok st' p"
proof -
  obtain us until where u: "docs = map snd us" "st' = fold (put_leased until) us st"
    "\<And>i d'. (i, d') \<in> set us \<Longrightarrow> \<exists>d. sc_items st i = Some d \<and> sd_Enabled d \<and> sd_Payload d' = sd_Payload d
       \<and> sd_Enabled d' \<and> sd_Revision d < sd_Revision d' \<and> sd_Revision d' = sd_Revision d + 1
       \<and> sd_Owner d' = owner \<and> sd_LeaseMillis d' = until"
    using lease_effect[OF assms(1)] by metis
  obtain i d' where d': "(i, d') \<in> set us" "p = unmarshalPeriodic d'" using assms(3) u(1) by auto
  obtain d where d: "sc_items st i = Some d" "sd_Payload d' = sd_Payload d" "sd_Revision d' = sd_Revision d + 1"
    using u(3)[OF d'(1)] by blast
  have i: "ps_ID p = i" using assms(2) d(1,2) d'(2) by (simp add: named_def)
  obtain d'' where d'': "(i, d'') \<in> set us" "sc_items st' i = Some d''" using lease_document[OF u(2) d'(1)] .
  have "sd_Payload d'' = sd_Payload d" "sd_Revision d'' = sd_Revision d + 1" using u(3)[OF d''(1)] d(1) by auto
  then show ?thesis using d'' d d'(2) i by (simp add: held_ok_def)
qed

lemma list_all2_pairs:
  "list_all2 P xs ys \<Longrightarrow> x \<in> set xs \<Longrightarrow> \<exists>y \<in> set ys. P x y"
  "list_all2 P xs ys \<Longrightarrow> y \<in> set ys \<Longrightarrow> \<exists>x \<in> set xs. P x y"
  by (induction rule: list_all2_induct) auto

lemma dues_of_append: "dues_of i n (log @ map (\<lambda>d. (j, m, d)) xs) = dues_of i n log @ (if i = j \<and> n = m then xs else [])"
proof -
  have "filter (\<lambda>e. fst e = i \<and> fst (snd e) = n) (map (\<lambda>d. (j, m, d)) xs) = (if i = j \<and> n = m then map (\<lambda>d. (j, m, d)) xs else [])"
    by (induction xs) auto
  then show ?thesis by (simp add: dues_of_def comp_def)
qed

lemma commit_inv:
  assumes "beat_inv s" "bs_held s k = p # ps" "beat_schedule env p = Inr bp"
    "CommitOccurrence zones cdc marshal clock p (bp_next bp) (bp_lastID bp) (bp_intents bp) (bs_store s) = Inr st"
  shows "beat_inv (s\<lparr>bs_store := st, bs_held := (bs_held s)(k := ps),
    bs_log := bs_log s @ map (\<lambda>d. (ps_ID p, bs_changes s (ps_ID p), d)) (bp_dues bp)\<rparr>)" (is "beat_inv ?s")
proof -
  let ?n = "bs_changes s (ps_ID p)"
  obtain old doc where c: "sc_items (bs_store s) (ps_ID p) = Some old" "sd_Revision old = ps_Revision p"
    "sc_items st = (sc_items (bs_store s))(ps_ID p \<mapsto> doc)" "ps_NextDue (sd_Payload doc) = bp_next bp"
    "ps_NextDue p < bp_next bp" "\<And>x. x \<in> set (bp_intents bp) \<Longrightarrow> st_intents st (i_SourceID x) (i_ID x) \<noteq> None"
    "\<And>src n d. st_intents st src n = Some d \<Longrightarrow> st_intents (bs_store s) src n = None
       \<Longrightarrow> \<exists>x \<in> set (bp_intents bp). i_SourceID x = src \<and> i_ID x = n \<and> d = intent_document x"
    using commit_effect[OF assms(4)] by metis
  have "held_ok (bs_store s) p" using assms(1,2) unfolding beat_inv_def by (metis list.set_intros(1))
  then have due: "ps_NextDue (sd_Payload old) = ps_NextDue p" using c(1,2) by (auto simp: held_ok_def)
  have moves: "moves {} (bs_store s) st" using c(1) due by (intro commit_moves[OF assms(4)]) simp
  have occ: "sorted_wrt (<) (bp_dues bp)" "\<And>d. d \<in> set (bp_dues bp) \<Longrightarrow> ps_NextDue p \<le> d \<and> d < bp_next bp"
    using beat_schedule_occurrences[OF assms(3) c(5)] by (auto simp: occurrences_def)
  have one: "one_each p (bp_dues bp) (bp_intents bp)" using beat_schedule_exact[OF assms(3)] by blast
  have pub: "\<exists>due. publishes (ps_ID p) due x" if "x \<in> set (bp_intents bp)" for x
    using list_all2_pairs(2)[OF one[unfolded one_each_def] that] by (auto simp: publishes_def intent_of_def)
  have new: "logged ?s (ps_ID p, ?n, d)" if d: "d \<in> set (bp_dues bp)" for d
  proof -
    obtain x where "x \<in> set (bp_intents bp)" "i_ID x = intent_of (ps_ID p) d" "i_SourceID x = ps_ID p"
      using list_all2_pairs(1)[OF one[unfolded one_each_def] d] by (auto simp: intent_of_def)
    then have "st_intents st (ps_ID p) (intent_of (ps_ID p) d) \<noteq> None" using c(6) by metis
    then show ?thesis using c(3,4) occ(2)[OF d] by (simp add: logged_def)
  qed
  have before: "due < ps_NextDue p" if "(ps_ID p, ?n, due) \<in> set (bs_log s)" for due
    using assms(1) that c(1) due unfolding beat_inv_def logged_def by fastforce
  have "log_sorted (bs_log s @ map (\<lambda>d. (ps_ID p, ?n, d)) (bp_dues bp))"
    unfolding log_sorted_def dues_of_append
  proof (intro allI)
    fix i n
    have old: "sorted_wrt (<) (dues_of i n (bs_log s))" using assms(1) by (simp add: beat_inv_def log_sorted_def)
    show "sorted_wrt (<) (dues_of i n (bs_log s) @ (if i = ps_ID p \<and> n = ?n then bp_dues bp else []))"
    proof (cases "i = ps_ID p \<and> n = ?n")
      case True
      then have "a < b" if "a \<in> set (dues_of i n (bs_log s))" "b \<in> set (bp_dues bp)" for a b
      proof -
        have "(ps_ID p, ?n, a) \<in> set (bs_log s)" using that(1) True by (auto simp: dues_of_def)
        then show ?thesis using before occ(2)[OF that(2)] by fastforce
      qed
      then show ?thesis using True old occ(1) by (simp add: sorted_wrt_append)
    qed (use old in auto)
  qed
  moreover have "\<forall>e \<in> set (bs_log ?s). logged ?s e"
  proof -
    have "logged ?s e" if "e \<in> set (bs_log s)" for e
    proof (rule logged_moves[where K = "{}"])
      show "logged s e" using that assms(1) by (simp add: beat_inv_def)
      show "moves {} (bs_store s) (bs_store ?s)" using moves by simp
    qed simp
    then show ?thesis using new by auto
  qed
  moreover have "\<forall>j. \<forall>q \<in> set (((bs_held s)(k := ps)) j). held_ok st q"
  proof (intro allI ballI)
    fix j q assume "q \<in> set (((bs_held s)(k := ps)) j)"
    then have "q \<in> set (bs_held s j)" using assms(2) by (cases "j = k") simp_all
    then show "held_ok st q" using assms(1) held_ok_moves[OF _ moves] by (simp add: beat_inv_def)
  qed
  moreover have "named st" using assms(1) moves by (simp add: beat_inv_def moves_def)
  moreover have "publications st"
  proof (rule publications_follow[of "bs_store s"])
    show "\<exists>due. n = intent_of i due \<and> publishes i due (d_Payload d)"
      if fresh: "st_intents st i n = Some d" "st_intents (bs_store s) i n = None" for i n d
    proof -
      obtain x where x: "x \<in> set (bp_intents bp)" "i_SourceID x = i" "i_ID x = n" "d = intent_document x" using c(7)[OF fresh] by blast
      then have "i = ps_ID p" using pub[OF x(1)] by (auto simp: publishes_def)
      then show ?thesis using pub[OF x(1)] x(3,4) by (auto simp: publishes_def intent_document_def)
    qed
  qed (use assms(1) moves in \<open>simp_all add: beat_inv_def moves_def\<close>)
  ultimately show ?thesis by (simp add: beat_inv_def)
qed

lemma put_delayed_sel [simp]:
  "sc_items (fold (put_delayed u) us st) = sc_items st" "sc_due (fold (put_delayed u) us st) = sc_due st"
  "st_intents (fold (put_delayed u) us st) = st_intents st" "st_pending (fold (put_delayed u) us st) = st_pending st"
  by (induction us arbitrary: st) (simp_all add: put_delayed_def)

lemma delayed_same:
  "Schedule cdc e st = Inr st' \<Longrightarrow> sc_items st' = sc_items st \<and> sc_due st' = sc_due st \<and> st_intents st' = st_intents st"
  "scheduleLease clock part owner limit lease st = Inr (docs, st') \<Longrightarrow>
     sc_items st' = sc_items st \<and> sc_due st' = sc_due st \<and> st_intents st' = st_intents st"
  "CommitFire cdc clock item st = Inr st' \<Longrightarrow> sc_items st' = sc_items st \<and> sc_due st' = sc_due st \<and> st_intents st' = st_intents st"
  by (auto simp: Schedule_def schedulePut_def scheduleLease_def Let_def CommitFire_def scheduleCommit_def
      split: option.splits if_splits)

lemma delayed_moves:
  "Schedule cdc e st = Inr st' \<Longrightarrow> moves K st st'"
  "scheduleLease clock part owner limit lease st = Inr (docs, st') \<Longrightarrow> moves K st st'"
  "CommitFire cdc clock item st = Inr st' \<Longrightarrow> moves K st st'"
  using delayed_same by (simp_all add: moves_same)

lemma claim_mark_fresh:
  "st_intents st j n = None \<Longrightarrow> st_intents (snd (intent_claim t st src i owner lease)) j n = None"
  "st_intents st j n = None \<Longrightarrow> st_intents (snd (intent_mark t st src i fence owner)) j n = None"
  using intent_claim_cases[of t st src i owner lease] intent_mark_cases[of t st src i fence owner] by auto

lemma beat_step_inv:
  assumes "beat_step s s'" "beat_inv s"
  shows "beat_inv s'"
  using assms(1)
proof cases
  case (lease owner part limit lease docs st k)
  show ?thesis
  proof (rule inv_moves[OF assms(2), of "{}"])
    show "moves {} (bs_store s) (bs_store s')" using lease lease_moves by simp
    show "p \<in> set (bs_held s j) \<or> held_ok (bs_store s') p" if "p \<in> set (bs_held s' j)" for j p
      using that lease lease_held[OF lease(3)] assms(2) by (auto simp: beat_inv_def split: if_splits)
  qed (use lease lease_moves(2)[OF lease(3)] in simp_all)
next
  case (commit k p ps env bp cdc marshal st)
  then show ?thesis using commit_inv[OF assms(2)] by simp
next
  case (upsert zones marshal p expected st)
  then show ?thesis
    using upsert_moves(1)[OF upsert(2), where K = "{ps_ID p}"] upsert_effect[OF upsert(2)]
    by (intro inv_moves[OF assms(2), of "{ps_ID p}"]) (simp_all, metis)
next
  case (disable zones marshal i expected st)
  then show ?thesis
    using assms(2) disable_moves(1)[OF disable(2), where K = "{}"] disable_moves(2)[OF disable(2)] by (intro inv_moves[OF assms(2), of "{}"]) (simp_all add: beat_inv_def)
next
  case (delay cdc e st)
  then show ?thesis
    using delayed_moves(1) delayed_same(1)[OF delay(2)] by (intro inv_moves[OF assms(2), of "{}"]) simp_all
next
  case (lease_delayed owner part limit lease docs st)
  then show ?thesis
    using delayed_moves(2) delayed_same(2)[OF lease_delayed(3)] by (intro inv_moves[OF assms(2), of "{}"]) simp_all
next
  case (fire cdc item st)
  then show ?thesis
    using delayed_moves(3) delayed_same(3)[OF fire(2)] by (intro inv_moves[OF assms(2), of "{}"]) simp_all
next
  case (claim src i owner lease)
  then show ?thesis by (intro inv_moves[OF assms(2), of "{}"]) (simp_all add: moves_same intent_claim_outbox claim_mark_fresh)
next
  case (mark src i fence owner)
  then show ?thesis by (intro inv_moves[OF assms(2), of "{}"]) (simp_all add: moves_same intent_mark_outbox claim_mark_fresh)
qed (auto intro!: inv_moves[OF assms(2), of "{}"] moves_same split: if_splits)

lemma beat_step_outbox:
  assumes "beat_step s s'" "beat_inv s"
  shows "outbox_follows (bs_store s) (bs_store s')"
  using assms(1)
proof cases
  case (commit k p ps env bp cdc marshal st)
  moreover have "outbox_follows (bs_store s) st" using commit_effect[OF commit(4)] by blast
  ultimately show ?thesis by simp
next
  case (disable zones marshal i expected st)
  then show ?thesis using assms(2) disable_moves(2)[OF disable(2)] by (simp add: beat_inv_def)
next
  case (upsert zones marshal p expected st)
  moreover have "st_intents st = st_intents (bs_store s)" using upsert_effect[OF upsert(2)] by metis
  ultimately show ?thesis by simp
qed (use lease_moves(2) delayed_same intent_claim_outbox intent_mark_outbox in simp_all)

lemma log_sorted_distinct: "log_sorted log \<Longrightarrow> distinct log"
proof (induction log)
  case (Cons e log)
  obtain i n d where e: "e = (i, n, d)" by (cases e)
  have all: "sorted_wrt (<) (dues_of j m (e # log))" for j m using Cons.prems by (simp add: log_sorted_def)
  have "sorted_wrt (<) (dues_of j m log)" for j m using all[of j m] by (auto simp: dues_of_def split: if_splits)
  then have "distinct log" using Cons.IH by (simp add: log_sorted_def)
  moreover have "e \<notin> set log" using all[of i n] by (fastforce simp: e dues_of_def)
  ultimately show ?case by simp
qed simp

lemma beat_run_inv:
  assumes "beat_step\<^sup>*\<^sup>* s0 s" "beat_inv s0"
  shows "beat_inv s"
  using assms by (induction rule: rtranclp_induct) (auto intro: beat_step_inv)

lemma beat_run_outbox:
  assumes "beat_step\<^sup>*\<^sup>* s s'" "beat_inv s"
  shows "outbox_follows (bs_store s) (bs_store s')"
  using assms(1)
proof (induction rule: rtranclp_induct)
  case (step s1 s2)
  then show ?case using beat_step_outbox[OF step.hyps(2)] beat_run_inv[OF step.hyps(1) assms(2)] outbox_trans by blast
qed simp

subsection \<open>The index of due times\<close>

text \<open>
  When a schedule or a delayed task is to be looked at next: when its lease ends if it is leased, and at its due
  instant otherwise.
\<close>

definition schedule_score :: "schedule_doc \<Rightarrow> int" where
  "schedule_score d = (if sd_Owner d \<noteq> [] then sd_LeaseMillis d else UnixMilli (ps_NextDue (sd_Payload d)))"

definition delayed_score :: "delayed_doc \<Rightarrow> int" where
  "delayed_score d = (if dd_Owner d \<noteq> [] then dd_LeaseMillis d else UnixMilli (e_ETA (dd_Payload d)))"

text \<open>The sorted sets hold exactly the enabled schedules and the delayed tasks, with those times.\<close>

definition due_indexed :: "schedules \<Rightarrow> bool" where
  "due_indexed st \<longleftrightarrow>
     (\<forall>t i. (t, i) \<in> set (sc_due st) \<longleftrightarrow> (\<exists>d. sc_items st i = Some d \<and> sd_Enabled d \<and> t = schedule_score d))
     \<and> (\<forall>t i. (t, i) \<in> set (sc_delayed_due st) \<longleftrightarrow> (\<exists>d. sc_delayed st i = Some d \<and> t = delayed_score d))"

lemma zset_entries:
  "(t, j) \<in> set (zrem i z) \<longleftrightarrow> (t, j) \<in> set z \<and> j \<noteq> i"
  "(t, j) \<in> set (zadd u i z) \<longleftrightarrow> (t = u \<and> j = i \<or> (t, j) \<in> set z \<and> j \<noteq> i)"
  by (auto simp: zrem_def zadd_def set_insort_key)

lemma due_indexed_put:
  assumes "due_indexed st" "sc_items st' = (sc_items st)(i \<mapsto> doc)"
    "sc_due st' = (if sd_Enabled doc then zadd t i (sc_due st) else zrem i (sc_due st))" "t = schedule_score doc"
    "sc_delayed st' = sc_delayed st" "sc_delayed_due st' = sc_delayed_due st"
  shows "due_indexed st'"
  using assms by (auto simp: due_indexed_def zset_entries)

lemma due_indexed_same:
  "due_indexed st \<Longrightarrow> sc_items st' = sc_items st \<Longrightarrow> sc_due st' = sc_due st \<Longrightarrow> sc_delayed st' = sc_delayed st
   \<Longrightarrow> sc_delayed_due st' = sc_delayed_due st \<Longrightarrow> due_indexed st'"
  by (simp add: due_indexed_def)

lemma fold_put_due:
  "(t, i) \<in> set (sc_due (fold (put_leased u) us st)) \<longleftrightarrow> (if i \<in> fst ` set us then t = u else (t, i) \<in> set (sc_due st))"
  by (induction us arbitrary: st) (auto simp: put_leased_def zset_entries)

lemma lease_indexed:
  assumes "due_indexed st" "periodicLease clock part owner limit lease st = Inr (docs, st')" "owner \<noteq> []"
  shows "due_indexed st'"
proof -
  obtain us until where u: "docs = map snd us" "st' = fold (put_leased until) us st"
    "\<And>i d'. (i, d') \<in> set us \<Longrightarrow> \<exists>d. sc_items st i = Some d \<and> sd_Enabled d \<and> sd_Payload d' = sd_Payload d
       \<and> sd_Enabled d' \<and> sd_Revision d < sd_Revision d' \<and> sd_Revision d' = sd_Revision d + 1
       \<and> sd_Owner d' = owner \<and> sd_LeaseMillis d' = until"
    using lease_effect[OF assms(2)] by metis
  have "(t, i) \<in> set (sc_due st') \<longleftrightarrow> (\<exists>d. sc_items st' i = Some d \<and> sd_Enabled d \<and> t = schedule_score d)" for t i
  proof (cases "i \<in> fst ` set us")
    case True
    then obtain d' where "(i, d') \<in> set us" by force
    then obtain d where "(i, d) \<in> set us" "sc_items st' i = Some d" using lease_document[OF u(2)] by metis
    then show ?thesis using u(2,3) True assms(3) by (auto simp: fold_put_due schedule_score_def)
  next
    case False
    then show ?thesis using assms(1) u(2) by (simp add: fold_put fold_put_due due_indexed_def)
  qed
  then show ?thesis using assms(1) u(2) by (simp add: due_indexed_def)
qed

text \<open>The delayed tasks that a poller leases keep their payload.\<close>

lemma fold_delayed_due:
  "(t, i) \<in> set (sc_delayed_due (fold (put_delayed u) us st)) \<longleftrightarrow>
     (if i \<in> fst ` set us then t = u else (t, i) \<in> set (sc_delayed_due st))"
  by (induction us arbitrary: st) (auto simp: put_delayed_def zset_entries)

lemma fold_delayed:
  "sc_delayed (fold (put_delayed u) us st) i = sc_delayed st i \<and> i \<notin> fst ` set us
   \<or> (\<exists>d. (i, d) \<in> set us \<and> sc_delayed (fold (put_delayed u) us st) i = Some d)"
proof (induction us arbitrary: st)
  case (Cons x us)
  show ?case using Cons.IH[of "put_delayed u x st"] by (cases x) (auto simp: put_delayed_def split: if_splits)
qed simp

lemma lease_delayed_indexed:
  assumes "due_indexed st" "scheduleLease clock part owner limit lease st = Inr (docs, st')" "owner \<noteq> []"
  shows "due_indexed st'"
proof -
  let ?now = "UnixMilli clock"
  obtain until uss where u: "traverse (lease_delayed ?now owner until st) (zdue ?now part limit (sc_delayed_due st)) = Inr uss"
      "st' = fold (put_delayed until) (concat uss) st"
    using assms(2) by (auto simp: scheduleLease_def Let_def)
  have leased: "dd_Owner d = owner \<and> dd_LeaseMillis d = until" if d: "(i, d) \<in> set (concat uss)" for i d
  proof -
    obtain us where us: "us \<in> set uss" "(i, d) \<in> set us" using d by auto
    then obtain j where "lease_delayed ?now owner until st j = Inr us" using traverse_nth[OF u(1)] by (metis in_set_conv_nth)
    then show ?thesis using us(2) by (auto simp: lease_delayed_def split: option.splits if_splits)
  qed
  have "(t, i) \<in> set (sc_delayed_due st') \<longleftrightarrow> (\<exists>d. sc_delayed st' i = Some d \<and> t = delayed_score d)" for t i
  proof (cases "i \<in> fst ` set (concat uss)")
    case True
    then obtain d where "(i, d) \<in> set (concat uss)" "sc_delayed st' i = Some d"
      using fold_delayed[of until "concat uss" st i] u(2) by auto
    then show ?thesis using leased[of i d] True assms(3) by (auto simp: u(2) fold_delayed_due delayed_score_def)
  next
    case False
    moreover have "sc_delayed st' i = sc_delayed st i"
      using fold_delayed[of until "concat uss" st i] False u(2) by (force simp: image_iff)
    ultimately show ?thesis using assms(1) by (simp add: u(2) fold_delayed_due due_indexed_def)
  qed
  then show ?thesis using assms(1) u(2) by (simp add: due_indexed_def)
qed

lemma delayed_indexed:
  assumes "due_indexed st"
  shows "Schedule cdc e st = Inr st' \<Longrightarrow> due_indexed st'" "CommitFire cdc clock item st = Inr st' \<Longrightarrow> due_indexed st'"
proof -
  show "due_indexed st'" if "Schedule cdc e st = Inr st'"
  proof -
    let ?d = "\<lparr>dd_Payload = e, dd_Digest = DispatchDigest cdc e, dd_Fence = 0, dd_Owner = [], dd_LeaseMillis = 0\<rparr>"
    have "st' = st \<or> st' = st\<lparr>sc_delayed := (sc_delayed st)(delayedID e \<mapsto> ?d),
             sc_delayed_due := zadd (UnixMilli (e_ETA e)) (delayedID e) (sc_delayed_due st)\<rparr>"
      using that by (auto simp: Schedule_def schedulePut_def scheduleMillis_def split: option.splits if_splits)
    moreover have "delayed_score ?d = UnixMilli (e_ETA e)" by (simp add: delayed_score_def)
    ultimately show ?thesis using assms by (auto simp: due_indexed_def zset_entries split: if_splits)
  qed
  show "due_indexed st'" if "CommitFire cdc clock item st = Inr st'"
    using that assms by (auto simp: CommitFire_def scheduleCommit_def due_indexed_def zset_entries split: option.splits if_splits)
qed

lemma upsert_indexed:
  assumes "due_indexed st" "UpsertSchedule zones marshal p expected st = Inr st'"
  shows "due_indexed st'"
proof -
  obtain doc where d: "sc_items st' = (sc_items st)(ps_ID p \<mapsto> doc)" "sd_Enabled doc = ps_Enabled p"
    "sc_due st' = (if ps_Enabled p then zadd (UnixMilli (ps_NextDue p)) (ps_ID p) (sc_due st) else zrem (ps_ID p) (sc_due st))"
    "sc_delayed st' = sc_delayed st" "sc_delayed_due st' = sc_delayed_due st" "schedule_score doc = UnixMilli (ps_NextDue p)"
    using upsert_effect[OF assms(2)] by (metis schedule_score_def)
  show ?thesis using d(3) unfolding d(2)[symmetric] by (rule due_indexed_put[OF assms(1) d(1) _ d(6)[symmetric] d(4,5)])
qed

lemma beat_step_indexed:
  assumes "beat_step s s'" "due_indexed (bs_store s)"
  shows "due_indexed (bs_store s')"
  using assms(1)
proof cases
  case (commit k p ps env bp cdc marshal st)
  obtain doc where d: "sc_items st = (sc_items (bs_store s))(ps_ID p \<mapsto> doc)"
    "sc_delayed st = sc_delayed (bs_store s)" "sc_delayed_due st = sc_delayed_due (bs_store s)"
    "sc_due st = (if sd_Enabled doc then zadd (UnixMilli (bp_next bp)) (ps_ID p) (sc_due (bs_store s))
       else zrem (ps_ID p) (sc_due (bs_store s)))" "UnixMilli (bp_next bp) = schedule_score doc"
    using commit_effect[OF commit(4)] by (metis schedule_score_def)
  show ?thesis using commit(1) due_indexed_put[OF assms(2) d(1,4,5,2,3)] by simp
next
  case (disable zones marshal i expected st)
  then show ?thesis using assms(2) by (auto elim: disable_upsert intro: upsert_indexed)
next
  case (lease owner part limit lease docs st k)
  then show ?thesis using lease_indexed[OF assms(2)] by simp
next
  case (upsert zones marshal p expected st)
  then show ?thesis using upsert_indexed[OF assms(2)] by simp
next
  case (delay cdc e st)
  then show ?thesis using delayed_indexed(1)[OF assms(2)] by simp
next
  case (lease_delayed owner part limit lease docs st)
  then show ?thesis using lease_delayed_indexed[OF assms(2)] by simp
next
  case (fire cdc item st)
  then show ?thesis using delayed_indexed(2)[OF assms(2)] by simp
next
  case (claim src i owner lease)
  then show ?thesis using due_indexed_same[OF assms(2)] by simp
next
  case (mark src i fence owner)
  then show ?thesis using due_indexed_same[OF assms(2)] by simp
qed (use assms(2) in simp_all)

lemma indexed_lease_found:
  assumes "due_indexed st" "periodicLease clock part owner limit lease st = Inl e"
  shows "e \<noteq> ErrBackend ''GOGO_MISSING_SCHEDULE''"
proof
  let ?now = "UnixMilli clock"
  assume e: "e = ErrBackend ''GOGO_MISSING_SCHEDULE''"
  have found: "lease_item ?now owner until st i \<noteq> Inl e" if "i \<in> set (zdue ?now part limit (sc_due st))" for i until
  proof -
    have "i \<in> snd ` set (sc_due st)" using that unfolding zdue_def by (auto dest!: in_set_takeD)
    then obtain t where "(t, i) \<in> set (sc_due st)" by auto
    then obtain d where "sc_items st i = Some d" using assms(1) by (auto simp: due_indexed_def)
    then show ?thesis using e by (auto simp: lease_item_def try_then_Inl increment_def split: if_splits)
  qed
  have trav: "traverse f xs \<noteq> Inl x" if "\<And>y. y \<in> set xs \<Longrightarrow> f y \<noteq> Inl x" for f :: "string \<Rightarrow> async_error + (string \<times> schedule_doc) list" and xs x
    using that by (induction xs) (auto split: sum.splits)
  show False
    using assms(2) e trav[OF found] unfolding periodicLease_def Let_def
    by (auto simp: try_then_Inl scheduleMillis_def split: if_splits)
qed

lemma indexed_due:
  assumes "due_indexed st"
  shows "i \<in> set (zdue now (Partition i) (length (sc_due st)) (sc_due st))
    \<longleftrightarrow> (\<exists>d. sc_items st i = Some d \<and> sd_Enabled d \<and> schedule_score d \<le> now)"
proof -
  have all: "set (zdue now part (length z) z) = {i. \<exists>t. (t, i) \<in> set z \<and> t \<le> now \<and> Partition i = part}" for part z
    unfolding zdue_def by (subst take_all) (force simp: le_trans[OF length_filter_le])+
  show ?thesis using assms by (auto simp: all due_indexed_def)
qed

subsection \<open>A minute of mail\<close>

definition no_schedules :: schedules where
  "no_schedules =
     \<lparr>st_intents = (\<lambda>_ _. None), st_pending = (\<lambda>_ _. None), sc_items = (\<lambda>_. None), sc_due = [], sc_inventory = (\<lambda>_. False),
      sc_delayed = (\<lambda>_. None), sc_delayed_due = []\<rparr>"

definition quiet_system :: beat_system where
  "quiet_system = \<lparr>bs_store = no_schedules, bs_now = morning + second, bs_held = (\<lambda>_. []), bs_changes = (\<lambda>_. 0),
     bs_log = []\<rparr>"

definition minute_doc :: schedule_doc where
  "minute_doc =
     \<lparr>sd_Payload = minute_schedule, sd_Revision = 1, sd_Fence = 0, sd_Owner = [], sd_LeaseMillis = 0, sd_ObservedMillis = 0,
      sd_Enabled = True\<rparr>"

definition minute_store :: schedules where
  "minute_store =
     no_schedules\<lparr>sc_items := [ps_ID minute_schedule \<mapsto> minute_doc],
       sc_due := [(UnixMilli morning, ps_ID minute_schedule)], sc_inventory := (\<lambda>_. False)(ps_ID minute_schedule := True)\<rparr>"

lemma minute_valid: "periodic_Validate utc_only minute_schedule = None"
  by (simp add: periodic_Validate_def minute_schedule_def stable_id_valid rule_Validate_def Every_def utc_only_def
      duration_defs morning_def day_length_value)

lemma millis: "UnixMilli morning = 1704101400000" "UnixMilli (morning + second) = 1704101401000"
  "UnixMilli (morning + minute) = 1704101460000"
  by (simp_all add: UnixMilli_def unix_epoch_def morning_def day_length_value duration_defs)

lemma minute_upserted: "UpsertSchedule utc_only (\<lambda>_. Some []) minute_schedule 0 no_schedules = Inr minute_store"
  using minute_valid
  by (simp add: UpsertSchedule_def Let_def periodicUpsert_def marshalPeriodic_def millis scheduleMillis_def max_lua_integer_def
      set_due_def no_schedules_def minute_store_def zadd_def zrem_def minute_doc_def max_uint64_def)
     (simp add: minute_schedule_def millis)

text \<open>The lease of one beat, and its commit.\<close>

definition leased_doc :: schedule_doc where
  "leased_doc =
     minute_doc\<lparr>sd_Owner := ''b'', sd_Fence := 1, sd_Revision := 2, sd_LeaseMillis := 1704101431000,
       sd_ObservedMillis := 1704101401000\<rparr>"

definition leased_store :: schedules where
  "leased_store = put_leased 1704101431000 (ps_ID minute_schedule, leased_doc) minute_store"

lemma minute_leased:
  "periodicLease (morning + second) (Partition (ps_ID minute_schedule)) ''b'' 1 30000 minute_store = Inr ([leased_doc], leased_store)"
  by (simp add: periodicLease_def Let_def millis scheduleMillis_def max_lua_integer_def zdue_def minute_store_def no_schedules_def
      lease_item_def increment_def minute_doc_def max_uint64_def leased_doc_def leased_store_def)

lemma leased_schedule:
  "unmarshalPeriodic leased_doc =
     minute_schedule\<lparr>ps_ObservedAt := morning + second, ps_Fence := 1, ps_Revision := 2, ps_Owner := ''b'',
       ps_LeaseUntil := morning + 31 * second\<rparr>"
  by (simp add: unmarshalPeriodic_def leased_doc_def minute_doc_def millis_time_def minute_schedule_def FromUnixMilli_def
      unix_epoch_def morning_def day_length_value duration_defs)

lemma minute_committed:
  assumes "bp_next bp = morning + minute" "bp_lastID bp = occurrence_id (unmarshalPeriodic leased_doc) morning" "bp_intents bp = [i]"
    "planned (unmarshalPeriodic leased_doc) bp" "bp_dues bp = [morning]"
  shows "\<exists>st. CommitOccurrence utc_only plain_codec (\<lambda>_. Some []) (morning + second) (unmarshalPeriodic leased_doc)
     (bp_next bp) (bp_lastID bp) (bp_intents bp) leased_store = Inr st"
proof -
  let ?p = "unmarshalPeriodic leased_doc"
  have i: "i_SourceID i = ps_ID ?p" "i_ID i = StableID (ps_ID ?p) (''dispatch-'' @ occurrence_id ?p morning)"
    using assms(3-5) by (auto simp: planned_def)
  have ids: "idPattern (ps_ID ?p)" "idPattern (i_ID i)" "idPattern (bp_lastID bp)"
    unfolding i(2) assms(2) occurrence_id_def by (simp_all add: stable_id_valid leased_schedule minute_schedule_def)
  have len: "length (i_ID i) = 36" unfolding i(2) by (simp add: StableID_def formatID_def)
  have valid: "periodic_Validate utc_only ?p = None"
    using minute_valid unfolding leased_schedule periodic_Validate_def by (simp split: if_splits)
  have sel: "ps_Owner ?p = ''b''" "ps_Fence ?p = 1" "ps_Revision ?p = 2" "ps_NextDue ?p = morning" "ps_EndAt ?p = 0"
      "ps_ID ?p = ps_ID minute_schedule"
    by (simp_all add: leased_schedule) (simp_all add: minute_schedule_def)
  have store: "sc_items leased_store (ps_ID minute_schedule) = Some leased_doc" by (simp add: leased_store_def put_leased_def)
  have doc: "sd_Revision leased_doc = 2" "sd_Fence leased_doc = 1" "sd_Owner leased_doc = ''b''" "sd_LeaseMillis leased_doc = 1704101431000"
    by (simp_all add: leased_doc_def)
  have later: "morning < morning + minute" "morning + minute \<noteq> 0" by (simp_all add: duration_defs morning_def day_length_value)
  show ?thesis
    using ids len valid sel store later i(1) assms(1,3)
    by (simp add: CommitOccurrence_def Let_def validIntentIDs_def marshalPeriodic_def periodicCommit_def doc millis
        scheduleMillis_def max_lua_integer_def plain_codec_def max_uint64_def)
qed

lemma minute_run:
  "\<exists>s. beat_step\<^sup>*\<^sup>* quiet_system s \<and> bs_log s = [(ps_ID minute_schedule, 1, morning)]"
proof -
  let ?s1 = "quiet_system\<lparr>bs_store := minute_store,
      bs_changes := (bs_changes quiet_system)(ps_ID minute_schedule := Suc (bs_changes quiet_system (ps_ID minute_schedule)))\<rparr>"
  have 1: "beat_step quiet_system ?s1"
    by (rule beat_step.upsert[where zones = utc_only and marshal = "\<lambda>_. Some []" and p = minute_schedule and expected = 0])
       (simp add: quiet_system_def minute_upserted)
  let ?s2 = "?s1\<lparr>bs_store := leased_store, bs_held := (bs_held ?s1)(0 := bs_held ?s1 0 @ map unmarshalPeriodic [leased_doc])\<rparr>"
  have 2: "beat_step ?s1 ?s2"
    by (rule beat_step.lease[where part = "Partition (ps_ID minute_schedule)" and owner = "''b''" and limit = 1 and lease = 30000])
       (simp_all add: quiet_system_def minute_leased[unfolded One_nat_def])
  obtain i where i: "beat_schedule minute_env (unmarshalPeriodic leased_doc) = Inr
      \<lparr>bp_next = morning + minute, bp_lastID = occurrence_id (unmarshalPeriodic leased_doc) morning, bp_intents = [i],
       bp_dues = [morning]\<rparr>"
    using minute_planned[OF leased_schedule] by blast
  let ?bp = "\<lparr>bp_next = morning + minute, bp_lastID = occurrence_id (unmarshalPeriodic leased_doc) morning, bp_intents = [i],
       bp_dues = [morning]\<rparr>"
  have "ps_NextDue (unmarshalPeriodic leased_doc) < bp_next ?bp"
    by (simp add: leased_doc_def minute_doc_def minute_schedule_def duration_defs)
  then have "planned (unmarshalPeriodic leased_doc) ?bp" using beat_schedule_occurrences[OF i] by (auto simp: occurrences_def)
  then obtain st where st: "CommitOccurrence utc_only plain_codec (\<lambda>_. Some []) (morning + second) (unmarshalPeriodic leased_doc)
     (bp_next ?bp) (bp_lastID ?bp) (bp_intents ?bp) leased_store = Inr st"
    using minute_committed[of ?bp i] by auto
  let ?s3 = "?s2\<lparr>bs_store := st, bs_held := (bs_held ?s2)(0 := []),
      bs_log := bs_log ?s2 @ map (\<lambda>d. (ps_ID (unmarshalPeriodic leased_doc), bs_changes ?s2 (ps_ID (unmarshalPeriodic leased_doc)), d))
        (bp_dues ?bp)\<rparr>"
  have 3: "beat_step ?s2 ?s3"
    by (rule beat_step.commit[OF _ i, where cdc = plain_codec and marshal = "\<lambda>_. Some []"])
       (use st in \<open>simp_all add: quiet_system_def minute_env_def\<close>)
  have "beat_step\<^sup>*\<^sup>* quiet_system ?s3" using 1 2 3 by (meson converse_rtranclp_into_rtranclp rtranclp.rtrancl_refl)
  moreover have "bs_log ?s3 = [(ps_ID minute_schedule, 1, morning)]"
    by (simp add: quiet_system_def leased_doc_def minute_doc_def)
  ultimately show ?thesis by blast
qed

lemma quiet_ok: "bs_log quiet_system = []" "bs_held quiet_system = (\<lambda>_. [])" "named (bs_store quiet_system)"
  "due_indexed (bs_store quiet_system)" "st_intents (bs_store quiet_system) = (\<lambda>_ _. None)"
  by (simp_all add: quiet_system_def no_schedules_def named_def due_indexed_def)

subsection \<open>The properties\<close>

text \<open>
  C25. Occurrences of a schedule are committed once. However beats, administrators, relays, pollers and failures
  interleave, from a store with an empty outbox: between two changes of a schedule by an administrator,
  no occurrence of it is committed twice, its committed occurrences increase, and they lie before the instant at
  which it is due next. An administrator may move a schedule back, and then its occurrences are committed anew;
  but every committed occurrence has its publication in the outbox, under an identifier that only the schedule
  and the instant determine, and whatever happens later that publication stays as it was staged first: it is not
  staged a second time, and a delivered one stays delivered.
\<close>

theorem occurrence_once:
  assumes "beat_step\<^sup>*\<^sup>* s0 s" "bs_log s0 = []" "bs_held s0 = (\<lambda>_. [])" "named (bs_store s0)"
    "st_intents (bs_store s0) = (\<lambda>_ _. None)"
  shows "distinct (bs_log s) \<and> (\<forall>i n. sorted_wrt (<) (dues_of i n (bs_log s)))
    \<and> (\<forall>(i, n, due) \<in> set (bs_log s).
         n \<le> bs_changes s i
         \<and> (n = bs_changes s i \<longrightarrow> (\<exists>d. sc_items (bs_store s) i = Some d \<and> due < ps_NextDue (sd_Payload d)))
         \<and> (\<exists>d due'. st_intents (bs_store s) i (intent_of i due) = Some d
              \<and> intent_of i due' = intent_of i due \<and> publishes i due' (d_Payload d)
              \<and> (\<forall>s'. beat_step\<^sup>*\<^sup>* s s' \<longrightarrow> (\<exists>d'. st_intents (bs_store s') i (intent_of i due) = Some d'
                    \<and> d_Payload d' = d_Payload d \<and> (d_Delivered d \<longrightarrow> d' = d)))))"
proof -
  have "beat_inv s0" using assms(2-5) by (simp add: beat_inv_def log_sorted_def dues_of_def publications_def)
  then have inv: "beat_inv s" by (rule beat_run_inv[OF assms(1)])
  have "n \<le> bs_changes s i
         \<and> (n = bs_changes s i \<longrightarrow> (\<exists>d. sc_items (bs_store s) i = Some d \<and> due < ps_NextDue (sd_Payload d)))
         \<and> (\<exists>d due'. st_intents (bs_store s) i (intent_of i due) = Some d
              \<and> intent_of i due' = intent_of i due \<and> publishes i due' (d_Payload d)
              \<and> (\<forall>s'. beat_step\<^sup>*\<^sup>* s s' \<longrightarrow> (\<exists>d'. st_intents (bs_store s') i (intent_of i due) = Some d'
                    \<and> d_Payload d' = d_Payload d \<and> (d_Delivered d \<longrightarrow> d' = d))))"
    if "(i, n, due) \<in> set (bs_log s)" for i n due
  proof -
    have log: "logged s (i, n, due)" using inv that by (simp add: beat_inv_def)
    then obtain d where d: "st_intents (bs_store s) i (intent_of i due) = Some d" by (auto simp: logged_def)
    moreover obtain due' where "intent_of i due' = intent_of i due" "publishes i due' (d_Payload d)"
      using inv d unfolding beat_inv_def publications_def by metis
    moreover have "\<exists>d'. st_intents (bs_store s') i (intent_of i due) = Some d' \<and> d_Payload d' = d_Payload d \<and> (d_Delivered d \<longrightarrow> d' = d)"
      if "beat_step\<^sup>*\<^sup>* s s'" for s'
      using outbox_followsD[OF beat_run_outbox[OF that inv] d] by (auto simp: doc_follows_def)
    ultimately show ?thesis using log by (auto simp: logged_def)
  qed
  then show ?thesis using inv by (auto simp: beat_inv_def log_sorted_distinct log_sorted_def)
qed

theorem occurrence_once_witness:
  "\<exists>s. beat_step\<^sup>*\<^sup>* quiet_system s \<and> bs_log s = [(ps_ID minute_schedule, 1, morning)] \<and> distinct (bs_log s)
     \<and> st_intents (bs_store s) (ps_ID minute_schedule) (intent_of (ps_ID minute_schedule) morning) \<noteq> None"
proof -
  obtain s where s: "beat_step\<^sup>*\<^sup>* quiet_system s" "bs_log s = [(ps_ID minute_schedule, 1, morning)]" using minute_run by blast
  show ?thesis using occurrence_once[OF s(1) quiet_ok(1-3,5)] s by fastforce
qed

text \<open>
  C26. The index of due times agrees with the documents in every reachable state. It lists exactly the enabled
  schedules and the delayed tasks that have not fired, each at the millisecond when it is to be looked at next:
  when its lease ends if it is leased, and otherwise at its due instant. So a scan that is not cut off by its limit
  finds exactly the schedules that are due, a schedule whose beat died among them once the lease is over, and
  the lease script never fails on a missing document.
\<close>

theorem schedules_indexed:
  assumes "beat_step\<^sup>*\<^sup>* s0 s" "due_indexed (bs_store s0)"
  shows "(\<forall>t i. (t, i) \<in> set (sc_due (bs_store s)) \<longleftrightarrow>
        (\<exists>d. sc_items (bs_store s) i = Some d \<and> sd_Enabled d
           \<and> t = (if sd_Owner d \<noteq> [] then sd_LeaseMillis d else UnixMilli (ps_NextDue (sd_Payload d)))))
    \<and> (\<forall>t i. (t, i) \<in> set (sc_delayed_due (bs_store s)) \<longleftrightarrow>
        (\<exists>d. sc_delayed (bs_store s) i = Some d
           \<and> t = (if dd_Owner d \<noteq> [] then dd_LeaseMillis d else UnixMilli (e_ETA (dd_Payload d)))))
    \<and> (\<forall>i now. i \<in> set (zdue now (Partition i) (length (sc_due (bs_store s))) (sc_due (bs_store s)))
        \<longleftrightarrow> (\<exists>d. sc_items (bs_store s) i = Some d \<and> sd_Enabled d
           \<and> (if sd_Owner d \<noteq> [] then sd_LeaseMillis d else UnixMilli (ps_NextDue (sd_Payload d))) \<le> now))
    \<and> periodicLease clock part owner limit lease (bs_store s) \<noteq> Inl (ErrBackend ''GOGO_MISSING_SCHEDULE'')"
proof -
  have due: "due_indexed (bs_store s)" using assms by (induction rule: rtranclp_induct) (auto intro: beat_step_indexed)
  then have "\<forall>i now. i \<in> set (zdue now (Partition i) (length (sc_due (bs_store s))) (sc_due (bs_store s)))
        \<longleftrightarrow> (\<exists>d. sc_items (bs_store s) i = Some d \<and> sd_Enabled d \<and> schedule_score d \<le> now)"
    using indexed_due by blast
  then show ?thesis using due indexed_lease_found unfolding due_indexed_def schedule_score_def delayed_score_def by blast
qed

theorem schedules_indexed_witness:
  "\<exists>s. beat_step\<^sup>*\<^sup>* quiet_system s \<and> bs_log s \<noteq> []
     \<and> (\<forall>t i. (t, i) \<in> set (sc_due (bs_store s)) \<longrightarrow> sc_items (bs_store s) i \<noteq> None)"
proof -
  obtain s where s: "beat_step\<^sup>*\<^sup>* quiet_system s" "bs_log s = [(ps_ID minute_schedule, 1, morning)]" using minute_run by blast
  have "\<forall>t i. (t, i) \<in> set (sc_due (bs_store s)) \<longrightarrow> sc_items (bs_store s) i \<noteq> None"
    using schedules_indexed[OF s(1) quiet_ok(4)] by blast
  then show ?thesis using s by auto
qed

end
