(* ===== verification/Db_Transactions.thy ===== *)
theory Db_Transactions
  imports Go_Prelude
begin

text \<open>
  Transaction control of \<open>core/db/transactions.go\<close>: the chain of \<open>transactionContext\<close> nodes that a
  context carries, \<open>current\<close>, \<open>InTransaction\<close>, \<open>MarkRollback\<close>, \<open>OnCommit\<close> and \<open>Atomic\<close> with its
  deferred cleanup.

  The chain is a list, innermost node first: the context of a block is the chain of the nodes around
  it. The nodes are mutable in the code, so every operation returns the chain it leaves. What the
  database, the clock of a context and the application's commit callbacks answer is not code of the
  repository: it is the parameter \<open>answer\<close>, an arbitrary function of the history of events so far and
  of the next event. The history is the log of the world; \<open>savepointSequence\<close> is read as an unbounded
  counter. The application code inside a block is an arbitrary tree of \<open>app_action\<close>s, with errors and
  panics that it may let through or handle.
\<close>

section \<open>Data\<close>

datatype statement = SAVEPOINT nat | ROLLBACK_TO_SAVEPOINT nat | RELEASE_SAVEPOINT nat | SQL string

datatype executor = On_tx nat | On_backend string

datatype event =
    Ctx_Err
  | BeginTx string
  | Exec executor statement
  | Commit nat
  | Rollback nat
  | Register nat nat
  | Run nat nat
  | Run_now nat

datatype reply = Good | Bad | Panics

datatype tx_error =
    Nil_callback | Nil_backend | Context_error | Durable_nested | Driver | Marked | Callback_failed
  | Committed_callbacks "nat list" | App string

datatype outcome = Returned | Failed "tx_error list" | Panicked

record transactionContext =
  tc_alias :: string
  tc_tx :: nat
  tc_callbacks :: "(nat \<times> bool) list"
  tc_rollbackOnly :: bool

record tx_world =
  w_seq :: nat
  w_next :: nat
  w_log :: "(event \<times> reply) list"

type_synonym answer = "(event \<times> reply) list \<Rightarrow> event \<Rightarrow> reply"
type_synonym chain = "transactionContext list"
type_synonym block = "chain \<Rightarrow> tx_world \<Rightarrow> outcome \<times> chain \<times> tx_world"

section \<open>The chain\<close>

fun current :: "chain \<Rightarrow> string \<Rightarrow> nat option" where
  "current [] alias = None"
| "current (tx # parents) alias =
     (if tc_alias tx = alias then Some 0 else map_option Suc (current parents alias))"

definition InTransaction :: "chain \<Rightarrow> string \<Rightarrow> bool" where
  "InTransaction ctx alias = (current ctx alias \<noteq> None)"

definition mark_frame :: "nat \<Rightarrow> chain \<Rightarrow> chain" where
  "mark_frame i ctx = ctx[i := (ctx ! i)\<lparr>tc_rollbackOnly := True\<rparr>]"

definition append_callbacks :: "nat \<Rightarrow> (nat \<times> bool) list \<Rightarrow> chain \<Rightarrow> chain" where
  "append_callbacks i cbs ctx = ctx[i := (ctx ! i)\<lparr>tc_callbacks := tc_callbacks (ctx ! i) @ cbs\<rparr>]"

definition ask_backend :: "answer \<Rightarrow> event \<Rightarrow> tx_world \<Rightarrow> reply \<times> tx_world" where
  "ask_backend answer ev w = (let r = answer (w_log w) ev in (r, w\<lparr>w_log := w_log w @ [(ev, r)]\<rparr>))"

definition record_event :: "event \<Rightarrow> tx_world \<Rightarrow> tx_world" where
  "record_event ev w = w\<lparr>w_log := w_log w @ [(ev, Good)]\<rparr>"

definition ExecutorFor :: "chain \<Rightarrow> string \<Rightarrow> executor" where
  "ExecutorFor ctx alias =
     (case current ctx alias of Some i \<Rightarrow> On_tx (tc_tx (ctx ! i)) | None \<Rightarrow> On_backend alias)"

definition MarkRollback :: "chain \<Rightarrow> string \<Rightarrow> chain" where
  "MarkRollback ctx alias = (case current ctx alias of Some i \<Rightarrow> mark_frame i ctx | None \<Rightarrow> ctx)"

definition OnCommit :: "answer \<Rightarrow> string \<Rightarrow> nat option \<Rightarrow> bool \<Rightarrow> block" where
  "OnCommit answer alias callback robust ctx w =
     (case callback of
        None \<Rightarrow> (Failed [Nil_callback], ctx, w)
      | Some cb \<Rightarrow>
          (case current ctx alias of
             Some i \<Rightarrow> (Returned, append_callbacks i [(cb, robust)] ctx, record_event (Register (tc_tx (ctx ! i)) cb) w)
           | None \<Rightarrow>
               (case ask_backend answer (Run_now cb) w of
                  (Good, w') \<Rightarrow> (Returned, ctx, w')
                | (Bad, w') \<Rightarrow> (Failed [Callback_failed], ctx, w')
                | (Panics, w') \<Rightarrow> (Panicked, ctx, w'))))"

section \<open>Atomic\<close>

text \<open>A nested block knows the position of its \<open>parent\<close> in the surrounding chain and the number of its
  savepoint; the outermost block of an alias has neither.\<close>

definition cleanup :: "answer \<Rightarrow> (nat \<times> nat) option \<Rightarrow> nat \<Rightarrow> tx_world \<Rightarrow> reply \<times> tx_world" where
  "cleanup answer nested t w =
     (case nested of
        Some (p, n) \<Rightarrow>
          (case ask_backend answer (Exec (On_tx t) (ROLLBACK_TO_SAVEPOINT n)) w of
             (r, w') \<Rightarrow> if r = Good then ask_backend answer (Exec (On_tx t) (RELEASE_SAVEPOINT n)) w' else (r, w'))
      | None \<Rightarrow> ask_backend answer (Rollback t) w)"

definition mark_parent :: "(nat \<times> nat) option \<Rightarrow> chain \<Rightarrow> chain" where
  "mark_parent nested ctx = (case nested of Some (p, n) \<Rightarrow> mark_frame p ctx | None \<Rightarrow> ctx)"

definition deferred :: "answer \<Rightarrow> (nat \<times> nat) option \<Rightarrow> transactionContext \<Rightarrow> outcome \<Rightarrow> block" where
  "deferred answer nested state res ctx w =
     (if res = Returned \<and> \<not> tc_rollbackOnly state then (Returned, ctx, w)
      else case cleanup answer nested (tc_tx state) w of
        (r, w') \<Rightarrow>
          (case res of
             Panicked \<Rightarrow> Panicked
           | Failed es \<Rightarrow> Failed (es @ (if r = Good then [] else [Driver]))
           | Returned \<Rightarrow> Failed (if r = Good then [Marked] else [Driver]),
           if r = Good then ctx else mark_parent nested ctx, w'))"

fun run_callbacks :: "answer \<Rightarrow> nat \<Rightarrow> (nat \<times> bool) list \<Rightarrow> nat list \<Rightarrow> tx_world \<Rightarrow> outcome \<times> tx_world" where
  "run_callbacks answer t [] errs w = (if errs = [] then Returned else Failed [Committed_callbacks errs], w)"
| "run_callbacks answer t ((cb, robust) # cbs) errs w =
     (case ask_backend answer (Run t cb) w of
        (Good, w') \<Rightarrow> run_callbacks answer t cbs errs w'
      | (Bad, w') \<Rightarrow>
          if robust then run_callbacks answer t cbs (errs @ [cb]) w'
          else (Failed [Committed_callbacks (errs @ [cb])], w')
      | (Panics, w') \<Rightarrow> (Panicked, w'))"

definition finish_block ::
  "answer \<Rightarrow> (nat \<times> nat) option \<Rightarrow> transactionContext \<Rightarrow> chain \<Rightarrow> tx_world \<Rightarrow> bool \<times> outcome \<times> chain \<times> tx_world" where
  "finish_block answer nested state ctx w =
     (if tc_rollbackOnly state then (False, Failed [Marked], ctx, w)
      else case nested of
        Some (p, n) \<Rightarrow>
          (case ask_backend answer (Exec (On_tx (tc_tx state)) (RELEASE_SAVEPOINT n)) w of
             (r, w') \<Rightarrow> if r = Good then (False, Returned, append_callbacks p (tc_callbacks state) ctx, w')
                       else (False, Failed [Driver], mark_frame p ctx, w'))
      | None \<Rightarrow>
          (case ask_backend answer (Commit (tc_tx state)) w of
             (r, w') \<Rightarrow> if r \<noteq> Good then (False, Failed [Driver], ctx, w')
                       else case run_callbacks answer (tc_tx state) (tc_callbacks state) [] w' of
                         (res, w'') \<Rightarrow> (True, res, ctx, w'')))"

definition atomic_block :: "answer \<Rightarrow> (nat \<times> nat) option \<Rightarrow> transactionContext \<Rightarrow> block \<Rightarrow> block" where
  "atomic_block answer nested state fn ctx w =
     (case fn (state # ctx) w of
        (res, ctx', w') \<Rightarrow>
          if res = Returned then
            (case finish_block answer nested (hd ctx') (tl ctx') w' of
               (committed, res', ctx'', w'') \<Rightarrow>
                 if committed then (res', ctx'', w'') else deferred answer nested (hd ctx') res' ctx'' w'')
          else deferred answer nested (hd ctx') res (tl ctx') w')"

definition Atomic :: "answer \<Rightarrow> string option \<Rightarrow> bool \<Rightarrow> block option \<Rightarrow> block" where
  "Atomic answer backend durable callback ctx w =
     (case callback of
        None \<Rightarrow> (Failed [Nil_callback], ctx, w)
      | Some fn \<Rightarrow>
     (case backend of
        None \<Rightarrow> (Failed [Nil_backend], ctx, w)
      | Some alias \<Rightarrow>
     (case ask_backend answer Ctx_Err w of
        (r, w0) \<Rightarrow>
          if r \<noteq> Good then (Failed [Context_error], ctx, w0)
          else case current ctx alias of
            Some p \<Rightarrow>
              if durable then (Failed [Durable_nested], ctx, w0)
              else let n = Suc (w_seq w0); t = tc_tx (ctx ! p) in
                (case ask_backend answer (Exec (On_tx t) (SAVEPOINT n)) (w0\<lparr>w_seq := n\<rparr>) of
                   (r, w1) \<Rightarrow>
                     if r \<noteq> Good then (Failed [Driver], mark_frame p ctx, w1)
                     else atomic_block answer (Some (p, n))
                            \<lparr>tc_alias = alias, tc_tx = t, tc_callbacks = [], tc_rollbackOnly = False\<rparr> fn ctx w1)
          | None \<Rightarrow>
              (case ask_backend answer (BeginTx alias) w0 of
                 (r, w1) \<Rightarrow>
                   if r \<noteq> Good then (Failed [Driver], ctx, w1)
                   else atomic_block answer None
                          \<lparr>tc_alias = alias, tc_tx = w_next w1, tc_callbacks = [], tc_rollbackOnly = False\<rparr>
                          fn ctx (w1\<lparr>w_next := Suc (w_next w1)\<rparr>)))))"

section \<open>Application code inside a block\<close>

datatype app_action =
    Do_Statement string string
  | Do_OnCommit string "nat option" bool
  | Do_MarkRollback string
  | Do_Atomic "string option" bool "app_action list option"
  | Do_Return string
  | Do_Panic
  | Do_Attempt bool "app_action list" "app_action list" "app_action list"

definition do_statement :: "answer \<Rightarrow> string \<Rightarrow> string \<Rightarrow> block" where
  "do_statement answer alias q ctx w =
     (case ask_backend answer (Exec (ExecutorFor ctx alias) (SQL q)) w of
        (r, w') \<Rightarrow> (if r = Good then Returned else Failed [Driver], ctx, w'))"

definition and_then :: "outcome \<times> chain \<times> tx_world \<Rightarrow> block \<Rightarrow> outcome \<times> chain \<times> tx_world" where
  "and_then x k = (case x of (res, ctx, w) \<Rightarrow> if res = Returned then k ctx w else x)"

definition attempt :: "bool \<Rightarrow> outcome \<times> chain \<times> tx_world \<Rightarrow> block \<Rightarrow> block \<Rightarrow> outcome \<times> chain \<times> tx_world" where
  "attempt recovers x ok bad =
     (case x of (res, ctx, w) \<Rightarrow>
        if res = Returned then ok ctx w
        else if res = Panicked \<and> \<not> recovers then x
        else bad ctx w)"

fun run :: "answer \<Rightarrow> app_action list \<Rightarrow> block" where
  "run answer [] ctx w = (Returned, ctx, w)"
| "run answer (Do_Statement alias q # rest) ctx w =
     and_then (do_statement answer alias q ctx w) (\<lambda>ctx w. run answer rest ctx w)"
| "run answer (Do_OnCommit alias callback robust # rest) ctx w =
     and_then (OnCommit answer alias callback robust ctx w) (\<lambda>ctx w. run answer rest ctx w)"
| "run answer (Do_MarkRollback alias # rest) ctx w = run answer rest (MarkRollback ctx alias) w"
| "run answer (Do_Atomic backend durable None # rest) ctx w =
     and_then (Atomic answer backend durable None ctx w) (\<lambda>ctx w. run answer rest ctx w)"
| "run answer (Do_Atomic backend durable (Some body) # rest) ctx w =
     and_then (Atomic answer backend durable (Some (\<lambda>ctx w. run answer body ctx w)) ctx w)
       (\<lambda>ctx w. run answer rest ctx w)"
| "run answer (Do_Return e # rest) ctx w = (Failed [App e], ctx, w)"
| "run answer (Do_Panic # rest) ctx w = (Panicked, ctx, w)"
| "run answer (Do_Attempt recovers body ok bad # rest) ctx w =
     and_then (attempt recovers (run answer body ctx w) (\<lambda>ctx w. run answer ok ctx w) (\<lambda>ctx w. run answer bad ctx w))
       (\<lambda>ctx w. run answer rest ctx w)"

end
