(* ===== verification/Db_Atomicity.thy ===== *)
theory Db_Atomicity
  imports Db_Transactions "HOL-Library.Sublist"
begin

text \<open>
  What \<open>Atomic\<close> guarantees, against an abstract view of the database. \<open>scopes\<close> reads the log of one
  transaction with the documented meaning of SQL savepoints: each open savepoint is a scope holding
  the work done since, RELEASE merges a scope into the one around it, ROLLBACK TO empties it. The
  invariant relates every node of a chain to its scope, until the node is marked for rollback.
\<close>

section \<open>Savepoint scopes\<close>

datatype entry = Write string | Hook nat

type_synonym scope = "nat \<times> entry list"

fun add_entry :: "entry \<Rightarrow> scope list \<Rightarrow> scope list" where
  "add_entry x [] = []"
| "add_entry x ((k, es) # below) = (k, es @ [x]) # below"

fun merge_down :: "entry list \<Rightarrow> scope list \<Rightarrow> scope list" where
  "merge_down xs [] = []"
| "merge_down xs ((k, es) # below) = (k, es @ xs) # below"

definition rollback_to :: "nat \<Rightarrow> scope list \<Rightarrow> scope list" where
  "rollback_to n ss =
     (case dropWhile (\<lambda>s. fst s \<noteq> n) ss of [] \<Rightarrow> ss | s # below \<Rightarrow> (n, []) # below)"

definition release_to :: "nat \<Rightarrow> scope list \<Rightarrow> scope list" where
  "release_to n ss =
     (case dropWhile (\<lambda>s. fst s \<noteq> n) ss of
        [] \<Rightarrow> ss
      | s # below \<Rightarrow> merge_down (snd s @ concat (map snd (rev (takeWhile (\<lambda>s. fst s \<noteq> n) ss)))) below)"

fun sql_statement :: "statement \<Rightarrow> scope list \<Rightarrow> scope list" where
  "sql_statement (SAVEPOINT n) ss = (n, []) # ss"
| "sql_statement (ROLLBACK_TO_SAVEPOINT n) ss = rollback_to n ss"
| "sql_statement (RELEASE_SAVEPOINT n) ss = release_to n ss"
| "sql_statement (SQL q) ss = add_entry (Write q) ss"

fun sql_event :: "nat \<Rightarrow> scope list \<Rightarrow> event \<times> reply \<Rightarrow> scope list" where
  "sql_event t ss (Exec (On_tx u) st, Good) = (if u = t then sql_statement st ss else ss)"
| "sql_event t ss (Register u cb, Good) = (if u = t then add_entry (Hook cb) ss else ss)"
| "sql_event t ss e = ss"

definition scopes :: "nat \<Rightarrow> (event \<times> reply) list \<Rightarrow> scope list" where
  "scopes t lg = foldl (sql_event t) [(0, [])] lg"

fun hooks :: "entry list \<Rightarrow> nat list" where
  "hooks [] = []"
| "hooks (Write q # es) = hooks es"
| "hooks (Hook cb # es) = cb # hooks es"

fun runs :: "nat \<Rightarrow> (event \<times> reply) list \<Rightarrow> nat list" where
  "runs t [] = []"
| "runs t ((Run u cb, r) # lg) = (if u = t then cb # runs t lg else runs t lg)"
| "runs t (e # lg) = runs t lg"

lemma hooks_append [simp]: "hooks (xs @ ys) = hooks xs @ hooks ys"
  by (induction xs rule: hooks.induct) auto

lemma runs_append [simp]: "runs t (xs @ ys) = runs t xs @ runs t ys"
  by (induction t xs rule: runs.induct) auto

lemma scopes_Nil [simp]: "scopes t [] = [(0, [])]"
  by (simp add: scopes_def)


section \<open>Frames and scopes\<close>






definition weaker :: "transactionContext \<Rightarrow> transactionContext \<Rightarrow> bool" where
  "weaker f g \<longleftrightarrow> tc_alias g = tc_alias f \<and> tc_tx g = tc_tx f \<and> (tc_rollbackOnly f \<longrightarrow> tc_rollbackOnly g) \<and>
     (tc_rollbackOnly g \<or> tc_callbacks g = tc_callbacks f)"









section \<open>The fate of callbacks\<close>





















section \<open>The invariant of a running block\<close>

















lemma weaker_refl: "weaker f f"
  by (simp add: weaker_def)

lemma mark_weaker: "list_all2 weaker ctx (mark_frame i ctx)"
  unfolding mark_frame_def
  by (cases "i < length ctx")
     (auto simp: nth_list_update weaker_def list_all2_refl weaker_refl intro!: list_all2_all_nthI)

lemma mark_parent_weaker: "list_all2 weaker ctx (mark_parent nested ctx)"
  by (auto simp: mark_parent_def mark_weaker list_all2_refl weaker_refl split: option.splits)






section \<open>Leaving a block\<close>

















section \<open>Commit and its callbacks\<close>






section \<open>Every operation keeps the invariant\<close>





























section \<open>Guarantees\<close>










end
