(* ===== verification/Db_Routing.thy ===== *)
theory Db_Routing
  imports Models_Schema Db_Transactions
begin

text \<open>
  Routing of database operations (\<open>src/core/db/routing.go\<close>, \<open>routing_context.go\<close>, \<open>routing_transactions.go\<close>):
  building a router, resolving a request to a backend, admitting statements of a binding, the consistency
  bookkeeping of a request, and transactions that only their own router may use.

  Rules and backends are callbacks of the application: each may answer or panic, and a rule also says what its
  context answers afterwards. Between two callbacks the error of a context does not change. A pointer is a
  number: consistency states and witnesses live in a store, since every context of a request shares them.
\<close>

subsection \<open>Requests, callbacks and errors\<close>

datatype 'a callback = Returns 'a | Raises

record route_request =
  rq_Model :: string
  rq_Alias :: string
  rq_Operation :: string
  rq_PrimaryRequired :: bool

definition RouteRead :: string where "RouteRead = ''read''"
definition RouteWrite :: string where "RouteWrite = ''write''"
definition RouteTransaction :: string where "RouteTransaction = ''transaction''"

record routing_error =
  re_Model :: string
  re_Alias :: string
  re_Operation :: string
  re_reason :: string

datatype route_error =
  Routing_failure routing_error | Context_over string | Unsupported string | Atomic_error string

text \<open>A rule answers with a value (none when it fails) and the error its context has afterwards.\<close>

record routing_rule =
  rl_Select :: "route_request \<Rightarrow> (string option \<times> string option) callback"
  rl_Allow :: "route_request \<Rightarrow> string \<Rightarrow> (bool \<times> string option) callback"

record db_backend =
  bk_Alias :: "string callback"
  bk_comparable :: bool
  bk_Dialect :: "string option callback"
  bk_Capabilities :: "(string \<times> bool) list callback"
  bk_MaxParameters :: "int callback option"

definition routingName :: "string \<Rightarrow> bool" where
  "routingName value = (length value > 0 \<and> length value \<le> 128 \<and> ValidIdentifier value)"

definition routingModel :: "string \<Rightarrow> bool" where
  "routingModel value = (case cut (CHR ''.'') value of (app, model, ok) \<Rightarrow> ok \<and> routingName app \<and> routingName model)"

definition no_request :: route_request where
  "no_request = \<lparr>rq_Model = [], rq_Alias = [], rq_Operation = [], rq_PrimaryRequired = False\<rparr>"

definition routingFailure :: "route_request \<Rightarrow> string \<Rightarrow> string \<Rightarrow> route_error" where
  "routingFailure request alias_name reason =
     Routing_failure \<lparr>re_Model = (if routingModel (rq_Model request) then rq_Model request else []),
       re_Alias = (if routingName alias_name then alias_name else []),
       re_Operation = (if rq_Operation request \<in> {RouteRead, RouteWrite, RouteTransaction} then rq_Operation request else []),
       re_reason = reason\<rparr>"

subsection \<open>The router\<close>

record router_source =
  so_alias :: string
  so_primary :: string
  so_backend :: db_backend

record router_state =
  rs_id :: nat
  rs_sources :: "string \<rightharpoonup> router_source"
  rs_defaultAlias :: string
  rs_replicas :: bool
  rs_rules :: "routing_rule list"

record routed_database =
  rd_Alias :: string
  rd_Primary :: string
  rd_Backend :: "db_backend option"

record router_config =
  rf_Databases :: "routed_database list"
  rf_Default :: string
  rf_EnableReplicas :: bool
  rf_Rules :: "routing_rule option list"

definition is_primary :: "(string \<rightharpoonup> router_source) \<Rightarrow> string \<Rightarrow> bool" where
  "is_primary sources name = (case sources name of None \<Rightarrow> False | Some p \<Rightarrow> so_primary p = so_alias p)"

definition add_source :: "routed_database \<Rightarrow> (string \<rightharpoonup> router_source) \<Rightarrow> route_error + (string \<rightharpoonup> router_source)" where
  "add_source item sources =
     (case rd_Backend item of
        None \<Rightarrow> Inl (routingFailure no_request [] ''configuration'')
      | Some backend \<Rightarrow>
          let primary = (if rd_Primary item = [] then rd_Alias item else rd_Primary item) in
          if \<not> routingName (rd_Alias item) \<or> sources (rd_Alias item) \<noteq> None \<or> \<not> bk_comparable backend \<or> \<not> routingName primary
          then Inl (routingFailure no_request [] ''configuration'')
          else Inr (sources(rd_Alias item \<mapsto> \<lparr>so_alias = rd_Alias item, so_primary = primary, so_backend = backend\<rparr>)))"

definition source_primary :: "(string \<rightharpoonup> router_source) \<Rightarrow> string \<Rightarrow> string" where
  "source_primary sources name = (case sources name of None \<Rightarrow> [] | Some s \<Rightarrow> so_primary s)"

definition check_alias :: "routed_database \<Rightarrow> route_error option" where
  "check_alias item =
     (case rd_Backend item of
        None \<Rightarrow> Some (routingFailure no_request [] ''configuration'')
      | Some backend \<Rightarrow>
          (case bk_Alias backend of
             Raises \<Rightarrow> Some (routingFailure no_request [] ''configuration'')
           | Returns a \<Rightarrow> if a = rd_Alias item then None else Some (routingFailure no_request (rd_Alias item) ''alias'')))"

text \<open>The topology check names the first bad source of the declaration; Go's map order names any of them.\<close>

definition NewRouter :: "nat \<Rightarrow> router_config \<Rightarrow> route_error + router_state" where
  "NewRouter i config =
     (let databases = rf_Databases config; failure = routingFailure no_request [] ''configuration'' in
      if length databases < 1 \<or> length databases > 64 \<or> length (rf_Rules config) > 16 \<or> \<not> routingName (rf_Default config)
      then Inl failure
      else if list_ex (\<lambda>r. r = None) (rf_Rules config) then Inl failure
      else try_then (each add_source databases (\<lambda>_. None)) (\<lambda>sources.
        case find (\<lambda>d. \<not> is_primary sources (source_primary sources (rd_Alias d))) databases of
          Some d \<Rightarrow> Inl (routingFailure no_request (rd_Alias d) ''topology'')
        | None \<Rightarrow>
            if \<not> is_primary sources (rf_Default config) then Inl (routingFailure no_request [] ''default'')
            else (case first_error check_alias databases of
                    Some e \<Rightarrow> Inl e
                  | None \<Rightarrow> Inr \<lparr>rs_id = i, rs_sources = sources, rs_defaultAlias = rf_Default config,
                                  rs_replicas = rf_EnableReplicas config, rs_rules = map the (rf_Rules config)\<rparr>)))"

subsection \<open>Contexts and the store\<close>

record tx_frame =
  tf_id :: nat
  tf_alias :: string
  tf_tx :: nat

record tx_witness =
  wi_id :: nat
  wi_state :: nat
  wi_source :: string
  wi_transaction :: tx_frame

text \<open>A context: its error, the chains of transactions and witnesses, and per router a consistency state.\<close>

record route_context =
  cx_Err :: "string option"
  cx_transaction :: "tx_frame list"
  cx_witness :: "tx_witness list"
  cx_consistency :: "nat \<Rightarrow> nat option"

record routing_consistency =
  co_families :: "(string \<times> string) list"
  co_dirty :: "string \<Rightarrow> bool"

record routing_store =
  st_consistency :: "nat \<Rightarrow> routing_consistency"
  st_active :: "nat \<Rightarrow> bool"
  st_fresh :: nat

definition routingContext :: "route_context \<Rightarrow> route_error option" where
  "routingContext ctx =
     (case cx_Err ctx of
        None \<Rightarrow> None
      | Some e \<Rightarrow> if e \<in> {''context canceled'', ''context deadline exceeded''} then Some (Context_over e)
                 else Some (routingFailure no_request [] ''context''))"

definition snapshotContext :: "route_context option \<Rightarrow> route_error + route_context" where
  "snapshotContext ctx =
     (case ctx of
        None \<Rightarrow> Inl (routingFailure no_request [] ''context'')
      | Some c \<Rightarrow> (case routingContext c of Some e \<Rightarrow> Inl e | None \<Rightarrow> Inr c))"

definition WithConsistency :: "router_state \<Rightarrow> route_context option \<Rightarrow> routing_store \<Rightarrow> (route_error + route_context) \<times> routing_store" where
  "WithConsistency r ctx st =
     (case snapshotContext ctx of
        Inl e \<Rightarrow> (Inl e, st)
      | Inr c \<Rightarrow>
          (Inr (c\<lparr>cx_consistency := (cx_consistency c)(rs_id r \<mapsto> st_fresh st)\<rparr>),
           st\<lparr>st_consistency := (st_consistency st)(st_fresh st := \<lparr>co_families = [], co_dirty = (\<lambda>_. False)\<rparr>),
              st_fresh := Suc (st_fresh st)\<rparr>))"

fun ambient_walk :: "router_state \<Rightarrow> (nat \<Rightarrow> bool) \<Rightarrow> string \<Rightarrow> tx_frame list \<Rightarrow> tx_witness list \<Rightarrow> route_error option" where
  "ambient_walk r active first [] [] = None"
| "ambient_walk r active first [] (w # ws) = Some (routingFailure no_request [] ''expired transaction'')"
| "ambient_walk r active first (t # ts) [] = Some (routingFailure no_request [] ''unmanaged or cross-alias transaction'')"
| "ambient_walk r active first (t # ts) (w # ws) =
     (if \<not> active (wi_id w) \<or> wi_state w \<noteq> rs_id r \<or> wi_transaction w \<noteq> t \<or> tf_alias t \<noteq> wi_source w \<or> first \<noteq> wi_source w
      then Some (routingFailure no_request [] ''unmanaged or cross-alias transaction'')
      else ambient_walk r active first ts ws)"

definition ambient :: "router_state \<Rightarrow> routing_store \<Rightarrow> route_context \<Rightarrow> route_error + tx_witness option" where
  "ambient r st ctx =
     (let first = (case cx_witness ctx of [] \<Rightarrow> [] | w # _ \<Rightarrow> wi_source w) in
      case ambient_walk r (st_active st) first (cx_transaction ctx) (cx_witness ctx) of
        Some e \<Rightarrow> Inl e
      | None \<Rightarrow> Inr (case cx_witness ctx of [] \<Rightarrow> None | w # _ \<Rightarrow> Some w))"

subsection \<open>Admission\<close>

record route_backend =
  rb_state :: router_state
  rb_source :: router_source
  rb_request :: route_request
  rb_consistency :: "nat option"
  rb_dialect :: string
  rb_capabilities :: "(string \<times> bool) list"
  rb_maximum :: int

abbreviation refuse :: "route_backend \<Rightarrow> string \<Rightarrow> route_error" where
  "refuse b reason \<equiv> routingFailure (rb_request b) (so_alias (rb_source b)) reason"

abbreviation on_primary :: "route_backend \<Rightarrow> bool" where
  "on_primary b \<equiv> so_alias (rb_source b) = so_primary (rb_source b)"

text \<open>The bookkeeping of an admitted operation: the family of its model, and the mark of a write.\<close>

definition pin :: "route_backend \<Rightarrow> bool \<Rightarrow> routing_consistency \<Rightarrow> route_error + routing_consistency" where
  "pin b write c =
     (let primary = so_primary (rb_source b); model = rq_Model (rb_request b);
          known = (case map_of (co_families c) model of None \<Rightarrow> [] | Some p \<Rightarrow> p);
          mark = (\<lambda>c. Inr (if write then c\<lparr>co_dirty := (co_dirty c)(primary := True)\<rparr> else c)) in
      if \<not> on_primary b \<and> co_dirty c primary then Inl (refuse b ''primary required'')
      else if model = [] then mark c
      else if known \<noteq> [] \<and> known \<noteq> primary then Inl (refuse b ''model family changed'')
      else if known = []
      then if length (co_families c) \<ge> 1024 then Inl (refuse b ''request model limit'')
           else mark (c\<lparr>co_families := (model, primary) # co_families c\<rparr>)
      else mark c)"

definition route_operation ::
  "route_backend \<Rightarrow> route_context option \<Rightarrow> bool \<Rightarrow> routing_store
   \<Rightarrow> (route_error + route_context \<times> tx_witness option) \<times> routing_store" where
  "route_operation b ctx write st =
     (case snapshotContext ctx of
        Inl e \<Rightarrow> (Inl e, st)
      | Inr ctx \<Rightarrow>
          if cx_consistency ctx (rs_id (rb_state b)) \<noteq> rb_consistency b
          then (Inl (refuse b ''operation context changed''), st)
          else case ambient (rb_state b) st ctx of
            Inl e \<Rightarrow> (Inl e, st)
          | Inr witness \<Rightarrow>
              if witness \<noteq> None \<and> wi_source (the witness) \<noteq> so_alias (rb_source b)
              then (Inl (refuse b ''transaction mismatch''), st)
              else if write \<and> \<not> on_primary b then (Inl (refuse b ''primary required''), st)
              else (case rb_consistency b of
                      None \<Rightarrow> (Inr (ctx, witness), st)
                    | Some i \<Rightarrow>
                        (case pin b write (st_consistency st i) of
                           Inl e \<Rightarrow> (Inl e, st)
                         | Inr c \<Rightarrow> (Inr (ctx, witness), st\<lparr>st_consistency := (st_consistency st)(i := c)\<rparr>))))"

definition admit :: "route_backend \<Rightarrow> route_context option \<Rightarrow> bool \<Rightarrow> routing_store \<Rightarrow> route_error option \<times> routing_store" where
  "admit b ctx write st =
     (case route_operation b ctx write st of (Inl e, st') \<Rightarrow> (Some e, st') | (Inr _, st') \<Rightarrow> (None, st'))"

subsection \<open>Resolving a request\<close>

text \<open>The context that a rule leaves: over with the given error, or unchanged.\<close>

definition after_rule :: "route_context \<Rightarrow> string option \<Rightarrow> route_error option" where
  "after_rule ctx err = routingContext (ctx\<lparr>cx_Err := err\<rparr>)"

fun select_alias :: "routing_rule list \<Rightarrow> route_context \<Rightarrow> route_request \<Rightarrow> route_error + string" where
  "select_alias [] ctx request = Inr []"
| "select_alias (rule # rules) ctx request =
     (case rl_Select rule request of
        Raises \<Rightarrow> Inl (routingFailure request [] ''callback'')
      | Returns (None, _) \<Rightarrow> Inl (routingFailure request [] ''selection'')
      | Returns (Some selected, err) \<Rightarrow>
          (case after_rule ctx err of
             Some e \<Rightarrow> Inl e
           | None \<Rightarrow> if selected \<noteq> [] then Inr selected else select_alias rules ctx request))"

fun allow_all :: "routing_rule list \<Rightarrow> route_context \<Rightarrow> route_request \<Rightarrow> string \<Rightarrow> route_error option" where
  "allow_all [] ctx request name = None"
| "allow_all (rule # rules) ctx request name =
     (case rl_Allow rule request name of
        Raises \<Rightarrow> Some (routingFailure request [] ''callback'')
      | Returns (False, _) \<Rightarrow> Some (routingFailure request name ''denied'')
      | Returns (True, err) \<Rightarrow>
          (case after_rule ctx err of Some e \<Rightarrow> Some e | None \<Rightarrow> allow_all rules ctx request name))"

definition request_ok :: "route_request \<Rightarrow> bool" where
  "request_ok request \<longleftrightarrow>
     rq_Operation request \<in> {RouteRead, RouteWrite, RouteTransaction}
     \<and> (rq_Operation request \<noteq> RouteTransaction \<longrightarrow> routingModel (rq_Model request))
     \<and> (rq_Operation request = RouteTransaction \<longrightarrow> rq_Model request = [])
     \<and> (rq_Alias request \<noteq> [] \<longrightarrow> routingName (rq_Alias request))"

text \<open>A replica gives way to its primary when the request needs one and did not name the replica.\<close>

definition place_source ::
  "router_state \<Rightarrow> routing_consistency option \<Rightarrow> route_request \<Rightarrow> router_source \<Rightarrow> route_error + router_source \<times> route_request" where
  "place_source r consistency request0 source =
     (let request = (if consistency \<noteq> None \<and> co_dirty (the consistency) (so_primary source)
                     then request0\<lparr>rq_PrimaryRequired := True\<rparr> else request0) in
      if so_alias source = so_primary source then Inr (source, request)
      else if \<not> rs_replicas r then Inl (routingFailure request (so_alias source) ''replica disabled'')
      else if \<not> rq_PrimaryRequired request then Inr (source, request)
      else if rq_Alias request \<noteq> [] then Inl (routingFailure request (so_alias source) ''primary required'')
      else (case rs_sources r (so_primary source) of
              None \<Rightarrow> Inl (routingFailure request [] ''callback'')
            | Some primary \<Rightarrow> Inr (primary, request)))"

text \<open>The alias of a request: explicit, that of the transaction, selected by a rule, or the default.\<close>

definition choose_alias :: "router_state \<Rightarrow> route_context \<Rightarrow> tx_witness option \<Rightarrow> route_request \<Rightarrow> route_error + string" where
  "choose_alias r ctx witness request =
     (let preset = (if rq_Alias request = [] \<and> witness \<noteq> None then wi_source (the witness) else rq_Alias request) in
      if preset \<noteq> [] then Inr preset
      else try_then (select_alias (rs_rules r) ctx request) (\<lambda>selected.
        Inr (if selected = [] then rs_defaultAlias r else selected)))"

definition choose_source ::
  "router_state \<Rightarrow> route_context \<Rightarrow> routing_consistency option \<Rightarrow> tx_witness option \<Rightarrow> route_request
   \<Rightarrow> route_error + router_source \<times> route_request" where
  "choose_source r ctx consistency witness request =
     try_then (choose_alias r ctx witness request) (\<lambda>name.
       if \<not> routingName name then Inl (routingFailure request [] ''selection'')
       else (case rs_sources r name of
               None \<Rightarrow> Inl (routingFailure request [] ''selection'')
             | Some source \<Rightarrow> place_source r consistency request source))"

text \<open>What a binding keeps of its backend, read once.\<close>

definition read_backend ::
  "route_request \<Rightarrow> router_source \<Rightarrow> route_error + string \<times> (string \<times> bool) list \<times> int" where
  "read_backend request source =
     (let bk = so_backend source; failure = routingFailure request (so_alias source); panic = routingFailure request [] ''callback'' in
      case bk_Dialect bk of
        Raises \<Rightarrow> Inl panic
      | Returns None \<Rightarrow> Inl (failure ''dialect'')
      | Returns (Some dialect) \<Rightarrow>
          (case bk_Capabilities bk of
             Raises \<Rightarrow> Inl panic
           | Returns caps \<Rightarrow>
               if length caps > 256 \<or> list_ex (\<lambda>p. length (fst p) > 128) caps then Inl (failure ''capabilities'')
               else (case (case bk_MaxParameters bk of None \<Rightarrow> Returns 500 | Some m \<Rightarrow> m) of
                       Raises \<Rightarrow> Inl panic
                     | Returns maximum \<Rightarrow> if maximum < 1 then Inl (failure ''parameters'') else Inr (dialect, caps, maximum))))"

text \<open>The binding of an allowed source: admitted, read and admitted again.\<close>

definition bind_source ::
  "router_state \<Rightarrow> route_context \<Rightarrow> router_source \<Rightarrow> route_request \<Rightarrow> routing_store
   \<Rightarrow> (route_error + route_backend) \<times> routing_store" where
  "bind_source r ctx source request st =
     (let b = \<lparr>rb_state = r, rb_source = source, rb_request = request, rb_consistency = cx_consistency ctx (rs_id r),
               rb_dialect = [], rb_capabilities = [], rb_maximum = 0\<rparr> in
      case admit b (Some ctx) False st of
        (Some e, st1) \<Rightarrow> (Inl e, st1)
      | (None, st1) \<Rightarrow>
          (case read_backend request source of
             Inl e \<Rightarrow> (Inl e, st1)
           | Inr (dialect, caps, maximum) \<Rightarrow>
               let b = b\<lparr>rb_dialect := dialect, rb_capabilities := caps, rb_maximum := maximum\<rparr> in
               (case admit b (Some ctx) False st1 of
                  (Some e, st2) \<Rightarrow> (Inl e, st2)
                | (None, st2) \<Rightarrow> (Inr b, st2))))"

definition with_primary :: "router_state \<Rightarrow> route_context \<Rightarrow> tx_witness option \<Rightarrow> route_request \<Rightarrow> route_request" where
  "with_primary r ctx witness request =
     request\<lparr>rq_PrimaryRequired := rq_PrimaryRequired request \<or> rq_Operation request \<noteq> RouteRead
               \<or> cx_consistency ctx (rs_id r) = None \<or> witness \<noteq> None\<rparr>"

definition route_Resolve ::
  "router_state \<Rightarrow> route_context option \<Rightarrow> route_request \<Rightarrow> routing_store
   \<Rightarrow> (route_error + route_backend \<times> route_context) \<times> routing_store" where
  "route_Resolve r ctx0 request st =
     (if \<not> request_ok request then (Inl (routingFailure request [] ''request''), st)
      else case try_then (snapshotContext ctx0) (\<lambda>ctx.
             try_then (ambient r st ctx) (\<lambda>witness.
             try_then (choose_source r ctx (map_option (st_consistency st) (cx_consistency ctx (rs_id r))) witness
                         (with_primary r ctx witness request)) (\<lambda>(source, request').
               if witness \<noteq> None \<and> wi_source (the witness) \<noteq> so_alias source
               then Inl (routingFailure request' (so_alias source) ''transaction mismatch'')
               else case allow_all (rs_rules r) ctx request' (so_alias source) of
                 Some e \<Rightarrow> Inl e
               | None \<Rightarrow> Inr (ctx, source, request')))) of
        Inl e \<Rightarrow> (Inl e, st)
      | Inr (ctx, source, request') \<Rightarrow>
          (case bind_source r ctx source request' st of
             (Inl e, st') \<Rightarrow> (Inl e, st')
           | (Inr b, st') \<Rightarrow> (Inr (b, ctx), st')))"

subsection \<open>Statements and transactions of a binding\<close>

definition executor_of :: "route_backend \<Rightarrow> tx_witness option \<Rightarrow> executor" where
  "executor_of b witness =
     (case witness of Some w \<Rightarrow> On_tx (tf_tx (wi_transaction w)) | None \<Rightarrow> On_backend (so_alias (rb_source b)))"

definition route_statement ::
  "route_backend \<Rightarrow> route_context option \<Rightarrow> bool \<Rightarrow> routing_store \<Rightarrow> (route_error + executor) \<times> routing_store" where
  "route_statement b ctx write st =
     (case route_operation b ctx write st of
        (Inl e, st') \<Rightarrow> (Inl e, st')
      | (Inr (_, witness), st') \<Rightarrow> (Inr (executor_of b witness), st'))"

definition route_Exec :: "route_backend \<Rightarrow> route_context option \<Rightarrow> routing_store \<Rightarrow> (route_error + executor) \<times> routing_store" where
  "route_Exec b ctx st =
     (if rq_Operation (rb_request b) \<noteq> RouteWrite then (Inl (refuse b ''write binding required''), st)
      else route_statement b ctx True st)"

definition route_Query :: "route_backend \<Rightarrow> route_context option \<Rightarrow> routing_store \<Rightarrow> (route_error + executor) \<times> routing_store" where
  "route_Query b ctx st = route_statement b ctx (rq_Operation (rb_request b) = RouteWrite) st"

definition BeforeWrite :: "route_backend \<Rightarrow> route_context option \<Rightarrow> routing_store \<Rightarrow> route_error option \<times> routing_store" where
  "BeforeWrite b ctx st =
     (if rq_Operation (rb_request b) \<noteq> RouteWrite then (Some (routingFailure no_request [] ''write binding required''), st)
      else admit b ctx True st)"

text \<open>
  \<open>opened\<close> is the transaction that the backend begins, none when it or the savepoint of a nested block fails;
  the result is the context that the application's function runs in.
\<close>

definition binding_Atomic ::
  "route_backend \<Rightarrow> route_context option \<Rightarrow> bool \<Rightarrow> nat option \<Rightarrow> routing_store
   \<Rightarrow> (route_error + route_context) \<times> routing_store" where
  "binding_Atomic b ctx durable opened st =
     (if rq_Operation (rb_request b) = RouteRead then (Inl (routingFailure no_request [] ''transaction configuration''), st)
      else if \<not> on_primary b then (Inl (refuse b ''primary transaction required''), st)
      else case route_operation b ctx True st of
        (Inl e, st1) \<Rightarrow> (Inl e, st1)
      | (Inr (ctx1, parent), st1) \<Rightarrow>
          if map_of (rb_capabilities b) ''transactions'' \<noteq> Some True then (Inl (Unsupported ''transactions''), st1)
          else
            let name = so_alias (rb_source b);
                enclosing = find (\<lambda>t. tf_alias t = name) (cx_transaction ctx1) in
            if enclosing \<noteq> None \<and> durable then (Inl (Atomic_error ''durable Atomic must be outermost''), st1)
            else (case opened of
                    None \<Rightarrow> (Inl (Atomic_error ''begin''), st1)
                  | Some tx \<Rightarrow>
                      let t = \<lparr>tf_id = st_fresh st1, tf_alias = name,
                               tf_tx = (case enclosing of Some p \<Rightarrow> tf_tx p | None \<Rightarrow> tx)\<rparr>;
                          w = \<lparr>wi_id = Suc (st_fresh st1), wi_state = rs_id (rb_state b), wi_source = name, wi_transaction = t\<rparr> in
                      (Inr (ctx1\<lparr>cx_transaction := t # cx_transaction ctx1,
                                 cx_witness := w # (if parent = None then [] else cx_witness ctx1)\<rparr>),
                       st1\<lparr>st_active := (st_active st1)(Suc (st_fresh st1) := True), st_fresh := st_fresh st1 + 2\<rparr>)))"

text \<open>The function returned or panicked: its witness expires.\<close>

definition leave_Atomic :: "route_context \<Rightarrow> routing_store \<Rightarrow> routing_store" where
  "leave_Atomic ctx st =
     (case cx_witness ctx of [] \<Rightarrow> st | w # _ \<Rightarrow> st\<lparr>st_active := (st_active st)(wi_id w := False)\<rparr>)"

definition router_Atomic ::
  "router_state \<Rightarrow> route_context option \<Rightarrow> string \<Rightarrow> bool \<Rightarrow> nat option \<Rightarrow> routing_store
   \<Rightarrow> (route_error + route_context \<times> route_backend) \<times> routing_store" where
  "router_Atomic r ctx name durable opened st =
     (case route_Resolve r ctx \<lparr>rq_Model = [], rq_Alias = name, rq_Operation = RouteTransaction, rq_PrimaryRequired = True\<rparr> st of
        (Inl e, st1) \<Rightarrow> (Inl e, st1)
      | (Inr (b, ctx1), st1) \<Rightarrow>
          (case binding_Atomic b (Some ctx1) durable opened st1 of
             (Inl e, st2) \<Rightarrow> (Inl e, st2)
           | (Inr ctx2, st2) \<Rightarrow> (Inr (ctx2, b), st2)))"

end
