(* ===== verification/Db_Routing_Guarantees.thy ===== *)
theory Db_Routing_Guarantees
  imports Db_Routing
begin

text \<open>
  What routing guarantees: a built router has a sound topology, a resolved binding obeys the request, the rules
  and the ambient transaction, statements run in the transaction of their context, and within one consistency
  context a request reads its own writes and a model never changes its family of databases.
\<close>

subsection \<open>The topology of a router\<close>

definition sources_named :: "(string \<rightharpoonup> router_source) \<Rightarrow> bool" where
  "sources_named sources \<longleftrightarrow>
     (\<forall>name s. sources name = Some s \<longrightarrow> so_alias s = name \<and> routingName name \<and> routingName (so_primary s))"

definition router_wf :: "router_state \<Rightarrow> bool" where
  "router_wf r \<longleftrightarrow>
     sources_named (rs_sources r) \<and> is_primary (rs_sources r) (rs_defaultAlias r)
     \<and> (\<forall>name s. rs_sources r name = Some s \<longrightarrow> is_primary (rs_sources r) (so_primary s))"

lemma routingName_nonempty: "routingName s \<Longrightarrow> s \<noteq> []"
  by (auto simp: routingName_def)

lemma add_source_named:
  "add_source d sources = Inr sources' \<Longrightarrow> sources_named sources \<Longrightarrow>
   sources_named sources' \<and> dom sources' = insert (rd_Alias d) (dom sources)"
  by (auto simp: add_source_def sources_named_def Let_def split: option.splits if_splits)

lemma add_sources_named:
  "each add_source ds sources = Inr sources' \<Longrightarrow> sources_named sources \<Longrightarrow>
   sources_named sources' \<and> dom sources' = rd_Alias ` set ds \<union> dom sources"
proof (induction ds arbitrary: sources)
  case (Cons d ds)
  then obtain s1 where "add_source d sources = Inr s1" "each add_source ds s1 = Inr sources'" by auto
  then show ?case using Cons.IH[of s1] Cons.prems(2) add_source_named[of d sources s1] by auto
qed simp

lemma NewRouter_wf:
  assumes "NewRouter i config = Inr r"
  shows "router_wf r" "rs_id r = i"
proof -
  obtain sources where s: "each add_source (rf_Databases config) (\<lambda>_. None) = Inr sources"
      "find (\<lambda>d. \<not> is_primary sources (source_primary sources (rd_Alias d))) (rf_Databases config) = None"
      "is_primary sources (rf_Default config)" "rs_sources r = sources" "rs_defaultAlias r = rf_Default config" "rs_id r = i"
    using assms unfolding NewRouter_def Let_def by (auto simp del: find_None_iff split: if_splits option.splits)
  have "sources_named (\<lambda>_. None)" by (simp add: sources_named_def)
  from add_sources_named[OF s(1) this] have named: "sources_named sources" "dom sources = rd_Alias ` set (rf_Databases config)"
    by auto
  have "is_primary sources (so_primary src)" if "sources name = Some src" for name src
  proof -
    have "name \<in> rd_Alias ` set (rf_Databases config)" unfolding named(2)[symmetric] using that by (rule domI)
    then obtain d where "d \<in> set (rf_Databases config)" "name = rd_Alias d" by (elim imageE)
    then have "is_primary sources (source_primary sources name)" using s(2) by (auto simp: find_None_iff)
    then show ?thesis using that by (simp add: source_primary_def)
  qed
  then show "router_wf r" unfolding router_wf_def s(4,5) using s(3) named(1) by blast
  show "rs_id r = i" by (rule s(6))
qed

subsection \<open>Resolving\<close>

lemma ambient_chain:
  "ambient_walk r active first ts ws = None \<Longrightarrow> t \<in> set ts \<Longrightarrow> tf_alias t = first"
  by (induction r active first ts ws rule: ambient_walk.induct) (auto split: if_splits)

lemma ambient_head:
  "ambient_walk r active first (t # ts) (w # ws) = None \<Longrightarrow>
   wi_transaction w = t \<and> tf_alias t = wi_source w \<and> ambient_walk r active first ts ws = None"
  by (simp split: if_splits)

lemma ambient_witness:
  assumes "ambient r st ctx = Inr w"
  obtains "w = None" "cx_transaction ctx = []" "cx_witness ctx = []"
  | x t ts ws where "w = Some x" "cx_transaction ctx = t # ts" "cx_witness ctx = x # ws"
      "wi_transaction x = t" "wi_source x = tf_alias t" "\<forall>t' \<in> set ts. tf_alias t' = tf_alias t"
proof (cases "cx_transaction ctx")
  case Nil
  then show ?thesis using assms that(1) by (cases "cx_witness ctx") (simp_all add: ambient_def)
next
  case (Cons t ts)
  then obtain x ws where x: "cx_witness ctx = x # ws" "w = Some x" "ambient_walk r (st_active st) (wi_source x) (t # ts) (x # ws) = None"
    using assms by (cases "cx_witness ctx") (auto simp: ambient_def Let_def simp del: ambient_walk.simps(4) split: option.splits)
  from ambient_head[OF x(3)] have head: "wi_transaction x = t" "tf_alias t = wi_source x" "ambient_walk r (st_active st) (wi_source x) ts ws = None"
    by blast+
  have "\<forall>t' \<in> set ts. tf_alias t' = tf_alias t" using ambient_chain[OF head(3)] head(2) by simp
  then show ?thesis using that(2) Cons x(1,2) head(1,2) by metis
qed

lemma place_source_sound:
  assumes "place_source r consistency request s = Inr (source, request')" "router_wf r" "rs_sources r (so_alias s) = Some s"
  shows "rs_sources r (so_alias source) = Some source"
    and "rq_PrimaryRequired request \<Longrightarrow> so_alias source = so_primary source"
    and "\<not> rs_replicas r \<Longrightarrow> so_alias source = so_primary source"
    and "rq_Alias request \<noteq> [] \<Longrightarrow> source = s"
    and "\<exists>p. request' = request\<lparr>rq_PrimaryRequired := p\<rparr>"
proof -
  define marked where "marked = (if consistency \<noteq> None \<and> co_dirty (the consistency) (so_primary s)
      then request\<lparr>rq_PrimaryRequired := True\<rparr> else request)"
  have same: "rq_Alias marked = rq_Alias request" "rq_PrimaryRequired request \<Longrightarrow> rq_PrimaryRequired marked"
      "\<exists>p. marked = request\<lparr>rq_PrimaryRequired := p\<rparr>"
    by (auto simp: marked_def intro: exI[of _ "rq_PrimaryRequired request"])
  have "is_primary (rs_sources r) (so_primary s)" using assms(2,3) unfolding router_wf_def by blast
  then obtain p where p: "rs_sources r (so_primary s) = Some p" "so_alias p = so_primary s" "so_primary p = so_primary s"
    using assms(2) by (auto simp: is_primary_def router_wf_def sources_named_def split: option.splits)
  have cases: "request' = marked \<and> (so_alias s = so_primary s \<and> source = s
      \<or> rs_replicas r \<and> \<not> rq_PrimaryRequired marked \<and> source = s
      \<or> rs_replicas r \<and> rq_Alias request = [] \<and> source = p)"
    using assms(1) p(1) same(1) unfolding place_source_def Let_def marked_def[symmetric] by (auto split: if_splits)
  show "rs_sources r (so_alias source) = Some source" using cases p assms(3) by auto
  show "so_alias source = so_primary source" if "rq_PrimaryRequired request" using cases p same(2)[OF that] by auto
  show "so_alias source = so_primary source" if "\<not> rs_replicas r" using cases that by auto
  show "source = s" if "rq_Alias request \<noteq> []" using cases that by auto
  show "\<exists>p. request' = request\<lparr>rq_PrimaryRequired := p\<rparr>" using cases same(3) by auto
qed

lemma choose_source_placed:
  assumes "choose_source r ctx consistency witness request = Inr (source, request')" "router_wf r"
  obtains s where "place_source r consistency request s = Inr (source, request')" "rs_sources r (so_alias s) = Some s"
    "rq_Alias request \<noteq> [] \<Longrightarrow> so_alias s = rq_Alias request"
proof -
  obtain name s where name: "choose_alias r ctx witness request = Inr name" "rs_sources r name = Some s"
      "place_source r consistency request s = Inr (source, request')"
    using assms(1) by (auto simp: choose_source_def split: if_splits option.splits)
  have "so_alias s = name" using assms(2) name(2) by (auto simp: router_wf_def sources_named_def)
  moreover have "rq_Alias request \<noteq> [] \<Longrightarrow> name = rq_Alias request" using name(1) by (auto simp: choose_alias_def)
  ultimately show ?thesis using that name by metis
qed

lemma allow_all_allowed:
  "allow_all rules ctx request name = None \<Longrightarrow> rule \<in> set rules \<Longrightarrow> \<exists>err. rl_Allow rule request name = Returns (True, err)"
  by (induction rules) (auto split: callback.splits option.splits bool.splits prod.splits)

lemma snapshot_same: "snapshotContext ctx = Inr c \<Longrightarrow> ctx = Some c"
  by (auto simp: snapshotContext_def split: option.splits)

lemma bind_source_bound:
  assumes "bind_source r ctx source request st = (Inr b, st')"
  obtains b1 st1 where "rb_state b = r" "rb_source b = source" "rb_request b = request" "rb_consistency b = cx_consistency ctx (rs_id r)"
    "rb_source b1 = source" "rb_request b1 = request" "rb_consistency b1 = cx_consistency ctx (rs_id r)"
    "admit b1 (Some ctx) False st = (None, st1)" "admit b (Some ctx) False st1 = (None, st')"
proof -
  define b1 where "b1 = \<lparr>rb_state = r, rb_source = source, rb_request = request, rb_consistency = cx_consistency ctx (rs_id r),
      rb_dialect = [], rb_capabilities = [], rb_maximum = 0\<rparr>"
  obtain st1 where first: "admit b1 (Some ctx) False st = (None, st1)"
    using assms unfolding bind_source_def Let_def b1_def[symmetric] by (auto split: prod.splits option.splits)
  obtain d cs m where "read_backend request source = Inr (d, cs, m)"
    using assms first unfolding bind_source_def Let_def b1_def[symmetric] by (auto split: sum.splits)
  then have "b = b1\<lparr>rb_dialect := d, rb_capabilities := cs, rb_maximum := m\<rparr>" "admit b (Some ctx) False st1 = (None, st')"
    using assms first unfolding bind_source_def Let_def b1_def[symmetric] by (auto split: prod.splits option.splits)
  then show ?thesis using that[of b1 st1] first by (simp add: b1_def)
qed

lemma route_Resolve_bound:
  assumes "route_Resolve r ctx request st = (Inr (b, c), st')"
  obtains witness source request' where "ctx = Some c" "request_ok request" "ambient r st c = Inr witness"
    "choose_source r c (map_option (st_consistency st) (cx_consistency c (rs_id r))) witness (with_primary r c witness request)
       = Inr (source, request')"
    "witness \<noteq> None \<longrightarrow> wi_source (the witness) = so_alias source"
    "allow_all (rs_rules r) c request' (so_alias source) = None"
    "bind_source r c source request' st = (Inr b, st')"
  using assms unfolding route_Resolve_def
  by (auto split: if_splits sum.splits prod.splits option.splits dest!: snapshot_same)

lemma resolved:
  assumes "router_wf r" "route_Resolve r ctx request st = (Inr (b, c), st')"
  shows "rb_state b = r" "rb_consistency b = cx_consistency c (rs_id r)" "ctx = Some c"
    and "\<exists>p. rb_request b = request\<lparr>rq_PrimaryRequired := p\<rparr>"
    and "rs_sources r (so_alias (rb_source b)) = Some (rb_source b)"
    and "rq_Operation request \<noteq> RouteRead \<or> rq_PrimaryRequired request \<or> cx_consistency c (rs_id r) = None
           \<or> cx_transaction c \<noteq> [] \<or> \<not> rs_replicas r \<Longrightarrow> on_primary b"
    and "rq_Alias request \<noteq> [] \<Longrightarrow> so_alias (rb_source b) = rq_Alias request"
    and "\<forall>t \<in> set (cx_transaction c). tf_alias t = so_alias (rb_source b)"
    and "rule \<in> set (rs_rules r) \<Longrightarrow> \<exists>err. rl_Allow rule (rb_request b) (so_alias (rb_source b)) = Returns (True, err)"
proof -
  obtain witness source request' where R: "ctx = Some c" "ambient r st c = Inr witness"
    "choose_source r c (map_option (st_consistency st) (cx_consistency c (rs_id r))) witness (with_primary r c witness request)
       = Inr (source, request')"
    "witness \<noteq> None \<longrightarrow> wi_source (the witness) = so_alias source"
    "allow_all (rs_rules r) c request' (so_alias source) = None"
    "bind_source r c source request' st = (Inr b, st')"
    using route_Resolve_bound[OF assms(2)] by metis
  have b: "rb_state b = r" "rb_source b = source" "rb_request b = request'" "rb_consistency b = cx_consistency c (rs_id r)"
    using bind_source_bound[OF R(6)] by metis+
  obtain s where s: "place_source r (map_option (st_consistency st) (cx_consistency c (rs_id r))) (with_primary r c witness request) s
        = Inr (source, request')" "rs_sources r (so_alias s) = Some s"
      "rq_Alias request \<noteq> [] \<Longrightarrow> so_alias s = rq_Alias request"
    using choose_source_placed[OF R(3) assms(1)] by (auto simp: with_primary_def)
  note placed = place_source_sound[OF s(1) assms(1) s(2)]
  have "(witness = None \<longleftrightarrow> cx_transaction c = []) \<and> (\<forall>t \<in> set (cx_transaction c). tf_alias t = so_alias source)"
    by (rule ambient_witness[OF R(2)]) (use R(4) in auto)
  then have chain: "witness = None \<longleftrightarrow> cx_transaction c = []" "\<forall>t \<in> set (cx_transaction c). tf_alias t = so_alias source"
    by blast+
  show "rb_state b = r" "rb_consistency b = cx_consistency c (rs_id r)" "ctx = Some c" by (fact b(1) b(4) R(1))+
  show "\<exists>p. rb_request b = request\<lparr>rq_PrimaryRequired := p\<rparr>" using placed(5) b(3) by (auto simp: with_primary_def)
  show "rs_sources r (so_alias (rb_source b)) = Some (rb_source b)" using placed(1) b(2) by simp
  show "on_primary b" if "rq_Operation request \<noteq> RouteRead \<or> rq_PrimaryRequired request \<or> cx_consistency c (rs_id r) = None
           \<or> cx_transaction c \<noteq> [] \<or> \<not> rs_replicas r"
    using that placed(2,3) chain(1) b(2) by (auto simp: with_primary_def)
  show "so_alias (rb_source b) = rq_Alias request" if "rq_Alias request \<noteq> []"
    using placed(4) s(3)[OF that] that b(2) by (simp add: with_primary_def)
  show "\<forall>t \<in> set (cx_transaction c). tf_alias t = so_alias (rb_source b)" using chain(2) b(2) by simp
  show "\<exists>err. rl_Allow rule (rb_request b) (so_alias (rb_source b)) = Returns (True, err)" if "rule \<in> set (rs_rules r)"
    using allow_all_allowed[OF R(5) that] b(2,3) by simp
qed

subsection \<open>Admission\<close>

text \<open>Bookkeeping only grows: marks stay, and a pinned model keeps its family.\<close>

definition consistency_le :: "routing_consistency \<Rightarrow> routing_consistency \<Rightarrow> bool" where
  "consistency_le c c' \<longleftrightarrow>
     (\<forall>p. co_dirty c p \<longrightarrow> co_dirty c' p)
     \<and> (\<forall>m p. map_of (co_families c) m = Some p \<longrightarrow> p \<noteq> [] \<longrightarrow> map_of (co_families c') m = Some p)"

definition store_le :: "routing_store \<Rightarrow> routing_store \<Rightarrow> bool" where
  "store_le st st' \<longleftrightarrow> st_fresh st \<le> st_fresh st' \<and> (\<forall>i < st_fresh st. consistency_le (st_consistency st i) (st_consistency st' i))"

lemma consistency_le_refl [simp]: "consistency_le c c" by (simp add: consistency_le_def)

lemma store_le_refl [simp]: "store_le st st" by (simp add: store_le_def)

lemma store_le_trans: "store_le st st1 \<Longrightarrow> store_le st1 st2 \<Longrightarrow> store_le st st2"
  unfolding store_le_def consistency_le_def by (meson dual_order.trans order_less_le_trans)

lemma pin_effect:
  assumes "pin b write c = Inr c'"
  shows "consistency_le c c'"
    and "on_primary b \<or> \<not> co_dirty c (so_primary (rb_source b))"
    and "write \<Longrightarrow> co_dirty c' (so_primary (rb_source b))"
    and "rq_Model (rb_request b) \<noteq> [] \<Longrightarrow> so_primary (rb_source b) \<noteq> [] \<Longrightarrow>
           map_of (co_families c') (rq_Model (rb_request b)) = Some (so_primary (rb_source b))"
  using assms by (auto simp: pin_def consistency_le_def Let_def split: if_splits option.splits)

text \<open>What an admitted operation shows of the bookkeeping before and after it.\<close>

definition admitted :: "route_backend \<Rightarrow> bool \<Rightarrow> routing_store \<Rightarrow> routing_store \<Rightarrow> bool" where
  "admitted b write st st' \<longleftrightarrow>
     (write \<longrightarrow> on_primary b) \<and>
     (\<forall>i. rb_consistency b = Some i \<longrightarrow>
        (on_primary b \<or> \<not> co_dirty (st_consistency st i) (so_primary (rb_source b)))
        \<and> (write \<longrightarrow> co_dirty (st_consistency st' i) (so_primary (rb_source b)))
        \<and> (rq_Model (rb_request b) \<noteq> [] \<longrightarrow> so_primary (rb_source b) \<noteq> [] \<longrightarrow>
            map_of (co_families (st_consistency st' i)) (rq_Model (rb_request b)) = Some (so_primary (rb_source b))))"

lemma route_operation_effect:
  assumes "route_operation b ctx write st = (res, st')"
  shows "store_le st st'" "st_fresh st' = st_fresh st" "st_active st' = st_active st"
    and "res = Inr x \<Longrightarrow> admitted b write st st'"
  using assms pin_effect[of b "write"]
  by (auto simp: route_operation_def admitted_def store_le_def split: sum.splits if_splits option.splits)

subsection \<open>Statements\<close>

lemma admit_effect:
  assumes "admit b ctx write st = (res, st')"
  shows "store_le st st'" "st_fresh st' = st_fresh st"
    and "res = None \<Longrightarrow> admitted b write st st'"
  using assms route_operation_effect[of b ctx "write" st _ st'] by (auto simp: admit_def split: prod.splits sum.splits)

lemma statement_effect:
  assumes "route_statement b ctx write st = (res, st')"
  shows "store_le st st'" "st_fresh st' = st_fresh st"
    and "res = Inr x \<Longrightarrow> admitted b write st st'"
  using assms route_operation_effect[of b ctx "write" st _ st'] by (auto simp: route_statement_def split: prod.splits sum.splits)

lemma route_operation_witness:
  assumes "route_operation b ctx write st = (Inr (c, w), st')"
  shows "ctx = Some c" "ambient (rb_state b) st c = Inr w" "w \<noteq> None \<longrightarrow> wi_source (the w) = so_alias (rb_source b)"
  using assms by (auto simp: route_operation_def split: sum.splits if_splits option.splits dest!: snapshot_same)

lemma statement_executor:
  assumes "route_statement b ctx write st = (Inr ex, st')"
  shows "\<exists>c. ctx = Some c \<and> (\<forall>t \<in> set (cx_transaction c). tf_alias t = so_alias (rb_source b))
    \<and> ex = (case cx_transaction c of [] \<Rightarrow> On_backend (so_alias (rb_source b)) | t # _ \<Rightarrow> On_tx (tf_tx t))"
proof -
  obtain c w where c: "route_operation b ctx write st = (Inr (c, w), st')" "ex = executor_of b w"
    using assms by (auto simp: route_statement_def split: prod.splits sum.splits)
  note op = route_operation_witness[OF c(1)]
  show ?thesis
    by (rule exI[of _ c], rule ambient_witness[OF op(2)]) (use op(1,3) c(2) in \<open>auto simp: executor_of_def\<close>)
qed

subsection \<open>Everything a process does with a router\<close>

record routed_entry =
  en_write :: bool
  en_consistency :: "nat option"
  en_model :: string
  en_alias :: string
  en_primary :: string
  en_executor :: "executor option"

definition entry_of :: "route_backend \<Rightarrow> bool \<Rightarrow> executor option \<Rightarrow> routed_entry" where
  "entry_of b w ex = \<lparr>en_write = w, en_consistency = rb_consistency b, en_model = rq_Model (rb_request b),
     en_alias = so_alias (rb_source b), en_primary = so_primary (rb_source b), en_executor = ex\<rparr>"

record routed_system =
  sy_store :: routing_store
  sy_bindings :: "route_backend list"
  sy_log :: "routed_entry list"

definition logged_if :: "'a option \<Rightarrow> routed_entry \<Rightarrow> routed_entry list" where
  "logged_if res e = (case res of None \<Rightarrow> [] | Some _ \<Rightarrow> [e])"

definition ok :: "route_error + 'a \<Rightarrow> 'a option" where
  "ok res = (case res of Inl _ \<Rightarrow> None | Inr x \<Rightarrow> Some x)"

text \<open>A context only holds consistency states that exist.\<close>

definition ctx_known :: "router_state \<Rightarrow> routing_store \<Rightarrow> route_context option \<Rightarrow> bool" where
  "ctx_known r st ctx \<longleftrightarrow> (\<forall>c i. ctx = Some c \<longrightarrow> cx_consistency c (rs_id r) = Some i \<longrightarrow> i < st_fresh st)"

text \<open>
  Requests, bindings and transactions in any order and with any contexts. The log holds what was admitted: the
  statements with where they ran, and the writes that were announced or whose transaction was opened.
\<close>

inductive routed_step :: "router_state \<Rightarrow> routed_system \<Rightarrow> routed_system \<Rightarrow> bool" for r where
  consistency: "WithConsistency r ctx (sy_store s) = (res, st') \<Longrightarrow> routed_step r s (s\<lparr>sy_store := st'\<rparr>)"
| resolve: "ctx_known r (sy_store s) ctx \<Longrightarrow> route_Resolve r ctx request (sy_store s) = (res, st') \<Longrightarrow>
    routed_step r s (s\<lparr>sy_store := st', sy_bindings := (case ok res of None \<Rightarrow> [] | Some (b, _) \<Rightarrow> [b]) @ sy_bindings s\<rparr>)"
| exec: "b \<in> set (sy_bindings s) \<Longrightarrow> route_Exec b ctx (sy_store s) = (res, st') \<Longrightarrow>
    routed_step r s (s\<lparr>sy_store := st', sy_log := sy_log s @ logged_if (ok res) (entry_of b True (ok res))\<rparr>)"
| query: "b \<in> set (sy_bindings s) \<Longrightarrow> route_Query b ctx (sy_store s) = (res, st') \<Longrightarrow>
    routed_step r s (s\<lparr>sy_store := st',
      sy_log := sy_log s @ logged_if (ok res) (entry_of b (rq_Operation (rb_request b) = RouteWrite) (ok res))\<rparr>)"
| before_write: "b \<in> set (sy_bindings s) \<Longrightarrow> BeforeWrite b ctx (sy_store s) = (res, st') \<Longrightarrow>
    routed_step r s (s\<lparr>sy_store := st', sy_log := sy_log s @ (if res = None then [entry_of b True None] else [])\<rparr>)"
| atomic: "b \<in> set (sy_bindings s) \<Longrightarrow> binding_Atomic b ctx durable opened (sy_store s) = (res, st') \<Longrightarrow>
    routed_step r s (s\<lparr>sy_store := st', sy_log := sy_log s @ logged_if (ok res) (entry_of b True None)\<rparr>)"
| leave: "routed_step r s (s\<lparr>sy_store := leave_Atomic ctx (sy_store s)\<rparr>)"

definition fresh_system :: "routing_store \<Rightarrow> routed_system" where
  "fresh_system st = \<lparr>sy_store = st, sy_bindings = [], sy_log = []\<rparr>"

definition entry_ok :: "routing_store \<Rightarrow> routed_entry \<Rightarrow> bool" where
  "entry_ok st e \<longleftrightarrow> en_primary e \<noteq> [] \<and> (en_write e \<longrightarrow> en_alias e = en_primary e) \<and>
     (\<forall>i. en_consistency e = Some i \<longrightarrow> i < st_fresh st
        \<and> (en_write e \<longrightarrow> co_dirty (st_consistency st i) (en_primary e))
        \<and> (en_model e \<noteq> [] \<longrightarrow> map_of (co_families (st_consistency st i)) (en_model e) = Some (en_primary e)))"

definition binding_ok :: "router_state \<Rightarrow> routing_store \<Rightarrow> route_backend \<Rightarrow> bool" where
  "binding_ok r st b \<longleftrightarrow> rb_state b = r \<and> so_primary (rb_source b) \<noteq> [] \<and> (\<forall>i. rb_consistency b = Some i \<longrightarrow> i < st_fresh st)"

text \<open>The later operation of a pair runs on the primary that the earlier one wrote to.\<close>

definition reads_own :: "routed_entry \<Rightarrow> routed_entry \<Rightarrow> bool" where
  "reads_own e e' \<longleftrightarrow> (en_write e \<and> en_consistency e \<noteq> None \<and> en_consistency e' = en_consistency e
     \<and> en_primary e' = en_primary e \<longrightarrow> en_alias e' = en_primary e')"

definition routed_inv :: "router_state \<Rightarrow> routed_system \<Rightarrow> bool" where
  "routed_inv r s \<longleftrightarrow>
     (\<forall>b \<in> set (sy_bindings s). binding_ok r (sy_store s) b) \<and> (\<forall>e \<in> set (sy_log s). entry_ok (sy_store s) e)
     \<and> sorted_wrt reads_own (sy_log s)"

lemma entry_ok_mono: "entry_ok st e \<Longrightarrow> store_le st st' \<Longrightarrow> entry_ok st' e"
  unfolding entry_ok_def store_le_def consistency_le_def by (meson order_less_le_trans)

lemma binding_ok_mono: "binding_ok r st b \<Longrightarrow> store_le st st' \<Longrightarrow> binding_ok r st' b"
  unfolding binding_ok_def store_le_def by (meson order_less_le_trans)

lemma routed_inv_grows:
  assumes "routed_inv r s" "store_le (sy_store s) st'" "\<forall>b \<in> set bs. binding_ok r st' b"
    "\<forall>e \<in> set es. entry_ok st' e" "length es \<le> 1" "\<forall>e' \<in> set es. \<forall>e \<in> set (sy_log s). reads_own e e'"
  shows "routed_inv r (s\<lparr>sy_store := st', sy_bindings := bs @ sy_bindings s, sy_log := sy_log s @ es\<rparr>)"
proof -
  have "sorted_wrt reads_own es" using assms(5) by (cases es) auto
  then show ?thesis
    using assms entry_ok_mono binding_ok_mono by (auto simp: routed_inv_def sorted_wrt_append)
qed

lemma admitted_entry:
  assumes "binding_ok r st b" "admitted b w st st'" "st_fresh st \<le> st_fresh st'"
  shows "entry_ok st' (entry_of b w ex)"
    and "entry_ok st e \<Longrightarrow> reads_own e (entry_of b w ex)"
  using assms by (auto simp: entry_ok_def entry_of_def binding_ok_def admitted_def reads_own_def)

lemma routed_inv_logged:
  assumes "routed_inv r s" "b \<in> set (sy_bindings s)" "store_le (sy_store s) st'" "done \<Longrightarrow> admitted b w (sy_store s) st'"
  shows "routed_inv r (s\<lparr>sy_store := st', sy_log := sy_log s @ (if done then [entry_of b w ex] else [])\<rparr>)"
proof -
  have b: "binding_ok r (sy_store s) b" "\<forall>e \<in> set (sy_log s). entry_ok (sy_store s) e"
    using assms(1,2) by (auto simp: routed_inv_def)
  have "st_fresh (sy_store s) \<le> st_fresh st'" using assms(3) by (simp add: store_le_def)
  note entry = admitted_entry[OF b(1) _ this]
  let ?es = "if done then [entry_of b w ex] else []"
  have "routed_inv r (s\<lparr>sy_store := st', sy_bindings := [] @ sy_bindings s, sy_log := sy_log s @ ?es\<rparr>)"
    using routed_inv_grows[OF assms(1,3), of "[]" ?es] entry assms(4) b(2) by auto
  then show ?thesis by simp
qed

lemma bind_source_effect: "bind_source r ctx source request st = (res, st') \<Longrightarrow> store_le st st'"
  by (auto simp: bind_source_def Let_def dest: admit_effect(1) intro: store_le_trans
      split: prod.splits option.splits sum.splits)

lemma resolve_effect: "route_Resolve r ctx request st = (res, st') \<Longrightarrow> store_le st st'"
  by (auto simp: route_Resolve_def dest: bind_source_effect split: if_splits sum.splits prod.splits)

lemma resolve_bindings:
  assumes "router_wf r" "route_Resolve r ctx request st = (Inr (b, c), st')" "ctx_known r st ctx"
  shows "binding_ok r st' b"
proof -
  note b = resolved(1,2,3,5)[OF assms(1,2)]
  have "st_fresh st \<le> st_fresh st'" using resolve_effect[OF assms(2)] by (simp add: store_le_def)
  moreover have "so_primary (rb_source b) \<noteq> []"
    using assms(1) b(4) unfolding router_wf_def sources_named_def using routingName_nonempty by blast
  ultimately show ?thesis using b(1,2,3) assms(3) by (auto simp: binding_ok_def ctx_known_def)
qed

lemma consistency_effect: "WithConsistency r ctx st = (res, st') \<Longrightarrow> store_le st st'"
  by (auto simp: WithConsistency_def store_le_def split: sum.splits)

lemma atomic_effect:
  assumes "binding_Atomic b ctx durable opened st = (res, st')"
  shows "store_le st st'" and "res = Inr x \<Longrightarrow> admitted b True st st'"
proof -
  have "store_le st st' \<and> (res = Inr x \<longrightarrow> admitted b True st st')"
    if "route_operation b ctx True st = (out, st1)" for out st1
    using assms route_operation_effect[OF that] that
    by (auto simp: binding_Atomic_def Let_def store_le_def admitted_def split: if_splits sum.splits option.splits)
  then show "store_le st st'" "res = Inr x \<Longrightarrow> admitted b True st st'" by (metis prod.exhaust)+
qed

lemma leave_effect: "store_le st (leave_Atomic ctx st)"
  by (auto simp: leave_Atomic_def store_le_def split: list.splits)

lemma logged_if_ok: "logged_if (ok res) e = (if \<not> isl res then [e] else [])"
  by (cases res) (simp_all add: logged_if_def ok_def)

lemma routed_step_inv:
  assumes "routed_step r s s'" "routed_inv r s" "router_wf r"
  shows "routed_inv r s'"
  using assms(1)
proof cases
  case (consistency ctx res st')
  then show ?thesis using routed_inv_grows[OF assms(2) consistency_effect, of r ctx res st' "[]" "[]"] by simp
next
  case (resolve ctx request res st')
  let ?bs = "case ok res of None \<Rightarrow> [] | Some (b, _) \<Rightarrow> [b]"
  have "\<forall>b \<in> set ?bs. binding_ok r st' b"
    using resolve(2,3) resolve_bindings[OF assms(3)] by (auto simp: ok_def split: sum.splits)
  then show ?thesis using routed_inv_grows[OF assms(2) resolve_effect[OF resolve(3)], of ?bs "[]"] resolve(1) by simp
next
  case (exec b ctx res st')
  have "store_le (sy_store s) st'" "\<not> isl res \<Longrightarrow> admitted b True (sy_store s) st'"
    using exec(3) statement_effect[of b ctx True "sy_store s" res st'] by (cases res; auto simp: route_Exec_def split: if_splits)+
  then show ?thesis using routed_inv_logged[OF assms(2) exec(2), of st' "\<not> isl res" True "ok res"] exec(1) unfolding logged_if_ok by blast
next
  case (query b ctx res st')
  let ?w = "rq_Operation (rb_request b) = RouteWrite"
  have "store_le (sy_store s) st'" "\<not> isl res \<Longrightarrow> admitted b ?w (sy_store s) st'"
    using query(3) statement_effect[of b ctx ?w "sy_store s" res st'] by (cases res; auto simp: route_Query_def)+
  then show ?thesis using routed_inv_logged[OF assms(2) query(2), of st' "\<not> isl res" ?w "ok res"] query(1) unfolding logged_if_ok by blast
next
  case (before_write b ctx res st')
  have "store_le (sy_store s) st'" "res = None \<Longrightarrow> admitted b True (sy_store s) st'"
    using before_write(3) admit_effect[of b ctx True "sy_store s" res st'] by (auto simp: BeforeWrite_def split: if_splits)
  then show ?thesis using routed_inv_logged[OF assms(2) before_write(2), of st' "res = None" True None] before_write(1) by blast
next
  case (atomic b ctx durable opened res st')
  have "store_le (sy_store s) st'" "\<not> isl res \<Longrightarrow> admitted b True (sy_store s) st'"
    using atomic_effect[OF atomic(3)] by (cases res; auto)+
  then show ?thesis using routed_inv_logged[OF assms(2) atomic(2), of st' "\<not> isl res" True None] atomic(1) unfolding logged_if_ok by blast
next
  case (leave ctx)
  then show ?thesis using routed_inv_grows[OF assms(2) leave_effect[of "sy_store s" ctx], of "[]" "[]"] by simp
qed

lemma routed_reachable_inv:
  assumes "(routed_step r)\<^sup>*\<^sup>* (fresh_system st) s" "router_wf r"
  shows "routed_inv r s"
  using assms(1)
proof induction
  case base
  then show ?case by (simp add: routed_inv_def fresh_system_def)
next
  case (step s s')
  then show ?case using routed_step_inv assms(2) by blast
qed

subsection \<open>Guarantees\<close>

lemma sorted_pairs: "sorted_wrt P xs \<Longrightarrow> i < j \<Longrightarrow> j < length xs \<Longrightarrow> P (xs ! i) (xs ! j)"
  by (simp add: sorted_wrt_iff_nth_less)

lemma own_writes:
  assumes "NewRouter n config = Inr r" "(routed_step r)\<^sup>*\<^sup>* (fresh_system st) s"
    and "i < j" "j < length (sy_log s)" "en_consistency (sy_log s ! i) = Some c" "en_consistency (sy_log s ! j) = Some c"
  shows "en_write (sy_log s ! i) \<Longrightarrow> en_primary (sy_log s ! j) = en_primary (sy_log s ! i) \<Longrightarrow>
           en_alias (sy_log s ! j) = en_primary (sy_log s ! i)"
    and "en_write (sy_log s ! j) \<Longrightarrow> en_alias (sy_log s ! j) = en_primary (sy_log s ! j)"
    and "en_model (sy_log s ! i) \<noteq> [] \<Longrightarrow> en_model (sy_log s ! j) = en_model (sy_log s ! i) \<Longrightarrow>
           en_primary (sy_log s ! j) = en_primary (sy_log s ! i)"
proof -
  have inv: "routed_inv r s" by (rule routed_reachable_inv[OF assms(2) NewRouter_wf(1)[OF assms(1)]])
  have "reads_own (sy_log s ! i) (sy_log s ! j)" using inv assms(3,4) by (simp add: routed_inv_def sorted_pairs)
  moreover have oks: "entry_ok (sy_store s) (sy_log s ! i)" "entry_ok (sy_store s) (sy_log s ! j)"
    using inv assms(3,4) by (simp_all add: routed_inv_def)
  ultimately show "en_write (sy_log s ! i) \<Longrightarrow> en_primary (sy_log s ! j) = en_primary (sy_log s ! i) \<Longrightarrow>
           en_alias (sy_log s ! j) = en_primary (sy_log s ! i)"
    using assms(5,6) by (simp add: reads_own_def)
  show "en_write (sy_log s ! j) \<Longrightarrow> en_alias (sy_log s ! j) = en_primary (sy_log s ! j)"
    using oks(2) by (simp add: entry_ok_def)
  show "en_model (sy_log s ! i) \<noteq> [] \<Longrightarrow> en_model (sy_log s ! j) = en_model (sy_log s ! i) \<Longrightarrow>
           en_primary (sy_log s ! j) = en_primary (sy_log s ! i)"
    using oks assms(5,6) by (simp add: entry_ok_def)
qed

text \<open>
  C32. A request reads its own writes. However resolving, statements, announced writes and transactions of a
  router are interleaved, and whatever contexts they are given: once a write was admitted on a primary within a
  consistency context, every later statement of that context on the same family of databases runs on the
  primary and never on a replica; writes always run on a primary; and all statements of one model within the
  context go to one family.
\<close>

theorem read_your_writes:
  assumes "NewRouter n config = Inr r" "(routed_step r)\<^sup>*\<^sup>* (fresh_system st) s"
    and "i < j" "j < length (sy_log s)" "en_consistency (sy_log s ! i) = Some c" "en_consistency (sy_log s ! j) = Some c"
  shows "(en_write (sy_log s ! i) \<and> en_primary (sy_log s ! j) = en_primary (sy_log s ! i) \<longrightarrow>
           en_alias (sy_log s ! j) = en_primary (sy_log s ! i))
    \<and> (en_write (sy_log s ! j) \<longrightarrow> en_alias (sy_log s ! j) = en_primary (sy_log s ! j))
    \<and> (en_model (sy_log s ! i) \<noteq> [] \<and> en_model (sy_log s ! j) = en_model (sy_log s ! i) \<longrightarrow>
         en_primary (sy_log s ! j) = en_primary (sy_log s ! i))"
  using own_writes[OF assms] by blast

text \<open>
  A resolved binding keeps to the request and to the configuration: its source is registered; an explicit
  alias is never replaced; anything but a read, anything inside a transaction, and anything outside a
  consistency context goes to a primary, as does everything while replicas are disabled; every transaction the
  context is in belongs to the same database; and every rule of the router allowed exactly this placement.
\<close>

lemma resolve_sound:
  assumes "NewRouter n config = Inr r" "route_Resolve r ctx request st = (Inr (b, c), st')"
  shows "rs_sources r (so_alias (rb_source b)) = Some (rb_source b)"
    and "rq_Alias request \<noteq> [] \<Longrightarrow> so_alias (rb_source b) = rq_Alias request"
    and "rq_Operation request \<noteq> RouteRead \<or> rq_PrimaryRequired request \<or> cx_consistency c (rs_id r) = None
           \<or> cx_transaction c \<noteq> [] \<or> \<not> rs_replicas r \<Longrightarrow> so_alias (rb_source b) = so_primary (rb_source b)"
    and "\<forall>t \<in> set (cx_transaction c). tf_alias t = so_alias (rb_source b)"
    and "\<forall>rule \<in> set (rs_rules r). \<exists>err. rl_Allow rule (rb_request b) (so_alias (rb_source b)) = Returns (True, err)"
  using resolved(5,7,6,8,9)[OF NewRouter_wf(1)[OF assms(1)] assms(2)] by blast+

text \<open>
  C33. A routed statement never leaves its transaction: when it is admitted in a context that is inside
  transactions, all of them belong to the database of the binding and the statement runs in the innermost one;
  outside any transaction it runs on the backend of the binding.
\<close>

theorem statement_in_transaction:
  assumes "route_Exec b ctx st = (Inr ex, st') \<or> route_Query b ctx st = (Inr ex, st')"
  shows "\<exists>c. ctx = Some c \<and> (\<forall>t \<in> set (cx_transaction c). tf_alias t = so_alias (rb_source b))
    \<and> ex = (case cx_transaction c of [] \<Rightarrow> On_backend (so_alias (rb_source b)) | t # _ \<Rightarrow> On_tx (tf_tx t))"
proof -
  obtain w where "route_statement b ctx w st = (Inr ex, st')"
    using assms by (auto simp: route_Exec_def route_Query_def split: if_splits)
  from statement_executor[OF this] show ?thesis .
qed

subsection \<open>A primary with a replica\<close>

definition plain_backend :: "string \<Rightarrow> db_backend" where
  "plain_backend name = \<lparr>bk_Alias = Returns name, bk_comparable = True, bk_Dialect = Returns (Some ''postgres''),
     bk_Capabilities = Returns [(''transactions'', True)], bk_MaxParameters = None\<rparr>"

definition prefer_copy :: routing_rule where
  "prefer_copy = \<lparr>rl_Select = (\<lambda>request. Returns (Some (if rq_Operation request = RouteRead then ''copy'' else []), None)),
     rl_Allow = (\<lambda>_ _. Returns (True, None))\<rparr>"

definition pair_config :: router_config where
  "pair_config = \<lparr>rf_Databases = [\<lparr>rd_Alias = ''main'', rd_Primary = [], rd_Backend = Some (plain_backend ''main'')\<rparr>,
       \<lparr>rd_Alias = ''copy'', rd_Primary = ''main'', rd_Backend = Some (plain_backend ''copy'')\<rparr>],
     rf_Default = ''main'', rf_EnableReplicas = True, rf_Rules = [Some prefer_copy]\<rparr>"

definition pair_router :: router_state where "pair_router = projr (NewRouter 0 pair_config)"

definition pair_store :: routing_store where
  "pair_store = \<lparr>st_consistency = (\<lambda>_. \<lparr>co_families = [], co_dirty = (\<lambda>_. False)\<rparr>), st_active = (\<lambda>_. False), st_fresh = 0\<rparr>"

definition pair_background :: route_context where
  "pair_background = \<lparr>cx_Err = None, cx_transaction = [], cx_witness = [], cx_consistency = (\<lambda>_. None)\<rparr>"

definition pair_ctx :: route_context where
  "pair_ctx = projr (fst (WithConsistency pair_router (Some pair_background) pair_store))"

definition pair_request :: "string \<Rightarrow> route_request" where
  "pair_request op = \<lparr>rq_Model = ''shop.Order'', rq_Alias = [], rq_Operation = op, rq_PrimaryRequired = False\<rparr>"

definition pair_open :: "routed_system \<Rightarrow> routed_system" where
  "pair_open s = s\<lparr>sy_store := snd (WithConsistency pair_router (Some pair_background) (sy_store s))\<rparr>"

definition pair_resolve :: "string \<Rightarrow> routed_system \<Rightarrow> routed_system" where
  "pair_resolve op s =
     (let out = route_Resolve pair_router (Some pair_ctx) (pair_request op) (sy_store s) in
      s\<lparr>sy_store := snd out, sy_bindings := (case ok (fst out) of None \<Rightarrow> [] | Some (b, _) \<Rightarrow> [b]) @ sy_bindings s\<rparr>)"

definition pair_exec :: "routed_system \<Rightarrow> routed_system" where
  "pair_exec s =
     (let b = hd (sy_bindings s); out = route_Exec b (Some pair_ctx) (sy_store s) in
      s\<lparr>sy_store := snd out, sy_log := sy_log s @ logged_if (ok (fst out)) (entry_of b True (ok (fst out)))\<rparr>)"

definition pair_query :: "routed_system \<Rightarrow> routed_system" where
  "pair_query s =
     (let b = hd (sy_bindings s); out = route_Query b (Some pair_ctx) (sy_store s) in
      s\<lparr>sy_store := snd out,
        sy_log := sy_log s @ logged_if (ok (fst out)) (entry_of b (rq_Operation (rb_request b) = RouteWrite) (ok (fst out)))\<rparr>)"

definition pair_opened :: routed_system where "pair_opened = pair_open (fresh_system pair_store)"
definition pair_bound :: routed_system where "pair_bound = pair_resolve RouteWrite pair_opened"
definition pair_written :: routed_system where "pair_written = pair_exec pair_bound"
definition pair_rebound :: routed_system where "pair_rebound = pair_resolve RouteRead pair_written"
definition pair_read :: routed_system where "pair_read = pair_query pair_rebound"

lemma pair_built: "NewRouter 0 pair_config = Inr pair_router"
proof -
  have "\<not> isl (NewRouter 0 pair_config)" by code_simp
  then show ?thesis by (cases "NewRouter 0 pair_config") (simp_all add: pair_router_def)
qed

lemma pair_facts:
  "length (sy_bindings pair_bound) = 1" "length (sy_bindings pair_rebound) = 2" "st_fresh (sy_store pair_opened) = 1"
  "st_fresh (sy_store pair_written) = 1" "cx_consistency pair_ctx (rs_id pair_router) = Some 0" "length (sy_log pair_read) = 2"
  "en_consistency (sy_log pair_read ! 0) = Some 0" "en_consistency (sy_log pair_read ! 1) = Some 0"
  "en_write (sy_log pair_read ! 0)" "en_primary (sy_log pair_read ! 0) = ''main''" "en_primary (sy_log pair_read ! 1) = ''main''"
  by code_simp+

lemma pair_head: "length (sy_bindings s) = Suc n \<Longrightarrow> hd (sy_bindings s) \<in> set (sy_bindings s)"
  by (cases "sy_bindings s") auto

lemma pair_steps:
  "routed_step pair_router s (pair_open s)"
  "ctx_known pair_router (sy_store s) (Some pair_ctx) \<Longrightarrow> routed_step pair_router s (pair_resolve op s)"
  "length (sy_bindings s) = Suc n \<Longrightarrow> routed_step pair_router s (pair_exec s)"
  "length (sy_bindings s) = Suc n \<Longrightarrow> routed_step pair_router s (pair_query s)"
  unfolding pair_open_def pair_resolve_def pair_exec_def pair_query_def Let_def
  by (blast intro: routed_step.intros surjective_pairing pair_head)+

lemma pair_reached: "(routed_step pair_router)\<^sup>*\<^sup>* (fresh_system pair_store) pair_read"
proof -
  have known: "ctx_known pair_router (sy_store pair_opened) (Some pair_ctx)" "ctx_known pair_router (sy_store pair_written) (Some pair_ctx)"
    using pair_facts(3-5) by (simp_all add: ctx_known_def)
  have s1: "routed_step pair_router (fresh_system pair_store) pair_opened" unfolding pair_opened_def by (rule pair_steps(1))
  have s2: "routed_step pair_router pair_opened pair_bound" unfolding pair_bound_def by (rule pair_steps(2)[OF known(1)])
  have s3: "routed_step pair_router pair_bound pair_written" unfolding pair_written_def
    by (rule pair_steps(3)[OF pair_facts(1)[unfolded One_nat_def]])
  have s4: "routed_step pair_router pair_written pair_rebound" unfolding pair_rebound_def by (rule pair_steps(2)[OF known(2)])
  have s5: "routed_step pair_router pair_rebound pair_read" unfolding pair_read_def
    by (rule pair_steps(4)[OF pair_facts(2)[unfolded numeral_2_eq_2]])
  note next_step = rtranclp.rtrancl_into_rtrancl
  show ?thesis by (rule next_step[OF next_step[OF next_step[OF next_step[OF r_into_rtranclp[of "routed_step pair_router", OF s1] s2] s3] s4] s5])
qed

theorem read_your_writes_witness:
  "en_write (sy_log pair_read ! 0) \<and> en_alias (sy_log pair_read ! 1) = ''main''"
  using read_your_writes[OF pair_built pair_reached, of 0 1 0] pair_facts(6-11) by simp

lemma pair_resolved: "route_Resolve pair_router (Some pair_ctx) (pair_request RouteRead) (sy_store pair_opened)
    = (Inr (projr (fst (route_Resolve pair_router (Some pair_ctx) (pair_request RouteRead) (sy_store pair_opened)))),
       snd (route_Resolve pair_router (Some pair_ctx) (pair_request RouteRead) (sy_store pair_opened)))"
proof -
  have "\<not> isl (fst (route_Resolve pair_router (Some pair_ctx) (pair_request RouteRead) (sy_store pair_opened)))" by code_simp
  then show ?thesis by (metis prod.collapse sum.collapse(2))
qed

lemma resolve_sound_example:
  "\<exists>b c st'. route_Resolve pair_router (Some pair_ctx) (pair_request RouteRead) (sy_store pair_opened) = (Inr (b, c), st')
     \<and> rs_sources pair_router (so_alias (rb_source b)) = Some (rb_source b)
     \<and> (\<forall>rule \<in> set (rs_rules pair_router). \<exists>err. rl_Allow rule (rb_request b) (so_alias (rb_source b)) = Returns (True, err))"
  using pair_resolved resolve_sound(1,5)[OF pair_built] by (metis prod.exhaust)

lemma pair_query_runs: "route_Query (hd (sy_bindings pair_rebound)) (Some pair_ctx) (sy_store pair_rebound)
    = (Inr (On_backend ''main''), snd (route_Query (hd (sy_bindings pair_rebound)) (Some pair_ctx) (sy_store pair_rebound)))"
proof -
  have "fst (route_Query (hd (sy_bindings pair_rebound)) (Some pair_ctx) (sy_store pair_rebound)) = Inr (On_backend ''main'')"
    by code_simp
  then show ?thesis by (metis prod.collapse)
qed

theorem statement_in_transaction_witness:
  "On_backend ''main'' = (case cx_transaction pair_ctx of
       [] \<Rightarrow> On_backend (so_alias (rb_source (hd (sy_bindings pair_rebound)))) | t # _ \<Rightarrow> On_tx (tf_tx t))"
  using statement_in_transaction[OF disjI2[OF pair_query_runs]] by blast

end
