(* ===== verification/Orm_Delete.thy ===== *)
theory Orm_Delete
  imports Models_Schema
begin

text \<open>
  Deletion planning of the ORM (\<open>src/core/orm/delete.go\<close>): collecting the rows that a deletion reaches
  through the relations of the registry, and executing the collected plan.

  A table is the list of its rows in the order of the primary key, the order the queries ask for. A
  predicate is its meaning on a row: \<open>Q(name, value)\<close>, for a field name that does not end in a lookup such as
  \<^verbatim>\<open>__gt\<close>, compiles to an equality, and to \<^verbatim>\<open>IS NULL\<close> for the value \<open>None\<close>. Values are as in the descriptors, so encoding and decoding them is the identity. JSON of
  key values, the computed defaults, field validation, the application's scope, authorization and
  receivers, and the check the database makes at commit are parameters. Contexts are not cancelled, the
  store has a backend and is not routed. A callback is given a detached view (\<open>delete_views.go\<close>) and returns it
  as the callback left it; copying and comparing views is the identity and equality of values.
\<close>

subsection \<open>Rows and records\<close>

type_synonym row = "string \<Rightarrow> go_any"
type_synonym database = "string \<Rightarrow> row list"

datatype delete_error =
  ErrDeleteLimit | ErrProtectedRelation | ErrNotFound | ErrNotUpdated | ErrDeleteCallbackMutation
  | Delete_error string | Recursion_exhausted

record model_record =
  rc_Schema :: schema
  rc_Values :: "string \<Rightarrow> go_any option"
  rc_Database :: string
  rc_Persisted :: bool
  rc_Deferred :: "string \<Rightarrow> bool"

definition record_Get :: "model_record \<Rightarrow> string \<Rightarrow> delete_error + go_any" where
  "record_Get r name =
     (case schema_Field (rc_Schema r) name of
        None \<Rightarrow> Inl (Delete_error ''models: unknown field'')
      | Some _ \<Rightarrow>
          if rc_Deferred r name then Inl (Delete_error ''models: field is deferred; fetch it explicitly'')
          else (case rc_Values r name of
             None \<Rightarrow> Inl (Delete_error ''models: field has not been loaded'')
           | Some v \<Rightarrow> Inr v))"

definition IsStored :: "field \<Rightarrow> bool" where
  "IsStored f = (fld_Kind f \<noteq> ManyToMany)"

record delete_collector =
  dc_Registry :: models_registry
  dc_Alias :: string
  dc_Scope :: "(schema \<Rightarrow> string + (row \<Rightarrow> bool)) option"
  dc_MaxObjects :: int
  dc_MaxWork :: int
  dc_marshal :: "go_any list \<Rightarrow> string option"
  dc_default :: "field \<Rightarrow> go_any"
  dc_validate :: "field \<Rightarrow> go_any \<Rightarrow> string option"

record protected_relation =
  pr_Record :: model_record
  pr_Field :: string
  pr_Policy :: string

record field_update =
  fu_Record :: model_record
  fu_Field :: string
  fu_Value :: go_any

record join_removal =
  jr_Record :: model_record
  jr_Endpoint :: model_record
  jr_Field :: string

record deletion_plan =
  dp_Objects :: "model_record list"
  dp_Updates :: "field_update list"
  dp_Protected :: "protected_relation list"
  dp_JoinRemovals :: "join_removal list"

subsection \<open>Queries\<close>

definition Q :: "string \<Rightarrow> go_any \<Rightarrow> row \<Rightarrow> bool" where
  "Q name value row = (row name = value)"

definition scoped_predicate :: "delete_collector \<Rightarrow> schema \<Rightarrow> (row \<Rightarrow> bool) \<Rightarrow> delete_error + (row \<Rightarrow> bool)" where
  "scoped_predicate c s p =
     (case dc_Scope c of
        None \<Rightarrow> Inr p
      | Some scope \<Rightarrow> (case scope s of Inl e \<Rightarrow> Inl (Delete_error e) | Inr q \<Rightarrow> Inr (\<lambda>row. p row \<and> q row)))"

definition fetched_record :: "delete_collector \<Rightarrow> schema \<Rightarrow> row \<Rightarrow> model_record" where
  "fetched_record c s row =
     \<lparr>rc_Schema = s,
      rc_Values = (\<lambda>n. if list_ex (\<lambda>f. IsStored f \<and> fld_Name f = n) (sch_Fields s) then Some (row n) else None),
      rc_Database = dc_Alias c, rc_Persisted = True, rc_Deferred = (\<lambda>_. False)\<rparr>"

definition delete_records ::
  "delete_collector \<Rightarrow> database \<Rightarrow> schema \<Rightarrow> (row \<Rightarrow> bool) \<Rightarrow> nat \<Rightarrow> delete_error + model_record list" where
  "delete_records c db s p limit =
     try_then (scoped_predicate c s p)
       (\<lambda>q. Inr (map (fetched_record c s) (take limit (filter q (db (DBTable s))))))"

fun pk_conditions :: "model_record \<Rightarrow> field list \<Rightarrow> delete_error + (string \<times> go_any) list" where
  "pk_conditions r [] = Inr []"
| "pk_conditions r (pk # pks) =
     try_then (record_Get r (fld_Name pk)) (\<lambda>v.
       if v = None then Inl (Delete_error ''orm: deletion requires a primary key'')
       else try_then (pk_conditions r pks) (\<lambda>vs. Inr ((fld_Name pk, v) # vs)))"

definition recordPK :: "model_record \<Rightarrow> delete_error + (row \<Rightarrow> bool)" where
  "recordPK r =
     try_then (pk_conditions r (PKFields (rc_Schema r))) (\<lambda>vs.
       if vs = [] then Inl (Delete_error ''orm: deletion requires a primary key'')
       else Inr (\<lambda>row. list_all (\<lambda>(n, v). Q n v row) vs))"

fun get_all :: "model_record \<Rightarrow> field list \<Rightarrow> delete_error + go_any list" where
  "get_all r [] = Inr []"
| "get_all r (f # fs) =
     try_then (record_Get r (fld_Name f)) (\<lambda>v. try_then (get_all r fs) (\<lambda>vs. Inr (v # vs)))"

definition recordIdentity :: "delete_collector \<Rightarrow> model_record \<Rightarrow> delete_error + string" where
  "recordIdentity c r =
     try_then (get_all r (PKFields (rc_Schema r))) (\<lambda>vs.
       if vs = [] then Inl (Delete_error ''orm: missing primary key'')
       else case dc_marshal c vs of
              None \<Rightarrow> Inl (Delete_error ''json'')
            | Some encoded \<Rightarrow> Inr (schema_Key (rc_Schema r) @ '':'' @ encoded))"

subsection \<open>Collecting\<close>

definition defaultDeleteLimit :: nat where "defaultDeleteLimit = 10000"

definition delete_maximum :: "delete_collector \<Rightarrow> nat" where
  "delete_maximum c = (if dc_MaxObjects c \<le> 0 then defaultDeleteLimit else nat (dc_MaxObjects c))"

definition delete_work_limit :: "delete_collector \<Rightarrow> nat" where
  "delete_work_limit c =
     (if dc_MaxWork c > 0 then nat (dc_MaxWork c)
      else if int (delete_maximum c) \<le> (2 ^ 63 - 1) div 32 then delete_maximum c * 32
      else delete_maximum c)"

record collecting =
  cl_work :: nat
  cl_fetched :: "string list"
  cl_seen :: "string list"
  cl_joins :: "string list"
  cl_restrictions :: "protected_relation list"
  cl_plan :: deletion_plan

definition tick :: "delete_collector \<Rightarrow> collecting \<Rightarrow> delete_error + collecting" where
  "tick c st =
     (if cl_work st + 1 > delete_work_limit c then Inl ErrDeleteLimit
      else Inr (st\<lparr>cl_work := cl_work st + 1\<rparr>))"

definition track :: "delete_collector \<Rightarrow> model_record \<Rightarrow> collecting \<Rightarrow> delete_error + collecting" where
  "track c r st =
     try_then (tick c st) (\<lambda>st. try_then (recordIdentity c r) (\<lambda>key.
       if key \<in> set (cl_fetched st) then Inr st
       else if length (cl_fetched st) \<ge> delete_maximum c then Inl ErrDeleteLimit
       else Inr (st\<lparr>cl_fetched := key # cl_fetched st\<rparr>)))"

definition on_plan :: "(deletion_plan \<Rightarrow> deletion_plan) \<Rightarrow> collecting \<Rightarrow> collecting" where
  "on_plan f st = st\<lparr>cl_plan := f (cl_plan st)\<rparr>"

definition add_object :: "model_record \<Rightarrow> collecting \<Rightarrow> collecting" where
  "add_object r = on_plan (\<lambda>p. p\<lparr>dp_Objects := dp_Objects p @ [r]\<rparr>)"

definition add_update :: "model_record \<Rightarrow> string \<Rightarrow> go_any \<Rightarrow> collecting \<Rightarrow> collecting" where
  "add_update r f v = on_plan (\<lambda>p. p\<lparr>dp_Updates := dp_Updates p @ [\<lparr>fu_Record = r, fu_Field = f, fu_Value = v\<rparr>]\<rparr>)"

definition add_protected :: "protected_relation \<Rightarrow> collecting \<Rightarrow> collecting" where
  "add_protected x = on_plan (\<lambda>p. p\<lparr>dp_Protected := dp_Protected p @ [x]\<rparr>)"

definition join_step ::
  "delete_collector \<Rightarrow> model_record \<Rightarrow> string \<Rightarrow> model_record \<Rightarrow> collecting \<Rightarrow> delete_error + collecting" where
  "join_step c endpoint name child st =
     try_then (recordIdentity c child) (\<lambda>key.
       if key \<in> set (cl_joins st) then Inr st
       else Inr (on_plan (\<lambda>p. p\<lparr>dp_JoinRemovals := dp_JoinRemovals p @
              [\<lparr>jr_Record = child, jr_Endpoint = endpoint, jr_Field = name\<rparr>]\<rparr>) (st\<lparr>cl_joins := key # cl_joins st\<rparr>)))"

definition default_value :: "delete_collector \<Rightarrow> field \<Rightarrow> go_any" where
  "default_value c f = (if fld_DefaultFunc f then dc_default c f else fld_Default f)"

definition policy_step ::
  "delete_collector \<Rightarrow> (model_record \<Rightarrow> collecting \<Rightarrow> delete_error + collecting) \<Rightarrow> field \<Rightarrow> string
   \<Rightarrow> model_record \<Rightarrow> collecting \<Rightarrow> delete_error + collecting" where
  "policy_step c visit f policy child st =
     (if policy = ''CASCADE'' then visit child st
      else if policy = ''PROTECT'' then
        Inr (add_protected \<lparr>pr_Record = child, pr_Field = fld_Name f, pr_Policy = ''PROTECT''\<rparr> st)
      else if policy = ''RESTRICT'' then
        Inr (st\<lparr>cl_restrictions := cl_restrictions st @
              [\<lparr>pr_Record = child, pr_Field = fld_Name f, pr_Policy = ''RESTRICT''\<rparr>]\<rparr>)
      else if policy = ''SET_NULL'' then
        (if \<not> fld_Null f then Inl (Delete_error ''orm: SET_NULL requires nullable relation'')
         else Inr (add_update child (fld_Name f) None st))
      else if policy = ''SET_DEFAULT'' then
        (let v = default_value c f in
         if v = None \<and> \<not> fld_Null f then Inl (Delete_error ''orm: SET_DEFAULT requires valid default'')
         else case dc_validate c f v of
                Some e \<Rightarrow> Inl (Delete_error e)
              | None \<Rightarrow> Inr (add_update child (fld_Name f) v st))
      else if policy = ''DO_NOTHING'' then Inr st
      else Inl (Delete_error ''orm: relation requires an explicit OnDelete policy''))"

definition child_step ::
  "delete_collector \<Rightarrow> (model_record \<Rightarrow> collecting \<Rightarrow> delete_error + collecting) \<Rightarrow> model_record \<Rightarrow> schema \<Rightarrow> field
   \<Rightarrow> relation \<Rightarrow> model_record \<Rightarrow> collecting \<Rightarrow> delete_error + collecting" where
  "child_step c visit record s f rel child st =
     try_then (track c child st)
       (if models_IsAutomatic (dc_Registry c) (schema_Key s) then join_step c record (fld_Name f) child
        else policy_step c visit f (rel_OnDelete rel) child)"

definition relation_keys :: "model_record \<Rightarrow> relation \<Rightarrow> string list" where
  "relation_keys r rel =
     (if rel_TargetFields rel = [] then map fld_Name (PKFields (rc_Schema r)) else rel_TargetFields rel)"

definition relation_step ::
  "delete_collector \<Rightarrow> database \<Rightarrow> (model_record \<Rightarrow> collecting \<Rightarrow> delete_error + collecting) \<Rightarrow> model_record
   \<Rightarrow> schema \<times> field \<Rightarrow> collecting \<Rightarrow> delete_error + collecting" where
  "relation_step c db visit record sf st =
     (case sf of (s, f) \<Rightarrow>
      case fld_Relation f of
        None \<Rightarrow> Inr st
      | Some rel \<Rightarrow>
          if \<not> IsStored f \<or> rel_Target rel \<noteq> schema_Key (rc_Schema record) then Inr st
          else if rel_NoConstraint rel
            then Inl (Delete_error ''orm: unconstrained relations require an explicit application deletion policy'')
          else try_then (tick c st) (\<lambda>st.
            if length (relation_keys record rel) \<noteq> 1
            then Inl (Delete_error ''orm: scalar relation requires one target field'')
            else try_then (record_Get record (hd (relation_keys record rel))) (\<lambda>value.
              let reader = (if models_IsAutomatic (dc_Registry c) (schema_Key s) then c\<lparr>dc_Scope := None\<rparr> else c) in
              try_then (delete_records reader db s (Q (fld_Name f) value) (delete_maximum c + 1)) (\<lambda>children.
                if length children > delete_maximum c then Inl ErrDeleteLimit
                else each (child_step c visit record s f rel) children st))))"

definition reverse_relations :: "delete_collector \<Rightarrow> (schema \<times> field) list" where
  "reverse_relations c = concat (map (\<lambda>s. map (Pair s) (sch_Fields s)) (models_All (dc_Registry c)))"

text \<open>The recursion is bounded by the number of objects; \<open>Suc (delete_maximum c)\<close> levels are always enough.\<close>

primrec delete_visit ::
  "nat \<Rightarrow> delete_collector \<Rightarrow> database \<Rightarrow> model_record \<Rightarrow> collecting \<Rightarrow> delete_error + collecting" where
  "delete_visit 0 = (\<lambda>c db record st. Inl Recursion_exhausted)"
| "delete_visit (Suc n) = (\<lambda>c db record st.
     try_then (tick c st) (\<lambda>st. try_then (recordIdentity c record) (\<lambda>key.
       if key \<in> set (cl_seen st) then Inr st
       else if length (cl_seen st) \<ge> delete_maximum c then Inl ErrDeleteLimit
       else try_then (each (relation_step c db (delete_visit n c db) record) (reverse_relations c)
                        (st\<lparr>cl_seen := key # cl_seen st\<rparr>))
              (\<lambda>st. Inr (add_object record st)))))"

definition root_step ::
  "delete_collector \<Rightarrow> database \<Rightarrow> model_record \<Rightarrow> collecting \<Rightarrow> delete_error + collecting" where
  "root_step c db root st =
     (if models_IsAutomatic (dc_Registry c) (schema_Key (rc_Schema root))
      then Inl (Delete_error ''orm: automatic intermediaries require a scoped deletion endpoint'')
      else if rc_Database root \<noteq> [] \<and> rc_Database root \<noteq> dc_Alias c
      then Inl (Delete_error ''orm: cross-database deletion rejected'')
      else try_then (recordPK root) (\<lambda>p. try_then (delete_records c db (rc_Schema root) p 2) (\<lambda>rows.
        case rows of
          [r] \<Rightarrow> try_then (track c r st) (delete_visit (Suc (delete_maximum c)) c db r)
        | _ \<Rightarrow> Inl ErrNotFound)))"

definition restriction_step ::
  "delete_collector \<Rightarrow> string list \<Rightarrow> protected_relation \<Rightarrow> collecting \<Rightarrow> delete_error + collecting" where
  "restriction_step c seen x st =
     try_then (recordIdentity c (pr_Record x)) (\<lambda>key. Inr (if key \<in> set seen then st else add_protected x st))"

definition update_step ::
  "delete_collector \<Rightarrow> string list \<Rightarrow> field_update \<Rightarrow> field_update list \<Rightarrow> delete_error + field_update list" where
  "update_step c seen u us =
     try_then (recordIdentity c (fu_Record u)) (\<lambda>key. Inr (if key \<in> set seen then us else us @ [u]))"

definition empty_collecting :: collecting where
  "empty_collecting =
     \<lparr>cl_work = 0, cl_fetched = [], cl_seen = [], cl_joins = [], cl_restrictions = [],
      cl_plan = \<lparr>dp_Objects = [], dp_Updates = [], dp_Protected = [], dp_JoinRemovals = []\<rparr>\<rparr>"

definition delete_collect ::
  "delete_collector \<Rightarrow> database \<Rightarrow> model_record list \<Rightarrow> delete_error + deletion_plan" where
  "delete_collect c db roots =
     try_then (each (root_step c db) roots empty_collecting) (\<lambda>st.
     try_then (each (restriction_step c (cl_seen st)) (cl_restrictions st) st) (\<lambda>st'.
     try_then (each (update_step c (cl_seen st)) (dp_Updates (cl_plan st')) []) (\<lambda>us.
       Inr ((cl_plan st')\<lparr>dp_Updates := us\<rparr>))))"

definition delete_Collect ::
  "delete_collector \<Rightarrow> database \<Rightarrow> model_record \<Rightarrow> delete_error + deletion_plan" where
  "delete_Collect c db root = delete_collect c db [root]"

subsection \<open>What collecting does to its state\<close>

text \<open>A relation whose rows a deletion of \<open>r\<close> has to look at, and the query it makes.\<close>

definition refers_to :: "model_record \<Rightarrow> schema \<times> field \<Rightarrow> relation \<Rightarrow> bool" where
  "refers_to r sf rel \<longleftrightarrow>
     fld_Relation (snd sf) = Some rel \<and> IsStored (snd sf) \<and> rel_Target rel = schema_Key (rc_Schema r)"

definition relation_reader :: "delete_collector \<Rightarrow> schema \<Rightarrow> delete_collector" where
  "relation_reader c s = (if models_IsAutomatic (dc_Registry c) (schema_Key s) then c\<lparr>dc_Scope := None\<rparr> else c)"

text \<open>The rows of \<open>s\<close> in scope whose field \<open>f\<close> holds the key of \<open>r\<close>.\<close>

definition referring :: "delete_collector \<Rightarrow> database \<Rightarrow> model_record \<Rightarrow> schema \<times> field \<Rightarrow> relation \<Rightarrow> row \<Rightarrow> bool" where
  "referring c db r sf rel row \<longleftrightarrow>
     row \<in> set (db (DBTable (fst sf))) \<and>
     (\<exists>v q. record_Get r (hd (relation_keys r rel)) = Inr v
        \<and> scoped_predicate (relation_reader c (fst sf)) (fst sf) (Q (fld_Name (snd sf)) v) = Inr q \<and> q row)"

text \<open>One cascade from a record to a row that refers to it.\<close>

definition cascade :: "delete_collector \<Rightarrow> database \<Rightarrow> (model_record \<times> model_record) set" where
  "cascade c db = {(r, fetched_record c (fst sf) row) | r sf rel row.
     sf \<in> set (reverse_relations c) \<and> refers_to r sf rel \<and> rel_OnDelete rel = ''CASCADE''
     \<and> \<not> models_IsAutomatic (dc_Registry c) (schema_Key (fst sf)) \<and> referring c db r sf rel row}"

definition known :: "delete_collector \<Rightarrow> string list \<Rightarrow> model_record \<Rightarrow> bool" where
  "known c keys r \<longleftrightarrow> (\<exists>key \<in> set keys. recordIdentity c r = Inr key)"

definition covered :: "delete_collector \<Rightarrow> schema \<Rightarrow> field \<Rightarrow> relation \<Rightarrow> model_record \<Rightarrow> collecting \<Rightarrow> bool" where
  "covered c s f rel child st \<longleftrightarrow>
     (if models_IsAutomatic (dc_Registry c) (schema_Key s) then known c (cl_joins st) child
      else if rel_OnDelete rel = ''CASCADE'' then known c (cl_seen st) child
      else if rel_OnDelete rel = ''PROTECT'' then
        \<lparr>pr_Record = child, pr_Field = fld_Name f, pr_Policy = ''PROTECT''\<rparr> \<in> set (dp_Protected (cl_plan st))
      else if rel_OnDelete rel = ''RESTRICT'' then
        \<lparr>pr_Record = child, pr_Field = fld_Name f, pr_Policy = ''RESTRICT''\<rparr> \<in> set (cl_restrictions st)
      else if rel_OnDelete rel = ''SET_NULL'' then
        \<lparr>fu_Record = child, fu_Field = fld_Name f, fu_Value = None\<rparr> \<in> set (dp_Updates (cl_plan st))
      else if rel_OnDelete rel = ''SET_DEFAULT'' then
        \<lparr>fu_Record = child, fu_Field = fld_Name f, fu_Value = default_value c f\<rparr> \<in> set (dp_Updates (cl_plan st))
      else rel_OnDelete rel = ''DO_NOTHING'')"

definition handled :: "delete_collector \<Rightarrow> database \<Rightarrow> model_record \<Rightarrow> schema \<times> field \<Rightarrow> collecting \<Rightarrow> bool" where
  "handled c db r sf st \<longleftrightarrow>
     (\<forall>rel. refers_to r sf rel \<longrightarrow>
        (\<forall>row. referring c db r sf rel row \<longrightarrow> covered c (fst sf) (snd sf) rel (fetched_record c (fst sf) row) st))"

definition closed :: "delete_collector \<Rightarrow> database \<Rightarrow> collecting \<Rightarrow> model_record \<Rightarrow> bool" where
  "closed c db st r \<longleftrightarrow> (\<forall>sf \<in> set (reverse_relations c). handled c db r sf st)"

definition joins_ok :: "delete_collector \<Rightarrow> collecting \<Rightarrow> bool" where
  "joins_ok c st \<longleftrightarrow>
     (\<forall>key \<in> set (cl_joins st). \<exists>j \<in> set (dp_JoinRemovals (cl_plan st)). recordIdentity c (jr_Record j) = Inr key)"

text \<open>Updates and join removals are made for rows of the database that refer to something deleted.\<close>

definition came_from ::
  "delete_collector \<Rightarrow> database \<Rightarrow> bool \<Rightarrow> model_record \<Rightarrow> schema \<Rightarrow> field \<Rightarrow> relation \<Rightarrow> bool" where
  "came_from c db automatic r s f rel \<longleftrightarrow>
     (s, f) \<in> set (reverse_relations c) \<and> fld_Relation f = Some rel
     \<and> models_IsAutomatic (dc_Registry c) (schema_Key s) = automatic
     \<and> r \<in> fetched_record c s ` set (db (DBTable s))"

definition update_value :: "delete_collector \<Rightarrow> field \<Rightarrow> relation \<Rightarrow> go_any \<Rightarrow> bool" where
  "update_value c f rel v \<longleftrightarrow>
     rel_OnDelete rel = ''SET_NULL'' \<and> v = None \<or> rel_OnDelete rel = ''SET_DEFAULT'' \<and> v = default_value c f"

definition traced :: "delete_collector \<Rightarrow> database \<Rightarrow> collecting \<Rightarrow> bool" where
  "traced c db st \<longleftrightarrow>
     (\<forall>u \<in> set (dp_Updates (cl_plan st)). \<exists>s f rel. came_from c db False (fu_Record u) s f rel
        \<and> fu_Field u = fld_Name f \<and> update_value c f rel (fu_Value u))
     \<and> (\<forall>j \<in> set (dp_JoinRemovals (cl_plan st)). \<exists>s f rel. came_from c db True (jr_Record j) s f rel)"

definition larger :: "collecting \<Rightarrow> collecting \<Rightarrow> bool" where
  "larger st st' \<longleftrightarrow>
     set (cl_seen st) \<subseteq> set (cl_seen st') \<and> length (cl_seen st) \<le> length (cl_seen st')
     \<and> set (cl_joins st) \<subseteq> set (cl_joins st')
     \<and> set (cl_restrictions st) \<subseteq> set (cl_restrictions st')
     \<and> set (dp_Protected (cl_plan st)) \<subseteq> set (dp_Protected (cl_plan st'))
     \<and> set (dp_Updates (cl_plan st)) \<subseteq> set (dp_Updates (cl_plan st'))
     \<and> set (dp_JoinRemovals (cl_plan st)) \<subseteq> set (dp_JoinRemovals (cl_plan st'))"

text \<open>
  A step of the collection: it adds the objects \<open>os\<close>, all allowed by \<open>X\<close>, whose identities are exactly the
  newly seen ones, each once, and every added object is closed in the state it leaves.
\<close>

definition collects ::
  "delete_collector \<Rightarrow> database \<Rightarrow> model_record set \<Rightarrow> collecting \<Rightarrow> collecting \<Rightarrow> bool" where
  "collects c db X st st' \<longleftrightarrow>
     larger st st' \<and> (joins_ok c st \<longrightarrow> joins_ok c st') \<and> (traced c db st \<longrightarrow> traced c db st')
     \<and> (length (cl_seen st) \<le> delete_maximum c \<longrightarrow> length (cl_seen st') \<le> delete_maximum c)
     \<and> (\<exists>os ks. dp_Objects (cl_plan st') = dp_Objects (cl_plan st) @ os
          \<and> set (cl_seen st') = set (cl_seen st) \<union> set ks \<and> map (recordIdentity c) os = map Inr ks
          \<and> distinct ks \<and> set ks \<inter> set (cl_seen st) = {} \<and> (\<forall>o' \<in> set os. o' \<in> X \<and> closed c db st' o'))"

lemma larger_refl [simp]: "larger st st"
  by (simp add: larger_def)

lemma larger_trans: "larger a b \<Longrightarrow> larger b d \<Longrightarrow> larger a d"
  unfolding larger_def by (meson order_trans)

lemma covered_larger: "covered c s f rel child st \<Longrightarrow> larger st st' \<Longrightarrow> covered c s f rel child st'"
  unfolding covered_def larger_def known_def by (auto split: if_splits)

lemma handled_larger: "handled c db r sf st \<Longrightarrow> larger st st' \<Longrightarrow> handled c db r sf st'"
  unfolding handled_def using covered_larger by blast

lemma closed_larger: "closed c db st r \<Longrightarrow> larger st st' \<Longrightarrow> closed c db st' r"
  unfolding closed_def using handled_larger by blast

lemma collects_larger: "collects c db X st st' \<Longrightarrow> larger st st'"
  by (simp add: collects_def)

lemma collects_refl [simp]: "collects c db X st st"
  by (simp add: collects_def)

lemma collects_trans:
  assumes "collects c db X a b" "collects c db X b d"
  shows "collects c db X a d"
proof -
  obtain os ks where 1: "dp_Objects (cl_plan b) = dp_Objects (cl_plan a) @ os"
      "set (cl_seen b) = set (cl_seen a) \<union> set ks" "map (recordIdentity c) os = map Inr ks"
      "distinct ks" "set ks \<inter> set (cl_seen a) = {}" "\<forall>o' \<in> set os. o' \<in> X \<and> closed c db b o'"
    using assms(1) by (auto simp: collects_def)
  obtain os' ks' where 2: "dp_Objects (cl_plan d) = dp_Objects (cl_plan b) @ os'"
      "set (cl_seen d) = set (cl_seen b) \<union> set ks'" "map (recordIdentity c) os' = map Inr ks'"
      "distinct ks'" "set ks' \<inter> set (cl_seen b) = {}" "\<forall>o' \<in> set os'. o' \<in> X \<and> closed c db d o'"
    using assms(2) by (auto simp: collects_def)
  have "larger b d" using assms(2) by (rule collects_larger)
  then have "\<forall>o' \<in> set (os @ os'). o' \<in> X \<and> closed c db d o'" using 1(6) 2(6) closed_larger by auto
  moreover have "distinct (ks @ ks')" "set (ks @ ks') \<inter> set (cl_seen a) = {}" using 1(2,4,5) 2(4,5) by auto
  moreover have "set (cl_seen d) = set (cl_seen a) \<union> set (ks @ ks')" using 1(2) 2(2) by auto
  moreover have "map (recordIdentity c) (os @ os') = map Inr (ks @ ks')" using 1(3) 2(3) by simp
  moreover have "dp_Objects (cl_plan d) = dp_Objects (cl_plan a) @ os @ os'" using 1(1) 2(1) by simp
  moreover have "larger a d" "joins_ok c a \<longrightarrow> joins_ok c d" "traced c db a \<longrightarrow> traced c db d"
      "length (cl_seen a) \<le> delete_maximum c \<longrightarrow> length (cl_seen d) \<le> delete_maximum c"
    using assms larger_trans by (auto simp: collects_def)
  ultimately show ?thesis unfolding collects_def by blast
qed

lemma collects_mono: "collects c db X a b \<Longrightarrow> X \<subseteq> Y \<Longrightarrow> collects c db Y a b"
  unfolding collects_def by (meson subsetD)

lemma collects_each:
  assumes run: "each f xs s = Inr s'"
    and step: "\<And>x a b. x \<in> set xs \<Longrightarrow> f x a = Inr b \<Longrightarrow> collects c db X a b \<and> P x b"
    and mono: "\<And>x a b. P x a \<Longrightarrow> larger a b \<Longrightarrow> P x b"
  shows "collects c db X s s' \<and> (\<forall>x \<in> set xs. P x s')"
proof (intro conjI ballI)
  have one: "collects c db X a b" if "x \<in> set xs" "f x a = Inr b" for x a b using step[OF that] by simp
  show "collects c db X s s'"
    using run
  proof (rule each_rule)
    show "collects c db X a d" if "collects c db X a b" "collects c db X b d" for a b d
      using that by (rule collects_trans)
  qed (simp_all add: one)
  fix x assume x: "x \<in> set xs"
  from run x show "P x s'"
  proof (rule each_all[where R = "collects c db X"])
    show "collects c db X a d" if "collects c db X a b" "collects c db X b d" for a b d
      using that by (rule collects_trans)
    show "P x b" if "f x a = Inr b" for a b using step[OF x that] by simp
    show "P x b" if "P x a" "collects c db X a b" for a b using mono[OF that(1) collects_larger[OF that(2)]] .
  qed (simp_all add: one)
qed

text \<open>A change of bookkeeping only.\<close>

lemma quiet_collects:
  assumes "cl_seen st' = cl_seen st" "larger st st'" "joins_ok c st \<longrightarrow> joins_ok c st'"
    "traced c db st \<longrightarrow> traced c db st'" "dp_Objects (cl_plan st') = dp_Objects (cl_plan st)"
  shows "collects c db X st st'"
proof -
  have "dp_Objects (cl_plan st') = dp_Objects (cl_plan st) @ []
      \<and> set (cl_seen st') = set (cl_seen st) \<union> set [] \<and> map (recordIdentity c) [] = map Inr []
      \<and> distinct [] \<and> set [] \<inter> set (cl_seen st) = {} \<and> (\<forall>o' \<in> set []. o' \<in> X \<and> closed c db st' o')"
    using assms(1,5) by simp
  then show ?thesis using assms(1-4) unfolding collects_def by metis
qed

lemma tick_collects: "tick c st = Inr st' \<Longrightarrow> collects c db X st st'"
  by (rule quiet_collects) (auto simp: tick_def larger_def joins_ok_def traced_def split: if_splits)

lemma track_collects:
  assumes "track c r st = Inr st'"
  shows "collects c db X st st'"
proof -
  obtain t where t: "tick c st = Inr t" "st' = t \<or> (\<exists>key. st' = t\<lparr>cl_fetched := key # cl_fetched t\<rparr>)"
    using assms by (auto simp: track_def split: if_splits)
  have "collects c db X t st'"
    by (rule quiet_collects) (use t(2) in \<open>auto simp: larger_def joins_ok_def traced_def\<close>)
  then show ?thesis using collects_trans[OF tick_collects[OF t(1)]] by blast
qed

lemma join_collects:
  assumes "join_step c endpoint name child st = Inr st'" "came_from c db True child s f rel"
  shows "collects c db X st st' \<and> known c (cl_joins st') child"
proof -
  obtain key where key: "recordIdentity c child = Inr key" using assms by (auto simp: join_step_def)
  show ?thesis
  proof (cases "key \<in> set (cl_joins st)")
    case True
    then show ?thesis using assms(1) key by (auto simp: join_step_def known_def)
  next
    case False
    then have st': "cl_joins st' = key # cl_joins st" "cl_seen st' = cl_seen st"
        "cl_restrictions st' = cl_restrictions st"
        "cl_plan st' = (cl_plan st)\<lparr>dp_JoinRemovals := dp_JoinRemovals (cl_plan st) @
              [\<lparr>jr_Record = child, jr_Endpoint = endpoint, jr_Field = name\<rparr>]\<rparr>"
      using assms(1) key by (auto simp: join_step_def on_plan_def)
    have "collects c db X st st'"
      by (rule quiet_collects) (use assms(2) in \<open>auto simp: st' larger_def joins_ok_def traced_def key\<close>)
    then show ?thesis using st'(1) key by (auto simp: known_def)
  qed
qed

definition good_visit ::
  "delete_collector \<Rightarrow> database \<Rightarrow> (model_record \<Rightarrow> collecting \<Rightarrow> delete_error + collecting) \<Rightarrow> bool" where
  "good_visit c db visit \<longleftrightarrow>
     (\<forall>r st st'. visit r st = Inr st' \<longrightarrow>
        collects c db {o'. (r, o') \<in> (cascade c db)\<^sup>*} st st' \<and> known c (cl_seen st') r)"

lemma add_collects:
  "collects c db X st (add_protected x st)"
  "collects c db X st (st\<lparr>cl_restrictions := cl_restrictions st @ [x]\<rparr>)"
  by (rule quiet_collects; force simp: add_protected_def on_plan_def larger_def joins_ok_def traced_def)+

lemma add_update_collects:
  assumes "came_from c db False r s f rel" "update_value c f rel v"
  shows "collects c db X st (add_update r (fld_Name f) v st)"
proof (rule quiet_collects)
  show "traced c db st \<longrightarrow> traced c db (add_update r (fld_Name f) v st)"
    using assms unfolding traced_def add_update_def on_plan_def by auto
qed (auto simp: add_update_def on_plan_def larger_def joins_ok_def)

lemma policy_collects:
  assumes "policy_step c visit f (rel_OnDelete rel) child st = Inr st'" "rel_OnDelete rel \<noteq> ''CASCADE''"
    "came_from c db False child s f rel"
  shows "collects c db X st st'"
  using assms(1,2) add_collects add_update_collects[OF assms(3)]
  by (auto simp: policy_step_def update_value_def Let_def split: if_splits option.splits)

lemma policy_covered:
  assumes "policy_step c visit f (rel_OnDelete rel) child st = Inr st'"
    "\<not> models_IsAutomatic (dc_Registry c) (schema_Key s)" "good_visit c db visit"
  shows "covered c s f rel child st'"
  using assms
  by (auto simp: policy_step_def covered_def good_visit_def add_protected_def add_update_def on_plan_def Let_def
      split: if_splits option.splits)

lemma child_collects:
  assumes "child_step c visit r s f rel child st = Inr st'" "good_visit c db visit"
    "\<not> models_IsAutomatic (dc_Registry c) (schema_Key s) \<and> rel_OnDelete rel = ''CASCADE'' \<longrightarrow> (r, child) \<in> cascade c db"
    "came_from c db (models_IsAutomatic (dc_Registry c) (schema_Key s)) child s f rel"
  shows "collects c db {o'. (r, o') \<in> (cascade c db)\<^sup>*} st st' \<and> covered c s f rel child st'"
proof -
  let ?X = "{o'. (r, o') \<in> (cascade c db)\<^sup>*}"
  obtain t where t: "track c child st = Inr t"
      "(if models_IsAutomatic (dc_Registry c) (schema_Key s) then join_step c r (fld_Name f) child t
        else policy_step c visit f (rel_OnDelete rel) child t) = Inr st'"
    using assms(1) by (auto simp: child_step_def split: if_splits)
  have "collects c db ?X t st' \<and> covered c s f rel child st'"
  proof (cases "models_IsAutomatic (dc_Registry c) (schema_Key s)")
    case True
    then show ?thesis using t(2) join_collects assms(4) by (auto simp: covered_def)
  next
    case False
    then have p: "policy_step c visit f (rel_OnDelete rel) child t = Inr st'" using t(2) by simp
    have "collects c db ?X t st'"
    proof (cases "rel_OnDelete rel = ''CASCADE''")
      case True
      then have "visit child t = Inr st'" "(r, child) \<in> cascade c db" using p False assms(3) by (auto simp: policy_step_def)
      then have "collects c db {o'. (child, o') \<in> (cascade c db)\<^sup>*} t st'" using assms(2) by (simp add: good_visit_def)
      then show ?thesis
        by (rule collects_mono) (use \<open>(r, child) \<in> cascade c db\<close> in \<open>auto intro: converse_rtrancl_into_rtrancl\<close>)
    qed (use policy_collects[OF p] assms(4) False in simp)
    then show ?thesis using policy_covered[OF p False assms(2)] by blast
  qed
  then show ?thesis using collects_trans[OF track_collects[OF t(1)]] by blast
qed

text \<open>The rows a relation step works on are all rows that refer to the record.\<close>

lemma relation_step_cases:
  assumes "relation_step c db visit r (s, f) st = Inr st'" "refers_to r (s, f) rel"
  obtains t children where "tick c st = Inr t" "each (child_step c visit r s f rel) children t = Inr st'"
    "set children = fetched_record c s ` {row. referring c db r (s, f) rel row}"
proof -
  let ?c = "relation_reader c s"
  obtain t v q where t: "tick c st = Inr t" "record_Get r (hd (relation_keys r rel)) = Inr v"
      "scoped_predicate ?c s (Q (fld_Name f) v) = Inr q"
    and e: "length (take (delete_maximum c + 1) (filter q (db (DBTable s)))) \<le> delete_maximum c"
      "each (child_step c visit r s f rel) (map (fetched_record ?c s) (take (delete_maximum c + 1) (filter q (db (DBTable s))))) t = Inr st'"
    using assms by (auto simp: relation_step_def refers_to_def Let_def delete_records_def relation_reader_def split: if_splits)
  have "take (delete_maximum c + 1) (filter q (db (DBTable s))) = filter q (db (DBTable s))" using e(1) by (simp add: min_def split: if_splits)
  moreover have "fetched_record ?c s = fetched_record c s" by (simp add: relation_reader_def fetched_record_def fun_eq_iff)
  ultimately have "each (child_step c visit r s f rel) (map (fetched_record c s) (filter q (db (DBTable s)))) t = Inr st'"
    using e(2) by simp
  moreover have "{row. referring c db r (s, f) rel row} = set (filter q (db (DBTable s)))"
    using t by (auto simp: referring_def)
  ultimately show thesis using that[OF t(1)] by simp
qed

lemma relation_collects:
  assumes "relation_step c db visit r sf st = Inr st'" "good_visit c db visit" "sf \<in> set (reverse_relations c)"
  shows "collects c db {o'. (r, o') \<in> (cascade c db)\<^sup>*} st st' \<and> handled c db r sf st'"
proof (cases "\<exists>rel. refers_to r sf rel")
  case False
  then have "st' = st"
    using assms(1) by (cases sf) (auto simp: relation_step_def refers_to_def split: option.splits if_splits)
  then show ?thesis using False by (simp add: handled_def)
next
  case True
  obtain s f where sf: "sf = (s, f)" by (cases sf)
  let ?X = "{o'. (r, o') \<in> (cascade c db)\<^sup>*}"
  obtain rel where rel: "refers_to r (s, f) rel" using True sf by blast
  have unique: "rel' = rel" if "refers_to r (s, f) rel'" for rel' using that rel by (simp add: refers_to_def)
  obtain t children where t: "tick c st = Inr t" "each (child_step c visit r s f rel) children t = Inr st'"
      "set children = fetched_record c s ` {row. referring c db r (s, f) rel row}"
    using relation_step_cases[OF _ rel] assms(1) sf by blast
  have edge: "\<not> models_IsAutomatic (dc_Registry c) (schema_Key s) \<and> rel_OnDelete rel = ''CASCADE'' \<longrightarrow> (r, child) \<in> cascade c db"
    if "child \<in> set children" for child
    using that t(3) rel assms(3) sf by (auto simp: cascade_def)
  have step: "collects c db ?X a b \<and> covered c s f rel child b"
    if "child \<in> set children" "child_step c visit r s f rel child a = Inr b" for child a b
  proof (rule child_collects[OF that(2) assms(2) edge[OF that(1)]])
    show "came_from c db (models_IsAutomatic (dc_Registry c) (schema_Key s)) child s f rel"
      using that(1) t(3) rel assms(3) sf by (auto simp: came_from_def refers_to_def referring_def)
  qed
  have loop: "collects c db ?X t st' \<and> (\<forall>child \<in> set children. covered c s f rel child st')"
    using t(2) step covered_larger by (rule collects_each)
  then have "handled c db r sf st'" using unique t(3) by (auto simp: handled_def sf)
  then show ?thesis using collects_trans[OF tick_collects[OF t(1)]] loop by blast
qed

lemma joins_ok_same:
  "cl_joins st = cl_joins st' \<Longrightarrow> dp_JoinRemovals (cl_plan st) = dp_JoinRemovals (cl_plan st') \<Longrightarrow> joins_ok c st = joins_ok c st'"
  by (simp add: joins_ok_def)

lemma traced_same:
  "dp_Updates (cl_plan st) = dp_Updates (cl_plan st') \<Longrightarrow> dp_JoinRemovals (cl_plan st) = dp_JoinRemovals (cl_plan st')
   \<Longrightarrow> traced c db st = traced c db st'"
  by (simp add: traced_def)

lemma visit_adds:
  assumes "collects c db X (t\<lparr>cl_seen := key # cl_seen t\<rparr>) u" "closed c db u r" "recordIdentity c r = Inr key"
    "key \<notin> set (cl_seen t)" "st' = add_object r u" "length (cl_seen t) < delete_maximum c" "r \<in> X"
  shows "collects c db X t st' \<and> known c (cl_seen st') r"
proof -
  obtain os ks where 1: "dp_Objects (cl_plan u) = dp_Objects (cl_plan t) @ os"
      "set (cl_seen u) = insert key (set (cl_seen t)) \<union> set ks" "map (recordIdentity c) os = map Inr ks"
      "distinct ks" "set ks \<inter> insert key (set (cl_seen t)) = {}" "\<forall>o' \<in> set os. o' \<in> X \<and> closed c db u o'"
    using assms(1) by (auto simp: collects_def)
  have same: "cl_seen st' = cl_seen u" "cl_joins st' = cl_joins u" "cl_restrictions st' = cl_restrictions u"
      "dp_Protected (cl_plan st') = dp_Protected (cl_plan u)" "dp_Updates (cl_plan st') = dp_Updates (cl_plan u)"
      "dp_JoinRemovals (cl_plan st') = dp_JoinRemovals (cl_plan u)"
      "dp_Objects (cl_plan st') = dp_Objects (cl_plan u) @ [r]"
    using assms(5) by (simp_all add: add_object_def on_plan_def)
  let ?t = "t\<lparr>cl_seen := key # cl_seen t\<rparr>"
  have c: "larger ?t u" "joins_ok c ?t \<longrightarrow> joins_ok c u" "traced c db ?t \<longrightarrow> traced c db u"
      "length (cl_seen ?t) \<le> delete_maximum c \<longrightarrow> length (cl_seen u) \<le> delete_maximum c"
    using assms(1) unfolding collects_def by blast+
  have "joins_ok c ?t = joins_ok c t" "joins_ok c st' = joins_ok c u" by (rule joins_ok_same, simp_all add: same)+
  moreover have "traced c db ?t = traced c db t" "traced c db st' = traced c db u" by (rule traced_same, simp_all add: same)+
  moreover have "larger u st'" "larger t st'" using c(1) same by (auto simp: larger_def)
  ultimately have l: "larger u st'" "larger t st'" "joins_ok c t \<longrightarrow> joins_ok c st'" "traced c db t \<longrightarrow> traced c db st'"
      "length (cl_seen st') \<le> delete_maximum c"
    using c assms(6) same(1) by simp_all
  have "\<forall>o' \<in> set (os @ [r]). o' \<in> X \<and> closed c db st' o'" using 1(6) assms(2,7) closed_larger[OF _ l(1)] by auto
  moreover have "dp_Objects (cl_plan st') = dp_Objects (cl_plan t) @ os @ [r]" using same(7) 1(1) by simp
  moreover have "set (cl_seen st') = set (cl_seen t) \<union> set (ks @ [key])" using same(1) 1(2) by auto
  moreover have "map (recordIdentity c) (os @ [r]) = map Inr (ks @ [key])" using 1(3) assms(3) by simp
  moreover have "distinct (ks @ [key])" "set (ks @ [key]) \<inter> set (cl_seen t) = {}" using 1(4,5) assms(4) by auto
  ultimately have "collects c db X t st'" using l(2-5) unfolding collects_def by blast
  then show ?thesis using same(1) 1(2) assms(3) by (auto simp: known_def)
qed

lemma visit_good: "good_visit c db (delete_visit n c db)"
proof (induction n)
  case 0
  then show ?case by (simp add: good_visit_def)
next
  case (Suc n)
  show ?case unfolding good_visit_def
  proof (intro allI impI)
    fix r st st'
    assume v: "delete_visit (Suc n) c db r st = Inr st'"
    let ?X = "{o'. (r, o') \<in> (cascade c db)\<^sup>*}"
    obtain t key where t: "tick c st = Inr t" "recordIdentity c r = Inr key"
      using v by auto
    show "collects c db ?X st st' \<and> known c (cl_seen st') r"
    proof (cases "key \<in> set (cl_seen t)")
      case True
      then show ?thesis using v t tick_collects[OF t(1)] by (auto simp: known_def)
    next
      case False
      let ?t = "t\<lparr>cl_seen := key # cl_seen t\<rparr>"
      obtain u where u: "each (relation_step c db (delete_visit n c db) r) (reverse_relations c) ?t = Inr u"
          "st' = add_object r u" "length (cl_seen t) < delete_maximum c"
        using v t False by (auto split: if_splits)
      have step: "collects c db ?X a b \<and> handled c db r sf b"
        if "sf \<in> set (reverse_relations c)" "relation_step c db (delete_visit n c db) r sf a = Inr b" for sf a b
        using relation_collects[OF that(2) Suc that(1)] .
      have co: "collects c db ?X ?t u \<and> (\<forall>sf \<in> set (reverse_relations c). handled c db r sf u)"
        using u(1) step handled_larger by (rule collects_each)
      then have cl: "closed c db u r" by (simp add: closed_def)
      have "collects c db ?X t st' \<and> known c (cl_seen st') r"
        using visit_adds[OF conjunct1[OF co] cl t(2) False u(2,3)] by simp
      then show ?thesis using collects_trans[OF tick_collects[OF t(1)]] by blast
    qed
  qed
qed

subsection \<open>The recursion is deep enough\<close>

lemma get_all_fuel: "get_all r fs \<noteq> Inl Recursion_exhausted"
  by (induction fs) (auto simp: try_then_Inl record_Get_def split: option.splits)

lemma pk_conditions_fuel: "pk_conditions r fs \<noteq> Inl Recursion_exhausted"
  by (induction fs) (auto simp: try_then_Inl record_Get_def split: option.splits)

lemma small_fuel [simp]:
  "tick c st \<noteq> Inl Recursion_exhausted" "recordIdentity c r \<noteq> Inl Recursion_exhausted"
  "record_Get r n \<noteq> Inl Recursion_exhausted" "scoped_predicate c s p \<noteq> Inl Recursion_exhausted"
  "delete_records c db s p limit \<noteq> Inl Recursion_exhausted" "recordPK r \<noteq> Inl Recursion_exhausted"
  using get_all_fuel pk_conditions_fuel
  by (auto simp: tick_def recordIdentity_def record_Get_def scoped_predicate_def delete_records_def recordPK_def
      try_then_Inl split: option.splits sum.splits)

lemma track_fuel [simp]: "track c r st \<noteq> Inl Recursion_exhausted"
  by (auto simp: track_def try_then_Inl split: if_splits)

lemma child_fuel:
  assumes "\<And>t. length (cl_seen st) \<le> length (cl_seen t) \<Longrightarrow> visit child t \<noteq> Inl Recursion_exhausted"
  shows "child_step c visit r s f rel child st \<noteq> Inl Recursion_exhausted"
proof -
  have "policy_step c visit f p child t \<noteq> Inl Recursion_exhausted" if "track c child st = Inr t" for p t
  proof -
    have "larger st t" using track_collects[OF that] by (rule collects_larger)
    then show ?thesis using assms[of t] by (auto simp: policy_step_def larger_def Let_def split: option.splits if_splits)
  qed
  moreover have "join_step c r n child t \<noteq> Inl Recursion_exhausted" for n t
    by (auto simp: join_step_def try_then_Inl)
  ultimately show ?thesis by (auto simp: child_step_def try_then_Inl split: if_splits)
qed

lemma child_larger:
  assumes "child_step c visit r s f rel child st = Inr st'" "good_visit c db visit"
  shows "length (cl_seen st) \<le> length (cl_seen st')"
proof -
  obtain t where t: "track c child st = Inr t"
      "join_step c r (fld_Name f) child t = Inr st' \<or> policy_step c visit f (rel_OnDelete rel) child t = Inr st'"
    using assms(1) by (auto simp: child_step_def split: if_splits)
  have "length (cl_seen t) \<le> length (cl_seen st')"
  proof (cases "policy_step c visit f (rel_OnDelete rel) child t = Inr st' \<and> rel_OnDelete rel = ''CASCADE''")
    case True
    then have "collects c db {o'. (child, o') \<in> (cascade c db)\<^sup>*} t st'"
      using assms(2) by (auto simp: policy_step_def good_visit_def)
    then show ?thesis by (auto dest: collects_larger simp: larger_def)
  next
    case False
    then have "cl_seen st' = cl_seen t"
      using t(2) by (auto simp: join_step_def policy_step_def add_protected_def add_update_def on_plan_def Let_def
          split: if_splits option.splits)
    then show ?thesis by simp
  qed
  moreover have "length (cl_seen st) \<le> length (cl_seen t)"
    using collects_larger[OF track_collects[OF t(1)]] by (simp add: larger_def)
  ultimately show ?thesis by simp
qed

lemma children_fuel:
  assumes "\<And>child t. k \<le> length (cl_seen t) \<Longrightarrow> visit child t \<noteq> Inl Recursion_exhausted"
    "good_visit c db visit" "k \<le> length (cl_seen st)"
  shows "each (child_step c visit r s f rel) children st \<noteq> Inl Recursion_exhausted"
proof (rule each_avoids[where I = "\<lambda>st. k \<le> length (cl_seen st)"])
  show "child_step c visit r s f rel child t \<noteq> Inl Recursion_exhausted" if "k \<le> length (cl_seen t)" for child t
    using assms(1) that by (intro child_fuel) simp
  show "k \<le> length (cl_seen u)"
    if "k \<le> length (cl_seen t)" "child_step c visit r s f rel child t = Inr u" for child t u
    using child_larger[OF that(2) assms(2)] that(1) by simp
qed (use assms(3) in simp)

lemma relation_fuel:
  assumes "\<And>child t. k \<le> length (cl_seen t) \<Longrightarrow> visit child t \<noteq> Inl Recursion_exhausted"
    "good_visit c db visit" "k \<le> length (cl_seen st)"
  shows "relation_step c db visit r sf st \<noteq> Inl Recursion_exhausted"
proof -
  have "each (child_step c visit r s f rel) children t \<noteq> Inl Recursion_exhausted" if "tick c st = Inr t"
    for s f rel children t
    using children_fuel[OF assms(1,2)] assms(3) that by (auto simp: tick_def split: if_splits)
  then show ?thesis
    by (cases sf) (auto simp: relation_step_def try_then_Inl Let_def split: option.splits if_splits)
qed

lemma visit_fuel:
  "0 < n \<Longrightarrow> delete_maximum c < n + length (cl_seen st) \<Longrightarrow> delete_visit n c db r st \<noteq> Inl Recursion_exhausted"
proof (induction n arbitrary: r st)
  case (Suc n)
  have "each (relation_step c db (delete_visit n c db) r) (reverse_relations c) (t\<lparr>cl_seen := key # cl_seen t\<rparr>)
      \<noteq> Inl Recursion_exhausted" if t: "tick c st = Inr t" "length (cl_seen t) < delete_maximum c" for t key
  proof (rule each_avoids[where I = "\<lambda>u. Suc (length (cl_seen st)) \<le> length (cl_seen u)"])
    have len: "length (cl_seen t) = length (cl_seen st)" using t(1) by (auto simp: tick_def split: if_splits)
    have deep: "delete_visit n c db child u \<noteq> Inl Recursion_exhausted"
      if "Suc (length (cl_seen st)) \<le> length (cl_seen u)" for child u
      by (rule Suc.IH) (use Suc.prems that t(2) len in simp_all)
    show "relation_step c db (delete_visit n c db) r sf u \<noteq> Inl Recursion_exhausted"
      if "Suc (length (cl_seen st)) \<le> length (cl_seen u)" for sf u
      using deep visit_good that by (rule relation_fuel)
    show "Suc (length (cl_seen st)) \<le> length (cl_seen v)"
      if "sf \<in> set (reverse_relations c)" "Suc (length (cl_seen st)) \<le> length (cl_seen u)"
        "relation_step c db (delete_visit n c db) r sf u = Inr v" for sf u v
      using collects_larger[OF relation_collects[OF that(3) visit_good that(1), THEN conjunct1]] that(2)
      by (simp add: larger_def)
    show "Suc (length (cl_seen st)) \<le> length (cl_seen (t\<lparr>cl_seen := key # cl_seen t\<rparr>))" using len by simp
  qed
  then show ?case by (auto simp: try_then_Inl split: if_splits)
qed simp

text \<open>The row a root stands for.\<close>

definition root_row :: "delete_collector \<Rightarrow> database \<Rightarrow> model_record \<Rightarrow> model_record \<Rightarrow> bool" where
  "root_row c db root r \<longleftrightarrow> (\<exists>p. recordPK root = Inr p \<and> delete_records c db (rc_Schema root) p 2 = Inr [r])"

definition reached :: "delete_collector \<Rightarrow> database \<Rightarrow> model_record list \<Rightarrow> model_record set" where
  "reached c db roots = {o'. \<exists>root \<in> set roots. \<exists>r. root_row c db root r \<and> (r, o') \<in> (cascade c db)\<^sup>*}"

lemma root_collects:
  assumes "root_step c db root st = Inr st'" "root \<in> set roots"
  shows "collects c db (reached c db roots) st st' \<and> (\<exists>r. root_row c db root r \<and> known c (cl_seen st') r)"
proof -
  obtain p rows where p: "recordPK root = Inr p" "delete_records c db (rc_Schema root) p 2 = Inr rows"
    using assms(1) by (auto simp: root_step_def split: if_splits)
  obtain r t where r: "rows = [r]" "track c r st = Inr t" "delete_visit (Suc (delete_maximum c)) c db r t = Inr st'"
    using assms(1) p by (auto simp: root_step_def simp del: delete_visit.simps split: if_splits list.splits)
  have root: "root_row c db root r" using p r(1) by (simp add: root_row_def)
  have v: "collects c db {o'. (r, o') \<in> (cascade c db)\<^sup>*} t st'" "known c (cl_seen st') r"
    using visit_good r(3) unfolding good_visit_def by blast+
  have "collects c db (reached c db roots) t st'"
    using v(1) by (rule collects_mono) (use root assms(2) in \<open>auto simp: reached_def\<close>)
  then show ?thesis using collects_trans[OF track_collects[OF r(2)]] v(2) root by blast
qed

lemma root_fuel: "root_step c db root st \<noteq> Inl Recursion_exhausted"
  using visit_fuel[of "Suc (delete_maximum c)" c]
  by (auto simp: root_step_def try_then_Inl simp del: delete_visit.simps split: if_splits list.splits)

lemma collect_fuel: "delete_collect c db roots \<noteq> Inl Recursion_exhausted"
proof -
  have "each (root_step c db) roots st \<noteq> Inl Recursion_exhausted" for st
    by (rule each_avoids[where I = "\<lambda>_. True"]) (simp_all add: root_fuel)
  moreover have "each (restriction_step c seen) xs st \<noteq> Inl Recursion_exhausted" for seen xs st
    by (rule each_avoids[where I = "\<lambda>_. True"]) (simp_all add: restriction_step_def try_then_Inl)
  moreover have "each (update_step c seen) us vs \<noteq> Inl Recursion_exhausted" for seen us vs
    by (rule each_avoids[where I = "\<lambda>_. True"]) (simp_all add: update_step_def try_then_Inl)
  ultimately show ?thesis by (auto simp: delete_collect_def try_then_Inl)
qed

subsection \<open>The collected plan\<close>

lemma restriction_loop:
  "each (restriction_step c seen) xs st = Inr st' \<Longrightarrow>
   cl_plan st' = (cl_plan st)\<lparr>dp_Protected := dp_Protected (cl_plan st) @ filter (\<lambda>x. \<not> known c seen (pr_Record x)) xs\<rparr>"
proof (induction xs arbitrary: st)
  case (Cons x xs)
  obtain t where t: "restriction_step c seen x st = Inr t" "each (restriction_step c seen) xs t = Inr st'"
    using Cons.prems by auto
  obtain key where "recordIdentity c (pr_Record x) = Inr key" "t = (if key \<in> set seen then st else add_protected x st)"
    using t(1) by (auto simp: restriction_step_def)
  then show ?case using Cons.IH[OF t(2)] by (simp add: known_def add_protected_def on_plan_def)
qed simp

lemma update_loop:
  "each (update_step c seen) us vs = Inr ws \<Longrightarrow> ws = vs @ filter (\<lambda>u. \<not> known c seen (fu_Record u)) us"
proof (induction us arbitrary: vs)
  case (Cons u us)
  obtain t where t: "update_step c seen u vs = Inr t" "each (update_step c seen) us t = Inr ws"
    using Cons.prems by auto
  obtain key where "recordIdentity c (fu_Record u) = Inr key" "t = (if key \<in> set seen then vs else vs @ [u])"
    using t(1) by (auto simp: update_step_def)
  then show ?case using Cons.IH[OF t(2)] by (simp add: known_def)
qed simp

definition same_identity :: "delete_collector \<Rightarrow> model_record \<Rightarrow> model_record \<Rightarrow> bool" where
  "same_identity c a b \<longleftrightarrow> (\<exists>key. recordIdentity c a = Inr key \<and> recordIdentity c b = Inr key)"

definition deletes :: "delete_collector \<Rightarrow> deletion_plan \<Rightarrow> model_record \<Rightarrow> bool" where
  "deletes c plan r \<longleftrightarrow> (\<exists>o' \<in> set (dp_Objects plan). same_identity c o' r)"

text \<open>What the plan does with a row that refers to a deleted object.\<close>

definition accounted ::
  "delete_collector \<Rightarrow> deletion_plan \<Rightarrow> schema \<times> field \<Rightarrow> relation \<Rightarrow> model_record \<Rightarrow> bool" where
  "accounted c plan sf rel child \<longleftrightarrow>
     (if models_IsAutomatic (dc_Registry c) (schema_Key (fst sf))
      then \<exists>j \<in> set (dp_JoinRemovals plan). same_identity c (jr_Record j) child
      else if rel_OnDelete rel = ''CASCADE'' then deletes c plan child
      else if rel_OnDelete rel = ''PROTECT'' then
        \<lparr>pr_Record = child, pr_Field = fld_Name (snd sf), pr_Policy = ''PROTECT''\<rparr> \<in> set (dp_Protected plan)
      else if rel_OnDelete rel = ''RESTRICT'' then deletes c plan child \<or>
        \<lparr>pr_Record = child, pr_Field = fld_Name (snd sf), pr_Policy = ''RESTRICT''\<rparr> \<in> set (dp_Protected plan)
      else if rel_OnDelete rel = ''SET_NULL'' then deletes c plan child \<or>
        \<lparr>fu_Record = child, fu_Field = fld_Name (snd sf), fu_Value = None\<rparr> \<in> set (dp_Updates plan)
      else if rel_OnDelete rel = ''SET_DEFAULT'' then deletes c plan child \<or>
        \<lparr>fu_Record = child, fu_Field = fld_Name (snd sf), fu_Value = default_value c (snd sf)\<rparr> \<in> set (dp_Updates plan)
      else rel_OnDelete rel = ''DO_NOTHING'')"

lemma collect_cases:
  assumes "delete_collect c db roots = Inr plan"
  obtains st where "each (root_step c db) roots empty_collecting = Inr st"
    "plan = (cl_plan st)\<lparr>
       dp_Protected := dp_Protected (cl_plan st) @ filter (\<lambda>x. \<not> known c (cl_seen st) (pr_Record x)) (cl_restrictions st),
       dp_Updates := filter (\<lambda>u. \<not> known c (cl_seen st) (fu_Record u)) (dp_Updates (cl_plan st))\<rparr>"
proof -
  obtain st st' us where st: "each (root_step c db) roots empty_collecting = Inr st"
      "each (restriction_step c (cl_seen st)) (cl_restrictions st) st = Inr st'"
      "each (update_step c (cl_seen st)) (dp_Updates (cl_plan st')) [] = Inr us"
      "plan = (cl_plan st')\<lparr>dp_Updates := us\<rparr>"
    using assms by (auto simp: delete_collect_def)
  show thesis
    by (rule that[OF st(1)]) (simp add: st(4) update_loop[OF st(3)] restriction_loop[OF st(2)])
qed

lemma collected:
  assumes "each (root_step c db) roots empty_collecting = Inr st"
  shows "collects c db (reached c db roots) empty_collecting st
    \<and> (\<forall>root \<in> set roots. \<exists>r. root_row c db root r \<and> known c (cl_seen st) r)"
  using assms
proof (rule collects_each)
  show "\<exists>r. root_row c db root r \<and> known c (cl_seen b) r"
    if "\<exists>r. root_row c db root r \<and> known c (cl_seen a) r" "larger a b" for root a b
    using that unfolding larger_def known_def by blast
qed (erule (1) root_collects[rotated])

lemma collected_seen:
  assumes "collects c db X empty_collecting st"
  shows "\<exists>ks. map (recordIdentity c) (dp_Objects (cl_plan st)) = map Inr ks \<and> distinct ks
      \<and> set ks = set (cl_seen st) \<and> length ks \<le> delete_maximum c"
    "\<forall>o' \<in> set (dp_Objects (cl_plan st)). o' \<in> X \<and> closed c db st o'"
    "known c (cl_seen st) r \<longleftrightarrow> deletes c (cl_plan st) r" "joins_ok c st" "traced c db st"
proof -
  obtain ks where ks: "map (recordIdentity c) (dp_Objects (cl_plan st)) = map Inr ks" "distinct ks"
      "set (cl_seen st) = set ks" "\<forall>o' \<in> set (dp_Objects (cl_plan st)). o' \<in> X \<and> closed c db st o'"
      "length (cl_seen st) \<le> delete_maximum c" "joins_ok c st" "traced c db st"
    using assms by (auto simp: collects_def empty_collecting_def joins_ok_def traced_def)
  have "length ks = card (set (cl_seen st))" using ks(2,3) distinct_card by metis
  then have "length ks \<le> delete_maximum c" using ks(5) card_length[of "cl_seen st"] by linarith
  then show "\<exists>ks. map (recordIdentity c) (dp_Objects (cl_plan st)) = map Inr ks \<and> distinct ks
      \<and> set ks = set (cl_seen st) \<and> length ks \<le> delete_maximum c" using ks by metis
  show "\<forall>o' \<in> set (dp_Objects (cl_plan st)). o' \<in> X \<and> closed c db st o'" "joins_ok c st" "traced c db st" using ks by auto
  have ids: "recordIdentity c ` set (dp_Objects (cl_plan st)) = Inr ` set (cl_seen st)" using ks(1,3) by (metis list.set_map)
  show "known c (cl_seen st) r \<longleftrightarrow> deletes c (cl_plan st) r"
  proof
    assume "known c (cl_seen st) r"
    then obtain key where key: "key \<in> set (cl_seen st)" "recordIdentity c r = Inr key" by (auto simp: known_def)
    then have "Inr key \<in> recordIdentity c ` set (dp_Objects (cl_plan st))" using ids by simp
    then show "deletes c (cl_plan st) r" using key(2) by (auto simp: deletes_def same_identity_def)
  next
    assume "deletes c (cl_plan st) r"
    then obtain o' key where o': "o' \<in> set (dp_Objects (cl_plan st))" "recordIdentity c o' = Inr key" "recordIdentity c r = Inr key"
      by (auto simp: deletes_def same_identity_def)
    then have "(Inr key :: delete_error + string) \<in> Inr ` set (cl_seen st)" using ids by (metis imageI)
    then show "known c (cl_seen st) r" using o'(3) by (auto simp: known_def)
  qed
qed

lemma covered_accounted:
  assumes "covered c (fst sf) (snd sf) rel child st" "joins_ok c st"
    "\<And>r. known c (cl_seen st) r \<longleftrightarrow> deletes c (cl_plan st) r"
    "plan = (cl_plan st)\<lparr>
       dp_Protected := dp_Protected (cl_plan st) @ filter (\<lambda>x. \<not> known c (cl_seen st) (pr_Record x)) (cl_restrictions st),
       dp_Updates := filter (\<lambda>u. \<not> known c (cl_seen st) (fu_Record u)) (dp_Updates (cl_plan st))\<rparr>"
  shows "accounted c plan sf rel child"
proof -
  have d: "deletes c plan r = deletes c (cl_plan st) r" for r using assms(4) by (simp add: deletes_def)
  have j: "\<exists>j \<in> set (dp_JoinRemovals plan). same_identity c (jr_Record j) child"
    if "known c (cl_joins st) child"
    using that assms(2,4) unfolding known_def joins_ok_def same_identity_def by auto
  show ?thesis
    using assms(1) j unfolding accounted_def covered_def d assms(3)
    by (auto simp: assms(4) assms(3) split: if_splits)
qed

lemma collect_plan:
  assumes "delete_collect c db roots = Inr plan"
  shows "\<exists>ks. map (recordIdentity c) (dp_Objects plan) = map Inr ks \<and> distinct ks \<and> length ks \<le> delete_maximum c"
    "set (dp_Objects plan) \<subseteq> reached c db roots"
    "root \<in> set roots \<Longrightarrow> \<exists>r. root_row c db root r \<and> deletes c plan r"
    "o' \<in> set (dp_Objects plan) \<Longrightarrow> sf \<in> set (reverse_relations c) \<Longrightarrow> refers_to o' sf rel
       \<Longrightarrow> referring c db o' sf rel row \<Longrightarrow> accounted c plan sf rel (fetched_record c (fst sf) row)"
    "u \<in> set (dp_Updates plan) \<Longrightarrow> \<not> deletes c plan (fu_Record u) \<and> (\<exists>s f rel. came_from c db False (fu_Record u) s f rel
       \<and> fu_Field u = fld_Name f \<and> update_value c f rel (fu_Value u))"
    "j \<in> set (dp_JoinRemovals plan) \<Longrightarrow> \<exists>s f rel. came_from c db True (jr_Record j) s f rel"
proof -
  obtain st where st: "each (root_step c db) roots empty_collecting = Inr st"
      "plan = (cl_plan st)\<lparr>
         dp_Protected := dp_Protected (cl_plan st) @ filter (\<lambda>x. \<not> known c (cl_seen st) (pr_Record x)) (cl_restrictions st),
         dp_Updates := filter (\<lambda>u. \<not> known c (cl_seen st) (fu_Record u)) (dp_Updates (cl_plan st))\<rparr>"
    using collect_cases[OF assms] by blast
  have c: "collects c db (reached c db roots) empty_collecting st"
      "\<And>root. root \<in> set roots \<Longrightarrow> \<exists>r. root_row c db root r \<and> known c (cl_seen st) r"
    using collected[OF st(1)] by blast+
  have same: "dp_Objects plan = dp_Objects (cl_plan st)" "\<And>r. deletes c plan r = deletes c (cl_plan st) r"
    using st(2) by (simp_all add: deletes_def)
  note seen = collected_seen[OF c(1)]
  show "\<exists>ks. map (recordIdentity c) (dp_Objects plan) = map Inr ks \<and> distinct ks \<and> length ks \<le> delete_maximum c"
    using seen(1) unfolding same by blast
  show "set (dp_Objects plan) \<subseteq> reached c db roots" using seen(2) unfolding same by blast
  show "\<exists>r. root_row c db root r \<and> deletes c plan r" if "root \<in> set roots" using c(2)[OF that] seen(3) unfolding same by blast
  show "accounted c plan sf rel (fetched_record c (fst sf) row)"
    if "o' \<in> set (dp_Objects plan)" "sf \<in> set (reverse_relations c)" "refers_to o' sf rel" "referring c db o' sf rel row"
  proof (rule covered_accounted[OF _ seen(4,3) st(2)])
    show "covered c (fst sf) (snd sf) rel (fetched_record c (fst sf) row) st"
      using seen(2) that unfolding same closed_def handled_def by blast
  qed
  show "\<not> deletes c plan (fu_Record u) \<and> (\<exists>s f rel. came_from c db False (fu_Record u) s f rel
       \<and> fu_Field u = fld_Name f \<and> update_value c f rel (fu_Value u))" if "u \<in> set (dp_Updates plan)"
    using that seen(3,5) unfolding same traced_def by (simp add: st(2))
  show "\<exists>s f rel. came_from c db True (jr_Record j) s f rel" if "j \<in> set (dp_JoinRemovals plan)"
    using that seen(5) unfolding traced_def by (simp add: st(2))
qed

end
