(* ===== verification/Orm_Execute.thy ===== *)
theory Orm_Execute
  imports Orm_Delete
begin

text \<open>
  Executing a deletion (\<open>src/core/orm/delete.go\<close>): inside one transaction the graph is collected again,
  refused when something protects it, authorized, announced to the receivers, and then the updates, the
  join removals and the deletions of the plan are made, each of which must change exactly one row. The
  transaction is \<open>db.Atomic\<close>: an error leaves the database as it was.
\<close>

subsection \<open>Statements\<close>

definition mutate ::
  "delete_collector \<Rightarrow> model_record \<Rightarrow> string \<Rightarrow> go_any \<Rightarrow> database \<Rightarrow> delete_error + database" where
  "mutate c r fieldName value db =
     try_then (recordPK r) (\<lambda>p. try_then (scoped_predicate c (rc_Schema r) p) (\<lambda>q.
       let table = DBTable (rc_Schema r); rows = db table in
       if fieldName \<noteq> [] \<and> schema_Field (rc_Schema r) fieldName = None
       then Inl (Delete_error ''orm: invalid relation update field'')
       else if length (filter q rows) \<noteq> 1 then Inl ErrNotUpdated
       else if fieldName = [] then Inr (db(table := filter (\<lambda>row. \<not> q row) rows))
       else Inr (db(table := map (\<lambda>row. if q row then row(fieldName := value) else row) rows))))"

definition relationTargetField :: "schema \<Rightarrow> relation \<Rightarrow> delete_error + field" where
  "relationTargetField s rel =
     (let names = (if rel_TargetFields rel = [] then map fld_Name (PKFields s) else rel_TargetFields rel) in
      if length names \<noteq> 1 then Inl (Delete_error ''orm: scalar relation requires one target field'')
      else case schema_Field s (hd names) of
             None \<Rightarrow> Inl (Delete_error ''orm: relation target field missing'')
           | Some f \<Rightarrow> Inr f)"

definition join_value :: "delete_collector \<Rightarrow> join_removal \<Rightarrow> database \<Rightarrow> delete_error + go_any" where
  "join_value c j db =
     try_then (recordPK (jr_Endpoint j)) (\<lambda>p.
     try_then (delete_records c db (rc_Schema (jr_Endpoint j)) p 2) (\<lambda>endpoints.
       case endpoints of
         [endpoint] \<Rightarrow>
           (case schema_Field (rc_Schema (jr_Record j)) (jr_Field j) of
              None \<Rightarrow> Inl (Delete_error ''orm: intermediary endpoint mismatch'')
            | Some f \<Rightarrow>
                (case fld_Relation f of
                   None \<Rightarrow> Inl (Delete_error ''orm: intermediary endpoint mismatch'')
                 | Some rel \<Rightarrow>
                     if rel_Target rel \<noteq> schema_Key (rc_Schema (jr_Endpoint j))
                     then Inl (Delete_error ''orm: intermediary endpoint mismatch'')
                     else try_then (relationTargetField (rc_Schema (jr_Endpoint j)) rel)
                            (\<lambda>target. record_Get endpoint (fld_Name target))))
       | _ \<Rightarrow> Inl ErrNotUpdated))"

definition removeJoin :: "delete_collector \<Rightarrow> join_removal \<Rightarrow> database \<Rightarrow> delete_error + database" where
  "removeJoin c j db =
     (if \<not> models_IsAutomatic (dc_Registry c) (schema_Key (rc_Schema (jr_Record j)))
      then Inl (Delete_error ''orm: untrusted automatic intermediary'')
      else try_then (join_value c j db) (\<lambda>value.
             mutate (c\<lparr>dc_Scope := Some (\<lambda>_. Inr (Q (jr_Field j) value))\<rparr>) (jr_Record j) [] None db))"

definition apply_update :: "delete_collector \<Rightarrow> field_update \<Rightarrow> database \<Rightarrow> delete_error + database" where
  "apply_update c u = mutate c (fu_Record u) (fu_Field u) (fu_Value u)"

subsection \<open>The transaction\<close>

text \<open>
  A receiver and the authorization return the view they were given, as they leave it; a receiver also returns
  the database, since it runs inside the transaction.
\<close>

type_synonym receiver = "model_record \<Rightarrow> database \<Rightarrow> string + model_record \<times> database"

record delete_hooks =
  dh_Authorize :: "(deletion_plan \<Rightarrow> string + deletion_plan) option"
  dh_Before :: "receiver list"
  dh_After :: "receiver list"
  dh_Commit :: "database \<Rightarrow> string option"
  dh_zero :: "go_any \<Rightarrow> go_any"

definition deleteCallback :: "model_record \<Rightarrow> receiver \<Rightarrow> database \<Rightarrow> delete_error + database" where
  "deleteCallback r receiver db =
     (case receiver r db of
        Inl e \<Rightarrow> Inl (Delete_error e)
      | Inr (view, db') \<Rightarrow> if view \<noteq> r then Inl ErrDeleteCallbackMutation else Inr db')"

definition authorizeDelete :: "deletion_plan \<Rightarrow> (deletion_plan \<Rightarrow> string + deletion_plan) \<Rightarrow> delete_error option" where
  "authorizeDelete plan authorize =
     (let view = plan\<lparr>dp_Protected := []\<rparr> in
      case authorize view of
        Inl e \<Rightarrow> Some (Delete_error e)
      | Inr view' \<Rightarrow> if view' \<noteq> view then Some ErrDeleteCallbackMutation else None)"

definition authorization :: "delete_hooks \<Rightarrow> deletion_plan \<Rightarrow> delete_error option" where
  "authorization h plan = (case dh_Authorize h of None \<Rightarrow> None | Some authorize \<Rightarrow> authorizeDelete plan authorize)"

type_synonym counts = "string \<Rightarrow> nat"

definition delete_object ::
  "delete_collector \<Rightarrow> delete_hooks \<Rightarrow> model_record \<Rightarrow> counts \<times> database \<Rightarrow> delete_error + counts \<times> database" where
  "delete_object c h r p =
     try_then (mutate c r [] None (snd p)) (\<lambda>db.
     try_then (each (deleteCallback r) (dh_After h) db) (\<lambda>db'.
       let key = schema_Key (rc_Schema r) in Inr ((fst p)(key := fst p key + 1), db')))"

definition delete_body ::
  "delete_collector \<Rightarrow> delete_hooks \<Rightarrow> model_record list \<Rightarrow> database \<Rightarrow> delete_error + counts \<times> database" where
  "delete_body c h roots db =
     try_then (delete_collect c db roots) (\<lambda>plan.
       if dp_Protected plan \<noteq> [] then Inl ErrProtectedRelation
       else case authorization h plan of
         Some e \<Rightarrow> Inl e
       | None \<Rightarrow>
           try_then (each (\<lambda>r. each (deleteCallback r) (dh_Before h)) (dp_Objects plan) db) (\<lambda>db1.
           try_then (each (apply_update c) (dp_Updates plan) db1) (\<lambda>db2.
           try_then (each (removeJoin c) (dp_JoinRemovals plan) db2) (\<lambda>db3.
             each (delete_object c h) (dp_Objects plan) (\<lambda>_. 0, db3)))))"

definition reset_pk :: "delete_hooks \<Rightarrow> field \<Rightarrow> model_record \<Rightarrow> model_record" where
  "reset_pk h pk r =
     (case record_Get r (fld_Name pk) of
        Inl _ \<Rightarrow> r
      | Inr None \<Rightarrow> r
      | Inr v \<Rightarrow> r\<lparr>rc_Values := (rc_Values r)(fld_Name pk := Some (dh_zero h v))\<rparr>)"

definition reset_root :: "delete_hooks \<Rightarrow> model_record \<Rightarrow> model_record" where
  "reset_root h r = fold (reset_pk h) (PKFields (rc_Schema r)) (r\<lparr>rc_Persisted := False\<rparr>)"

definition delete_execute ::
  "delete_collector \<Rightarrow> delete_hooks \<Rightarrow> model_record list \<Rightarrow> database
   \<Rightarrow> (delete_error + counts) \<times> database \<times> model_record list" where
  "delete_execute c h roots db =
     (case delete_body c h roots db of
        Inl e \<Rightarrow> (Inl e, db, roots)
      | Inr (counts, db') \<Rightarrow>
          (case dh_Commit h db' of
             Some e \<Rightarrow> (Inl (Delete_error e), db, roots)
           | None \<Rightarrow> (Inr counts, db', map (reset_root h) roots)))"

definition delete_Execute ::
  "delete_collector \<Rightarrow> delete_hooks \<Rightarrow> model_record \<Rightarrow> database
   \<Rightarrow> (delete_error + counts) \<times> database \<times> model_record list" where
  "delete_Execute c h root db = delete_execute c h [root] db"

subsection \<open>The effect of each phase\<close>













subsection \<open>Well-formed registries and tables\<close>






lemma fetched_Get:
  assumes "f \<in> set (sch_Fields s)" "IsStored f"
  shows "record_Get (fetched_record c s row) (fld_Name f) = Inr (row (fld_Name f))"
proof -
  have "schema_Field s (fld_Name f) \<noteq> None" using assms(1) by (auto simp: schema_Field_def find_None_iff)
  moreover have "list_ex (\<lambda>g. IsStored g \<and> fld_Name g = fld_Name f) (sch_Fields s)" using assms by (auto simp: list_ex_iff)
  ultimately show ?thesis by (auto simp: record_Get_def fetched_record_def)
qed

lemma fetched_schema [simp]:
  "rc_Schema (fetched_record c s row) = s" "rc_Database (fetched_record c s row) = dc_Alias c"
  by (simp_all add: fetched_record_def)





subsection \<open>Updates keep keys\<close>










subsection \<open>The effect of an execution\<close>











subsection \<open>A tree of nodes\<close>

text \<open>A model whose rows refer to each other: a parent, with cascading deletion, and a peer, set to null.\<close>

definition node_fields :: "field list" where
  "node_fields =
     [BigAutoField ''id'',
      (ForeignKeyField ''parent'' (zero_relation\<lparr>rel_Target := ''app.Node'', rel_OnDelete := ''CASCADE''\<rparr>))\<lparr>fld_Null := True\<rparr>,
      (ForeignKeyField ''peer'' (zero_relation\<lparr>rel_Target := ''app.Node'', rel_OnDelete := ''SET_NULL''\<rparr>))\<lparr>fld_Null := True\<rparr>]"

definition node_schema :: schema where
  "node_schema = zero_schema\<lparr>sch_AppLabel := ''app'', sch_Name := ''Node'', sch_Table := ''node'', sch_Fields := node_fields\<rparr>"

definition node_collector :: delete_collector where
  "node_collector =
     \<lparr>dc_Registry = \<lparr>mreg_schemas = [(''app.Node'', node_schema)], mreg_automatic = [], mreg_frozen = True\<rparr>,
      dc_Alias = ''default'', dc_Scope = None, dc_MaxObjects = 4, dc_MaxWork = 0,
      dc_marshal = (\<lambda>vs. case vs of [Some v] \<Rightarrow> Some v | _ \<Rightarrow> None), dc_default = (\<lambda>_. None), dc_validate = (\<lambda>_ _. None)\<rparr>"

definition node_row :: "string \<Rightarrow> go_any \<Rightarrow> go_any \<Rightarrow> row" where
  "node_row i parent peer = (\<lambda>_. None)(''id'' := Some i, ''parent'' := parent, ''peer'' := peer)"

definition node_db :: database where
  "node_db =
     (\<lambda>_. [])(''node'' := [node_row ''1'' None None, node_row ''2'' (Some ''1'') None, node_row ''3'' None (Some ''2'')])"


definition node_root :: model_record where
  "node_root = fetched_record node_collector node_schema (node_row ''1'' None None)"

lemma node_sel:
  "models_All (dc_Registry node_collector) = [node_schema]" "dc_Scope node_collector = None"
  "models_IsAutomatic (dc_Registry node_collector) key = False" "delete_maximum node_collector = 4"
  "delete_work_limit node_collector = 128" "DBTable node_schema = ''node''" "schema_Key node_schema = ''app.Node''"
  by (simp_all add: node_collector_def models_All_def models_IsAutomatic_def delete_maximum_def delete_work_limit_def
      DBTable_def schema_Key_def node_schema_def zero_schema_def)

lemma node_fields_sel:
  "sch_Fields node_schema = node_fields" "PKFields node_schema = [BigAutoField ''id'']"
  by (simp_all add: node_schema_def zero_schema_def PKFields_def node_fields_def BigAutoField_def ForeignKeyField_def
      NewField_def IsAuto_def zero_field_def Let_def)

abbreviation node_rec :: "string \<Rightarrow> go_any \<Rightarrow> go_any \<Rightarrow> model_record" where
  "node_rec i parent peer \<equiv> fetched_record node_collector node_schema (node_row i parent peer)"

lemma node_row_sel:
  "node_row i parent peer ''id'' = Some i" "node_row i parent peer ''parent'' = parent" "node_row i parent peer ''peer'' = peer"
  by (simp_all add: node_row_def)

lemma node_id:
  "BigAutoField ''id'' \<in> set (sch_Fields node_schema)" "IsStored (BigAutoField ''id'')" "fld_Name (BigAutoField ''id'') = ''id''"
  by (simp_all add: node_fields_sel node_fields_def)
     (simp_all add: BigAutoField_def NewField_def IsAuto_def zero_field_def IsStored_def Let_def)

lemma node_Get: "record_Get (node_rec i parent peer) ''id'' = Inr (Some i)"
  using fetched_Get[OF node_id(1,2), of node_collector "node_row i parent peer"] by (simp add: node_id(3) node_row_sel)

lemma node_identity: "recordIdentity node_collector (node_rec i parent peer) = Inr (''app.Node:'' @ i)"
  by (simp add: recordIdentity_def node_fields_sel node_id(3) node_Get node_sel(7))
     (simp add: node_collector_def node_sel(7)[unfolded node_collector_def])

lemma node_pk: "recordPK (node_rec i parent peer) = Inr (\<lambda>row. row ''id'' = Some i)"
  by (simp add: recordPK_def node_fields_sel node_id(3) node_Get Q_def)

definition parent_field :: field where "parent_field = node_fields ! 1"
definition peer_field :: field where "peer_field = node_fields ! 2"

lemma node_relations:
  "reverse_relations node_collector =
     [(node_schema, BigAutoField ''id''), (node_schema, parent_field), (node_schema, peer_field)]"
  by (simp add: reverse_relations_def node_sel node_fields_sel parent_field_def peer_field_def) (simp add: node_fields_def)

lemma node_field_sel:
  "fld_Relation (BigAutoField ''id'') = None"
  "fld_Relation parent_field = Some (zero_relation\<lparr>rel_Target := ''app.Node'', rel_OnDelete := ''CASCADE''\<rparr>)"
  "fld_Relation peer_field = Some (zero_relation\<lparr>rel_Target := ''app.Node'', rel_OnDelete := ''SET_NULL''\<rparr>)"
  "fld_Name parent_field = ''parent''" "fld_Name peer_field = ''peer''" "fld_Null peer_field"
  "IsStored parent_field" "IsStored peer_field"
  by (simp_all add: parent_field_def peer_field_def node_fields_def BigAutoField_def ForeignKeyField_def NewField_def
      IsAuto_def zero_field_def IsStored_def Let_def)

text \<open>Evaluation reduces a step only when its state is known.\<close>

lemma run_cong:
  "m = m' \<Longrightarrow> try_then m f = try_then m' f" "xs = ys \<Longrightarrow> s = t \<Longrightarrow> each g xs s = each g ys t"
  by simp_all

lemma visit_apply:
  "delete_visit (Suc n) c db record st =
     try_then (tick c st) (\<lambda>st. try_then (recordIdentity c record) (\<lambda>key.
       if key \<in> set (cl_seen st) then Inr st
       else if length (cl_seen st) \<ge> delete_maximum c then Inl ErrDeleteLimit
       else try_then (each (relation_step c db (delete_visit n c db) record) (reverse_relations c)
                        (st\<lparr>cl_seen := key # cl_seen st\<rparr>))
              (\<lambda>st. Inr (add_object record st))))"
  by simp

lemmas visit_numeral = visit_apply[of "pred_numeral k" for k, folded numeral_eq_Suc]

lemma relation_parts:
  "rel_NoConstraint zero_relation = False" "rel_Target zero_relation = []" "rel_OnDelete zero_relation = []"
  by (simp_all add: zero_relation_def)

lemma node_keys:
  "relation_keys (node_rec i parent peer) (zero_relation\<lparr>rel_Target := t, rel_OnDelete := p\<rparr>) = [''id'']"
  by (simp add: relation_keys_def zero_relation_def node_fields_sel node_id(3))

lemmas node_run = node_sel node_relations node_field_sel node_keys node_Get node_identity node_pk node_row_sel
  relation_step_def child_step_def policy_step_def track_def tick_def delete_records_def scoped_predicate_def Q_def
  Let_def add_update_def add_object_def on_plan_def

lemma node_collected:
  "delete_collect node_collector node_db [node_root] = Inr
     \<lparr>dp_Objects = [node_rec ''2'' (Some ''1'') None, node_rec ''1'' None None],
      dp_Updates = [\<lparr>fu_Record = node_rec ''3'' None (Some ''2''), fu_Field = ''peer'', fu_Value = None\<rparr>],
      dp_Protected = [], dp_JoinRemovals = []\<rparr>"
  by (simp add: delete_collect_def root_step_def node_root_def empty_collecting_def node_db_def relation_parts visit_numeral
      visit_apply restriction_step_def update_step_def node_run del: delete_visit.simps cong: run_cong)






subsection \<open>Null keys\<close>

text \<open>
  A relation may point at a nullable column. The query for the rows that refer to an object whose key is null is
  then \<^verbatim>\<open>IS NULL\<close>, so that every row without a reference counts as referring to it: with a cascading
  relation the deletion takes rows that never pointed at anything deleted.
\<close>

lemma null_key_deletes_unrelated:
  assumes "delete_collect c db roots = Inr plan" "o' \<in> set (dp_Objects plan)" "dc_Scope c = None"
    "(s, f) \<in> set (reverse_relations c)" "refers_to o' (s, f) rel" "rel_OnDelete rel = ''CASCADE''"
    "\<not> models_IsAutomatic (dc_Registry c) (schema_Key s)" "record_Get o' (hd (relation_keys o' rel)) = Inr None"
    "row \<in> set (db (DBTable s))" "row (fld_Name f) = None"
  shows "deletes c plan (fetched_record c s row)"
proof -
  have "referring c db o' (s, f) rel row"
    using assms(3,7-10) by (auto simp: referring_def relation_reader_def scoped_predicate_def Q_def)
  then show ?thesis using collect_plan(4)[OF assms(1,2,4,5)] assms(6,7) by (auto simp: accounted_def)
qed

definition item_fields :: "field list" where
  "item_fields =
     [BigAutoField ''id'', (NewField ''code'' ''char'')\<lparr>fld_Null := True, fld_Unique := True\<rparr>,
      (ForeignKeyField ''parent'' (zero_relation\<lparr>rel_Target := ''app.Node'', rel_OnDelete := ''CASCADE'',
         rel_TargetFields := [''code'']\<rparr>))\<lparr>fld_Null := True\<rparr>]"

definition item_schema :: schema where
  "item_schema = node_schema\<lparr>sch_Fields := item_fields\<rparr>"

definition item_collector :: delete_collector where
  "item_collector =
     node_collector\<lparr>dc_Registry := \<lparr>mreg_schemas = [(''app.Node'', item_schema)], mreg_automatic = [], mreg_frozen = True\<rparr>\<rparr>"

definition item_row :: "string \<Rightarrow> go_any \<Rightarrow> go_any \<Rightarrow> row" where
  "item_row i code parent = (\<lambda>_. None)(''id'' := Some i, ''code'' := code, ''parent'' := parent)"

definition item_db :: database where
  "item_db = (\<lambda>_. [])(''node'' := [item_row ''1'' None None, item_row ''2'' (Some ''x'') None])"

abbreviation item_rec :: "string \<Rightarrow> go_any \<Rightarrow> go_any \<Rightarrow> model_record" where
  "item_rec i code parent \<equiv> fetched_record item_collector item_schema (item_row i code parent)"

lemma item_sel:
  "models_All (dc_Registry item_collector) = [item_schema]" "dc_Scope item_collector = None"
  "models_IsAutomatic (dc_Registry item_collector) key = False" "delete_maximum item_collector = 4"
  "delete_work_limit item_collector = 128" "DBTable item_schema = ''node''" "schema_Key item_schema = ''app.Node''"
  by (simp_all add: item_collector_def node_collector_def models_All_def models_IsAutomatic_def delete_maximum_def
      delete_work_limit_def DBTable_def schema_Key_def item_schema_def node_schema_def zero_schema_def)

lemma item_fields_sel:
  "sch_Fields item_schema = item_fields" "PKFields item_schema = [BigAutoField ''id'']"
  by (simp_all add: item_schema_def node_schema_def zero_schema_def PKFields_def item_fields_def BigAutoField_def
      ForeignKeyField_def NewField_def IsAuto_def zero_field_def Let_def)

lemma item_Get:
  "record_Get (item_rec i code parent) ''id'' = Inr (Some i)" "record_Get (item_rec i code parent) ''code'' = Inr code"
  by (simp_all add: record_Get_def fetched_record_def schema_Field_def item_fields_sel)
     (simp_all add: item_fields_def item_row_def BigAutoField_def NewField_def IsAuto_def zero_field_def
        IsStored_def Let_def)

lemma item_identity: "recordIdentity item_collector (item_rec i code parent) = Inr (''app.Node:'' @ i)"
  by (simp add: recordIdentity_def item_fields_sel node_id(3) item_Get item_sel(7))
     (simp add: item_collector_def node_collector_def item_sel(7)[unfolded item_collector_def node_collector_def])

lemma item_pk: "recordPK (item_rec i code parent) = Inr (\<lambda>row. row ''id'' = Some i)"
  by (simp add: recordPK_def item_fields_sel node_id(3) item_Get Q_def)

definition code_field :: field where "code_field = item_fields ! 1"
definition owner_field :: field where "owner_field = item_fields ! 2"

lemma item_relations:
  "reverse_relations item_collector =
     [(item_schema, BigAutoField ''id''), (item_schema, code_field), (item_schema, owner_field)]"
  by (simp add: reverse_relations_def item_sel item_fields_sel code_field_def owner_field_def) (simp add: item_fields_def)

lemma item_field_sel:
  "fld_Relation code_field = None" "fld_Name owner_field = ''parent''" "IsStored owner_field"
  "fld_Relation owner_field =
     Some (zero_relation\<lparr>rel_Target := ''app.Node'', rel_OnDelete := ''CASCADE'', rel_TargetFields := [''code'']\<rparr>)"
  by (simp_all add: code_field_def owner_field_def item_fields_def ForeignKeyField_def NewField_def
      IsAuto_def zero_field_def IsStored_def Let_def)

text \<open>Node 2 refers to nothing, and is deleted with node 1.\<close>

lemma null_key_example:
  "delete_collect item_collector item_db [item_rec ''1'' None None] = Inr
     \<lparr>dp_Objects = [item_rec ''2'' (Some ''x'') None, item_rec ''1'' None None],
      dp_Updates = [], dp_Protected = [], dp_JoinRemovals = []\<rparr>"
proof -
  have rows: "item_row i code parent ''id'' = Some i" "item_row i code parent ''parent'' = parent" for i code parent
    by (simp_all add: item_row_def)
  have keys: "relation_keys r (zero_relation\<lparr>rel_Target := t, rel_OnDelete := p, rel_TargetFields := [''code'']\<rparr>) = [''code'']" for r t p
    by (simp add: relation_keys_def)
  show ?thesis
    by (simp add: delete_collect_def root_step_def empty_collecting_def item_db_def relation_parts visit_numeral visit_apply
        restriction_step_def update_step_def item_sel item_relations item_field_sel keys item_Get item_identity item_pk rows
        node_run del: delete_visit.simps cong: run_cong)
qed

subsection \<open>The properties\<close>

text \<open>
  C6. A deletion plan is complete and exact about what it deletes. Its objects have distinct identities, at most
  the maximum; each is reached from a root by cascading relations and each root is among them; and every row
  that refers to a deleted object is accounted for by the policy of its relation: deleted with it, reported as
  protecting it, given an update, removed as a join row, or left to the database.
\<close>

theorem delete_plan_complete:
  assumes "delete_collect c db roots = Inr plan"
  shows "(\<exists>ks. map (recordIdentity c) (dp_Objects plan) = map Inr ks \<and> distinct ks \<and> length ks \<le> delete_maximum c)
    \<and> set (dp_Objects plan) \<subseteq> reached c db roots
    \<and> (\<forall>root \<in> set roots. \<exists>r. root_row c db root r \<and> deletes c plan r)
    \<and> (\<forall>o' \<in> set (dp_Objects plan). \<forall>sf \<in> set (reverse_relations c). \<forall>rel row.
         refers_to o' sf rel \<and> referring c db o' sf rel row
         \<longrightarrow> accounted c plan sf rel (fetched_record c (fst sf) row))"
  using collect_plan[OF assms] by blast

theorem delete_plan_complete_witness:
  "accounted node_collector
     \<lparr>dp_Objects = [node_rec ''2'' (Some ''1'') None, node_rec ''1'' None None],
      dp_Updates = [\<lparr>fu_Record = node_rec ''3'' None (Some ''2''), fu_Field = ''peer'', fu_Value = None\<rparr>],
      dp_Protected = [], dp_JoinRemovals = []\<rparr>
     (node_schema, peer_field) (zero_relation\<lparr>rel_Target := ''app.Node'', rel_OnDelete := ''SET_NULL''\<rparr>)
     (node_rec ''3'' None (Some ''2''))"
proof -
  let ?rel = "zero_relation\<lparr>rel_Target := ''app.Node'', rel_OnDelete := ''SET_NULL''\<rparr>"
  have "refers_to (node_rec ''2'' (Some ''1'') None) (node_schema, peer_field) ?rel"
    by (simp add: refers_to_def node_field_sel node_sel)
  moreover have "referring node_collector node_db (node_rec ''2'' (Some ''1'') None) (node_schema, peer_field) ?rel
      (node_row ''3'' None (Some ''2''))"
    by (simp add: referring_def relation_reader_def node_run node_db_def)
  ultimately show ?thesis using delete_plan_complete[OF node_collected] by (simp add: node_relations)
qed





end
