(* ===== verification/Base64_Url.thy ===== *)
theory Base64_Url
  imports Sha256
begin

text \<open>
  The parts of Go's standard library that signed tokens rest on: base64 with the URL alphabet and no padding
  (\<open>base64.RawURLEncoding\<close>, whose decoder skips line ends and ignores spare bits), and HMAC over SHA-256.
\<close>

definition b64_char :: "nat \<Rightarrow> char" where
  "b64_char n =
     (if n < 26 then char_of (65 + n) else if n < 52 then char_of (71 + n) else if n < 62 then char_of (n - 4)
      else if n = 62 then CHR ''-'' else CHR ''_'')"

definition b64_value :: "char \<Rightarrow> nat option" where
  "b64_value c =
     (let n = of_char c :: nat in
      if is_upper c then Some (n - 65) else if is_lower c then Some (n - 71) else if is_digit c then Some (n + 4)
      else if c = CHR ''-'' then Some 62 else if c = CHR ''_'' then Some 63 else None)"

fun b64_groups :: "nat list \<Rightarrow> nat list" where
  "b64_groups [] = []"
| "b64_groups [a] = [a div 4, a mod 4 * 16]"
| "b64_groups [a, b] = [a div 4, a mod 4 * 16 + b div 16, b mod 16 * 4]"
| "b64_groups (a # b # c # rest) =
     a div 4 # (a mod 4 * 16 + b div 16) # (b mod 16 * 4 + c div 64) # c mod 64 # b64_groups rest"

fun b64_bytes :: "nat list \<Rightarrow> nat list option" where
  "b64_bytes [] = Some []"
| "b64_bytes [v] = None"
| "b64_bytes [v, w] = Some [v * 4 + w div 16]"
| "b64_bytes [v, w, x] = Some [v * 4 + w div 16, w mod 16 * 16 + x div 4]"
| "b64_bytes (v # w # x # y # rest) =
     map_option (\<lambda>bs. (v * 4 + w div 16) # (w mod 16 * 16 + x div 4) # (x mod 4 * 64 + y) # bs) (b64_bytes rest)"

definition EncodeToString :: "string \<Rightarrow> string" where
  "EncodeToString s = map b64_char (b64_groups (map of_char s))"

definition DecodeString :: "string \<Rightarrow> string option" where
  "DecodeString s =
     (let vs = map b64_value (filter (\<lambda>c. c \<noteq> CHR 0x0A \<and> c \<noteq> CHR 0x0D) s) in
      if list_all (\<lambda>v. v \<noteq> None) vs then map_option (map char_of) (b64_bytes (map the vs)) else None)"

text \<open>HMAC: the key is hashed when it is longer than a block and padded to one.\<close>

definition xor_byte :: "nat \<Rightarrow> char \<Rightarrow> char" where
  "xor_byte n c = char_of (Bit_Operations.xor n (of_char c))"

definition hmac_sha256 :: "string \<Rightarrow> string \<Rightarrow> string" where
  "hmac_sha256 key message =
     (let k0 = (if length key > 64 then sha256 key else key);
          k = k0 @ replicate (64 - length k0) (CHR 0x00) in
      sha256 (map (xor_byte 0x5c) k @ sha256 (map (xor_byte 0x36) k @ message)))"

lemma length_hmac [simp]: "length (hmac_sha256 key message) = 32"
  by (simp add: hmac_sha256_def Let_def)

subsection \<open>Decoding inverts encoding\<close>

lemma b64_value_char:
  assumes "n < 64"
  shows "b64_value (b64_char n) = Some n"
proof -
  consider "n < 26" | "26 \<le> n" "n < 52" | "52 \<le> n" "n < 62" | "n = 62" | "n = 63" using assms by linarith
  then show ?thesis
    by cases (auto simp: b64_char_def b64_value_def is_upper_def is_lower_def is_digit_def less_eq_char_def Let_def)
qed

lemma b64_char_line: "n < 64 \<Longrightarrow> b64_char n \<noteq> CHR 0x0A \<and> b64_char n \<noteq> CHR 0x0D \<and> b64_char n \<noteq> CHR ''.''"
proof -
  have "b64_value (CHR 0x0A) = None" "b64_value (CHR 0x0D) = None" "b64_value (CHR ''.'') = None" by code_simp+
  then show "n < 64 \<Longrightarrow> b64_char n \<noteq> CHR 0x0A \<and> b64_char n \<noteq> CHR 0x0D \<and> b64_char n \<noteq> CHR ''.''"
    using b64_value_char[of n] by auto
qed

lemma b64_groups_small: "\<forall>b \<in> set bs. b < 256 \<Longrightarrow> \<forall>v \<in> set (b64_groups bs). v < 64"
  by (induction bs rule: b64_groups.induct) (auto simp: less_mult_imp_div_less)

lemma b64_groups_inverse: "\<forall>b \<in> set bs. b < 256 \<Longrightarrow> b64_bytes (b64_groups bs) = Some bs"
proof (induction bs rule: b64_groups.induct)
  case (4 a b c rest)
  have "(a mod 4 * 16 + b div 16) div 16 = a mod 4" "(b mod 16 * 4 + c div 64) div 4 = b mod 16"
    "(a mod 4 * 16 + b div 16) mod 16 = b div 16" "(b mod 16 * 4 + c div 64) mod 4 = c div 64"
    using 4(2) by (auto simp: less_mult_imp_div_less)
  then show ?case using 4 by simp
qed (auto simp: less_mult_imp_div_less)

lemma of_char_bytes: "\<forall>b \<in> set (map of_char s). (b :: nat) < 256"
  by simp

lemma encoded_values:
  assumes "\<forall>v \<in> set vs. v < 64"
  shows "filter (\<lambda>c. c \<noteq> CHR 0x0A \<and> c \<noteq> CHR 0x0D) (map b64_char vs) = map b64_char vs"
    and "map b64_value (map b64_char vs) = map Some vs"
  using assms b64_char_line b64_value_char by (auto intro!: filter_True map_idI simp: map_idI)

lemma DecodeString_EncodeToString: "DecodeString (EncodeToString s) = Some s"
proof -
  let ?vs = "b64_groups (map of_char s)"
  note small = b64_groups_small[OF of_char_bytes[of s]]
  have "map char_of (map of_char s :: nat list) = s" by (induction s) auto
  moreover have "map the (map Some ?vs) = ?vs" "list_all (\<lambda>v. v \<noteq> None) (map Some ?vs)" by (simp_all add: comp_def list_all_iff)
  ultimately show ?thesis
    unfolding DecodeString_def EncodeToString_def Let_def encoded_values[OF small]
    using b64_groups_inverse[OF of_char_bytes[of s]] by simp
qed

lemma EncodeToString_no_dot: "CHR ''.'' \<notin> set (EncodeToString s)"
proof
  assume "CHR ''.'' \<in> set (EncodeToString s)"
  then obtain v where v: "v \<in> set (b64_groups (map of_char s))" "CHR ''.'' = b64_char v"
    unfolding EncodeToString_def set_map by (rule imageE)
  then have "v < 64" using b64_groups_small[OF of_char_bytes[of s]] by blast
  from b64_char_line[OF this] show False using v(2) by simp
qed

lemma length_b64_groups: "length (b64_groups bs) = (4 * length bs + 2) div 3"
  by (induction bs rule: b64_groups.induct) auto

lemma length_EncodeToString: "length (EncodeToString s) = (4 * length s + 2) div 3"
  by (simp add: EncodeToString_def length_b64_groups)

end
