(* ===== verification/Pagination.thy ===== *)
theory Pagination
  imports Go_Prelude
begin

text \<open>
  Bounded page navigation, \<open>core/pagination/offset.go\<close> and \<open>config.go\<close>: normalising a configuration
  (\<open>New\<close>, \<open>Configuration\<close>), reading a page from the query (\<open>Parse\<close>) and the links to the neighbouring
  pages (\<open>Links\<close>).

  A query \<open>url.Values\<close> is a map from keys to lists of strings; its encoding to a query string is the
  parameter \<open>encode\<close>. Go's \<open>int\<close> has 64 bits on the supported targets: \<open>go_int\<close> wraps the result of
  every addition, subtraction and multiplication.
\<close>

section \<open>Machine integers and decimal digits\<close>

definition go_int :: "int \<Rightarrow> int" where
  "go_int x = signed_take_bit 63 x"

definition Itoa :: "int \<Rightarrow> string" where
  "Itoa x = (if x < 0 then CHR ''-'' # itoa_nat (nat (- x)) else itoa_nat (nat x))"

section \<open>Configuration\<close>

datatype page_error = Pagination_invalid

record page_config =
  pc_Mode :: string
  pc_DefaultSize :: int
  pc_MaxSize :: int
  pc_MaxOffset :: int

record page =
  pg_Size :: int
  pg_Offset :: int

type_synonym url_values = "string \<rightharpoonup> string list"

definition PageNumber :: string where "PageNumber = ''page''"
definition LimitOffset :: string where "LimitOffset = ''offset''"
definition CursorMode :: string where "CursorMode = ''cursor''"
definition MaxCursorBytes :: nat where "MaxCursorBytes = 8192"

lemmas mode_defs = PageNumber_def LimitOffset_def CursorMode_def

definition page_defaults :: "page_config \<Rightarrow> page_config" where
  "page_defaults c =
     \<lparr>pc_Mode = (if pc_Mode c = [] then PageNumber else pc_Mode c),
      pc_DefaultSize = (if pc_DefaultSize c = 0 then 50 else pc_DefaultSize c),
      pc_MaxSize = (if pc_MaxSize c = 0 then 200 else pc_MaxSize c),
      pc_MaxOffset = (if pc_MaxOffset c = 0 then 1000000 else pc_MaxOffset c)\<rparr>"

definition pagination_New :: "page_config \<Rightarrow> page_error + page_config" where
  "pagination_New c0 =
     (let c = page_defaults c0 in
      if pc_Mode c \<noteq> PageNumber \<and> pc_Mode c \<noteq> LimitOffset \<and> pc_Mode c \<noteq> CursorMode \<or> pc_DefaultSize c < 1
         \<or> pc_MaxSize c < pc_DefaultSize c \<or> pc_MaxSize c > 200 \<or> pc_MaxOffset c < 1
         \<or> pc_MaxOffset c > max_int64 - 201
      then Inl Pagination_invalid else Inr c)"

definition Configuration :: "page_config option \<Rightarrow> page_error + page_config" where
  "Configuration p =
     (case p of
        None \<Rightarrow> Inl Pagination_invalid
      | Some c \<Rightarrow> (case pagination_New c of
          Inl e \<Rightarrow> Inl Pagination_invalid
        | Inr c' \<Rightarrow> if c' \<noteq> c then Inl Pagination_invalid else Inr c))"

section \<open>Reading a page\<close>

definition key_refused :: "page_config \<Rightarrow> string \<Rightarrow> string list \<Rightarrow> bool" where
  "key_refused c key items \<longleftrightarrow>
     length items \<noteq> 1
     \<or> key = ''cursor'' \<and> (pc_Mode c \<noteq> CursorMode \<or> hd items = [] \<or> length (hd items) > MaxCursorBytes)
     \<or> pc_Mode c = PageNumber \<and> (key = ''limit'' \<or> key = ''offset'')
     \<or> pc_Mode c = LimitOffset \<and> (key = ''page'' \<or> key = ''page_size'')
     \<or> pc_Mode c = CursorMode \<and> (key = ''page'' \<or> key = ''limit'' \<or> key = ''offset'')"

definition page_keys :: "string list" where
  "page_keys = [''page'', ''page_size'', ''limit'', ''offset'', ''cursor'']"

definition keys_refused :: "page_config \<Rightarrow> url_values \<Rightarrow> bool" where
  "keys_refused c vs \<longleftrightarrow>
     list_ex (\<lambda>key. case vs key of None \<Rightarrow> False | Some items \<Rightarrow> key_refused c key items) page_keys"

definition read_int :: "url_values \<Rightarrow> string \<Rightarrow> int \<Rightarrow> int option" where
  "read_int vs key fallback =
     (case vs key of
        None \<Rightarrow> Some fallback
      | Some items \<Rightarrow>
          if length (hd items) = 0 \<or> length (hd items) > 20 then None
          else if \<not> list_all is_digit (hd items) then None
          else parse_int64 (hd items))"

definition read_size :: "page_config \<Rightarrow> url_values \<Rightarrow> string \<Rightarrow> int option" where
  "read_size c vs key =
     (case read_int vs key (pc_DefaultSize c) of
        None \<Rightarrow> None | Some n \<Rightarrow> if n < 1 \<or> n > pc_MaxSize c then None else Some n)"

definition pagination_Parse :: "page_config option \<Rightarrow> url_values \<Rightarrow> page_error + page" where
  "pagination_Parse p vs =
     (case p of
        None \<Rightarrow> Inl Pagination_invalid
      | Some c \<Rightarrow>
          if keys_refused c vs then Inl Pagination_invalid
          else if pc_Mode c = PageNumber \<or> pc_Mode c = CursorMode then
            (case read_size c vs ''page_size'' of
               None \<Rightarrow> Inl Pagination_invalid
             | Some sz \<Rightarrow>
                 if pc_Mode c = CursorMode then Inr \<lparr>pg_Size = sz, pg_Offset = 0\<rparr>
                 else (case read_int vs ''page'' 1 of
                         None \<Rightarrow> Inl Pagination_invalid
                       | Some n \<Rightarrow>
                           if n < 1 \<or> go_int (n - 1) > pc_MaxOffset c div sz then Inl Pagination_invalid
                           else Inr \<lparr>pg_Size = sz, pg_Offset = go_int (go_int (n - 1) * sz)\<rparr>))
          else
            (case read_size c vs ''limit'' of
               None \<Rightarrow> Inl Pagination_invalid
             | Some sz \<Rightarrow>
                 (case read_int vs ''offset'' 0 of
                    None \<Rightarrow> Inl Pagination_invalid
                  | Some off \<Rightarrow>
                      if off > pc_MaxOffset c then Inl Pagination_invalid
                      else Inr \<lparr>pg_Size = sz, pg_Offset = off\<rparr>)))"

section \<open>Links\<close>

definition page_link :: "page_config \<Rightarrow> url_values \<Rightarrow> int \<Rightarrow> int \<Rightarrow> url_values" where
  "page_link c vs sz off =
     (if pc_Mode c = PageNumber
      then vs(''page'' \<mapsto> [Itoa (go_int (off div sz + 1))], ''page_size'' \<mapsto> [Itoa sz])
      else vs(''offset'' \<mapsto> [Itoa off], ''limit'' \<mapsto> [Itoa sz]))"

definition pagination_Links ::
  "(url_values \<Rightarrow> string) \<Rightarrow> page_config option \<Rightarrow> url_values \<Rightarrow> page \<Rightarrow> bool \<Rightarrow> string \<times> string" where
  "pagination_Links encode p vs pg hasMore =
     (case p of
        None \<Rightarrow> ([], [])
      | Some c \<Rightarrow>
          if pc_Mode c = CursorMode \<or> pg_Size pg < 1 \<or> pg_Size pg > pc_MaxSize c \<or> pg_Offset pg < 0
             \<or> pg_Offset pg > pc_MaxOffset c
          then ([], [])
          else
            (if hasMore \<and> pg_Offset pg \<le> go_int (pc_MaxOffset c - pg_Size pg)
             then ''?'' @ encode (page_link c vs (pg_Size pg) (go_int (pg_Offset pg + pg_Size pg))) else [],
             if pg_Offset pg > 0
             then ''?'' @ encode (page_link c vs (pg_Size pg) (max 0 (go_int (pg_Offset pg - pg_Size pg)))) else []))"

section \<open>Decimal round trip\<close>

lemma go_int_id: "min_int64 \<le> x \<Longrightarrow> x \<le> max_int64 \<Longrightarrow> go_int x = x"
  unfolding go_int_def min_int64_def max_int64_def by (rule signed_take_bit_int_eq_self) auto

lemma digit_not_sign: "is_digit c \<Longrightarrow> c \<noteq> CHR ''-'' \<and> c \<noteq> CHR ''+''"
  by (auto simp: is_digit_def less_eq_char_def)

lemma parse_digits:
  assumes "s \<noteq> []" "list_all is_digit s"
  shows "parse_int64 s = (if decimal_value 0 s \<le> max_int64 then Some (decimal_value 0 s) else None)"
proof -
  have "is_digit (hd s)" using assms by (cases s) auto
  moreover have "min_int64 \<le> decimal_value 0 s"
    using decimal_value_nonneg[of 0 s] assms(2) by (simp add: min_int64_def)
  ultimately show ?thesis using assms digit_not_sign[of "hd s"] by (simp add: parse_int64_def)
qed

lemma read_Itoa:
  assumes "0 \<le> x" "x \<le> max_int64" "vs key = Some [Itoa x]"
  shows "read_int vs key d = Some x"
proof -
  have "nat x < 10 ^ Suc 18" using assms(2) by (simp add: max_int64_def)
  from itoa_nat_length[OF this] have "1 \<le> length (Itoa x)" "length (Itoa x) \<le> 20"
    using assms(1) by (simp_all add: Itoa_def)
  moreover have "list_all is_digit (Itoa x)" "decimal_value 0 (Itoa x) = x"
    using itoa_nat_value[of "nat x"] assms(1) by (simp_all add: Itoa_def)
  moreover have "Itoa x \<noteq> []" using \<open>1 \<le> length (Itoa x)\<close> by auto
  ultimately show ?thesis using assms(2,3) parse_digits[of "Itoa x"] by (auto simp: read_int_def)
qed

section \<open>Guarantees\<close>

lemma New_valid:
  assumes "pagination_New c0 = Inr c"
  shows "1 \<le> pc_DefaultSize c \<and> pc_DefaultSize c \<le> pc_MaxSize c \<and> pc_MaxSize c \<le> 200 \<and> 1 \<le> pc_MaxOffset c \<and>
    pc_MaxOffset c \<le> max_int64 - 201 \<and> pc_Mode c \<in> {PageNumber, LimitOffset, CursorMode} \<and> pagination_New c = Inr c"
proof -
  have c: "c = page_defaults c0" using assms by (auto simp: pagination_New_def Let_def split: if_splits)
  have "page_defaults c = c" unfolding c by (simp add: page_defaults_def mode_defs)
  then have "pagination_New c = pagination_New c0" by (simp add: pagination_New_def c)
  then show ?thesis using assms by (auto simp: pagination_New_def Let_def split: if_splits)
qed

lemma page_arithmetic:
  assumes "1 \<le> n" "n - 1 \<le> m div sz" "1 \<le> sz" "(0 :: int) \<le> m" "m \<le> max_int64 - 201" "n \<le> max_int64"
  shows "go_int (n - 1) = n - 1 \<and> go_int ((n - 1) * sz) = (n - 1) * sz \<and> 0 \<le> (n - 1) * sz \<and> (n - 1) * sz \<le> m"
proof -
  have "(n - 1) * sz \<le> m div sz * sz" using assms(2,3) by (intro mult_right_mono) auto
  also have "\<dots> \<le> m" using assms(3,4) by (simp add: minus_mod_eq_div_mult[symmetric])
  finally have m: "(n - 1) * sz \<le> m" .
  have nn: "0 \<le> (n - 1) * sz" using assms(1,3) by simp
  then have "min_int64 \<le> (n - 1) * sz" by (rule order_trans[rotated]) (simp add: min_int64_def)
  moreover have "(n - 1) * sz \<le> max_int64" using m assms(5) by linarith
  moreover have "go_int (n - 1) = n - 1" using assms(1,6) by (intro go_int_id) (auto simp: min_int64_def)
  ultimately show ?thesis using m nn go_int_id by blast
qed

lemma read_size_bounds: "read_size c vs key = Some sz \<Longrightarrow> 1 \<le> sz \<and> sz \<le> pc_MaxSize c"
  by (auto simp: read_size_def split: option.splits if_splits)

lemma read_int_bounds:
  assumes "read_int vs key d = Some n" "0 \<le> d" "d \<le> max_int64"
  shows "0 \<le> n \<and> n \<le> max_int64"
proof (cases "vs key")
  case (Some items)
  have "hd items \<noteq> []" "list_all is_digit (hd items)" "parse_int64 (hd items) = Some n"
    using assms(1) Some by (auto simp: read_int_def split: if_splits)
  then show ?thesis using parse_digits[of "hd items"] decimal_value_nonneg[of 0 "hd items"]
    by (auto split: if_splits)
qed (use assms in \<open>auto simp: read_int_def\<close>)

lemma Parse_cases:
  assumes "pagination_New c0 = Inr c" "pagination_Parse (Some c) vs = Inr pg"
  obtains (number) n where "pc_Mode c = PageNumber" "1 \<le> n" "n - 1 \<le> pc_MaxOffset c div pg_Size pg"
      "pg_Offset pg = (n - 1) * pg_Size pg" "1 \<le> pg_Size pg" "pg_Size pg \<le> pc_MaxSize c"
      "0 \<le> (n - 1) * pg_Size pg" "(n - 1) * pg_Size pg \<le> pc_MaxOffset c" "\<not> keys_refused c vs"
  | (offset) "pc_Mode c = LimitOffset" "0 \<le> pg_Offset pg" "pg_Offset pg \<le> pc_MaxOffset c"
      "1 \<le> pg_Size pg" "pg_Size pg \<le> pc_MaxSize c" "\<not> keys_refused c vs"
  | (cursor) "pc_Mode c = CursorMode" "pg_Offset pg = 0" "1 \<le> pg_Size pg" "pg_Size pg \<le> pc_MaxSize c"
proof -
  note v = New_valid[OF assms(1)]
  have nr: "\<not> keys_refused c vs" using assms(2) by (auto simp: pagination_Parse_def split: if_splits)
  consider "pc_Mode c = PageNumber" | "pc_Mode c = LimitOffset" | "pc_Mode c = CursorMode" using v by auto
  then show ?thesis
  proof cases
    case 1
    then obtain sz n where sn: "read_size c vs ''page_size'' = Some sz" "read_int vs ''page'' 1 = Some n" "1 \<le> n"
        "go_int (n - 1) \<le> pc_MaxOffset c div sz" "pg = \<lparr>pg_Size = sz, pg_Offset = go_int (go_int (n - 1) * sz)\<rparr>"
      using assms(2) nr by (auto simp: pagination_Parse_def mode_defs split: option.splits if_splits)
    have n: "n \<le> max_int64" using read_int_bounds[OF sn(2)] by (simp add: max_int64_def)
    then have g: "go_int (n - 1) = n - 1" using sn(3) by (intro go_int_id) (auto simp: min_int64_def)
    have sz: "1 \<le> sz" "sz \<le> pc_MaxSize c" using read_size_bounds[OF sn(1)] by auto
    have "go_int ((n - 1) * sz) = (n - 1) * sz \<and> 0 \<le> (n - 1) * sz \<and> (n - 1) * sz \<le> pc_MaxOffset c"
      using page_arithmetic[of n "pc_MaxOffset c" sz] sn(3,4) g sz n v by auto
    then show ?thesis using number[of n] 1 sn sz g nr by simp
  next
    case 2
    then obtain sz off where "read_size c vs ''limit'' = Some sz" "read_int vs ''offset'' 0 = Some off"
        "off \<le> pc_MaxOffset c" "pg = \<lparr>pg_Size = sz, pg_Offset = off\<rparr>"
      using assms(2) nr by (auto simp: pagination_Parse_def mode_defs split: option.splits if_splits)
    then show ?thesis using offset 2 nr read_size_bounds read_int_bounds[of vs "''offset''" 0 off]
      by (auto simp: max_int64_def)
  next
    case 3
    then show ?thesis using cursor assms(2) read_size_bounds
      by (fastforce simp: pagination_Parse_def mode_defs split: option.splits if_splits)
  qed
qed

lemma link_keys:
  assumes "\<not> keys_refused c vs" "pc_Mode c \<in> {PageNumber, LimitOffset}"
  shows "\<not> keys_refused c (page_link c vs sz off)"
  using assms by (auto simp: keys_refused_def page_keys_def page_link_def key_refused_def mode_defs)

lemma link_parses:
  assumes "pagination_New c0 = Inr c" "\<not> keys_refused c vs" "pc_Mode c \<in> {PageNumber, LimitOffset}"
    "1 \<le> sz" "sz \<le> pc_MaxSize c" "0 \<le> off" "off \<le> pc_MaxOffset c" "pc_Mode c = PageNumber \<longrightarrow> sz dvd off"
  shows "pagination_Parse (Some c) (page_link c vs sz off) = Inr \<lparr>pg_Size = sz, pg_Offset = off\<rparr>"
proof -
  note v = New_valid[OF assms(1)]
  note nr = link_keys[OF assms(2,3), of sz off]
  have sz: "sz \<le> max_int64" using assms(5) v by (simp add: max_int64_def)
  show ?thesis
  proof (cases "pc_Mode c = PageNumber")
    case True
    let ?v = "page_link c vs sz off"
    have "off div sz \<le> off" using zdiv_mono2[of off 1 sz] assms(4,6) by simp
    then have b: "0 \<le> off div sz" "off div sz + 1 \<le> max_int64"
      using assms(4,6,7) v by (auto simp: pos_imp_zdiv_nonneg_iff)
    then have g: "go_int (off div sz + 1) = off div sz + 1" "go_int (off div sz) = off div sz"
      by (auto simp: min_int64_def intro!: go_int_id)
    have "read_int ?v ''page'' 1 = Some (off div sz + 1)"
      using b True by (intro read_Itoa) (auto simp: page_link_def g)
    moreover have "read_size c ?v ''page_size'' = Some sz"
      using read_Itoa[of sz ?v "''page_size''"] assms(4,5) sz True by (auto simp: read_size_def page_link_def)
    moreover have "off div sz * sz = off" using assms(8) True by simp
    moreover have "go_int off = off" using assms(6,7) v by (intro go_int_id) (auto simp: min_int64_def)
    moreover have "off div sz \<le> pc_MaxOffset c div sz" using assms(4,7) by (intro zdiv_mono1) auto
    ultimately show ?thesis using True nr b g by (simp add: pagination_Parse_def mode_defs)
  next
    case False
    let ?v = "page_link c vs sz off"
    have "read_int ?v ''offset'' 0 = Some off"
      using False assms(6,7) v by (intro read_Itoa) (auto simp: page_link_def)
    moreover have "read_size c ?v ''limit'' = Some sz"
      using read_Itoa[of sz ?v "''limit''"] assms(4,5) sz False by (auto simp: read_size_def page_link_def)
    ultimately show ?thesis using False assms(3,7) nr by (auto simp: pagination_Parse_def mode_defs)
  qed
qed

text \<open>every page that \<open>Parse\<close> accepts under a validated configuration is bounded, whatever the query:
  its size is between 1 and \<open>MaxSize\<close> (at most 200), its offset between 0 and \<open>MaxOffset\<close>, and the end of
  the page, also after one more row to detect a following page, fits a 64-bit integer, so no arithmetic
  on it wraps. A validated configuration is one that \<open>Configuration\<close> reports unchanged.\<close>

lemma page_bounds:
  assumes "pagination_New c0 = Inr c" "pagination_Parse (Some c) vs = Inr pg"
  shows "Configuration (Some c) = Inr c \<and> 1 \<le> pg_Size pg \<and> pg_Size pg \<le> pc_MaxSize c \<and> pc_MaxSize c \<le> 200 \<and>
    0 \<le> pg_Offset pg \<and> pg_Offset pg \<le> pc_MaxOffset c \<and> pg_Offset pg + pg_Size pg + 1 \<le> max_int64"
proof -
  note v = New_valid[OF assms(1)]
  from assms show ?thesis by (cases rule: Parse_cases) (use v in \<open>auto simp: Configuration_def\<close>)
qed

lemma page_bounds_example:
  "1 \<le> pg_Size \<lparr>pg_Size = 50, pg_Offset = 100\<rparr> \<and>
   pagination_Parse (Some \<lparr>pc_Mode = ''page'', pc_DefaultSize = 50, pc_MaxSize = 200, pc_MaxOffset = 1000000\<rparr>)
     [''page'' \<mapsto> [''3'']] = Inr \<lparr>pg_Size = 50, pg_Offset = 100\<rparr>"
proof -
  let ?c = "\<lparr>pc_Mode = ''page'', pc_DefaultSize = 50, pc_MaxSize = 200, pc_MaxOffset = 1000000\<rparr>"
  have n: "pagination_New ?c = Inr ?c" by code_simp
  have p: "pagination_Parse (Some ?c) [''page'' \<mapsto> [''3'']] = Inr \<lparr>pg_Size = 50, pg_Offset = 100\<rparr>" by code_simp
  show ?thesis using page_bounds[OF n p] p by simp
qed

text \<open>following the links of a page that \<open>Parse\<close> read from a query reads the neighbouring page. In page
  number and offset mode there is a next link exactly when more rows are known and the next page starts
  within \<open>MaxOffset\<close>, and a previous link exactly when the page is not the first; the query behind the
  link is accepted and gives the same size with the offset one page later, or one page earlier but not
  below zero, and it keeps every other parameter of the query.\<close>

lemma page_links:
  assumes "pagination_New c0 = Inr c" "pagination_Parse (Some c) vs = Inr pg" "pc_Mode c \<noteq> CursorMode"
    "pagination_Links encode (Some c) vs pg hasMore = (next_link, previous_link)"
  shows "(next_link = [] \<longleftrightarrow> \<not> (hasMore \<and> pg_Offset pg + pg_Size pg \<le> pc_MaxOffset c)) \<and>
    (previous_link = [] \<longleftrightarrow> pg_Offset pg = 0) \<and>
    (next_link \<noteq> [] \<longrightarrow> (\<exists>q. next_link = ''?'' @ encode q \<and> (\<forall>k. k \<notin> set page_keys \<longrightarrow> q k = vs k) \<and>
       pagination_Parse (Some c) q = Inr \<lparr>pg_Size = pg_Size pg, pg_Offset = pg_Offset pg + pg_Size pg\<rparr>)) \<and>
    (previous_link \<noteq> [] \<longrightarrow> (\<exists>q. previous_link = ''?'' @ encode q \<and> (\<forall>k. k \<notin> set page_keys \<longrightarrow> q k = vs k) \<and>
       pagination_Parse (Some c) q = Inr \<lparr>pg_Size = pg_Size pg, pg_Offset = max 0 (pg_Offset pg - pg_Size pg)\<rparr>))"
proof -
  note v = New_valid[OF assms(1)]
  have b: "1 \<le> pg_Size pg" "pg_Size pg \<le> pc_MaxSize c" "0 \<le> pg_Offset pg" "pg_Offset pg \<le> pc_MaxOffset c"
      "\<not> keys_refused c vs" "pc_Mode c = PageNumber \<longrightarrow> pg_Size pg dvd pg_Offset pg"
    using assms(1,2) by (cases rule: Parse_cases; use assms(3) in \<open>auto simp: mode_defs\<close>)+
  have m: "pc_Mode c \<in> {PageNumber, LimitOffset}" using v assms(3) by auto
  have g: "go_int (pc_MaxOffset c - pg_Size pg) = pc_MaxOffset c - pg_Size pg"
      "go_int (pg_Offset pg + pg_Size pg) = pg_Offset pg + pg_Size pg"
      "go_int (pg_Offset pg - pg_Size pg) = pg_Offset pg - pg_Size pg"
    using b v by (auto simp: min_int64_def max_int64_def intro!: go_int_id)
  have keep: "page_link c vs sz off k = vs k" if "k \<notin> set page_keys" for sz off k
    using that by (auto simp: page_link_def page_keys_def)
  have parses: "pagination_Parse (Some c) (page_link c vs (pg_Size pg) off) = Inr \<lparr>pg_Size = pg_Size pg, pg_Offset = off\<rparr>"
    if "0 \<le> off" "off \<le> pc_MaxOffset c" "pc_Mode c = PageNumber \<longrightarrow> pg_Size pg dvd off" for off
    using link_parses[OF assms(1) b(5) m b(1,2) that] .
  have nl: "next_link = (if hasMore \<and> pg_Offset pg + pg_Size pg \<le> pc_MaxOffset c
      then ''?'' @ encode (page_link c vs (pg_Size pg) (pg_Offset pg + pg_Size pg)) else [])"
    and pl: "previous_link = (if pg_Offset pg > 0
      then ''?'' @ encode (page_link c vs (pg_Size pg) (max 0 (pg_Offset pg - pg_Size pg))) else [])"
    using assms(3,4) b(1-4) g by (auto simp: pagination_Links_def split: if_splits)
  have "pc_Mode c = PageNumber \<longrightarrow> pg_Size pg dvd max 0 (pg_Offset pg - pg_Size pg)"
    using b(6) by (auto simp: max_def)
  then have "pagination_Parse (Some c) (page_link c vs (pg_Size pg) (max 0 (pg_Offset pg - pg_Size pg)))
      = Inr \<lparr>pg_Size = pg_Size pg, pg_Offset = max 0 (pg_Offset pg - pg_Size pg)\<rparr>"
    using b(1,3,4) by (intro parses) auto
  moreover have "pagination_Parse (Some c) (page_link c vs (pg_Size pg) (pg_Offset pg + pg_Size pg))
      = Inr \<lparr>pg_Size = pg_Size pg, pg_Offset = pg_Offset pg + pg_Size pg\<rparr>"
    if "pg_Offset pg + pg_Size pg \<le> pc_MaxOffset c"
    using b that by (intro parses) auto
  ultimately show ?thesis using nl pl keep b(3) by (auto split: if_splits)
qed

lemma page_links_example:
  "\<exists>next_link. pagination_Links (\<lambda>q. concat (the (q ''page'')))
      (Some \<lparr>pc_Mode = ''page'', pc_DefaultSize = 50, pc_MaxSize = 200, pc_MaxOffset = 1000000\<rparr>)
      [''page'' \<mapsto> [''3'']] \<lparr>pg_Size = 50, pg_Offset = 100\<rparr> True = (next_link, ''?2'') \<and> next_link = ''?4''"
proof -
  let ?c = "\<lparr>pc_Mode = ''page'', pc_DefaultSize = 50, pc_MaxSize = 200, pc_MaxOffset = 1000000\<rparr>"
  let ?e = "\<lambda>q. concat (the (q ''page''))"
  have n: "pagination_New ?c = Inr ?c" by code_simp
  have p: "pagination_Parse (Some ?c) [''page'' \<mapsto> [''3'']] = Inr \<lparr>pg_Size = 50, pg_Offset = 100\<rparr>" by code_simp
  have m: "pc_Mode ?c \<noteq> CursorMode" by (simp add: mode_defs)
  have l: "pagination_Links ?e (Some ?c) [''page'' \<mapsto> [''3'']] \<lparr>pg_Size = 50, pg_Offset = 100\<rparr> True = (''?4'', ''?2'')"
    by code_simp
  show ?thesis using page_links[OF n p m l] l by simp
qed

end
