(* ===== verification/Security_Signing.thy ===== *)
theory Security_Signing
  imports Base64_Url Pagination
begin

text \<open>
  Signed tokens (\<open>src/core/security/signing.go\<close>) and what rests on them: the cursors of paged lists
  (\<open>src/core/pagination/cursor.go\<close>). A token is the encoded JSON of a payload and its HMAC under a key that
  the payload names. JSON is a parameter: a pair of functions that write and read a payload. The clock is an
  argument of each operation, and the randomness of a token is what the generator returned.
\<close>

record signing_key =
  sk_ID :: string
  sk_Value :: string
  sk_NotAfter :: go_time

record signer =
  sg_current :: signing_key
  sg_fallbacks :: "signing_key list"
  sg_purpose :: string
  sg_maxBytes :: nat

datatype signing_error = ErrBadSignature | ErrExpiredSignature | Signing_error string











definition RandomToken :: "int \<Rightarrow> string option \<Rightarrow> signing_error + string" where
  "RandomToken bytes random =
     (if bytes < 16 \<or> bytes > 1024 then Inl (Signing_error ''invalid random token size'')
      else case random of None \<Rightarrow> Inl (Signing_error ''random'') | Some value \<Rightarrow> Inr (EncodeToString value))"

subsection \<open>Cursors\<close>


record cursor_codec =
  cc_signer :: signer
  cc_maxAge :: go_duration


datatype cursor_error = Cursor_invalid | Cursor_signing signing_error


definition NewCursorCodec :: "signer option \<Rightarrow> go_duration \<Rightarrow> cursor_error + cursor_codec" where
  "NewCursorCodec signer_opt age0 =
     (let age = (if age0 = 0 then hour else age0) in
      case signer_opt of
        None \<Rightarrow> Inl Cursor_invalid
      | Some s \<Rightarrow> if age < second \<or> age > 24 * hour then Inl Cursor_invalid else Inr \<lparr>cc_signer = s, cc_maxAge = age\<rparr>)"






subsection \<open>A signed token verifies\<close>












subsection \<open>An example after a rotation\<close>


















end
