(* ===== verification/Security_Csrf.thy ===== *)
theory Security_Csrf
  imports Base64_Url
begin

text \<open>
  Protection against cross-site request forgery (\<open>src/core/security/csrf.go\<close>). A browser keeps a secret in a
  cookie; a page gets a token that is the secret under a fresh mask; a request that may change something has to
  bring a token of that secret and an origin that is trusted. Parsing of URLs, of the form in a body and of the
  media type are parameters, as are the random bytes; hosts are compared as ASCII.
\<close>

unbundle bit_operations_syntax






definition xor_char :: "char \<Rightarrow> char \<Rightarrow> char" where
  "xor_char a b = char_of ((of_char a :: nat) XOR of_char b)"

definition masked :: "string option \<Rightarrow> string \<Rightarrow> string option" where
  "masked random secret =
     (case random of
        None \<Rightarrow> None
      | Some noise \<Rightarrow> Some (EncodeToString (noise @ map2 xor_char noise secret)))"










text \<open>Rotation: the new cookie, and the token that the current request shows from now on.\<close>

definition rotateCSRF :: "string option \<times> string option \<Rightarrow> bool \<Rightarrow> (string \<times> string option) option" where
  "rotateCSRF random with_request =
     (case fst random of
        None \<Rightarrow> None
      | Some secret \<Rightarrow>
          let cookie = EncodeToString secret in
          if \<not> with_request then Some (cookie, None)
          else (case masked (snd random) secret of None \<Rightarrow> None | Some token \<Rightarrow> Some (cookie, Some token)))"

subsection \<open>Masks\<close>





subsection \<open>What the middleware lets through\<close>








subsection \<open>A page and its form\<close>











end
