(* ===== verification/Urls.thy ===== *)
theory Urls
  imports Go_Prelude
begin

text \<open>
  Ordered, named, reversible URL configurations (\<open>src/core/urls\<close>): flattening a tree of routes into a router,
  compiling patterns, resolving a path to the first route that matches, dispatching a request by path and
  method, and reversing a name with parameters to a path.

  Go's \<open>regexp\<close> is represented by what it answers. The pattern of a converter is the list of lengths of the
  prefixes it matches, in the order in which the engine tries them; for the built-in converters it is written
  out. A regular expression route is a parameter that gives its parameter names and its match. Texts are byte
  strings; two parameters without a literal between them are told apart by bytes, and methods are ASCII.
  Handlers are numbers, and the encoded query string is an argument.
\<close>

subsection \<open>Values and converters\<close>

datatype url_value = VString string | VInt int | VInt64 int | VUint64 int | VOther

record converter =
  cv_Pattern :: string
  cv_prefixes :: "string \<Rightarrow> nat list"
  cv_Decode :: "string \<Rightarrow> url_value option"
  cv_Encode :: "url_value \<Rightarrow> string option"

definition whole_match :: "converter \<Rightarrow> string \<Rightarrow> bool" where
  "whole_match c s \<longleftrightarrow> length s \<in> set (cv_prefixes c s)"

text \<open>A character class, one or more times, as many as possible first.\<close>

definition class_prefixes :: "(char \<Rightarrow> bool) \<Rightarrow> string \<Rightarrow> nat list" where
  "class_prefixes p s = rev [1..<Suc (length (takeWhile p s))]"

definition stringConverter :: "string \<Rightarrow> (string \<Rightarrow> nat list) \<Rightarrow> converter" where
  "stringConverter pattern prefixes =
     \<lparr>cv_Pattern = pattern, cv_prefixes = prefixes, cv_Decode = (\<lambda>s. Some (VString s)),
      cv_Encode = (\<lambda>v. case v of VString s \<Rightarrow> Some s | _ \<Rightarrow> None)\<rparr>"

definition is_hex_lower :: "char \<Rightarrow> bool" where
  "is_hex_lower c = (is_digit c \<or> CHR ''a'' \<le> c \<and> c \<le> CHR ''f'')"

definition uuid_text :: "string \<Rightarrow> bool" where
  "uuid_text s \<longleftrightarrow>
     length s = 36 \<and> list_all (\<lambda>(i, c). if i \<in> {8, 13, 18, 23} then c = CHR ''-'' else is_hex_lower c) (enumerate 0 s)"

definition uuid_prefixes :: "string \<Rightarrow> nat list" where
  "uuid_prefixes s = (if uuid_text (take 36 s) then [36] else [])"

definition not_slash :: "char \<Rightarrow> bool" where "not_slash c = (c \<noteq> CHR ''/'')"
definition slug_char :: "char \<Rightarrow> bool" where
  "slug_char c = (c = CHR ''-'' \<or> c = CHR ''_'' \<or> is_alpha c \<or> is_digit c)"
definition not_newline :: "char \<Rightarrow> bool" where "not_newline c = (c \<noteq> CHR 0x0A)"

definition int_encode :: "url_value \<Rightarrow> string option" where
  "int_encode v =
     (case v of
        VInt n \<Rightarrow> if n \<ge> 0 then Some (itoa_nat (nat n)) else None
      | VInt64 n \<Rightarrow> if n \<ge> 0 then Some (itoa_nat (nat n)) else None
      | VUint64 n \<Rightarrow> Some (itoa_nat (nat n))
      | _ \<Rightarrow> None)"

definition intConverter :: converter where
  "intConverter =
     \<lparr>cv_Pattern = ''[0-9]+'', cv_prefixes = class_prefixes is_digit,
      cv_Decode = (\<lambda>s. map_option VInt64 (parse_int64 s)), cv_Encode = int_encode\<rparr>"

type_synonym converters = "(string \<times> converter) list"

definition Builtins :: converters where
  "Builtins =
     [(''str'', stringConverter ''[^/]+'' (class_prefixes not_slash)),
      (''slug'', stringConverter ''[-a-zA-Z0-9_]+'' (class_prefixes slug_char)),
      (''path'', stringConverter ''.+'' (class_prefixes not_newline)),
      (''uuid'', stringConverter ''[0-9a-f]{8}-[0-9a-f]{4}-[0-9a-f]{4}-[0-9a-f]{4}-[0-9a-f]{12}'' uuid_prefixes),
      (''int'', intConverter)]"

subsection \<open>Routes and compilation\<close>

datatype route = Route
  (rt_Pattern: string) (rt_Name: string) (rt_Namespace: string) (rt_Methods: "string list")
  (rt_Handler: "nat option") (rt_Children: "route list") (rt_Regex: bool)

definition Path :: "string \<Rightarrow> nat option \<Rightarrow> string \<Rightarrow> string list \<Rightarrow> route" where
  "Path pattern handler name methods = Route pattern name [] methods handler [] False"

definition RePath :: "string \<Rightarrow> nat option \<Rightarrow> string \<Rightarrow> string list \<Rightarrow> route" where
  "RePath pattern handler name methods = Route pattern name [] methods handler [] True"

definition Include :: "string \<Rightarrow> string \<Rightarrow> route list \<Rightarrow> route" where
  "Include prefix namespace routes = Route prefix [] namespace [] None routes False"

datatype segment = Literal string | Parameter string converter

text \<open>What \<open>regexp.Compile\<close> makes of an expression: its named groups and its match on a path.\<close>

type_synonym regex = "string list \<times> (string \<Rightarrow> (string \<times> string) list option)"

record compiled_route =
  cr_pattern :: string
  cr_name :: string
  cr_namespace :: string
  cr_methods :: "string list"
  cr_handler :: nat
  cr_regex :: "regex option"
  cr_segments :: "segment list"
  cr_parameters :: "string list"

datatype url_error = ErrReverse | Url_error string

fun ident_rest :: "string \<Rightarrow> bool" where
  "ident_rest s = list_all (\<lambda>c. c = CHR ''_'' \<or> is_alpha c \<or> is_digit c) s"

definition validIdentifier :: "string \<Rightarrow> bool" where
  "validIdentifier name =
     (case name of [] \<Rightarrow> False | c # cs \<Rightarrow> (c = CHR ''_'' \<or> is_alpha c) \<and> ident_rest cs)"

lemma cut_shorter: "(a, b, True) = cut c s \<Longrightarrow> length b < length s"
  using cut_found[of c s a b] by auto

function compile_segments :: "converters \<Rightarrow> string list \<Rightarrow> string \<Rightarrow> url_error + segment list" where
  "compile_segments converters names rest =
     (if rest = [] then Inr []
      else case cut (CHR ''<'') rest of
        (literal, _, False) \<Rightarrow> Inr [Literal rest]
      | (literal, inside, True) \<Rightarrow>
          (case cut (CHR ''>'') inside of
             (_, _, False) \<Rightarrow> Inl (Url_error ''unterminated URL parameter'')
           | (token, rest', True) \<Rightarrow>
               let (kind, name) = (case cut (CHR '':'') token of (k, n, ok) \<Rightarrow> if ok then (k, n) else (''str'', k)) in
               (case map_of converters kind of
                  None \<Rightarrow> Inl (Url_error ''unknown URL converter or parameter'')
                | Some converter \<Rightarrow>
                    if \<not> validIdentifier name then Inl (Url_error ''unknown URL converter or parameter'')
                    else if name \<in> set names then Inl (Url_error ''duplicate URL parameter'')
                    else try_then (compile_segments converters (name # names) rest') (\<lambda>segs.
                      Inr ((if literal = [] then [] else [Literal literal]) @ Parameter name converter # segs)))))"
  by pat_completeness auto
termination
  by (relation "measure (\<lambda>(converters, names, rest). length rest)") (auto dest!: cut_shorter)

declare compile_segments.simps [simp del]

definition parameter_names :: "segment list \<Rightarrow> string list" where
  "parameter_names segs = concat (map (\<lambda>s. case s of Literal _ \<Rightarrow> [] | Parameter n _ \<Rightarrow> [n]) segs)"

definition compile_route :: "(string \<Rightarrow> regex option) \<Rightarrow> converters \<Rightarrow> route \<Rightarrow> nat \<Rightarrow> url_error + compiled_route" where
  "compile_route re converters r handler =
     (let c = \<lparr>cr_pattern = rt_Pattern r, cr_name = rt_Name r, cr_namespace = rt_Namespace r, cr_methods = rt_Methods r,
               cr_handler = handler, cr_regex = None, cr_segments = [], cr_parameters = []\<rparr> in
      if rt_Regex r
      then case re (rt_Pattern r) of
             None \<Rightarrow> Inl (Url_error ''regexp'')
           | Some (names, groups) \<Rightarrow>
               if \<not> list_all validIdentifier names then Inl (Url_error ''invalid regex parameter'')
               else Inr (c\<lparr>cr_regex := Some (names, groups), cr_parameters := names\<rparr>)
      else try_then (compile_segments converters [] (rt_Pattern r)) (\<lambda>segs.
             Inr (c\<lparr>cr_segments := segs, cr_parameters := parameter_names segs\<rparr>)))"

subsection \<open>Building a router\<close>

record router =
  ro_routes :: "compiled_route list"
  ro_names :: "string \<Rightarrow> nat option"
  ro_notFound :: "nat option"
  ro_builtinConverters :: bool

definition to_upper_char :: "char \<Rightarrow> char" where
  "to_upper_char c = (if is_lower c then char_of (of_char c - (32 :: nat)) else c)"

definition method_ok :: "string \<Rightarrow> bool" where
  "method_ok m = (m \<noteq> [] \<and> m = map to_upper_char m
     \<and> list_all (\<lambda>c. c \<notin> {CHR '' '', CHR 0x09, CHR 0x0D, CHR 0x0A}) m)"

definition qualify :: "string \<Rightarrow> string \<Rightarrow> string" where
  "qualify outer inner = (if inner \<noteq> [] then (if outer \<noteq> [] then outer @ '':'' @ inner else inner) else outer)"

definition add_leaf ::
  "(string \<Rightarrow> regex option) \<Rightarrow> converters \<Rightarrow> string \<Rightarrow> string \<Rightarrow> route \<Rightarrow> router \<Rightarrow> url_error + router" where
  "add_leaf re converters prefix namespace item r =
     (let p0 = prefix @ rt_Pattern item;
          p = (if has_prefix p0 ''/'' then p0 else ''/'' @ p0);
          name = (if rt_Name item \<noteq> [] \<and> namespace \<noteq> [] then namespace @ '':'' @ rt_Name item else rt_Name item) in
      case rt_Handler item of
        None \<Rightarrow> Inl (Url_error ''URL handler required'')
      | Some handler \<Rightarrow>
          if name \<noteq> [] \<and> ro_names r name \<noteq> None then Inl (Url_error ''duplicate URL name'')
          else if \<not> list_all method_ok (rt_Methods item) then Inl (Url_error ''invalid HTTP method'')
          else try_then (compile_route re converters (Route p name namespace (rt_Methods item) (Some handler) [] (rt_Regex item)) handler)
            (\<lambda>c. Inr (r\<lparr>ro_names := (if name \<noteq> [] then (ro_names r)(name \<mapsto> length (ro_routes r)) else ro_names r),
                       ro_routes := ro_routes r @ [c]\<rparr>)))"

fun add_routes ::
  "(string \<Rightarrow> regex option) \<Rightarrow> converters \<Rightarrow> string \<Rightarrow> string \<Rightarrow> route list \<Rightarrow> router \<Rightarrow> url_error + router" where
  "add_routes re converters prefix namespace [] r = Inr r"
| "add_routes re converters prefix namespace (Route pattern name ns methods handler children regex # items) r =
     (let inner = qualify namespace ns in
      try_then
        (if children \<noteq> []
         then if handler \<noteq> None \<or> regex then Inl (Url_error ''invalid URL include'')
              else add_routes re converters (prefix @ pattern) inner children r
         else add_leaf re converters prefix inner (Route pattern name ns methods handler children regex) r)
        (add_routes re converters prefix namespace items))"

definition converter_ok :: "(string \<Rightarrow> bool) \<Rightarrow> string \<times> converter \<Rightarrow> bool" where
  "converter_ok captureless p \<longleftrightarrow> validIdentifier (fst p) \<and> cv_Pattern (snd p) \<noteq> [] \<and> captureless (cv_Pattern (snd p))"

definition newWithConverters ::
  "(string \<Rightarrow> bool) \<Rightarrow> (string \<Rightarrow> regex option) \<Rightarrow> converters \<Rightarrow> bool \<Rightarrow> route list \<Rightarrow> url_error + router" where
  "newWithConverters captureless re converters builtin routes =
     (if \<not> list_all (converter_ok captureless) converters then Inl (Url_error ''invalid URL converter'')
      else add_routes re converters [] [] routes
             \<lparr>ro_routes = [], ro_names = (\<lambda>_. None), ro_notFound = None, ro_builtinConverters = builtin\<rparr>)"

definition urls_New :: "(string \<Rightarrow> regex option) \<Rightarrow> route list \<Rightarrow> url_error + router" where
  "urls_New re routes = newWithConverters (\<lambda>_. True) re Builtins True routes"

definition WithNotFound :: "router \<Rightarrow> nat option \<Rightarrow> url_error + router" where
  "WithNotFound r handler =
     (case handler of
        None \<Rightarrow> Inl (Url_error ''URL router and not-found handler required'')
      | Some h \<Rightarrow> Inr (r\<lparr>ro_notFound := Some h\<rparr>))"

subsection \<open>Matching\<close>

fun first_some :: "('a \<Rightarrow> 'b option) \<Rightarrow> 'a list \<Rightarrow> 'b option" where
  "first_some f [] = None"
| "first_some f (x # xs) = (case f x of Some y \<Rightarrow> Some y | None \<Rightarrow> first_some f xs)"

fun match_segments :: "segment list \<Rightarrow> string \<Rightarrow> (string \<times> string) list option" where
  "match_segments [] s = (if s = [] then Some [] else None)"
| "match_segments (Literal l # segs) s =
     (if has_prefix s l then match_segments segs (drop (length l) s) else None)"
| "match_segments (Parameter n c # segs) s =
     first_some (\<lambda>k. map_option (Cons (n, take k s)) (match_segments segs (drop k s))) (cv_prefixes c s)"

definition segment_converter :: "segment list \<Rightarrow> string \<Rightarrow> converter option" where
  "segment_converter segs n =
     map_of (concat (map (\<lambda>s. case s of Literal _ \<Rightarrow> [] | Parameter m c \<Rightarrow> [(m, c)]) segs)) n"

fun decode_all :: "segment list \<Rightarrow> (string \<times> string) list \<Rightarrow> (string \<times> url_value) list option" where
  "decode_all segs [] = Some []"
| "decode_all segs ((n, raw) # rest) =
     (case (case segment_converter segs n of Some c \<Rightarrow> cv_Decode c raw | None \<Rightarrow> Some (VString raw)) of
        None \<Rightarrow> None
      | Some v \<Rightarrow> map_option (Cons (n, v)) (decode_all segs rest))"

definition route_match :: "compiled_route \<Rightarrow> string \<Rightarrow> (string \<times> url_value) list option" where
  "route_match c path =
     (case (case cr_regex c of Some (_, groups) \<Rightarrow> groups path | None \<Rightarrow> match_segments (cr_segments c) path) of
        None \<Rightarrow> None
      | Some raws \<Rightarrow> decode_all (cr_segments c) raws)"

record url_match =
  um_Name :: string
  um_Pattern :: string
  um_Params :: "(string \<times> url_value) list"
  um_Handler :: nat

definition match_of :: "compiled_route \<Rightarrow> (string \<times> url_value) list \<Rightarrow> url_match" where
  "match_of c params = \<lparr>um_Name = cr_name c, um_Pattern = cr_pattern c, um_Params = params, um_Handler = cr_handler c\<rparr>"

definition Resolve :: "router \<Rightarrow> string \<Rightarrow> url_match option" where
  "Resolve r path = first_some (\<lambda>c. map_option (match_of c) (route_match c path)) (ro_routes r)"

subsection \<open>Dispatching a request\<close>

text \<open>The flag of a served request says that the writer drops the body (\<open>headWriter\<close>).\<close>

datatype dispatch =
  Serve url_match bool | Allow_options "string list" | Method_not_allowed "string list" | Fallback nat bool | Not_found

definition permitted :: "compiled_route \<Rightarrow> string \<Rightarrow> bool" where
  "permitted c m = (cr_methods c = [] \<or> m \<in> set (cr_methods c) \<or> m = ''HEAD'' \<and> ''GET'' \<in> set (cr_methods c))"

fun serve_routes :: "compiled_route list \<Rightarrow> string \<Rightarrow> string \<Rightarrow> string list \<Rightarrow> url_match + string list" where
  "serve_routes [] path m allow = Inr allow"
| "serve_routes (c # cs) path m allow =
     (case route_match c path of
        None \<Rightarrow> serve_routes cs path m allow
      | Some params \<Rightarrow>
          if \<not> permitted c m then serve_routes cs path m (allow @ cr_methods c)
          else Inl (match_of c params))"

definition ServeHTTP :: "router \<Rightarrow> string \<Rightarrow> string \<Rightarrow> dispatch" where
  "ServeHTTP r path m =
     (case serve_routes (ro_routes r) path m [] of
        Inl mt \<Rightarrow> Serve mt (m = ''HEAD'')
      | Inr allow \<Rightarrow>
          if allow \<noteq> []
          then let a1 = (if ''GET'' \<in> set allow then allow @ [''HEAD''] else allow);
                   a = remdups_adj (sort (a1 @ [''OPTIONS''])) in
               if m = ''OPTIONS'' then Allow_options a else Method_not_allowed a
          else case ro_notFound r of Some h \<Rightarrow> Fallback h (m = ''HEAD'') | None \<Rightarrow> Not_found)"

subsection \<open>Reversing\<close>

definition upper_hex :: "nat \<Rightarrow> char" where
  "upper_hex n = (if n < 10 then char_of (48 + n) else char_of (55 + n))"

definition segment_safe :: "char \<Rightarrow> bool" where
  "segment_safe c = (is_alpha c \<or> is_digit c \<or> c \<in> set ''-_.~$&+=:@'')"

text \<open>\<open>url.PathEscape\<close>.\<close>

definition escape_char :: "char \<Rightarrow> string" where
  "escape_char c =
     (if segment_safe c then [c]
      else let n = of_char c :: nat in [CHR 0x25, upper_hex (n div 16), upper_hex (n mod 16)])"

definition PathEscape :: "string \<Rightarrow> string" where
  "PathEscape s = concat (map escape_char s)"

fun join :: "string \<Rightarrow> string list \<Rightarrow> string" where
  "join sep [] = []"
| "join sep [x] = x"
| "join sep (x # xs) = x @ sep @ join sep xs"

definition reverse_parameter :: "converter \<Rightarrow> url_value \<Rightarrow> url_error + string" where
  "reverse_parameter c v =
     (case cv_Encode c v of
        None \<Rightarrow> Inl ErrReverse
      | Some raw \<Rightarrow>
          if \<not> whole_match c raw \<or> list_ex (\<lambda>x. x \<in> {CHR 0x0D, CHR 0x0A, CHR 0x5C}) raw then Inl ErrReverse
          else let parts = split_on (CHR ''/'') raw in
            if list_ex (\<lambda>p. p = ''.'' \<or> p = ''..'') parts then Inl ErrReverse
            else Inr (join ''/'' (map PathEscape parts)))"

fun reverse_segments :: "(string \<times> url_value) list \<Rightarrow> segment list \<Rightarrow> url_error + string" where
  "reverse_segments params [] = Inr []"
| "reverse_segments params (Literal l # segs) = try_then (reverse_segments params segs) (\<lambda>s. Inr (l @ s))"
| "reverse_segments params (Parameter n c # segs) =
     (case map_of params n of
        None \<Rightarrow> Inl ErrReverse
      | Some v \<Rightarrow> try_then (reverse_parameter c v) (\<lambda>p. try_then (reverse_segments params segs) (\<lambda>s. Inr (p @ s))))"

definition router_Reverse :: "router \<Rightarrow> string \<Rightarrow> (string \<times> url_value) list \<Rightarrow> string \<Rightarrow> url_error + string" where
  "router_Reverse r name params query =
     (case ro_names r name of
        None \<Rightarrow> Inl ErrReverse
      | Some index \<Rightarrow>
          let c = ro_routes r ! index in
          if cr_regex c \<noteq> None \<or> length params \<noteq> length (cr_parameters c) then Inl ErrReverse
          else try_then (reverse_segments params (cr_segments c)) (\<lambda>out.
            if has_prefix out ''//'' then Inl ErrReverse
            else Inr (if query \<noteq> [] then out @ ''?'' @ query else out)))"

subsection \<open>Inventory\<close>

definition Routes :: "router \<Rightarrow> route list" where
  "Routes r = map (\<lambda>c. Route (cr_pattern c) (cr_name c) (cr_namespace c) (cr_methods c) (Some (cr_handler c)) []
                     (cr_regex c \<noteq> None)) (ro_routes r)"

fun methods_within :: "int \<Rightarrow> compiled_route list \<Rightarrow> bool" where
  "methods_within remaining [] = True"
| "methods_within remaining (c # cs) =
     (int (length (cr_methods c)) \<le> remaining \<and> methods_within (remaining - int (length (cr_methods c))) cs)"

definition Describe :: "router \<Rightarrow> int \<Rightarrow> (route list \<times> bool) option" where
  "Describe r maxRoutes =
     (if maxRoutes < 1 \<or> maxRoutes > 4096 then None
      else if int (length (ro_routes r)) > maxRoutes then None
      else if \<not> methods_within 16384 (ro_routes r) then None
      else Some (Routes r, ro_builtinConverters r))"

lemma methods_within_sum: "0 \<le> n \<Longrightarrow> methods_within n cs \<longleftrightarrow> (\<Sum>c \<leftarrow> cs. int (length (cr_methods c))) \<le> n"
proof (induction cs arbitrary: n)
  case (Cons c cs)
  have "0 \<le> (\<Sum>c \<leftarrow> cs. int (length (cr_methods c)))" by (induction cs) auto
  then show ?case using Cons.IH[of "n - int (length (cr_methods c))"] Cons.prems by auto
qed simp

text \<open>A description is bounded by both limits, and it is the whole inventory.\<close>

lemma Describe_bounded:
  "Describe r maxRoutes = Some d \<longleftrightarrow>
     maxRoutes \<in> {1..4096} \<and> int (length (ro_routes r)) \<le> maxRoutes
     \<and> (\<Sum>c \<leftarrow> ro_routes r. int (length (cr_methods c))) \<le> 16384 \<and> d = (Routes r, ro_builtinConverters r)"
  by (auto simp: Describe_def methods_within_sum)

subsection \<open>What a built router looks like\<close>

definition compiled_ok :: "converters \<Rightarrow> compiled_route \<Rightarrow> bool" where
  "compiled_ok convs c \<longleftrightarrow>
     has_prefix (cr_pattern c) ''/'' \<and>
     (cr_regex c = None \<longrightarrow>
        compile_segments convs [] (cr_pattern c) = Inr (cr_segments c) \<and> cr_parameters c = parameter_names (cr_segments c))"

definition router_ok :: "converters \<Rightarrow> router \<Rightarrow> bool" where
  "router_ok convs r \<longleftrightarrow>
     (\<forall>c \<in> set (ro_routes r). compiled_ok convs c)
     \<and> (\<forall>name i. ro_names r name = Some i \<longrightarrow> i < length (ro_routes r) \<and> cr_name (ro_routes r ! i) = name)"

lemma slash_prefix: "has_prefix (''/'' @ p) ''/''"
  by (simp add: has_prefix_def)

lemma add_leaf_ok:
  assumes "add_leaf re convs prefix namespace item r = Inr r'" "router_ok convs r"
  shows "router_ok convs r'"
proof -
  define p where "p = (if has_prefix (prefix @ rt_Pattern item) ''/'' then prefix @ rt_Pattern item else ''/'' @ prefix @ rt_Pattern item)"
  define name where "name = (if rt_Name item \<noteq> [] \<and> namespace \<noteq> [] then namespace @ '':'' @ rt_Name item else rt_Name item)"
  obtain handler c where c: "compile_route re convs (Route p name namespace (rt_Methods item) (Some handler) [] (rt_Regex item)) handler = Inr c"
      "r' = r\<lparr>ro_names := (if name \<noteq> [] then (ro_names r)(name \<mapsto> length (ro_routes r)) else ro_names r),
              ro_routes := ro_routes r @ [c]\<rparr>"
    using assms(1) unfolding add_leaf_def Let_def p_def[symmetric] name_def[symmetric] by (auto split: option.splits if_splits)
  have slash: "has_prefix p ''/''" unfolding p_def using slash_prefix by (simp split: if_splits)
  have "compiled_ok convs c" "cr_name c = name"
    using c(1) slash by (auto simp: compile_route_def compiled_ok_def Let_def split: option.splits if_splits)
  then show ?thesis using assms(2) c(2) by (auto simp: router_ok_def nth_append less_Suc_eq split: if_splits)
qed

lemma add_routes_ok:
  "add_routes re convs prefix namespace items r = Inr r' \<Longrightarrow> router_ok convs r \<Longrightarrow> router_ok convs r'"
proof (induction re convs prefix namespace items r arbitrary: r' rule: add_routes.induct)
  case (2 re convs prefix namespace pattern name ns methods handler children regex items r)
  let ?inner = "qualify namespace ns"
  obtain r1 where r1: "(if children \<noteq> []
         then if handler \<noteq> None \<or> regex then Inl (Url_error ''invalid URL include'')
              else add_routes re convs (prefix @ pattern) ?inner children r
         else add_leaf re convs prefix ?inner (Route pattern name ns methods handler children regex) r) = Inr r1"
      "add_routes re convs prefix namespace items r1 = Inr r'"
    using "2.prems"(1) by (auto simp: Let_def)
  have "router_ok convs r1"
  proof (cases "children = []")
    case True
    then show ?thesis using r1(1) "2.prems"(2) add_leaf_ok by auto
  next
    case False
    then show ?thesis using r1(1) "2.IH"(1)[OF refl] "2.prems"(2) by (auto split: if_splits)
  qed
  then show ?case using "2.IH"(2) r1(2) by blast
qed simp

lemma router_built:
  assumes "newWithConverters captureless re convs b routes = Inr r"
  shows "router_ok convs r"
proof -
  let ?empty = "\<lparr>ro_routes = [], ro_names = (\<lambda>_. None), ro_notFound = None, ro_builtinConverters = b\<rparr>"
  have "router_ok convs ?empty" by (simp add: router_ok_def)
  moreover have "add_routes re convs [] [] routes ?empty = Inr r"
    using assms by (simp add: newWithConverters_def split: if_splits)
  ultimately show ?thesis using add_routes_ok by blast
qed

subsection \<open>Dispatch\<close>

lemma serve_routes_result:
  "serve_routes cs path m allow =
     (case find (\<lambda>c. route_match c path \<noteq> None \<and> permitted c m) cs of
        Some c \<Rightarrow> Inl (match_of c (the (route_match c path)))
      | None \<Rightarrow> Inr (allow @ concat (map cr_methods (filter (\<lambda>c. route_match c path \<noteq> None) cs))))"
  by (induction cs path m allow rule: serve_routes.induct) (auto split: option.splits)

text \<open>The routes that a path matches, the methods they name, and the list that the answer carries.\<close>

definition matching :: "router \<Rightarrow> string \<Rightarrow> compiled_route list" where
  "matching r path = filter (\<lambda>c. route_match c path \<noteq> None) (ro_routes r)"

definition allowed_methods :: "router \<Rightarrow> string \<Rightarrow> string set" where
  "allowed_methods r path =
     (let ms = (\<Union>c \<in> set (matching r path). set (cr_methods c)) in
      ms \<union> (if ''GET'' \<in> ms then {''HEAD''} else {}) \<union> {''OPTIONS''})"

definition allow_list :: "router \<Rightarrow> string \<Rightarrow> string list" where
  "allow_list r path = sorted_list_of_set (allowed_methods r path)"

lemma distinct_remdups_adj: "sorted xs \<Longrightarrow> distinct (remdups_adj xs)" for xs :: "string list"
  by (induction xs rule: remdups_adj.induct) fastforce+

lemma remdups_adj_sorted: "remdups_adj (sort xs) = sorted_list_of_set (set xs)" for xs :: "string list"
proof -
  have "sorted_wrt (<) (remdups_adj (sort xs))" by (simp add: strict_sorted_iff distinct_remdups_adj)
  moreover have "set (remdups_adj (sort xs)) = set xs" by simp
  ultimately show ?thesis by (metis sorted_list_of_set.idem_if_sorted_distinct strict_sorted_iff)
qed

lemma allow_list_computed:
  "allow = concat (map cr_methods (matching r path)) \<Longrightarrow>
   remdups_adj (sort ((if ''GET'' \<in> set allow then allow @ [''HEAD''] else allow) @ [''OPTIONS''])) = allow_list r path"
  unfolding remdups_adj_sorted allow_list_def
  by (rule arg_cong[where f = sorted_list_of_set]) (auto simp: allowed_methods_def Let_def)

lemma find_filter: "find (\<lambda>x. P x \<and> Q x) xs = find Q (filter P xs)"
  by (induction xs) auto

lemma denied_named: "find (\<lambda>c. permitted c m) cs = None \<Longrightarrow> concat (map cr_methods cs) = [] \<longleftrightarrow> cs = []"
  by (induction cs) (auto simp: permitted_def split: if_splits)

text \<open>
  Dispatch is by path and method over the routes in order: the request is served by the first route that
  matches its path and permits its method, with the parameters of that match and the body dropped for
  \<open>HEAD\<close>; when routes match the path and none permits the method, the answer lists what the path allows,
  as a success for \<open>OPTIONS\<close> and as a refusal otherwise; when no route matches the path, the configured
  fallback answers, or a plain not-found.
\<close>

lemma serve_result:
  "ServeHTTP r path m =
     (case find (\<lambda>c. permitted c m) (matching r path) of
        Some c \<Rightarrow> Serve (match_of c (the (route_match c path))) (m = ''HEAD'')
      | None \<Rightarrow>
          if matching r path = []
          then case ro_notFound r of Some h \<Rightarrow> Fallback h (m = ''HEAD'') | None \<Rightarrow> Not_found
          else (if m = ''OPTIONS'' then Allow_options else Method_not_allowed) (allow_list r path))"
proof (cases "find (\<lambda>c. permitted c m) (matching r path)")
  case None
  have "serve_routes (ro_routes r) path m [] = Inr (concat (map cr_methods (matching r path)))"
    using None unfolding serve_routes_result find_filter matching_def[symmetric] by simp
  then show ?thesis
    using None denied_named[OF None] allow_list_computed[OF refl, of r path] by (simp add: ServeHTTP_def Let_def)
next
  case (Some c)
  then show ?thesis
    unfolding ServeHTTP_def serve_routes_result find_filter matching_def[symmetric] by simp
qed

lemma find_found: "(\<exists>y. find P xs = Some y) \<longleftrightarrow> (\<exists>x \<in> set xs. P x)"
  using find_None_iff[of P xs] by auto

lemma served_iff:
  "(\<exists>mt b. ServeHTTP r path m = Serve mt b) \<longleftrightarrow> (\<exists>c \<in> set (matching r path). permitted c m)"
  unfolding serve_result find_found[symmetric] by (auto split: option.splits)

lemma allowed_served:
  assumes "find (\<lambda>c. permitted c m) (matching r path) = None"
  shows "allowed_methods r path = insert ''OPTIONS'' {m'. \<exists>c \<in> set (matching r path). permitted c m'}"
proof -
  have "permitted c m' \<longleftrightarrow> m' \<in> set (cr_methods c) \<or> m' = ''HEAD'' \<and> ''GET'' \<in> set (cr_methods c)"
    if "c \<in> set (matching r path)" for c m'
    using assms that unfolding find_None_iff by (auto simp: permitted_def)
  then show ?thesis by (auto simp: allowed_methods_def Let_def)
qed

lemma allowed_finite: "finite (allowed_methods r path)"
  by (simp add: allowed_methods_def Let_def)

lemma allow_list_set: "set (allow_list r path) = allowed_methods r path" "sorted_wrt (<) (allow_list r path)"
  by (simp_all add: allow_list_def allowed_finite)

lemma denied_allow:
  assumes "ServeHTTP r path m = Method_not_allowed allow"
  shows "sorted_wrt (<) allow"
    and "set allow = insert ''OPTIONS'' {m'. \<exists>mt b. ServeHTTP r path m' = Serve mt b}"
    and "m \<notin> set allow"
proof -
  have denied: "find (\<lambda>c. permitted c m) (matching r path) = None" "allow = allow_list r path" "m \<noteq> ''OPTIONS''"
    using assms unfolding serve_result by (auto split: option.splits if_splits)
  show "sorted_wrt (<) allow" by (simp add: denied(2) allow_list_set)
  show set: "set allow = insert ''OPTIONS'' {m'. \<exists>mt b. ServeHTTP r path m' = Serve mt b}"
    unfolding served_iff denied(2) allow_list_set allowed_served[OF denied(1)] ..
  show "m \<notin> set allow" using denied(1,3) unfolding set served_iff by (auto simp: find_None_iff)
qed

text \<open>
  C39. A request is refused for its method only when that is the whole truth: the \<open>Allow\<close> list of the refusal
  is strictly sorted, holds \<open>OPTIONS\<close> and exactly the methods with which the same path would have been
  served, \<open>HEAD\<close> through \<open>GET\<close> included, and never the refused method.
\<close>

theorem method_denied:
  assumes "ServeHTTP r path m = Method_not_allowed allow"
  shows "sorted_wrt (<) allow \<and> m \<notin> set allow
    \<and> set allow = insert ''OPTIONS'' {m'. \<exists>mt b. ServeHTTP r path m' = Serve mt b}"
  using denied_allow[OF assms] by blast

text \<open>A small site: an include with a namespace, two parameters and a form.\<close>

definition site_routes :: "route list" where
  "site_routes =
     [Path ''about/'' (Some 1) ''about'' [''GET''],
      Include ''articles/'' ''news''
        [Path ''<int:id>/<slug:title>/'' (Some 2) ''detail'' [''GET''],
         Path ''<int:id>/<slug:title>/'' (Some 3) ''change'' [''POST'']]]"

definition site :: router where
  "site = (case urls_New (\<lambda>_. None) site_routes of
             Inr r \<Rightarrow> r
           | Inl _ \<Rightarrow> \<lparr>ro_routes = [], ro_names = (\<lambda>_. None), ro_notFound = None, ro_builtinConverters = True\<rparr>)"

lemma site_denies:
  "ServeHTTP site ''/articles/7/a-b/'' ''PUT'' = Method_not_allowed [''GET'', ''HEAD'', ''OPTIONS'', ''POST'']"
  by code_simp

theorem method_denied_witness:
  "ServeHTTP site ''/articles/7/a-b/'' ''PUT'' = Method_not_allowed [''GET'', ''HEAD'', ''OPTIONS'', ''POST'']
   \<and> set [''GET'', ''HEAD'', ''OPTIONS'', ''POST''] =
       insert ''OPTIONS'' {m'. \<exists>mt b. ServeHTTP site ''/articles/7/a-b/'' m' = Serve mt b}"
  using site_denies method_denied[OF site_denies] by blast

end
