(* ===== verification/Url_Reverse.thy ===== *)
theory Url_Reverse
  imports Urls
begin

text \<open>
  Reversing and resolving are inverse: a path that \<open>Reverse\<close> makes is matched by the route it was made from,
  with the parameters it was made of, and it never leaves the site. The reading side is Go's \<open>net/url\<close>: a
  request target is cut at its question mark and its percent escapes are decoded.
\<close>

subsection \<open>Percent escapes\<close>

definition hex_value :: "char \<Rightarrow> nat option" where
  "hex_value c =
     (let n = of_char c :: nat in
      if is_digit c then Some (n - 48)
      else if CHR ''a'' \<le> c \<and> c \<le> CHR ''f'' then Some (n - 87)
      else if CHR ''A'' \<le> c \<and> c \<le> CHR ''F'' then Some (n - 55)
      else None)"

fun PathUnescape :: "string \<Rightarrow> string option" where
  "PathUnescape [] = Some []"
| "PathUnescape (c # cs) =
     (if c = CHR 0x25
      then case cs of
             a # b # rest \<Rightarrow>
               (case (hex_value a, hex_value b) of
                  (Some x, Some y) \<Rightarrow> map_option (Cons (char_of (16 * x + y))) (PathUnescape rest)
                | _ \<Rightarrow> None)
           | _ \<Rightarrow> None
      else map_option (Cons c) (PathUnescape cs))"

definition request_path :: "string \<Rightarrow> string option" where
  "request_path url = PathUnescape (fst (cut (CHR ''?'') url))"

definition escape_raw :: "string \<Rightarrow> string" where
  "escape_raw raw = concat (map (\<lambda>c. if c = CHR ''/'' then ''/'' else escape_char c) raw)"

lemma hex_inverse: "n < 16 \<Longrightarrow> hex_value (upper_hex n) = Some n"
  by (simp add: hex_value_def upper_hex_def is_digit_def less_eq_char_def Let_def)

lemma percent_unsafe: "\<not> segment_safe (CHR 0x25)" "\<not> segment_safe (CHR ''?'')" "\<not> segment_safe (CHR ''/'')"
  by code_simp+

lemma PathUnescape_plain: "CHR 0x25 \<notin> set l \<Longrightarrow> PathUnescape (l @ s) = map_option ((@) l) (PathUnescape s)"
  by (induction l; cases "PathUnescape s") auto

lemma PathUnescape_char: "PathUnescape (escape_char c @ s) = map_option (Cons c) (PathUnescape s)"
proof (cases "segment_safe c")
  case True
  then have "c \<noteq> CHR 0x25" using percent_unsafe by auto
  then show ?thesis using True by (simp add: escape_char_def)
next
  case False
  have bound: "(of_char c :: nat) div 16 < 16" "(of_char c :: nat) mod 16 < 16"
    using nat_of_char_less_256[of c] by (simp_all add: less_mult_imp_div_less)
  have "escape_char c @ s =
      CHR 0x25 # upper_hex (of_char c div 16) # upper_hex (of_char c mod 16) # s"
    using False by (simp add: escape_char_def Let_def)
  then show ?thesis by (simp add: hex_inverse[OF bound(1)] hex_inverse[OF bound(2)])
qed

lemma PathUnescape_raw: "PathUnescape (escape_raw raw @ s) = map_option ((@) raw) (PathUnescape s)"
  by (induction raw; cases "PathUnescape s") (auto simp: escape_raw_def PathUnescape_char)

lemma join_head: "join sep ((a @ x) # xs) = a @ join sep (x # xs)"
  by (cases xs) auto

lemma join_split: "join ''/'' (map PathEscape (split_on (CHR ''/'') raw)) = escape_raw raw"
proof (induction raw)
  case (Cons c cs)
  obtain p ps where parts: "split_on (CHR ''/'') cs = p # ps"
    using split_on_nonempty[of "CHR ''/''" cs] by (meson list.exhaust)
  have "PathEscape (c # p) = escape_char c @ PathEscape p" by (simp add: PathEscape_def)
  then show ?case using Cons parts by (auto simp: escape_raw_def join_head PathEscape_def)
qed (simp add: escape_raw_def PathEscape_def)

subsection \<open>Converters that can be read back\<close>

text \<open>
  A converter is local when what it accepts alone it also accepts in front of more text; it excludes a
  character that no match of it holds. The segments of a pattern are separated when each parameter is the last
  segment or is followed by a literal whose first character its converter excludes.
\<close>

definition local_converter :: "converter \<Rightarrow> bool" where
  "local_converter c \<longleftrightarrow> (\<forall>raw rest. whole_match c raw \<longrightarrow> length raw \<in> set (cv_prefixes c (raw @ rest)))"

definition excludes :: "converter \<Rightarrow> char \<Rightarrow> bool" where
  "excludes c ch \<longleftrightarrow> (\<forall>s. \<forall>k \<in> set (cv_prefixes c s). ch \<notin> set (take k s))"

fun separated :: "segment list \<Rightarrow> bool" where
  "separated [] = True"
| "separated (Literal l # segs) = separated segs"
| "separated (Parameter n c # segs) =
     ((case segs of
         [] \<Rightarrow> True
       | Literal l # _ \<Rightarrow> l \<noteq> [] \<and> excludes c (hd l)
       | Parameter _ _ # _ \<Rightarrow> False) \<and> separated segs)"

definition plain_literals :: "segment list \<Rightarrow> bool" where
  "plain_literals segs \<longleftrightarrow> (\<forall>l. Literal l \<in> set segs \<longrightarrow> CHR 0x25 \<notin> set l \<and> CHR ''?'' \<notin> set l)"

definition segment_params :: "segment list \<Rightarrow> (string \<times> converter) list" where
  "segment_params segs = concat (map (\<lambda>s. case s of Literal _ \<Rightarrow> [] | Parameter m c \<Rightarrow> [(m, c)]) segs)"

lemma segment_params_simps [simp]:
  "segment_params [] = []"
  "segment_params (Literal l # segs) = segment_params segs"
  "segment_params (Parameter n c # segs) = (n, c) # segment_params segs"
  by (simp_all add: segment_params_def)

lemma segment_params_names: "map fst (segment_params segs) = parameter_names segs"
  by (induction segs) (auto simp: segment_params_def parameter_names_def split: segment.splits)

lemma class_take: "k \<le> length (takeWhile p s) \<Longrightarrow> list_all p (take k s)"
  by (metis list_all_iff set_takeWhileD set_take_subset takeWhile_eq_take take_take min.absorb1 subsetD)

lemma class_local: "cv_prefixes c = class_prefixes p \<Longrightarrow> local_converter c"
  by (auto simp: local_converter_def whole_match_def class_prefixes_def takeWhile_append less_Suc_eq_le)

lemma class_excludes:
  assumes "cv_prefixes c = class_prefixes p" "\<not> p ch"
  shows "excludes c ch"
  unfolding excludes_def
proof (intro allI ballI)
  fix s k
  assume "k \<in> set (cv_prefixes c s)"
  then have "k \<le> length (takeWhile p s)" by (auto simp: assms(1) class_prefixes_def)
  then show "ch \<notin> set (take k s)" using class_take[of k p s] assms(2) by (auto simp: list_all_iff)
qed

lemma uuid_local: "cv_prefixes c = uuid_prefixes \<Longrightarrow> local_converter c"
  by (auto simp: local_converter_def whole_match_def uuid_prefixes_def uuid_text_def split: if_splits)

lemma Builtins_local: "\<forall>p \<in> set Builtins. local_converter (snd p)"
  by (auto simp: Builtins_def stringConverter_def intConverter_def intro: class_local uuid_local)

subsection \<open>A reversed path matches its route\<close>

lemma first_some_agree:
  "x \<in> set xs \<Longrightarrow> f x = Some y \<Longrightarrow> (\<And>z. z \<in> set xs \<Longrightarrow> f z = None \<or> f z = Some y) \<Longrightarrow> first_some f xs = Some y"
  by (induction xs) (fastforce split: option.splits)+

lemma reverse_parameter_raw:
  "reverse_parameter c v = Inr p \<Longrightarrow> \<exists>raw. cv_Encode c v = Some raw \<and> whole_match c raw \<and> p = escape_raw raw"
  by (auto simp: reverse_parameter_def join_split Let_def split: option.splits if_splits)

lemma literal_head: "match_segments (Literal l # segs) s = Some raws \<Longrightarrow> l \<noteq> [] \<Longrightarrow> s \<noteq> [] \<and> hd s = hd l"
  by (cases l; cases s) (auto simp: has_prefix_def split: if_splits)

lemma excluded_cut:
  assumes "excludes c ch" "whole_match c raw" "k \<in> set (cv_prefixes c (raw @ ch # rest))"
    "drop k (raw @ ch # rest) = ch # rest'"
  shows "k = length raw"
proof -
  have raw: "ch \<notin> set raw" using assms(1,2) unfolding excludes_def whole_match_def by (metis take_all_iff order_refl)
  have "ch \<notin> set (take k (raw @ ch # rest))" using assms(1,3) unfolding excludes_def by blast
  then have "\<not> length raw < k" by (auto simp: take_Cons' split: if_splits)
  moreover have "\<not> k < length raw"
  proof
    assume "k < length raw"
    then have "ch = raw ! k" using assms(4) by (simp add: Cons_nth_drop_Suc[symmetric])
    then show False using raw \<open>k < length raw\<close> by simp
  qed
  ultimately show ?thesis by simp
qed

lemma parameter_match:
  assumes "local_converter c" "whole_match c raw" "match_segments segs path = Some raws"
    "separated (Parameter n c # segs)"
  shows "match_segments (Parameter n c # segs) (raw @ path) = Some ((n, raw) # raws)"
proof -
  let ?f = "\<lambda>k. map_option (Cons (n, take k (raw @ path))) (match_segments segs (drop k (raw @ path)))"
  have here: "length raw \<in> set (cv_prefixes c (raw @ path))" "?f (length raw) = Some ((n, raw) # raws)"
    using assms(1-3) by (auto simp: local_converter_def)
  have others: "?f k = None \<or> ?f k = Some ((n, raw) # raws)" if k: "k \<in> set (cv_prefixes c (raw @ path))" for k
  proof (cases "match_segments segs (drop k (raw @ path))")
    case (Some raws')
    have "take k (raw @ path) = raw \<and> drop k (raw @ path) = path"
    proof (cases segs)
      case Nil
      then show ?thesis using assms(3) Some by (auto split: if_splits)
    next
      case (Cons seg segs')
      then obtain l where l: "seg = Literal l" "l \<noteq> []" "excludes c (hd l)" using assms(4) by (cases seg) auto
      obtain rest rest' where "path = hd l # rest" "drop k (raw @ path) = hd l # rest'"
        using literal_head[of l segs'] assms(3) Some Cons l(1,2) by (metis list.collapse)
      then have "k = length raw" using excluded_cut[OF l(3) assms(2)] k by metis
      then show ?thesis by simp
    qed
    then show ?thesis using assms(3) by simp
  qed simp
  show ?thesis using first_some_agree[where f = ?f, OF here others] by simp
qed

lemma reversed_match:
  assumes "reverse_segments params segs = Inr out" "separated segs" "plain_literals segs"
    "\<forall>(n, c) \<in> set (segment_params segs). local_converter c"
  shows "\<exists>path. PathUnescape out = Some path \<and>
     match_segments segs path =
       Some (map (\<lambda>(n, c). (n, the (cv_Encode c (the (map_of params n))))) (segment_params segs))"
  using assms
proof (induction segs arbitrary: out)
  case (Cons seg segs)
  have plain: "plain_literals segs" using Cons.prems(3) by (auto simp: plain_literals_def)
  show ?case
  proof (cases seg)
    case (Literal l)
    then obtain rest where rest: "out = l @ rest" "reverse_segments params segs = Inr rest" using Cons.prems(1) by auto
    have "CHR 0x25 \<notin> set l" using Cons.prems(3) Literal by (auto simp: plain_literals_def)
    then show ?thesis
      using Cons.IH[OF rest(2)] Cons.prems(2,4) plain Literal rest(1) PathUnescape_plain[of l rest] by (auto simp: has_prefix_def)
  next
    case (Parameter n c)
    then obtain v p rest where v: "map_of params n = Some v" "reverse_parameter c v = Inr p" "out = p @ rest"
        "reverse_segments params segs = Inr rest" using Cons.prems(1) by (auto split: option.splits)
    obtain raw where raw: "cv_Encode c v = Some raw" "whole_match c raw" "p = escape_raw raw"
      using reverse_parameter_raw[OF v(2)] by blast
    obtain path where path: "PathUnescape rest = Some path" "match_segments segs path =
        Some (map (\<lambda>(n, c). (n, the (cv_Encode c (the (map_of params n))))) (segment_params segs))"
      using Cons.IH[OF v(4)] Cons.prems(2,4) plain Parameter by auto
    have "local_converter c" "separated (Parameter n c # segs)" using Cons.prems(2,4) Parameter by auto
    from parameter_match[OF this(1) raw(2) path(2) this(2)] show ?thesis
      using path(1) v(1,3) raw(1,3) Parameter by (auto simp: PathUnescape_raw)
  qed
qed simp

subsection \<open>Names of parameters\<close>

lemma parameter_names_simps [simp]:
  "parameter_names [] = []"
  "parameter_names (Literal l # segs) = parameter_names segs"
  "parameter_names (Parameter n c # segs) = n # parameter_names segs"
  "parameter_names (segs @ segs') = parameter_names segs @ parameter_names segs'"
  by (simp_all add: parameter_names_def)

lemma compile_segments_names:
  "compile_segments convs names rest = Inr segs \<Longrightarrow>
   distinct (parameter_names segs) \<and> set (parameter_names segs) \<inter> set names = {}
   \<and> (\<forall>(n, c) \<in> set (segment_params segs). c \<in> snd ` set convs)"
proof (induction convs names rest arbitrary: segs rule: compile_segments.induct)
  case (1 convs names rest)
  show ?case
  proof (cases "rest = []")
    case True
    then show ?thesis using "1.prems" by (subst (asm) compile_segments.simps) simp
  next
    case nonempty: False
    obtain literal inside found where cut1: "cut (CHR ''<'') rest = (literal, inside, found)" using prod_cases3 by blast
    obtain token rest' closed where cut2: "cut (CHR ''>'') inside = (token, rest', closed)" using prod_cases3 by blast
    define kn where "kn = (case cut (CHR '':'') token of (k, n, ok) \<Rightarrow> if ok then (k, n) else (''str'', k))"
    obtain kind name where kn: "kn = (kind, name)" by (cases kn)
    show ?thesis
    proof (cases found)
      case False
      then show ?thesis using "1.prems" nonempty cut1 by (subst (asm) compile_segments.simps) auto
    next
      case True
      obtain c segs' where c: closed "map_of convs kind = Some c" "validIdentifier name" "name \<notin> set names"
          "compile_segments convs (name # names) rest' = Inr segs'"
          "segs = (if literal = [] then [] else [Literal literal]) @ Parameter name c # segs'"
        using "1.prems" nonempty True cut1 cut2 kn_def[unfolded kn, symmetric]
        by (subst (asm) compile_segments.simps) (auto split: option.splits if_splits bool.splits)
      have "c \<in> snd ` set convs" using c(2) map_of_SomeD by force
      moreover have "distinct (parameter_names segs') \<and> set (parameter_names segs') \<inter> set (name # names) = {}
          \<and> (\<forall>(n, c) \<in> set (segment_params segs'). c \<in> snd ` set convs)"
        using "1.IH"[OF nonempty cut1[symmetric] refl] cut2 kn_def[unfolded kn] c True by auto
      ultimately show ?thesis using c(4,6) by auto
    qed
  qed
qed

subsection \<open>The round trip\<close>

lemma decode_reversed:
  assumes "set ps \<subseteq> set (segment_params segs)" "distinct (map fst (segment_params segs))"
    "\<forall>(n, c) \<in> set ps. \<exists>v raw. map_of params n = Some v \<and> cv_Encode c v = Some raw \<and> cv_Decode c raw = Some v"
  shows "decode_all segs (map (\<lambda>(n, c). (n, the (cv_Encode c (the (map_of params n))))) ps)
    = Some (map (\<lambda>(n, c). (n, the (map_of params n))) ps)"
  using assms(1,3)
proof (induction ps)
  case (Cons p ps)
  obtain n c where p: "p = (n, c)" by (cases p)
  have "segment_converter segs n = Some c"
    using Cons.prems(1) p assms(2) by (simp add: segment_converter_def segment_params_def[symmetric])
  then show ?case using Cons p by auto
qed simp

lemma reversed_known: "reverse_segments params segs = Inr out \<Longrightarrow> n \<in> set (parameter_names segs) \<Longrightarrow> map_of params n \<noteq> None"
proof (induction segs arbitrary: out)
  case (Cons seg segs)
  then show ?case by (cases seg) (auto split: option.splits)
qed simp

lemma reversed_encoded:
  "reverse_segments params segs = Inr out \<Longrightarrow> (n, c) \<in> set (segment_params segs) \<Longrightarrow>
   \<exists>v raw. map_of params n = Some v \<and> cv_Encode c v = Some raw"
proof (induction segs arbitrary: out)
  case (Cons seg segs)
  then show ?case by (cases seg) (auto split: option.splits dest: reverse_parameter_raw)
qed simp

lemma same_params:
  assumes "reverse_segments params segs = Inr out" "distinct (map fst params)" "distinct (parameter_names segs)"
    "length params = length (parameter_names segs)"
  shows "map_of (map (\<lambda>(n, c). (n, the (map_of params n))) (segment_params segs)) = map_of params"
proof -
  have sub: "set (parameter_names segs) \<subseteq> fst ` set params"
    using reversed_known[OF assms(1)] by (metis map_of_eq_None_iff subsetI)
  have "card (fst ` set params) = card (set (parameter_names segs))"
    using assms(2-4) by (metis distinct_card length_map list.set_map)
  then have names: "fst ` set params = fst ` set (segment_params segs)"
    using card_subset_eq[OF _ sub] by (metis List.finite_set finite_imageI list.set_map segment_params_names)
  have "map_of (map (\<lambda>(n, c). (n, the (map_of params n))) ps) m
      = (if m \<in> fst ` set ps then Some (the (map_of params m)) else None)" for ps :: "(string \<times> converter) list" and m
    by (induction ps) auto
  then have left: "map_of (map (\<lambda>(n, c). (n, the (map_of params n))) (segment_params segs)) m
      = (if m \<in> fst ` set params then Some (the (map_of params m)) else None)" for m
    unfolding names .
  have right: "map_of params m = (if m \<in> fst ` set params then Some (the (map_of params m)) else None)" for m
    using map_of_eq_None_iff[of params m] by (cases "map_of params m") auto
  show ?thesis by (rule ext, rule trans[OF left right[symmetric]])
qed

lemma upper_hex_safe: "n < 16 \<Longrightarrow> segment_safe (upper_hex n)"
  by (simp add: upper_hex_def segment_safe_def is_digit_def is_alpha_def is_upper_def less_eq_char_def)

lemma escape_raw_chars: "ch \<in> set (escape_raw raw) \<Longrightarrow> segment_safe ch \<or> ch = CHR 0x25 \<or> ch = CHR ''/''"
proof -
  have "(of_char c :: nat) div 16 < 16" for c
    using nat_of_char_less_256[of c] by (simp add: less_mult_imp_div_less)
  then show "ch \<in> set (escape_raw raw) \<Longrightarrow> segment_safe ch \<or> ch = CHR 0x25 \<or> ch = CHR ''/''"
    by (auto simp: escape_raw_def escape_char_def upper_hex_safe Let_def split: if_splits)
qed

lemma reversed_chars:
  "reverse_segments params segs = Inr out \<Longrightarrow> ch \<in> set out \<Longrightarrow>
   segment_safe ch \<or> ch = CHR 0x25 \<or> ch = CHR ''/'' \<or> (\<exists>l. Literal l \<in> set segs \<and> ch \<in> set l)"
proof (induction segs arbitrary: out)
  case (Cons seg segs)
  show ?case
  proof (cases seg)
    case (Literal l)
    then obtain rest where "out = l @ rest" "reverse_segments params segs = Inr rest" using Cons.prems(1) by auto
    then show ?thesis using Cons.IH[of rest] Cons.prems(2) Literal by (metis Un_iff list.set_intros set_append)
  next
    case (Parameter n c)
    then obtain v p rest where "reverse_parameter c v = Inr p" "out = p @ rest" "reverse_segments params segs = Inr rest"
      using Cons.prems(1) by (auto split: option.splits)
    then show ?thesis
      using Cons.IH[of rest] Cons.prems(2) reverse_parameter_raw[of c v p] escape_raw_chars[of ch]
      by (metis Un_iff list.set_intros(2) set_append)
  qed
qed simp

lemma router_Reverse_result:
  assumes "router_ok convs r" "router_Reverse r name params query = Inr url"
  obtains i c out where "ro_names r name = Some i" "i < length (ro_routes r)" "c = ro_routes r ! i" "cr_name c = name"
    "compiled_ok convs c" "cr_regex c = None" "length params = length (cr_parameters c)"
    "reverse_segments params (cr_segments c) = Inr out" "\<not> has_prefix out ''//''"
    "url = (if query \<noteq> [] then out @ ''?'' @ query else out)"
proof -
  obtain i where i: "ro_names r name = Some i" using assms(2) by (auto simp: router_Reverse_def split: option.splits)
  moreover have "i < length (ro_routes r)" "cr_name (ro_routes r ! i) = name" "compiled_ok convs (ro_routes r ! i)"
    using assms(1) i by (auto simp: router_ok_def)
  moreover have "cr_regex (ro_routes r ! i) = None"
    using assms(2) i by (cases "cr_regex (ro_routes r ! i)") (simp_all add: router_Reverse_def Let_def)
  moreover have "length params = length (cr_parameters (ro_routes r ! i))"
    using assms(2) i by (simp add: router_Reverse_def Let_def split: if_splits)
  moreover obtain out where "reverse_segments params (cr_segments (ro_routes r ! i)) = Inr out" "\<not> has_prefix out ''//''"
    "url = (if query \<noteq> [] then out @ ''?'' @ query else out)"
    using assms(2) i by (auto simp: router_Reverse_def Let_def split: if_splits)
  ultimately show ?thesis using that by blast
qed

lemma first_some_at:
  "i < length xs \<Longrightarrow> f (xs ! i) = Some y \<Longrightarrow> first_some f xs = Some y \<or> (\<exists>j < i. f (xs ! j) \<noteq> None)"
proof (induction xs arbitrary: i)
  case (Cons x xs)
  show ?case
  proof (cases i)
    case (Suc j)
    then show ?thesis using Cons.IH[of j] Cons.prems by (cases "f x") (auto intro: exI[of _ "Suc _"] exI[of _ 0])
  qed (use Cons.prems in auto)
qed simp

lemma reverse_round_trip:
  assumes built: "newWithConverters captureless re convs b routes = Inr r"
    and reversed: "router_Reverse r name params query = Inr url"
    and route: "ro_names r name = Some i" "c = ro_routes r ! i"
    and local_convs: "\<forall>p \<in> set convs. local_converter (snd p)"
    and pattern: "separated (cr_segments c)" "plain_literals (cr_segments c)"
    and params: "distinct (map fst params)"
      "\<forall>(n, cv) \<in> set (segment_params (cr_segments c)). \<forall>v raw.
         map_of params n = Some v \<longrightarrow> cv_Encode cv v = Some raw \<longrightarrow> cv_Decode cv raw = Some v"
  shows "\<exists>path ps. request_path url = Some path \<and> route_match c path = Some ps \<and> map_of ps = map_of params
    \<and> (Resolve r path = Some (match_of c ps) \<or> (\<exists>j < i. route_match (ro_routes r ! j) path \<noteq> None))"
proof -
  let ?segs = "cr_segments c" and ?raws = "\<lambda>ps. map (\<lambda>(n, c). (n, the (cv_Encode c (the (map_of params n))))) ps"
  obtain out where R: "i < length (ro_routes r)" "compiled_ok convs c" "cr_regex c = None"
      "length params = length (cr_parameters c)" "reverse_segments params ?segs = Inr out"
      "url = (if query \<noteq> [] then out @ ''?'' @ query else out)"
    using router_Reverse_result[OF router_built[OF built] reversed] route by (metis option.inject)
  have compiled: "compile_segments convs [] (cr_pattern c) = Inr ?segs" "cr_parameters c = parameter_names ?segs"
    using R(2,3) by (auto simp: compiled_ok_def)
  note names = compile_segments_names[OF compiled(1)]
  have "\<forall>(n, cv) \<in> set (segment_params ?segs). local_converter cv" using names local_convs by fastforce
  then obtain path where path: "PathUnescape out = Some path" "match_segments ?segs path = Some (?raws (segment_params ?segs))"
    using reversed_match[OF R(5) pattern] by blast
  have "CHR ''?'' \<notin> set out"
    using reversed_chars[OF R(5)] percent_unsafe pattern(2) by (fastforce simp: plain_literals_def)
  then have "fst (cut (CHR ''?'') url) = out"
    using R(6) cut_found[of "CHR ''?''" url out query] cut_not_found[of "CHR ''?''" out out "[]"] by auto
  then have request: "request_path url = Some path" using path(1) by (simp add: request_path_def)
  define ps where "ps = map (\<lambda>(n, c). (n, the (map_of params n))) (segment_params ?segs)"
  have "distinct (map fst (segment_params ?segs))" using names by (simp add: segment_params_names)
  moreover have "\<forall>(n, cv) \<in> set (segment_params ?segs). \<exists>v raw.
      map_of params n = Some v \<and> cv_Encode cv v = Some raw \<and> cv_Decode cv raw = Some v"
    using reversed_encoded[OF R(5)] params(2) by fastforce
  ultimately have "decode_all ?segs (?raws (segment_params ?segs)) = Some ps"
    unfolding ps_def by (intro decode_reversed) auto
  then have matched: "route_match c path = Some ps" using path(2) R(3) by (simp add: route_match_def)
  have "map_of ps = map_of params"
    unfolding ps_def using same_params[OF R(5) params(1)] names R(4) compiled(2) by simp
  moreover have "Resolve r path = Some (match_of c ps) \<or> (\<exists>j < i. route_match (ro_routes r ! j) path \<noteq> None)"
    using first_some_at[OF R(1), of "\<lambda>c. map_option (match_of c) (route_match c path)"] matched route(2)
    unfolding Resolve_def by auto
  ultimately show ?thesis using request matched by blast
qed

text \<open>
  C37. Reversing and resolving are inverse. In a router built from any converters that accept in front of more
  text what they accept alone, let a named route have literals without percent and question marks and let each
  of its parameters be last or followed by a character that its converter excludes. When \<open>Reverse\<close> makes a URL
  from parameters whose encodings decode back, the path of a request for that URL, cut at the query and
  unescaped, is matched by the same route with the same parameters; the router resolves it to that route unless
  an earlier route already matches it.
\<close>

theorem reverse_resolves:
  assumes built: "newWithConverters captureless re convs b routes = Inr r"
    and reversed: "router_Reverse r name params query = Inr url"
    and route: "ro_names r name = Some i" "c = ro_routes r ! i"
    and local_convs: "\<forall>p \<in> set convs. local_converter (snd p)"
    and pattern: "separated (cr_segments c)" "plain_literals (cr_segments c)"
    and params: "distinct (map fst params)"
      "\<forall>(n, cv) \<in> set (segment_params (cr_segments c)). \<forall>v raw.
         map_of params n = Some v \<longrightarrow> cv_Encode cv v = Some raw \<longrightarrow> cv_Decode cv raw = Some v"
  shows "\<exists>path ps. request_path url = Some path \<and> route_match c path = Some ps \<and> map_of ps = map_of params
    \<and> (Resolve r path = Some (match_of c ps) \<or> (\<exists>j < i. route_match (ro_routes r ! j) path \<noteq> None))"
  using reverse_round_trip[OF assms] .

definition slugConverter :: converter where
  "slugConverter = stringConverter ''[-a-zA-Z0-9_]+'' (class_prefixes slug_char)"

definition site_detail :: "segment list" where
  "site_detail = [Literal ''/articles/'', Parameter ''id'' intConverter, Literal ''/'', Parameter ''title'' slugConverter, Literal ''/'']"

definition site_params :: "(string \<times> url_value) list" where
  "site_params = [(''title'', VString ''a-b''), (''id'', VInt64 7)]"

lemma site_built: "newWithConverters (\<lambda>_. True) (\<lambda>_. None) Builtins True site_routes = Inr site"
proof -
  have "\<not> isl (urls_New (\<lambda>_. None) site_routes)" by code_simp
  then show ?thesis unfolding urls_New_def[symmetric] by (auto simp: site_def split: sum.splits)
qed

lemma site_compiled: "compile_segments Builtins [] ''/articles/<int:id>/<slug:title>/'' = Inr site_detail"
proof -
  have "compile_segments Builtins [''title'', ''id''] ''/'' = Inr [Literal ''/'']"
    by (subst compile_segments.simps) simp
  then have "compile_segments Builtins [''id''] ''/<slug:title>/'' = Inr [Literal ''/'', Parameter ''title'' slugConverter, Literal ''/'']"
    by (subst compile_segments.simps)
      (simp add: Builtins_def slugConverter_def validIdentifier_def is_alpha_def is_lower_def is_upper_def less_eq_char_def)
  then show ?thesis
    by (subst compile_segments.simps)
      (simp add: Builtins_def site_detail_def validIdentifier_def is_alpha_def is_lower_def is_upper_def less_eq_char_def)
qed

lemma site_segments: "cr_segments (ro_routes site ! 1) = site_detail"
proof -
  have "1 < length (ro_routes site)" "cr_regex (ro_routes site ! 1) = None \<longleftrightarrow> True"
    "cr_pattern (ro_routes site ! 1) = ''/articles/<int:id>/<slug:title>/''" by code_simp+
  moreover have "compiled_ok Builtins (ro_routes site ! 1)"
    using router_built[OF site_built] calculation(1) by (simp add: router_ok_def)
  ultimately show ?thesis using site_compiled by (simp add: compiled_ok_def)
qed

lemma site_reverses:
  "router_Reverse site ''news:detail'' site_params ''page=2'' = Inr ''/articles/7/a-b/?page=2''"
  "ro_names site ''news:detail'' = Some 1"
  by code_simp+

lemma site_separated: "separated site_detail" "plain_literals site_detail"
  by (auto simp: site_detail_def plain_literals_def slugConverter_def stringConverter_def intConverter_def
      is_digit_def slug_char_def is_alpha_def is_lower_def is_upper_def less_eq_char_def intro!: class_excludes)

lemma site_distinct: "distinct (map fst site_params)"
  by (simp add: site_params_def)

lemma site_decodes:
  "\<forall>(n, cv) \<in> set (segment_params site_detail). \<forall>v raw.
     map_of site_params n = Some v \<longrightarrow> cv_Encode cv v = Some raw \<longrightarrow> cv_Decode cv raw = Some v"
proof -
  have "cv_Decode intConverter (itoa_nat 7) = Some (VInt64 7)" by code_simp
  then show ?thesis
    by (auto simp: site_detail_def site_params_def slugConverter_def stringConverter_def intConverter_def int_encode_def)
qed

theorem reverse_resolves_witness:
  "\<exists>path ps. request_path ''/articles/7/a-b/?page=2'' = Some path \<and> route_match (ro_routes site ! 1) path = Some ps
    \<and> map_of ps = map_of site_params
    \<and> (Resolve site path = Some (match_of (ro_routes site ! 1) ps) \<or> (\<exists>j < 1. route_match (ro_routes site ! j) path \<noteq> None))"
  by (rule reverse_resolves[OF site_built site_reverses refl Builtins_local site_separated[folded site_segments]
        site_distinct site_decodes[folded site_segments]])

subsection \<open>A reversed URL stays on the site\<close>

lemma compile_segments_slash:
  assumes "compile_segments convs names (CHR ''/'' # rest) = Inr segs"
  shows "\<exists>l segs'. segs = Literal (CHR ''/'' # l) # segs'"
proof -
  obtain literal inside found where cut1: "cut (CHR ''<'') rest = (literal, inside, found)" using prod_cases3 by blast
  show ?thesis
    using assms cut1 by (subst (asm) compile_segments.simps) (auto simp: Let_def split: bool.splits option.splits if_splits prod.splits)
qed

lemma reversed_slash: "reverse_segments params (Literal (x # l) # segs) = Inr out \<Longrightarrow> \<exists>out'. out = x # out'"
  by auto

text \<open>
  C38. Reversing cannot be used to leave the site: the URL begins with exactly one slash, whatever the parameters
  and the query are, and in its path every character is one of the pattern's own, a slash, or a character that
  is safe in a path segment, with percent signs only as escapes of the parameters.
\<close>

theorem reverse_confined:
  assumes "newWithConverters captureless re convs b routes = Inr r" "router_Reverse r name params query = Inr url"
  shows "has_prefix url ''/'' \<and> \<not> has_prefix url ''//''
    \<and> (\<exists>path c. url = (if query \<noteq> [] then path @ ''?'' @ query else path) \<and> c \<in> set (ro_routes r) \<and> cr_name c = name
        \<and> (\<forall>ch \<in> set path. segment_safe ch \<or> ch = CHR 0x25 \<or> ch = CHR ''/'' \<or> (\<exists>l. Literal l \<in> set (cr_segments c) \<and> ch \<in> set l)))"
proof -
  obtain i c out where R: "i < length (ro_routes r)" "c = ro_routes r ! i" "cr_name c = name"
      "compiled_ok convs c" "cr_regex c = None" "reverse_segments params (cr_segments c) = Inr out"
      "\<not> has_prefix out ''//''" "url = (if query \<noteq> [] then out @ ''?'' @ query else out)"
    using router_Reverse_result[OF router_built[OF assms(1)] assms(2)] by metis
  obtain rest where "cr_pattern c = CHR ''/'' # rest"
    using R(4) by (cases "cr_pattern c") (auto simp: compiled_ok_def has_prefix_def)
  then have "compile_segments convs [] (CHR ''/'' # rest) = Inr (cr_segments c)" using R(4,5) by (simp add: compiled_ok_def)
  then obtain out' where out: "out = CHR ''/'' # out'"
    using compile_segments_slash reversed_slash R(6) by metis
  have "has_prefix url ''/''" "\<not> has_prefix url ''//''"
    using R(7,8) out by (cases out'; auto simp: has_prefix_def split: if_splits)+
  then show ?thesis using R(1-3,8) reversed_chars[OF R(6)] nth_mem by blast
qed

theorem reverse_confined_witness:
  "has_prefix ''/articles/7/a-b/?page=2'' ''/'' \<and> \<not> has_prefix ''/articles/7/a-b/?page=2'' ''//''"
  using reverse_confined[OF site_built site_reverses(1)] by blast

end
