(* ===== verification/File_Download.thy ===== *)
theory File_Download
  imports Go_Prelude
begin

text \<open>
  Conditional and partial downloads, \<open>core/files/download_range.go\<close>: the bounded view of the request's
  conditions, entity tag lists, preconditions, \<open>If-Range\<close> and the single byte range.

  \<open>http.ParseTime\<close> is the parameter \<open>parse_time\<close>. HTTP header values are byte strings; \<open>EqualFold\<close> and
  \<open>TrimSpace\<close> are written out for what is compared here, with the one non-ASCII letter that folds to a
  letter of \<open>bytes\<close> and the UTF-8 encodings of the Unicode white space.
\<close>

section \<open>String functions\<close>

text \<open>The letter U+017F folds to \<open>s\<close>.\<close>

fun fold_long_s :: "string \<Rightarrow> string" where
  "fold_long_s (c # d # cs) =
     (if of_char c = (197 :: nat) \<and> of_char d = (191 :: nat) then CHR ''s'' # fold_long_s cs
      else c # fold_long_s (d # cs))"
| "fold_long_s cs = cs"

definition is_bytes_unit :: "string \<Rightarrow> bool" where
  "is_bytes_unit u = (to_lower (fold_long_s u) = ''bytes'')"

fun trim_left_space :: "nat \<Rightarrow> string \<Rightarrow> string" where
  "trim_left_space 0 s = s"
| "trim_left_space (Suc n) s =
     (case find (\<lambda>p. has_prefix s p) white_space of
        None \<Rightarrow> s | Some p \<Rightarrow> trim_left_space n (drop (length p) s))"

fun trim_right_space :: "nat \<Rightarrow> string \<Rightarrow> string" where
  "trim_right_space 0 s = s"
| "trim_right_space (Suc n) s =
     (case find (\<lambda>p. has_suffix s p) white_space of
        None \<Rightarrow> s | Some p \<Rightarrow> trim_right_space n (take (length s - length p) s))"

text \<open>Each step removes at least one byte, so the length of the string is enough fuel.\<close>

definition TrimSpace :: "string \<Rightarrow> string" where
  "TrimSpace s = (let t = trim_left_space (length s) s in trim_right_space (length t) t)"

definition is_blank :: "char \<Rightarrow> bool" where
  "is_blank c = (c = CHR '' '' \<or> of_char c = (9 :: nat))"

section \<open>Conditions\<close>

record download_conditions =
  dc_match :: "string list"
  dc_noneMatch :: "string list"
  dc_matchPresent :: bool
  dc_noneMatchPresent :: bool
  dc_ifRangePresent :: bool
  dc_rangePresent :: bool
  dc_unmodified :: string
  dc_modified :: string
  dc_ifRange :: string
  dc_rangeValue :: string

type_synonym http_header = "string \<rightharpoonup> string list"

definition header_lines :: "http_header \<Rightarrow> string \<Rightarrow> string list" where
  "header_lines h key = (case h key of None \<Rightarrow> [] | Some ls \<Rightarrow> ls)"

fun within_bytes :: "int \<Rightarrow> string list \<Rightarrow> bool" where
  "within_bytes used [] = True"
| "within_bytes used (line # ls) =
     (if int (length line) > 4096 - used then False else within_bytes (used + int (length line)) ls)"

definition single_value :: "http_header \<Rightarrow> string \<Rightarrow> string option" where
  "single_value h key =
     (let vs = header_lines h key in
      if length vs > 1 \<or> length vs = 1 \<and> length (hd vs) > 128 then None
      else Some (if length vs = 1 then hd vs else []))"

definition downloadConditionShape :: "http_header \<Rightarrow> download_conditions option" where
  "downloadConditionShape h =
     (if length (header_lines h ''If-Match'') > 32 \<or> \<not> within_bytes 0 (header_lines h ''If-Match'')
         \<or> length (header_lines h ''If-None-Match'') > 32 \<or> \<not> within_bytes 0 (header_lines h ''If-None-Match'')
      then None
      else case (single_value h ''If-Unmodified-Since'', single_value h ''If-Modified-Since'',
                 single_value h ''If-Range'', single_value h ''Range'') of
        (Some um, Some md, Some ir, Some rg) \<Rightarrow>
          Some \<lparr>dc_match = header_lines h ''If-Match'', dc_noneMatch = header_lines h ''If-None-Match'',
                dc_matchPresent = (h ''If-Match'' \<noteq> None), dc_noneMatchPresent = (h ''If-None-Match'' \<noteq> None),
                dc_ifRangePresent = (h ''If-Range'' \<noteq> None), dc_rangePresent = (h ''Range'' \<noteq> None),
                dc_unmodified = um, dc_modified = md, dc_ifRange = ir, dc_rangeValue = rg\<rparr>
      | _ \<Rightarrow> None)"

section \<open>Entity tags\<close>

definition trim_left_blank :: "string \<Rightarrow> string" where
  "trim_left_blank s = dropWhile is_blank s"

definition trim_blank :: "string \<Rightarrow> string" where
  "trim_blank s = trim_chars is_blank s"

fun join_comma :: "string list \<Rightarrow> string" where
  "join_comma [] = []"
| "join_comma [s] = s"
| "join_comma (s # ss) = s @ '','' @ join_comma ss"

text \<open>The opaque part of a tag, up to and without the closing quote, and what follows the quote.\<close>

fun scan_tag :: "string \<Rightarrow> (string \<times> string) option" where
  "scan_tag [] = None"
| "scan_tag (c # cs) =
     (if c = CHR 0x22 then Some ([], cs)
      else if of_char c < (33 :: nat) \<or> of_char c = (127 :: nat) then None
      else map_option (\<lambda>(a, b). (c # a, b)) (scan_tag cs))"

text \<open>The loop over the list, with the number of positions that are still allowed.\<close>

fun etag_loop :: "nat \<Rightarrow> string \<Rightarrow> bool \<Rightarrow> bool \<Rightarrow> string \<Rightarrow> bool \<times> bool" where
  "etag_loop left cur weak matched [] = (matched, True)"
| "etag_loop 0 cur weak matched (c # cs) = (False, False)"
| "etag_loop (Suc left) cur weak matched (c # cs) =
     (if c = CHR '','' then etag_loop left cur weak matched (trim_left_blank cs)
      else
        let isWeak = has_prefix (c # cs) ''W/''; v = (if isWeak then drop 2 (c # cs) else c # cs) in
        if length v < 2 \<or> hd v \<noteq> CHR 0x22 then (False, False)
        else case scan_tag (tl v) of
          None \<Rightarrow> (False, False)
        | Some (opaque, rest) \<Rightarrow>
            let hit = (matched \<or> (weak \<or> \<not> isWeak) \<and> CHR 0x22 # opaque @ [CHR 0x22] = cur);
                v' = trim_left_blank rest in
            if v' \<noteq> [] \<and> hd v' \<noteq> CHR '','' then (False, False)
            else etag_loop left cur weak hit (trim_left_blank (tl v')))"

definition downloadETags :: "string list \<Rightarrow> string \<Rightarrow> bool \<Rightarrow> bool \<times> bool" where
  "downloadETags ls cur weak =
     (if length ls = 0 \<or> length ls > 32 then (False, False)
      else if \<not> within_bytes (int (length ls) - 1) ls then (False, False)
      else let v = trim_blank (join_comma ls) in
           if v = ''*'' then (True, True) else etag_loop 64 cur weak False v)"

definition downloadPrecondition ::
  "(string \<Rightarrow> go_time option) \<Rightarrow> download_conditions \<Rightarrow> string \<Rightarrow> go_time \<Rightarrow> int" where
  "downloadPrecondition parse_time c etag modified =
     (if (if dc_matchPresent c
          then downloadETags (dc_match c) etag False \<noteq> (True, True)
          else (case parse_time (dc_unmodified c) of
                  None \<Rightarrow> False | Some d \<Rightarrow> modified \<noteq> 0 \<and> modified > d))
      then 412
      else if (if dc_noneMatchPresent c
               then downloadETags (dc_noneMatch c) etag True = (True, True)
               else (case parse_time (dc_modified c) of
                       None \<Rightarrow> False | Some d \<Rightarrow> modified \<noteq> 0 \<and> \<not> modified > d))
      then 304 else 0)"

definition downloadIfRange ::
  "(string \<Rightarrow> go_time option) \<Rightarrow> string \<Rightarrow> string \<Rightarrow> go_time \<Rightarrow> bool \<Rightarrow> bool" where
  "downloadIfRange parse_time value0 etag modified strongDate =
     (let v = trim_blank value0 in
      if v = [] then False
      else if has_prefix v [CHR 0x22] \<or> has_prefix v ''W/'' then v = etag
      else (case parse_time v of None \<Rightarrow> False | Some d \<Rightarrow> strongDate \<and> modified \<noteq> 0 \<and> modified = d))"

section \<open>Byte ranges\<close>

definition range_decimal :: "string \<Rightarrow> int option" where
  "range_decimal s = (if s = [] \<or> \<not> list_all is_digit s then None else parse_int64 s)"

definition downloadRange :: "string \<Rightarrow> int \<Rightarrow> int \<times> int \<times> int" where
  "downloadRange v sz =
     (if v = [] then (0, sz, 200)
      else case cut (CHR ''='') v of
        (unit, spec, False) \<Rightarrow> (0, sz, if is_bytes_unit (TrimSpace unit) then 416 else 200)
      | (unit, spec, True) \<Rightarrow>
          if \<not> is_bytes_unit (TrimSpace unit) \<or> CHR '','' \<in> set spec then (0, sz, 200)
          else if length v > 128 \<or> \<not> is_bytes_unit unit \<or> sz \<le> 0 then (0, sz, 416)
          else case cut (CHR ''-'') spec of (a, b, ok) \<Rightarrow>
            if \<not> ok \<or> a = [] \<and> b = [] then (0, sz, 416)
            else if a = [] then
              (case range_decimal b of
                 None \<Rightarrow> (0, sz, 416)
               | Some n \<Rightarrow> if n = 0 then (0, sz, 416)
                   else let n' = (if n > sz then sz else n) in (sz - n', n', 206))
            else (case range_decimal a of
                 None \<Rightarrow> (0, sz, 416)
               | Some n \<Rightarrow>
                   if n \<ge> sz then (0, sz, 416)
                   else if b = [] then (n, sz - 1 - n + 1, 206)
                   else (case range_decimal b of
                      None \<Rightarrow> (0, sz, 416)
                    | Some l \<Rightarrow>
                        if l < n then (0, sz, 416)
                        else let e = (if l < sz - 1 then l else sz - 1) in (n, e - n + 1, 206))))"

section \<open>The requested bytes\<close>

text \<open>A well-formed request for one range, and the positions of the file it asks for. A bound that does not
  fit a 64-bit integer asks for nothing.\<close>

definition range_request :: "string \<Rightarrow> string \<Rightarrow> string \<Rightarrow> bool" where
  "range_request v a b \<longleftrightarrow>
     (\<exists>u. v = u @ CHR ''='' # a @ CHR ''-'' # b \<and> is_bytes_unit u \<and> is_bytes_unit (TrimSpace u)) \<and> length v \<le> 128 \<and>
     list_all is_digit a \<and> list_all is_digit b \<and> (a \<noteq> [] \<or> b \<noteq> [])"

definition in_range :: "string \<Rightarrow> bool" where
  "in_range s \<longleftrightarrow> decimal_value 0 s \<le> max_int64"

definition requested :: "string \<Rightarrow> string \<Rightarrow> int \<Rightarrow> int set" where
  "requested a b sz =
     {i. 0 \<le> i \<and> i < sz \<and> in_range a \<and> in_range b \<and>
         (if a = [] then sz - decimal_value 0 b \<le> i
          else decimal_value 0 a \<le> i \<and> (b = [] \<or> i \<le> decimal_value 0 b))}"

lemma digit_not_minus: "is_digit c \<Longrightarrow> c \<noteq> CHR ''-'' \<and> c \<noteq> CHR ''+'' \<and> c \<noteq> CHR '',''"
  by (auto simp: is_digit_def less_eq_char_def)

lemma range_decimal_digits:
  assumes "s \<noteq> []"
  shows "range_decimal s = (if list_all is_digit s \<and> in_range s then Some (decimal_value 0 s) else None)"
proof (cases "list_all is_digit s")
  case True
  have "is_digit (hd s)" using assms True by (cases s) auto
  moreover have "min_int64 \<le> decimal_value 0 s"
    using decimal_value_nonneg[of 0 s] True by (simp add: min_int64_def)
  ultimately show ?thesis using assms True digit_not_minus[of "hd s"]
    by (simp add: range_decimal_def parse_int64_def in_range_def)
qed (simp add: range_decimal_def)

lemma fold_long_s_mem: "c \<in> set u \<Longrightarrow> of_char c < (128 :: nat) \<Longrightarrow> c \<in> set (fold_long_s u)"
  by (induction u rule: fold_long_s.induct) auto

lemma unit_no_equals: "is_bytes_unit u \<Longrightarrow> CHR ''='' \<notin> set u"
proof
  assume u: "is_bytes_unit u" "CHR ''='' \<in> set u"
  have "CHR ''='' \<in> set (fold_long_s u)" using u(2) by (intro fold_long_s_mem) simp_all
  then have "to_lower_char (CHR ''='') \<in> set (to_lower (fold_long_s u))" by (simp add: to_lower_def)
  then show False using u(1) by (auto simp: is_bytes_unit_def to_lower_char_def is_upper_def)
qed

lemma range_parts:
  assumes "range_request v a b"
  obtains u where "cut (CHR ''='') v = (u, a @ CHR ''-'' # b, True)" "cut (CHR ''-'') (a @ CHR ''-'' # b) = (a, b, True)"
    "is_bytes_unit u" "is_bytes_unit (TrimSpace u)" "CHR '','' \<notin> set (a @ CHR ''-'' # b)" "v \<noteq> []"
proof -
  obtain u where u: "v = u @ CHR ''='' # a @ CHR ''-'' # b" "is_bytes_unit u" "is_bytes_unit (TrimSpace u)"
    using assms by (auto simp: range_request_def)
  have d: "list_all is_digit a" "list_all is_digit b" using assms by (auto simp: range_request_def)
  then have "CHR ''-'' \<notin> set a" "CHR '','' \<notin> set (a @ CHR ''-'' # b)"
    using digit_not_minus by (auto simp: list_all_iff)
  then show ?thesis using that[of u] u unit_no_equals[OF u(2)] by (simp add: cut_found)
qed

text \<open>The interval the code computes from the two bounds.\<close>

definition range_interval :: "string \<Rightarrow> string \<Rightarrow> int \<Rightarrow> int \<times> int \<times> int" where
  "range_interval a b sz =
     (if requested a b sz = {} then (0, sz, 416)
      else if a = [] then (max 0 (sz - decimal_value 0 b), min sz (decimal_value 0 b), 206)
      else let e = (if b = [] then sz - 1 else min (decimal_value 0 b) (sz - 1)) in
        (decimal_value 0 a, e - decimal_value 0 a + 1, 206))"

lemma decimal_nonneg: "list_all is_digit s \<Longrightarrow> 0 \<le> decimal_value 0 s"
  by (simp add: decimal_value_nonneg)

lemma requested_suffix:
  assumes "list_all is_digit b" "0 \<le> sz"
  shows "requested [] b sz = {} \<longleftrightarrow> sz \<le> 0 \<or> \<not> in_range b \<or> decimal_value 0 b = 0"
proof -
  have "decimal_value 0 [] \<le> max_int64" by (simp add: max_int64_def)
  then have r: "requested [] b sz = {i. 0 \<le> i \<and> i < sz \<and> in_range b \<and> sz - decimal_value 0 b \<le> i}"
    by (simp add: requested_def in_range_def)
  show ?thesis
  proof
    assume e: "requested [] b sz = {}"
    show "sz \<le> 0 \<or> \<not> in_range b \<or> decimal_value 0 b = 0"
    proof (rule ccontr)
      assume "\<not> ?thesis"
      then have "sz - 1 \<in> requested [] b sz" using decimal_nonneg[OF assms(1)] by (auto simp: r)
      then show False using e by simp
    qed
  qed (auto simp: r)
qed

lemma requested_from:
  assumes "a \<noteq> []" "list_all is_digit a" "list_all is_digit b"
  shows "requested a b sz = {} \<longleftrightarrow> \<not> in_range a \<or> decimal_value 0 a \<ge> sz \<or>
    b \<noteq> [] \<and> (\<not> in_range b \<or> decimal_value 0 b < decimal_value 0 a)" (is "_ \<longleftrightarrow> ?R")
proof
  assume e: "requested a b sz = {}"
  have z: "in_range []" by (simp add: in_range_def max_int64_def)
  show ?R
  proof (rule ccontr)
    assume "\<not> ?R"
    then have "decimal_value 0 a \<in> requested a b sz"
      using decimal_nonneg[OF assms(2)] assms(1) z by (auto simp: requested_def)
    then show False using e by simp
  qed
next
  assume ?R
  then show "requested a b sz = {}" using assms(1) by (auto simp: requested_def)
qed

lemma downloadRange_request:
  assumes "range_request v a b" "0 \<le> sz"
  shows "downloadRange v sz = range_interval a b sz"
proof -
  obtain u where u: "cut (CHR ''='') v = (u, a @ CHR ''-'' # b, True)" "cut (CHR ''-'') (a @ CHR ''-'' # b) = (a, b, True)"
    "is_bytes_unit u" "is_bytes_unit (TrimSpace u)" "CHR '','' \<notin> set (a @ CHR ''-'' # b)" "v \<noteq> []"
    using assms(1) by (rule range_parts)
  have r: "length v \<le> 128" "list_all is_digit a" "list_all is_digit b" "a \<noteq> [] \<or> b \<noteq> []"
    using assms(1) by (auto simp: range_request_def)
  note base = u(1,2,3,4,5,6) r(1)
  show ?thesis
  proof (cases "a = []")
    case True
    then have b: "b \<noteq> []" using r(4) by simp
    have "sz \<le> 0 \<Longrightarrow> requested [] b sz = {}" using requested_suffix[OF r(3) assms(2)] by simp
    then show ?thesis using base True b requested_suffix[OF r(3) assms(2)] range_decimal_digits[OF b] r(3)
      by (auto simp: downloadRange_def range_interval_def Let_def)
  next
    case False
    have z: "sz \<le> 0 \<Longrightarrow> requested a b sz = {}" by (auto simp: requested_def)
    show ?thesis
    proof (cases "b = []")
      case True
      then show ?thesis using base False z requested_from[OF False r(2,3)] range_decimal_digits[OF False] r(2)
        by (auto simp: downloadRange_def range_interval_def Let_def)
    next
      case b: False
      then show ?thesis
        using base False z requested_from[OF False r(2,3)] range_decimal_digits[OF False] range_decimal_digits[OF b] r(2,3)
        by (auto simp: downloadRange_def range_interval_def Let_def)
    qed
  qed
qed

lemma interval_bytes:
  assumes "range_request v a b" "range_interval a b sz = (st, len, 206)"
  shows "{st ..< st + len} = requested a b sz \<and> requested a b sz \<noteq> {}"
proof -
  have r: "list_all is_digit a" "list_all is_digit b" "a \<noteq> [] \<or> b \<noteq> []"
    using assms(1) by (auto simp: range_request_def)
  have ne: "requested a b sz \<noteq> {}" using assms(2) by (auto simp: range_interval_def split: if_splits)
  have z: "in_range []" by (simp add: in_range_def max_int64_def)
  have n: "0 \<le> decimal_value 0 a" "0 \<le> decimal_value 0 b" using decimal_nonneg r(1,2) by auto
  from ne obtain i where i: "0 \<le> i" "i < sz" "in_range a" "in_range b" by (auto simp: requested_def)
  show ?thesis
  proof (cases "a = []")
    case True
    then have "st = max 0 (sz - decimal_value 0 b)" "len = min sz (decimal_value 0 b)"
      using assms(2) ne by (auto simp: range_interval_def)
    then show ?thesis using True i n ne by (auto simp: requested_def)
  next
    case False
    then have "st = decimal_value 0 a"
        "len = (if b = [] then sz - 1 else min (decimal_value 0 b) (sz - 1)) - decimal_value 0 a + 1"
      using assms(2) ne by (auto simp: range_interval_def Let_def split: if_splits)
    then show ?thesis using False i n ne by (auto simp: requested_def split: if_splits)
  qed
qed

lemma downloadRange_partial:
  assumes "downloadRange v sz = (st, len, 206)"
  shows "\<exists>a b. range_request v a b"
proof -
  obtain u spec found where c: "cut (CHR ''='') v = (u, spec, found)" by (metis prod_cases3)
  obtain a b ok where d: "cut (CHR ''-'') spec = (a, b, ok)" by (metis prod_cases3)
  have f: "found" "is_bytes_unit (TrimSpace u)" "is_bytes_unit u" "length v \<le> 128" "ok" "a \<noteq> [] \<or> b \<noteq> []"
    using assms by (auto simp: downloadRange_def c d split: if_splits bool.splits)
  have "(a = [] \<longrightarrow> range_decimal b \<noteq> None) \<and> (a \<noteq> [] \<longrightarrow> range_decimal a \<noteq> None \<and> (b \<noteq> [] \<longrightarrow> range_decimal b \<noteq> None))"
    using assms f by (auto simp: downloadRange_def c d Let_def split: if_splits bool.splits option.splits)
  then have "list_all is_digit a" "list_all is_digit b"
    using f(6) by (auto simp: range_decimal_def split: if_splits)
  moreover have "v = u @ CHR ''='' # a @ CHR ''-'' # b" using c d f(1,5) cut_found by (metis (full_types))
  ultimately show ?thesis using f unfolding range_request_def by blast
qed

lemma downloadRange_whole:
  "downloadRange v sz = (st, len, status) \<Longrightarrow> status \<noteq> 206 \<Longrightarrow> st = 0 \<and> len = sz \<and> status \<in> {200, 416}"
  by (auto simp: downloadRange_def Let_def split: if_splits bool.splits option.splits prod.splits)

text \<open>C40: the range a download answers with is exactly the set of bytes the request asks for. For a file
  whose size is a 64-bit integer: the answer is partial (206) exactly when the header is one well-formed
  \<open>bytes\<close> range that selects at least one byte of the file, and then the interval holds precisely the
  selected bytes, so it is non-empty and inside the file; in every other case the interval is the whole
  file and the status 200 or 416.\<close>

theorem download_range_exact:
  assumes "0 \<le> sz" "sz \<le> max_int64" "downloadRange v sz = (st, len, status)"
  shows "(status = 206 \<longleftrightarrow> (\<exists>a b. range_request v a b \<and> requested a b sz \<noteq> {})) \<and>
    (\<forall>a b. range_request v a b \<and> requested a b sz \<noteq> {} \<longrightarrow>
       {st ..< st + len} = requested a b sz \<and> 0 \<le> st \<and> 0 < len \<and> st + len \<le> sz) \<and>
    (status \<noteq> 206 \<longrightarrow> st = 0 \<and> len = sz \<and> status \<in> {200, 416})"
proof (intro conjI allI impI)
  show "status = 206 \<longleftrightarrow> (\<exists>a b. range_request v a b \<and> requested a b sz \<noteq> {})"
  proof
    assume s: "status = 206"
    then obtain a b where r: "range_request v a b" using downloadRange_partial assms(3) by blast
    then have "range_interval a b sz = (st, len, 206)" using downloadRange_request[OF r assms(1)] assms(3) s by simp
    then show "\<exists>a b. range_request v a b \<and> requested a b sz \<noteq> {}" using interval_bytes[OF r] r by blast
  next
    assume "\<exists>a b. range_request v a b \<and> requested a b sz \<noteq> {}"
    then obtain a b where r: "range_request v a b" "requested a b sz \<noteq> {}" by blast
    then show "status = 206" using downloadRange_request[OF r(1) assms(1)] assms(3)
      by (auto simp: range_interval_def Let_def split: if_splits)
  qed
next
  fix a b assume r: "range_request v a b \<and> requested a b sz \<noteq> {}"
  then have "range_interval a b sz = (st, len, 206)" using downloadRange_request[of v a b sz] assms(1,3)
    by (auto simp: range_interval_def Let_def split: if_splits)
  then have e: "{st ..< st + len} = requested a b sz" using interval_bytes r by blast
  then show "{st ..< st + len} = requested a b sz" .
  have sub: "requested a b sz \<subseteq> {0 ..< sz}" by (auto simp: requested_def)
  have len: "0 < len" using e r by auto
  then show "0 < len" .
  have "st \<in> {st ..< st + len}" "st + len - 1 \<in> {st ..< st + len}" using len by auto
  then show "0 \<le> st" "st + len \<le> sz" using e sub by auto
qed (use downloadRange_whole[OF assms(3)] in auto)

theorem download_range_exact_witness:
  "downloadRange ''Bytes=-2'' 10 = (8, 2, 206) \<and> (\<exists>a b. range_request ''Bytes=-2'' a b \<and> requested a b 10 \<noteq> {})"
proof -
  have "TrimSpace ''Bytes'' = ''Bytes''"
    by (simp add: TrimSpace_def white_space_def has_prefix_def has_suffix_def)
  moreover have "is_bytes_unit ''Bytes''" by code_simp
  moreover have "range_decimal ''2'' = Some 2" by code_simp
  ultimately have v: "downloadRange ''Bytes=-2'' 10 = (8, 2, 206)" by (simp add: downloadRange_def)
  have "(10 :: int) \<le> max_int64" by (simp add: max_int64_def)
  from download_range_exact[OF _ this v] show ?thesis using v by simp
qed

section \<open>Lists of entity tags\<close>

text \<open>A tag is a weak marker and an opaque part; a list of them is written with commas.\<close>

definition quoted :: "string \<Rightarrow> string" where
  "quoted op = CHR 0x22 # op @ [CHR 0x22]"

definition tag_text :: "bool \<times> string \<Rightarrow> string" where
  "tag_text t = (if fst t then ''W/'' else []) @ quoted (snd t)"

fun print_tags :: "(bool \<times> string) list \<Rightarrow> string" where
  "print_tags [] = []"
| "print_tags [t] = tag_text t"
| "print_tags (t # ts) = tag_text t @ '', '' @ print_tags ts"

definition tag_ok :: "bool \<times> string \<Rightarrow> bool" where
  "tag_ok t \<longleftrightarrow> list_all (\<lambda>c. 33 \<le> (of_char c :: nat) \<and> of_char c \<noteq> (127 :: nat) \<and> c \<noteq> CHR 0x22) (snd t)"

definition tag_hit :: "string \<Rightarrow> bool \<Rightarrow> bool \<times> string \<Rightarrow> bool" where
  "tag_hit cur weak t \<longleftrightarrow> (weak \<or> \<not> fst t) \<and> quoted (snd t) = cur"

lemma scan_tag_quoted:
  "list_all (\<lambda>c. 33 \<le> (of_char c :: nat) \<and> of_char c \<noteq> (127 :: nat) \<and> c \<noteq> CHR 0x22) op
   \<Longrightarrow> scan_tag (op @ CHR 0x22 # rest) = Some (op, rest)"
  by (induction op) auto

lemma etag_step:
  assumes "tag_ok t"
  shows "etag_loop (Suc left) cur weak m (tag_text t @ rest) =
    (let v = trim_left_blank rest in
     if v \<noteq> [] \<and> hd v \<noteq> CHR '','' then (False, False)
     else etag_loop left cur weak (m \<or> tag_hit cur weak t) (trim_left_blank (tl v)))"
  using scan_tag_quoted[OF assms[unfolded tag_ok_def]]
  by (cases t) (auto simp: tag_text_def quoted_def has_prefix_def tag_hit_def Let_def)

lemma trim_tag: "trim_left_blank (tag_text t @ rest) = tag_text t @ rest"
  by (simp add: trim_left_blank_def tag_text_def quoted_def is_blank_def)

lemma trim_print: "ts \<noteq> [] \<Longrightarrow> trim_left_blank (print_tags ts @ rest) = print_tags ts @ rest"
  by (cases ts rule: print_tags.cases) (auto simp: trim_tag)

lemma trim_comma: "trim_left_blank (CHR '','' # cs) = CHR '','' # cs" "trim_left_blank (CHR '' '' # cs) = trim_left_blank cs"
  by (simp_all add: trim_left_blank_def is_blank_def)

lemma etag_list:
  assumes "ts \<noteq> []" "list_all tag_ok ts" "rest = [] \<or> \<not> is_blank (hd rest) \<and> hd rest \<noteq> CHR '',''"
  shows "etag_loop left cur weak m (print_tags ts @ rest) =
    (if length ts \<le> left \<and> rest = [] then (m \<or> list_ex (tag_hit cur weak) ts, True) else (False, False))"
  using assms(1,2)
proof (induction ts arbitrary: left m rule: print_tags.induct)
  case (2 t)
  have "etag_loop 0 cur weak m (tag_text t @ rest) = (False, False)" by (simp add: tag_text_def quoted_def)
  moreover have "trim_left_blank rest = rest" using assms(3) by (cases rest) (auto simp: trim_left_blank_def)
  ultimately show ?case using 2 etag_step[of t _ cur weak m rest] assms(3)
    by (cases left) (auto simp: Let_def trim_left_blank_def)
next
  case (3 t u ts)
  have z: "etag_loop 0 cur weak m (tag_text t @ x) = (False, False)" for x by (simp add: tag_text_def quoted_def)
  show ?case
  proof (cases left)
    case 0
    then show ?thesis using z by simp
  next
    case (Suc l)
    have "etag_loop left cur weak m (print_tags (t # u # ts) @ rest) =
        etag_loop l cur weak (m \<or> tag_hit cur weak t) (print_tags (u # ts) @ rest)"
      using 3(3) by (simp add: Suc etag_step trim_comma trim_print)
    then show ?thesis using 3(1)[of l "m \<or> tag_hit cur weak t"] 3(3) by (auto simp: Suc)
  qed
qed simp

lemma print_ends: "ts \<noteq> [] \<Longrightarrow> \<exists>p. print_tags ts = p @ [CHR 0x22]"
proof (induction ts rule: print_tags.induct)
  case (3 t u ts)
  then obtain p where "print_tags (u # ts) = p @ [CHR 0x22]" by auto
  then show ?case by simp
qed (auto simp: tag_text_def quoted_def)

lemma trim_printed:
  assumes "ts \<noteq> []" "rest = [] \<or> \<not> is_blank (List.last rest)"
  shows "trim_blank (print_tags ts @ rest) = print_tags ts @ rest"
proof -
  obtain p where p: "print_tags ts = p @ [CHR 0x22]" using print_ends[OF assms(1)] by auto
  have l: "\<exists>q c. print_tags ts @ rest = q @ [c] \<and> \<not> is_blank c"
  proof (cases rest rule: rev_cases)
    case Nil
    then show ?thesis using p by (auto simp: is_blank_def)
  next
    case (snoc r c)
    then show ?thesis using assms(2) by auto
  qed
  have "dropWhile is_blank (print_tags ts @ rest) = print_tags ts @ rest"
    using trim_print[OF assms(1), of rest] by (simp add: trim_left_blank_def)
  moreover obtain q c where "print_tags ts @ rest = q @ [c]" "\<not> is_blank c" using l by blast
  ultimately show ?thesis by (simp only: trim_blank_def trim_chars_def) simp
qed

lemma print_not_star: "ts \<noteq> [] \<Longrightarrow> print_tags ts @ rest \<noteq> ''*''"
  by (cases ts rule: print_tags.cases) (auto simp: tag_text_def quoted_def)

text \<open>\<open>If-Match\<close> and \<open>If-None-Match\<close> compare against the whole list. A header line that writes a list of
  1 to 64 entity tags within 4096 bytes is valid, and it matches exactly when one of its tags equals the
  current one, where a weak tag counts only under weak comparison. A matching tag in front never hides a
  bad end: with more than 64 tags, or with text after the list that is neither blank nor a comma, the
  line is invalid and reports no match.\<close>

lemma etags_list:
  assumes "ts \<noteq> []" "list_all tag_ok ts" "length (print_tags ts @ rest) \<le> 4096"
    "rest = [] \<or> \<not> is_blank (hd rest) \<and> hd rest \<noteq> CHR '','' \<and> \<not> is_blank (List.last rest)"
  shows "downloadETags [print_tags ts @ rest] cur weak =
    (if length ts \<le> 64 \<and> rest = [] then (\<exists>t \<in> set ts. (weak \<or> \<not> fst t) \<and> quoted (snd t) = cur, True)
     else (False, False))"
proof -
  have t: "trim_blank (print_tags ts @ rest) = print_tags ts @ rest" using trim_printed assms(1,4) by blast
  have "rest = [] \<or> \<not> is_blank (hd rest) \<and> hd rest \<noteq> CHR '',''" using assms(4) by blast
  from etag_list[OF assms(1,2) this, of 64 cur weak False] show ?thesis
    using assms(3) t print_not_star[OF assms(1), of rest]
    by (auto simp: downloadETags_def Let_def list_ex_iff tag_hit_def)
qed

lemma etags_list_example:
  "downloadETags [''W/'' @ quoted ''a'' @ '', '' @ quoted ''b''] (quoted ''b'') False = (True, True)"
proof -
  let ?ts = "[(True, ''a''), (False, ''b'')]"
  have "list_all tag_ok ?ts" by (simp add: tag_ok_def)
  moreover have "length (print_tags ?ts @ []) \<le> 4096" by (simp add: tag_text_def quoted_def)
  ultimately show ?thesis using etags_list[of ?ts "[]" "quoted ''b''" False] by (simp add: tag_text_def)
qed

end
