(* ===== verification/Spec2Isabelle.thy ===== *)
theory Spec2Isabelle
  imports App_Lifecycle Migration_Detect Migration_Plan Async_Guarantees Async_Workflow_Guarantees
    Async_Progress Async_Schedule_Guarantees Db_Atomicity Db_Routing_Guarantees Orm_Execute
    Security_Signing Security_Csrf Url_Reverse Pagination File_Download
begin

text \<open>
  A verification of the core of gogo, a Go web framework with applications, models, migrations,
  transactions, database routing, signed tokens, URL routing and a durable task queue with schedules.

  \<^bold>\<open>Parts of the program and how they interact.\<close> A process registers its applications and models
  (\<open>core/app\<close>, \<open>core/models\<close>), opens its resources in dependency order and closes them in reverse.
  \<open>core/migrations\<close> compares the models with the state that recorded migrations describe, orders the
  changes and applies or reverses migrations against a history table. \<open>core/db\<close> gives every component its
  transactions. \<open>async\<close> is the task queue: a producer prepares an envelope, the store under \<open>async/redis\<close>
  keeps one record per task and one graph per workflow, changed only by compare-and-set scripts, and
  every change stages its follow-up work as intents in an outbox beside it; a beat leases periodic schedules
  and commits their occurrences as such intents. \<open>core/orm\<close> deletes a row together with what refers to it;
  \<open>core/db\<close> also routes statements to primaries and replicas. A request is checked by \<open>core/security\<close>, dispatched by
  \<open>core/urls\<close>, and bounded by \<open>core/pagination\<close> and \<open>core/files\<close> in what it may ask for.

  \<^bold>\<open>Theories and sources.\<close>
  \<^item> \<open>Go_Prelude\<close>: Go strings, instants, durations, errors as sums, integer parsing; lemmas shared by all.
  \<^item> \<open>Dependency_Visit\<close>: the locale \<open>dependency_visit\<close>, the contract of a depth-first visit with three
    colours; \<open>App\<close> interprets it as \<open>av\<close>, \<open>Migration_Plan\<close> as \<open>pv\<close>.
  \<^item> \<open>App\<close> (\<open>core/app/app.go\<close>): registry, \<open>TopologicalOrder\<close>, \<open>Prepare\<close>. C1, C2.
  \<^item> \<open>App_Lifecycle\<close> (\<open>core/app/lifecycle.go\<close>, \<open>status.go\<close>): \<open>Start\<close>, \<open>Close\<close> and the cleanup goroutine
    as interleaved atomic actions of a step relation. C5, C7.
  \<^item> \<open>Sha256\<close>: the digest that identifiers, checksums and names use, executable.
  \<^item> \<open>Models_Schema\<close> (\<open>core/models\<close>): descriptors, \<open>Validate\<close>, \<open>ImplicitThrough\<close>, the registry and its
    \<open>Freeze\<close>, which leaves no dangling relation (\<open>models_Freeze_closed\<close>).
  \<^item> \<open>Migration_State\<close>, \<open>Migration_Order\<close>, \<open>Migration_Detect\<close>, \<open>Migration_Plan\<close> (\<open>core/migrations\<close>): the
    operations and their effect on schemas, the ordering of detected operations, \<open>Detect\<close>, and \<open>Plan\<close>,
    \<open>Apply\<close>, \<open>Reverse\<close> over the history. C10 to C14.
  \<^item> \<open>Async_Protocol\<close>, \<open>Async_Record\<close> (\<open>async/protocol.go\<close>, \<open>ports.go\<close>, \<open>state.go\<close>): wire data, identifiers,
    and the pure transitions of a task record. C15.
  \<^item> \<open>Optimistic_Loop\<close>: the locale \<open>optimistic_store\<close>, any number of clients that read, compute and commit
    with compare-and-set. \<open>Async_Results\<close> interprets it as \<open>rs\<close> on the task store, \<open>Async_Workflows\<close> as
    \<open>ws\<close> on the workflow store.
  \<^item> \<open>Async_Outbox\<close>, \<open>Async_Store\<close>, \<open>Async_Results\<close>, \<open>Async_Guarantees\<close> (\<open>async/redis/results.go\<close>): the
    scripts, the attempts of every operation, their laws and the guarantees for all interleavings. C16 to C19.
  \<^item> \<open>Async_Client\<close> (\<open>async/client.go\<close>, \<open>links.go\<close>, \<open>task.go\<close>): preparing and confining a dispatch. C20.
  \<^item> \<open>Async_Canvas\<close>, \<open>Async_Nested\<close>, \<open>Async_Workflows\<close>, \<open>Async_Workflow_Guarantees\<close> (\<open>async/canvas*.go\<close>,
    \<open>nested.go\<close>, \<open>async/redis/workflows.go\<close>): advancing chains, groups, chords and nested graphs, and the
    durable store around it. C21 to C24.
  \<^item> \<open>Async_Compile\<close>, \<open>Async_Progress\<close> (\<open>async/canvas.go\<close>, \<open>nested.go\<close>): composing canvases, compiling them to
    plans and \<open>ApplyCanvas\<close>; what every state of a started workflow keeps, until it is over. C3, C4.
  \<^item> \<open>Db_Transactions\<close>, \<open>Db_Atomicity\<close> (\<open>core/db/transactions.go\<close>): \<open>Atomic\<close>, savepoints and after-commit
    callbacks against an abstract reading of SQL savepoints. C30, C31.
  \<^item> \<open>Db_Routing\<close>, \<open>Db_Routing_Guarantees\<close> (\<open>core/db/routing*.go\<close>): building a router, resolving requests,
    admitting statements, consistency contexts and routed transactions; every order of these as a step
    relation. C32, C33.
  \<^item> \<open>Orm_Delete\<close>, \<open>Orm_Execute\<close> (\<open>core/orm/delete.go\<close>): collecting what a deletion reaches through the
    relations of the registry, and executing the plan in one transaction. C6, C8, C9.
  \<^item> \<open>Go_Calendar\<close>, \<open>Async_Cron\<close>, \<open>Async_Beat\<close> (\<open>async/beat.go\<close>): the calendar, crontab expressions and the next
    occurrence of a rule, and the occurrences a beat commits for a leased schedule. C27 to C29.
  \<^item> \<open>Async_Schedules\<close>, \<open>Async_Schedule_Guarantees\<close> (\<open>async/redis/periodic.go\<close>, \<open>schedules.go\<close>): the scripts and
    operations of the schedule store, and beats, administrators and relays around it as a step relation.
    C25, C26.
  \<^item> \<open>Base64_Url\<close>, \<open>Security_Signing\<close>, \<open>Security_Csrf\<close> (\<open>core/security\<close>, \<open>core/pagination/cursor.go\<close>): tokens and
    their keys, the cursors of lists, and the check against forged requests. C34 to C36.
  \<^item> \<open>Urls\<close>, \<open>Url_Reverse\<close> (\<open>core/urls\<close>): building a router of paths, resolving, dispatching and reversing.
    C37 to C39.
  \<^item> \<open>Pagination\<close> (\<open>core/pagination/offset.go\<close>): bounded pages (\<open>page_bounds\<close>) and their links (\<open>page_links\<close>).
  \<^item> \<open>File_Download\<close> (\<open>core/files/download_range.go\<close>): entity tags, preconditions and byte ranges. C40.

  \<^bold>\<open>How state and operations correspond.\<close> A struct is a \<open>record\<close> with the fields the modelled code reads,
  an enumeration a \<open>datatype\<close>, a map a partial function or, where Go code fixes an iteration order, an
  association list in that order. \<open>uint64\<close> revisions and fences are \<open>64 word\<close>; where an \<open>int\<close> can wrap the
  wrap is written out. An error return is \<open>Inl\<close> or an error component; a panic is a result of its own. A
  mutex-protected section is one atomic step. A Lua script is one function on the store, since Redis runs
  it atomically; a Go operation that reads, computes and calls a script is a client of \<open>Optimistic_Loop\<close>
  whose reads and commits interleave with every other client.

  \<^bold>\<open>What the lemmas show.\<close> Orders: the results of the visits and of Kahn's algorithm are permutations that
  respect every dependency, and they succeed exactly when one exists. Invariants: schemas, histories, task
  rows, outboxes, graphs and transaction chains stay well formed under every operation, errors included.
  Monotonicity: records and graphs only evolve forward under any interleaving. Safety: leases exclude each
  other, deletions need intent, tasks are published once and only when their inputs succeeded, callbacks
  run only for work that was committed, a deletion leaves no reference to a deleted row, an occurrence of a
  schedule is enqueued once, a request reads its own writes, forged requests and foreign cursors are refused.
  Round trips: signed values verify, reversed paths resolve. Totality: nested turns reach their fixed point, ordering is
  complete on acyclic input, shutdown makes progress, a nested workflow is over or waits for a task whose
  completion moves it.

  \<^bold>\<open>Bounds and fuel.\<close> Loops are recursive functions with termination proofs. A nested graph runs at most
  \<open>Suc (length plan)\<close> turns, as the code does, and that is proved enough. Links nest at most 17 levels and a
  commit loop makes the code's own number of attempts (16 or 64). Trimming white space takes the length of
  the string as fuel, since every step removes a byte; collecting a deletion recurses at most one level deeper
  than its maximum number of objects, and never runs out of levels (\<open>collect_fuel\<close>); an entity tag list has the code's own bound of 64. The beat's
  catch-up loop counts down the limit of the schedule, and the search for an occurrence ends after five years, as in the code.

  \<^bold>\<open>Parameters.\<close> What is not code of the repository is an argument: JSON encoding (\<open>codec\<close>), path patterns
  (\<open>cc_match\<close>), random identifiers, the clock, the database and the schema editor, the encoding of query
  strings, date parsing, the time zone database, regular expressions, URL and form parsing, random bytes,
  routing rules and backends, application callbacks. Theorems that need a property of one name it as a
  hypothesis, and their witnesses instantiate it. Time is an integer number of nanoseconds with one clock
  per commit; Redis expiry of rows after their retention is not represented.

  \<^bold>\<open>Not modelled.\<close> Code whose meaning is I/O, reflection or generated text: HTTP serving, templates, forms,
  the administration site, mail, drivers and SQL text. Of the modelled parts: replacing a
  running task by a canvas, the relay loops that deliver intents, the broker, the worker pool, executing a
  migration's SQL, queries and saving of the ORM, the streaming of a download, \<open>Beat.Run\<close> and the listing of
  schedules. Retry delays are computed in floating point and are left out for that reason. The SQL compiler,
  accounts and permissions, sessions and signals are code of their own that could be modelled next.
\<close>

end
